(* ===== verification/Prelude.thy ===== *)
theory Prelude
  imports Complex_Main
begin

text \<open>
  Shared vocabulary of the development: the Go types the daemon uses everywhere (instants and
  durations in nanoseconds, IPv4 addresses with the invalid zero value of \<open>netip.Addr\<close>), the
  collections of simplification facts the component theories fill, and generic lemmas on lists.

  An instant is the number of nanoseconds since the Unix epoch and a duration a number of
  nanoseconds. Go keeps a duration in an \<open>int64\<close> (292 years); every duration the code builds is
  far below that bound, so both are \<^typ>\<open>int\<close>. Go integers that count things the program bounds
  (hops, buffer sizes, attempts) are \<^typ>\<open>nat\<close>; integers that come from outside are \<^typ>\<open>int\<close>.
\<close>

named_theorems ring_facts \<open>index arithmetic of circular buffers\<close>
named_theorems inv_facts \<open>preservation of component invariants\<close>
named_theorems view_facts \<open>abstraction functions applied to operations\<close>

section \<open>Go time\<close>

type_synonym instant = int
type_synonym duration = int

definition go_ms :: duration where "go_ms = 1000000"
definition go_second :: duration where "go_second = 1000 * go_ms"
definition go_minute :: duration where "go_minute = 60 * go_second"
definition go_hour :: duration where "go_hour = 60 * go_minute"

lemmas go_units = go_ms_def go_second_def go_minute_def go_hour_def

text \<open>\<open>time.Time.UnixMilli\<close> rounds towards the past; \<open>time.UnixMilli\<close> is its inverse on whole
  milliseconds.\<close>

definition unix_milli :: "instant \<Rightarrow> int" where
  "unix_milli t = t div go_ms"

definition of_unix_milli :: "int \<Rightarrow> instant" where
  "of_unix_milli ms = ms * go_ms"

lemma unix_milli_of_unix_milli [simp]: "unix_milli (of_unix_milli ms) = ms"
  by (simp add: unix_milli_def of_unix_milli_def go_ms_def)

lemma unix_milli_mono: "s \<le> t \<Longrightarrow> unix_milli s \<le> unix_milli t"
  by (simp add: unix_milli_def go_ms_def zdiv_mono1)

lemma of_unix_milli_le: "of_unix_milli (unix_milli t) \<le> t"
  by (simp add: unix_milli_def of_unix_milli_def go_ms_def)

lemma of_unix_milli_gt: "t < of_unix_milli (unix_milli t) + go_ms"
  by (simp add: unix_milli_def of_unix_milli_def go_ms_def)

text \<open>The zero \<open>time.Time\<close> is midnight of January 1 of year 1, UTC.\<close>

definition zero_time :: instant where
  "zero_time = - 62135596800 * go_second"

section \<open>Addresses\<close>

text \<open>
  \<open>netip.Addr\<close>: the zero value is not a valid address and stands for an anonymous hop. The
  engine only ever handles IPv4 (\<open>Prober.Probe\<close> refuses any other target and \<open>ipFromPeer\<close>
  converts every peer with \<open>To4\<close>), so a valid address is a 32-bit number.
\<close>

datatype addr = NoAddr | V4 nat

fun addr_valid :: "addr \<Rightarrow> bool" where
  "addr_valid NoAddr = False"
| "addr_valid (V4 _) = True"

lemma addr_valid_iff: "addr_valid a \<longleftrightarrow> a \<noteq> NoAddr"
  by (cases a) auto

text \<open>\<open>netip.Addr.String\<close> and the decimal digits it uses.\<close>

fun nat_dec :: "nat \<Rightarrow> string" where
  "nat_dec n = (if n < 10 then [char_of (48 + n)] else nat_dec (n div 10) @ [char_of (48 + n mod 10)])"

lemma nat_dec_not_Nil [simp]: "nat_dec n \<noteq> []"
  by (subst nat_dec.simps) simp

declare nat_dec.simps [simp del]

fun addr_string :: "addr \<Rightarrow> string" where
  "addr_string NoAddr = ''invalid IP''"
| "addr_string (V4 n) = nat_dec (n div 16777216 mod 256) @ ''.'' @ nat_dec (n div 65536 mod 256)
     @ ''.'' @ nat_dec (n div 256 mod 256) @ ''.'' @ nat_dec (n mod 256)"

text \<open>Integer division of Go truncates towards zero.\<close>

definition go_quot :: "int \<Rightarrow> int \<Rightarrow> int" where
  "go_quot a b = sgn a * sgn b * (\<bar>a\<bar> div \<bar>b\<bar>)"

text \<open>An \<open>int64\<close> computed from a mathematical integer.\<close>

definition wrap64 :: "int \<Rightarrow> int" where
  "wrap64 x = (x + 2 ^ 63) mod 2 ^ 64 - 2 ^ 63"

lemma wrap64_id: "- (2 ^ 63) \<le> x \<Longrightarrow> x < 2 ^ 63 \<Longrightarrow> wrap64 x = x"
  by (simp add: wrap64_def)

section \<open>Lists\<close>

lemma take_Cons_le: "length xs \<le> n \<Longrightarrow> take n (x # xs) = x # take (n - 1) xs \<or> n = 0"
  by (cases n) auto

lemma take_take_Cons: "take n (x # take n xs) = take n (x # xs)"
  by (cases n) (auto simp: min_def)

lemma take_append_take: "take n (ys @ take n xs) = take n (ys @ xs)"
  by (simp add: min_def take_Cons')

lemma length_filter_lt: "x \<in> set xs \<Longrightarrow> \<not> P x \<Longrightarrow> length (filter P xs) < length xs"
  by (induction xs) (auto simp: less_Suc_eq_le)

lemma length_filter_mono:
  "(\<And>x. x \<in> set xs \<Longrightarrow> P x \<Longrightarrow> Q x) \<Longrightarrow> length (filter P xs) \<le> length (filter Q xs)"
  by (induction xs) (auto simp: le_SucI)

lemma takeWhile_take_length:
  "length (takeWhile P (take n xs)) = min n (length (takeWhile P xs))"
  by (induction xs arbitrary: n) (auto simp: take_Cons split: nat.splits)

lemma takeWhile_same:
  "takeWhile (\<lambda>x. x = a) xs = replicate (length (takeWhile (\<lambda>x. x = a) xs)) a"
  by (induction xs) auto

lemma takeWhile_take_le: "length (takeWhile P (take n xs)) \<le> length (takeWhile P xs)"
  by (simp add: takeWhile_take_length)

end
