(* ===== verification/Loss.thy ===== *)
theory Loss
  imports Prelude
begin

text \<open>
  \<open>internal/analysis/loss.go\<close>: which hop's packet loss is genuine. The code computes on
  \<open>float64\<close>. A finite float is a rational number, and one arithmetic operation on floats is the
  exact operation followed by rounding, so the model computes on \<^typ>\<open>rat\<close> and takes the rounding
  function as an argument \<open>rnd\<close> wherever the code subtracts. What the proofs use of it is IEEE
  754's: rounding is monotone and leaves a representable number alone. The losses themselves are
  quotients of counters, never infinite and never NaN.
\<close>

record hop_loss =
  hl_TTL :: nat
  hl_Loss :: rat

record attributed_loss =
  al_TTL :: nat
  al_Loss :: rat
  al_Suspect :: bool

definition default_loss_tolerance :: rat where
  "default_loss_tolerance = 5"

text \<open>The inner loop over the downstream hops, with its early exit.\<close>

fun loss_persists :: "(rat \<Rightarrow> rat) \<Rightarrow> rat \<Rightarrow> rat \<Rightarrow> hop_loss list \<Rightarrow> bool" where
  "loss_persists rnd tolerance loss [] = True"
| "loss_persists rnd tolerance loss (d # ds) =
     (if hl_Loss d < rnd (loss - tolerance) then False else loss_persists rnd tolerance loss ds)"

fun attribute_loss :: "(rat \<Rightarrow> rat) \<Rightarrow> rat \<Rightarrow> hop_loss list \<Rightarrow> attributed_loss list" where
  "attribute_loss rnd tolerance [] = []"
| "attribute_loss rnd tolerance (h # hs) =
     (let suspect = hl_Loss h > 0;
          suspect = (if suspect then loss_persists rnd tolerance (hl_Loss h) hs else suspect)
      in \<lparr>al_TTL = hl_TTL h, al_Loss = hl_Loss h, al_Suspect = suspect\<rparr>
           # attribute_loss rnd tolerance hs)"

lemma loss_persists_all:
  "loss_persists rnd tol l ds \<longleftrightarrow> list_all (\<lambda>d. rnd (l - tol) \<le> hl_Loss d) ds"
  by (induction ds) (auto simp: not_less)

lemma length_attribute_loss [simp]: "length (attribute_loss rnd tol w) = length w"
  by (induction w) (auto simp: Let_def)

lemma attribute_loss_nth:
  "i < length w \<Longrightarrow> attribute_loss rnd tol w ! i =
     \<lparr>al_TTL = hl_TTL (w ! i), al_Loss = hl_Loss (w ! i),
      al_Suspect = (hl_Loss (w ! i) > 0 \<and>
        list_all (\<lambda>d. rnd (hl_Loss (w ! i) - tol) \<le> hl_Loss d) (drop (Suc i) w))\<rparr>"
  by (induction w arbitrary: i)
     (auto simp: Let_def loss_persists_all nth_Cons split: nat.splits)

lemma attribute_loss_suspect:
  assumes "i < length w"
  shows "al_Suspect (attribute_loss rnd tol w ! i) \<longleftrightarrow> hl_Loss (w ! i) > 0 \<and>
    (\<forall>j. i < j \<and> j < length w \<longrightarrow> rnd (hl_Loss (w ! i) - tol) \<le> hl_Loss (w ! j))"
    (is "_ \<longleftrightarrow> _ \<and> ?all")
proof -
  have "list_all (\<lambda>d. rnd (hl_Loss (w ! i) - tol) \<le> hl_Loss d) (drop (Suc i) w) \<longleftrightarrow> ?all"
  proof
    assume *: "list_all (\<lambda>d. rnd (hl_Loss (w ! i) - tol) \<le> hl_Loss d) (drop (Suc i) w)"
    show ?all
    proof (intro allI impI)
      fix j
      assume j: "i < j \<and> j < length w"
      then have "w ! j \<in> set (drop (Suc i) w)"
        by (auto simp: in_set_conv_nth intro!: exI [of _ "j - Suc i"])
      with * show "rnd (hl_Loss (w ! i) - tol) \<le> hl_Loss (w ! j)"
        by (auto simp: list_all_iff)
    qed
  next
    assume ?all
    then show "list_all (\<lambda>d. rnd (hl_Loss (w ! i) - tol) \<le> hl_Loss d) (drop (Suc i) w)"
      by (auto simp: list_all_iff in_set_conv_nth)
  qed
  then show ?thesis using assms by (simp add: attribute_loss_nth)
qed

text \<open>
  \<open>AttributedLoss\<close> reports every hop with its own TTL and unchanged loss, in order, and marks
  hop \<open>i\<close> suspect exactly when it lost something and every hop past it lost at least as much up to
  the tolerance. So the target (the last hop) is suspect exactly when it shows loss; on a path
  whose loss never decreases every hop that shows loss is suspect; and a hop is cleared as soon as
  one later hop answers everything although the loss exceeds the tolerance.
\<close>

theorem attributed_loss_rule:
  fixes rnd :: "rat \<Rightarrow> rat"
  assumes mono: "mono rnd" and exact: "\<And>h. h \<in> set w \<Longrightarrow> rnd (hl_Loss h) = hl_Loss h"
    and tol: "0 \<le> tol" and i: "i < length w"
  shows "map al_TTL (attribute_loss rnd tol w) = map hl_TTL w
    \<and> map al_Loss (attribute_loss rnd tol w) = map hl_Loss w
    \<and> (al_Suspect (attribute_loss rnd tol w ! i) \<longleftrightarrow> hl_Loss (w ! i) > 0 \<and>
         (\<forall>j. i < j \<and> j < length w \<longrightarrow> rnd (hl_Loss (w ! i) - tol) \<le> hl_Loss (w ! j)))
    \<and> (Suc i = length w \<or> sorted (map hl_Loss w) \<longrightarrow>
         (al_Suspect (attribute_loss rnd tol w ! i) \<longleftrightarrow> hl_Loss (w ! i) > 0))
    \<and> (\<forall>j. i < j \<and> j < length w \<and> hl_Loss (w ! j) = 0 \<and> 0 < rnd (hl_Loss (w ! i) - tol) \<longrightarrow>
         \<not> al_Suspect (attribute_loss rnd tol w ! i))"
proof -
  have "rnd (hl_Loss (w ! i) - tol) \<le> hl_Loss (w ! i)"
    using monoD [OF mono, of "hl_Loss (w ! i) - tol" "hl_Loss (w ! i)"] exact [of "w ! i"] tol i
    by simp
  moreover have "hl_Loss (w ! i) \<le> hl_Loss (w ! j)"
    if "sorted (map hl_Loss w)" "i < j" "j < length w" for j
    using sorted_nth_mono [OF that(1), of i j] that i by simp
  ultimately have persists: "rnd (hl_Loss (w ! i) - tol) \<le> hl_Loss (w ! j)"
    if "sorted (map hl_Loss w)" "i < j" "j < length w" for j
    using that by (meson order_trans)
  have "map al_TTL (attribute_loss rnd tol w) = map hl_TTL w"
    and "map al_Loss (attribute_loss rnd tol w) = map hl_Loss w"
    by (induction w) (auto simp: Let_def)
  with persists i show ?thesis
    by (auto simp: attribute_loss_suspect [OF i])
qed

theorem attributed_loss_rule_witness:
  "let w = [\<lparr>hl_TTL = 1, hl_Loss = 0\<rparr>, \<lparr>hl_TTL = 2, hl_Loss = 40\<rparr>, \<lparr>hl_TTL = 3, hl_Loss = 0\<rparr>,
            \<lparr>hl_TTL = 4, hl_Loss = 10\<rparr>]
   in \<not> al_Suspect (attribute_loss id default_loss_tolerance w ! 1)
      \<and> al_Suspect (attribute_loss id default_loss_tolerance w ! 3)"
proof -
  define w where "w = [\<lparr>hl_TTL = 1, hl_Loss = 0\<rparr>, \<lparr>hl_TTL = 2, hl_Loss = 40\<rparr>,
    \<lparr>hl_TTL = 3, hl_Loss = 0\<rparr>, \<lparr>hl_TTL = 4, hl_Loss = 10::rat\<rparr>]"
  have "\<not> al_Suspect (attribute_loss id default_loss_tolerance w ! 1)"
  proof -
    have "1 < (2::nat) \<and> 2 < length w \<and> hl_Loss (w ! 2) = 0
        \<and> 0 < id (hl_Loss (w ! 1) - default_loss_tolerance)"
      by (simp add: w_def default_loss_tolerance_def)
    then show ?thesis
      using attributed_loss_rule [of id w default_loss_tolerance 1]
      by (auto simp: mono_def w_def default_loss_tolerance_def)
  qed
  moreover have "al_Suspect (attribute_loss id default_loss_tolerance w ! 3)"
    using attributed_loss_rule [of id w default_loss_tolerance 3]
    by (auto simp: mono_def w_def default_loss_tolerance_def)
  ultimately show ?thesis by (simp add: w_def Let_def)
qed

end
