(* ===== verification/ProbeEvents.thy ===== *)
theory ProbeEvents
  imports Prelude
begin

text \<open>
  \<open>internal/probe/events.go\<close> and the reply classification of \<open>internal/probe/icmp.go\<close>: the values
  that flow from the probe loops through the reducer to the sinks.
\<close>

datatype reply_type = ReplyNone | ReplyEchoReply | ReplyTimeExceeded | ReplyDestUnreachable

record probe_result =
  pr_Target :: addr
  pr_TTL :: nat
  pr_Ts :: instant
  pr_RespIP :: addr
  pr_RTT :: duration
  pr_Reply :: reply_type
  pr_TimedOut :: bool

text \<open>The zero \<open>ProbeResult{}\<close>: the slot of a sweep in which no probe completed.\<close>

definition zero_probe_result :: probe_result where
  "zero_probe_result = \<lparr>pr_Target = NoAddr, pr_TTL = 0, pr_Ts = zero_time, pr_RespIP = NoAddr,
     pr_RTT = 0, pr_Reply = ReplyNone, pr_TimedOut = False\<rparr>"

record sweep_result =
  sw_Target :: addr
  sw_Ts :: instant
  sw_Results :: "probe_result list"
  sw_TerminalTTL :: nat

record sample =
  s_Target :: addr
  s_TargetID :: string
  s_TTL :: nat
  s_Ts :: instant
  s_IP :: addr
  s_RTT :: duration

record route_change =
  rc_Target :: addr
  rc_TargetID :: string
  rc_TTL :: nat
  rc_Ts :: instant
  rc_OldIP :: addr
  rc_NewIP :: addr

text \<open>
  The \<open>Sink\<close> interface between the reducer and whatever stores its output. Both writers of the
  program (the batched SQLite sink of the central and the HTTP sink of a remote probe) queue what
  they are given and report no error; \<open>samples_of\<close> and \<open>changes_of\<close> are the queued events in the
  order of writing, \<open>keeps\<close> says that the sink still has room for that many samples.
\<close>

locale probe_sink =
  fixes write_sample :: "sample \<Rightarrow> 's \<Rightarrow> string option \<times> 's"
    and write_route_change :: "route_change \<Rightarrow> 's \<Rightarrow> string option \<times> 's"
    and samples_of :: "'s \<Rightarrow> sample list"
    and changes_of :: "'s \<Rightarrow> route_change list"
    and keeps :: "nat \<Rightarrow> 's \<Rightarrow> bool"
  assumes write_sample_ok: "fst (write_sample x k) = None"
    and write_change_ok: "fst (write_route_change c k) = None"
    and samples_write_sample: "keeps (Suc n) k \<Longrightarrow>
      samples_of (snd (write_sample x k)) = samples_of k @ [x] \<and> keeps n (snd (write_sample x k))"
    and changes_write_sample: "changes_of (snd (write_sample x k)) = changes_of k"
    and samples_write_change: "samples_of (snd (write_route_change c k)) = samples_of k"
    and changes_write_change: "changes_of (snd (write_route_change c k)) = changes_of k @ [c]"
    and keeps_write_change: "keeps n k \<Longrightarrow> keeps n (snd (write_route_change c k))"

end
