(* ===== verification/Icmp.thy ===== *)
theory Icmp
  imports ProbeEvents "HOL-Library.Word"
begin

text \<open>
  \<open>internal/probe/icmp.go\<close>: matching ICMP replies to the probes in flight. Sequence numbers and
  the identifier are \<open>uint16\<close> and wrap. The parser of \<open>golang.org/x/net/icmp\<close> is not modelled: a
  parsed message is one of the three bodies \<open>classifyReply\<close> looks at, or another one. Receiving,
  giving up, delivering and closing are steps of concurrent goroutines, so the part of the
  \<open>Prober\<close> under the mutex is a state with a step relation; a channel is an address in a store of
  one-element buffers, because \<open>deliver\<close> keeps using a channel after it has released the mutex.
\<close>

unbundle bit_operations_syntax

type_synonym seqno = "16 word"
type_synonym chan = nat

record icmp_result =
  ir_RespIP :: addr
  ir_Type :: reply_type

section \<open>Classifying replies\<close>

datatype icmp_body =
    EchoBody int int
  | TimeExceededBody "8 word list"
  | DstUnreachBody "8 word list"
  | OtherBody

datatype icmp_type = TypeEchoReply | TypeOther

text \<open>\<open>binary.BigEndian.Uint16\<close>.\<close>

definition be16 :: "8 word \<Rightarrow> 8 word \<Rightarrow> 16 word" where
  "be16 b0 b1 = ucast b1 OR push_bit 8 (ucast b0)"

definition parse_inner_echo :: "8 word list \<Rightarrow> (16 word \<times> 16 word) option" where
  "parse_inner_echo data =
     (if length data < 20 then None
      else let ihl = unat (data ! 0 AND 0x0f) * 4
      in if ihl < 20 \<or> length data < ihl + 8 then None
         else let icmpHdr = drop ihl data
         in if icmpHdr ! 0 \<noteq> 8 then None
            else Some (be16 (icmpHdr ! 4) (icmpHdr ! 5), be16 (icmpHdr ! 6) (icmpHdr ! 7)))"

definition classify_reply :: "icmp_type \<Rightarrow> icmp_body \<Rightarrow> 16 word \<Rightarrow> (seqno \<times> reply_type) option" where
  "classify_reply ty body ourID =
     (case body of
        EchoBody ident sq \<Rightarrow>
          if ty = TypeEchoReply \<and> ident = uint ourID then Some (word_of_int sq, ReplyEchoReply)
          else None
      | TimeExceededBody data \<Rightarrow>
          (case parse_inner_echo data of
             None \<Rightarrow> None
           | Some (ident, sq) \<Rightarrow> if ident = ourID then Some (sq, ReplyTimeExceeded) else None)
      | DstUnreachBody data \<Rightarrow>
          (case parse_inner_echo data of
             None \<Rightarrow> None
           | Some (ident, sq) \<Rightarrow> if ident = ourID then Some (sq, ReplyDestUnreachable) else None)
      | OtherBody \<Rightarrow> None)"

definition hi8 :: "16 word \<Rightarrow> 8 word" where "hi8 w = ucast (drop_bit 8 w)"
definition lo8 :: "16 word \<Rightarrow> 8 word" where "lo8 w = ucast w"

lemma be16_hi_lo [simp]: "be16 (hi8 w) (lo8 w) = w"
  unfolding be16_def hi8_def lo8_def
  by (rule bit_word_eqI) (auto simp: bit_or_iff bit_push_bit_iff bit_ucast_iff bit_drop_bit_eq)

lemma hi_lo_be16 [simp]: "hi8 (be16 a b) = a" "lo8 (be16 a b) = b"
  unfolding be16_def hi8_def lo8_def
  by (rule bit_word_eqI, auto simp: bit_or_iff bit_push_bit_iff bit_ucast_iff bit_drop_bit_eq
      dest: bit_imp_le_length)+

text \<open>The packet a router quotes: an IPv4 header of the announced length, the eight bytes of the
  echo request's ICMP header, then whatever else the router sends along.\<close>

definition quoted_echo :: "8 word list \<Rightarrow> 8 word list \<Rightarrow> 16 word \<Rightarrow> 16 word \<Rightarrow> 8 word list \<Rightarrow> 8 word list" where
  "quoted_echo hdr code_checksum ident sq rest =
     hdr @ [8] @ code_checksum @ [hi8 ident, lo8 ident, hi8 sq, lo8 sq] @ rest"

lemma list_3: "length xs = 3 \<longleftrightarrow> (\<exists>a b c. xs = [a, b, c])"
  by (auto simp: numeral_3_eq_3 length_Suc_conv)

lemma eight_plus:
  assumes "8 \<le> length (xs :: 'a list)"
  obtains a b c d e f g h ys where "xs = a # b # c # d # e # f # g # h # ys"
  using assms that by (auto simp: eval_nat_numeral Suc_le_length_iff)

lemma parse_inner_echo_iff:
  "parse_inner_echo data = Some (ident, sq) \<longleftrightarrow>
     (\<exists>hdr cc rest. data = quoted_echo hdr cc ident sq rest \<and> length cc = 3
        \<and> 20 \<le> length hdr \<and> length hdr = 4 * unat (hdr ! 0 AND 0x0f))"
    (is "?parsed \<longleftrightarrow> ?quoted")
proof
  assume p: ?parsed
  let ?n = "unat (data ! 0 AND 0x0f) * 4"
  have n: "20 \<le> ?n" "?n + 8 \<le> length data"
    and s: "drop ?n data ! 0 = 8" "ident = be16 (drop ?n data ! 4) (drop ?n data ! 5)"
      "sq = be16 (drop ?n data ! 6) (drop ?n data ! 7)"
    using p by (auto simp: parse_inner_echo_def Let_def split: if_splits)
  have "8 \<le> length (drop ?n data)" using n by simp
  then obtain a b c d e f g h ys where ys: "drop ?n data = a # b # c # d # e # f # g # h # ys"
    by (rule eight_plus)
  have "data = take ?n data @ drop ?n data" by simp
  also have "\<dots> = quoted_echo (take ?n data) [b, c, d] ident sq ys"
    using s by (simp add: ys quoted_echo_def)
  finally show ?quoted
    using n by (intro exI [of _ "take ?n data"] exI [of _ "[b, c, d]"] exI [of _ ys]) auto
next
  assume ?quoted
  then obtain hdr cc rest where q: "data = quoted_echo hdr cc ident sq rest" "length cc = 3"
      "20 \<le> length hdr" "length hdr = 4 * unat (hdr ! 0 AND 0x0f)" by blast
  then obtain a b c where cc: "cc = [a, b, c]" by (auto simp: list_3)
  have "data ! 0 = hdr ! 0" using q by (auto simp: quoted_echo_def nth_append)
  then have ihl: "unat (data ! 0 AND 0x0f) * 4 = length hdr" using q by simp
  show ?parsed
    using q unfolding parse_inner_echo_def Let_def ihl by (simp add: quoted_echo_def cc)
qed

text \<open>
  C14: the identifier and sequence number \<open>parseInnerEcho\<close> reads back are exactly those of a quoted
  echo request: a time-exceeded or unreachable message is attributed to sequence number \<open>s\<close> of this
  prober if and only if its payload is an IPv4 header whose length field is right and at least 20
  bytes, followed by the first eight bytes of an echo request with this prober's identifier and
  \<open>s\<close>; an echo reply if and only if it carries the identifier.
\<close>

theorem reply_attribution_exact:
  "classify_reply ty body ourID = Some (s, k) \<longleftrightarrow>
     (case body of
        EchoBody ident sq \<Rightarrow> ty = TypeEchoReply \<and> ident = uint ourID \<and> s = word_of_int sq
          \<and> k = ReplyEchoReply
      | TimeExceededBody data \<Rightarrow> k = ReplyTimeExceeded \<and>
          (\<exists>hdr cc rest. data = quoted_echo hdr cc ourID s rest \<and> length cc = 3
             \<and> 20 \<le> length hdr \<and> length hdr = 4 * unat (hdr ! 0 AND 0x0f))
      | DstUnreachBody data \<Rightarrow> k = ReplyDestUnreachable \<and>
          (\<exists>hdr cc rest. data = quoted_echo hdr cc ourID s rest \<and> length cc = 3
             \<and> 20 \<le> length hdr \<and> length hdr = 4 * unat (hdr ! 0 AND 0x0f))
      | OtherBody \<Rightarrow> False)"
  unfolding parse_inner_echo_iff [symmetric]
  by (auto simp: classify_reply_def split: icmp_body.splits option.splits if_splits)

section \<open>Sequence numbers\<close>

record prober =
  pb_id :: "16 word"
  pb_nextSeq :: seqno
  pb_pending :: "seqno \<rightharpoonup> chan"
  pb_closed :: bool

datatype register_error = ProberClosed | AllPending

text \<open>The search loop, with the number of iterations left; \<open>ch\<close> is the address of the channel
  \<open>make\<close> returns. \<open>nextSeq\<close> is advanced on every iteration, also when the search fails.\<close>

fun register_loop :: "nat \<Rightarrow> chan \<Rightarrow> prober \<Rightarrow> (register_error + seqno) \<times> prober" where
  "register_loop 0 ch p = (Inl AllPending, p)"
| "register_loop (Suc n) ch p =
     (let sq = pb_nextSeq p; p = p\<lparr>pb_nextSeq := sq + 1\<rparr>
      in case pb_pending p sq of
           None \<Rightarrow> (Inr sq, p\<lparr>pb_pending := (pb_pending p)(sq \<mapsto> ch)\<rparr>)
         | Some _ \<Rightarrow> register_loop n ch p)"

definition register :: "chan \<Rightarrow> prober \<Rightarrow> (register_error + seqno) \<times> prober" where
  "register ch p = (if pb_closed p then (Inl ProberClosed, p) else register_loop 65536 ch p)"

definition unregister :: "seqno \<Rightarrow> prober \<Rightarrow> prober" where
  "unregister sq p = p\<lparr>pb_pending := (pb_pending p)(sq := None)\<rparr>"

definition close_prober :: "prober \<Rightarrow> prober" where
  "close_prober p = (if pb_closed p then p else p\<lparr>pb_closed := True\<rparr>)"

lemma register_loop_busy:
  "fst (register_loop n ch p) = Inl e \<Longrightarrow> e = AllPending \<and>
     (\<forall>k < n. pb_pending p (pb_nextSeq p + of_nat k) \<noteq> None)"
proof (induction n arbitrary: p)
  case 0
  then show ?case by simp
next
  case (Suc n)
  then obtain c where c: "pb_pending p (pb_nextSeq p) = Some c"
    and r: "fst (register_loop n ch (p\<lparr>pb_nextSeq := pb_nextSeq p + 1\<rparr>)) = Inl e"
    by (auto simp: Let_def split: option.splits)
  have "pb_pending p (pb_nextSeq p + of_nat k) \<noteq> None" if "k < Suc n" for k
    using Suc.IH [OF r] c that by (cases k) (auto simp: algebra_simps)
  with Suc.IH [OF r] show ?case by blast
qed

lemma register_loop_ok:
  "register_loop n ch p = (Inr s, p') \<Longrightarrow>
     \<exists>k < n. s = pb_nextSeq p + of_nat k \<and> pb_pending p s = None
       \<and> (\<forall>j < k. pb_pending p (pb_nextSeq p + of_nat j) \<noteq> None)
       \<and> p' = p\<lparr>pb_nextSeq := s + 1, pb_pending := (pb_pending p)(s \<mapsto> ch)\<rparr>"
proof (induction n arbitrary: p)
  case 0
  then show ?case by simp
next
  case (Suc n)
  show ?case
  proof (cases "pb_pending p (pb_nextSeq p)")
    case None
    with Suc.prems show ?thesis by (intro exI [of _ 0]) (auto simp: Let_def fun_upd_def)
  next
    case (Some c)
    with Suc.prems have "register_loop n ch (p\<lparr>pb_nextSeq := pb_nextSeq p + 1\<rparr>) = (Inr s, p')"
      by (simp add: Let_def)
    from Suc.IH [OF this] obtain k where k: "k < n" "s = pb_nextSeq p + 1 + of_nat k"
        "pb_pending p s = None" "\<forall>j < k. pb_pending p (pb_nextSeq p + 1 + of_nat j) \<noteq> None"
        "p' = p\<lparr>pb_nextSeq := s + 1, pb_pending := (pb_pending p)(s \<mapsto> ch)\<rparr>"
      by (auto simp: fun_upd_def)
    have "pb_pending p (pb_nextSeq p + of_nat j) \<noteq> None" if "j < Suc k" for j
      using k(4) Some that by (cases j) (auto simp: algebra_simps)
    then show ?thesis using k Some by (intro exI [of _ "Suc k"]) (auto simp: algebra_simps fun_upd_def)
  qed
qed

lemma seqno_reachable: "\<exists>k < 65536. (s :: seqno) = t + of_nat k"
proof (intro exI conjI)
  show "unat (s - t) < 65536" using unsigned_less [of "s - t"] by simp
  show "s = t + of_nat (unat (s - t))" by simp
qed

text \<open>
  registering a probe fails on a closed prober and when all 65536 sequence numbers are in
  flight, and in no other case. Otherwise the sequence number handed out is in no flight, it is the
  first free one counting up from the counter (which wraps), the channel is filed under it, no
  other entry changes, and the counter moves on to the number after it.
\<close>

theorem register_finds_free_seq:
  "case register ch p of
     (Inl ProberClosed, p') \<Rightarrow> pb_closed p \<and> p' = p
   | (Inl AllPending, p') \<Rightarrow> \<not> pb_closed p \<and> (\<forall>s. pb_pending p s \<noteq> None)
   | (Inr s, p') \<Rightarrow> \<not> pb_closed p \<and> pb_pending p s = None
       \<and> (\<exists>k < 65536. s = pb_nextSeq p + of_nat k
            \<and> (\<forall>j < k. pb_pending p (pb_nextSeq p + of_nat j) \<noteq> None))
       \<and> p' = p\<lparr>pb_nextSeq := s + 1, pb_pending := (pb_pending p)(s \<mapsto> ch)\<rparr>"
proof (cases "pb_closed p")
  case True
  then show ?thesis by (simp add: register_def)
next
  case False
  obtain r p' where r: "register_loop 65536 ch p = (r, p')" by fastforce
  show ?thesis
  proof (cases r)
    case (Inl e)
    with r have b: "e = AllPending" "\<forall>k < 65536. pb_pending p (pb_nextSeq p + of_nat k) \<noteq> None"
      using register_loop_busy [of 65536 ch p e] by auto
    have "pb_pending p s \<noteq> None" for s
      using b(2) seqno_reachable [of s "pb_nextSeq p"] by blast
    with False r Inl b(1) show ?thesis by (simp add: register_def)
  next
    case (Inr s)
    with r have "\<exists>k < 65536. s = pb_nextSeq p + of_nat k \<and> pb_pending p s = None
       \<and> (\<forall>j < k. pb_pending p (pb_nextSeq p + of_nat j) \<noteq> None)
       \<and> p' = p\<lparr>pb_nextSeq := s + 1, pb_pending := (pb_pending p)(s \<mapsto> ch)\<rparr>"
      using register_loop_ok [of 65536 ch p s p'] by blast
    with False r Inr show ?thesis unfolding register_def by auto
  qed
qed


theorem register_finds_free_seq_witness:
  "let p = \<lparr>pb_id = 7, pb_nextSeq = 65535, pb_pending = [65535 \<mapsto> 4], pb_closed = False\<rparr>
   in \<exists>s p'. register 9 p = (Inr s, p') \<and> pb_pending p s = None \<and> s = 0
        \<and> p' = p\<lparr>pb_nextSeq := s + 1, pb_pending := (pb_pending p)(s \<mapsto> 9)\<rparr>"
proof -
  let ?p = "\<lparr>pb_id = 7, pb_nextSeq = 65535, pb_pending = [65535 \<mapsto> 4], pb_closed = False\<rparr>"
  have wrap: "(65536 :: seqno) = 0" by (simp flip: word_exp_length_eq_0 [where 'a = 16])
  have "fst (register 9 ?p) = Inr 0"
    using register_loop.simps(2) [of 65535 9 ?p]
      register_loop.simps(2) [of 65534 9 "?p\<lparr>pb_nextSeq := 0\<rparr>"]
    by (simp add: register_def Let_def wrap)
  then obtain p' where "register 9 ?p = (Inr 0, p')" by (cases "register 9 ?p") simp
  then show ?thesis using register_finds_free_seq [where ch = 9 and p = ?p] by (auto simp: Let_def)
qed

section \<open>Probes in flight\<close>

text \<open>
  The goroutines around the mutex. A call of \<open>Probe\<close> holds its sequence number and channel from
  \<open>register\<close> to the deferred \<open>unregister\<close>; it waits, then leaves with the reply in its channel or
  empty-handed (timeout, cancelled context, or an error before or while sending). \<open>readLoop\<close> looks
  a reply's channel up under the mutex and offers the reply to it afterwards, so every other step
  can fall in between.
\<close>

datatype call_phase = Waiting | Leaving

record prober_sys =
  sy_prober :: prober
  sy_bufs :: "chan \<Rightarrow> icmp_result option"
  sy_next :: chan
  sy_calls :: "(seqno \<times> chan \<times> call_phase) set"
  sy_reader :: "(seqno \<times> icmp_result \<times> chan) option"

datatype prober_event =
    Registered seqno chan
  | Refused register_error
  | Received seqno chan icmp_result
  | GaveUp seqno chan
  | Unregistered seqno chan
  | Arrived seqno icmp_result
  | Offered
  | Closed

definition new_sys :: "16 word \<Rightarrow> prober_sys" where
  "new_sys ident =
     \<lparr>sy_prober = \<lparr>pb_id = ident, pb_nextSeq = 0, pb_pending = (\<lambda>_. None), pb_closed = False\<rparr>,
      sy_bufs = (\<lambda>_. None), sy_next = 0, sy_calls = {}, sy_reader = None\<rparr>"

text \<open>The two halves of \<open>deliver\<close>: the lookup under the mutex, the non-blocking send after it.\<close>

definition deliver_lookup :: "seqno \<Rightarrow> icmp_result \<Rightarrow> prober \<Rightarrow> (seqno \<times> icmp_result \<times> chan) option" where
  "deliver_lookup s r p = (case pb_pending p s of None \<Rightarrow> None | Some c \<Rightarrow> Some (s, r, c))"

definition deliver_offer :: "icmp_result \<Rightarrow> chan \<Rightarrow> (chan \<Rightarrow> icmp_result option)
    \<Rightarrow> (chan \<Rightarrow> icmp_result option)" where
  "deliver_offer r c bufs = (case bufs c of None \<Rightarrow> bufs(c := Some r) | Some _ \<Rightarrow> bufs)"

inductive prober_step :: "prober_sys \<Rightarrow> prober_event \<Rightarrow> prober_sys \<Rightarrow> bool" where
  register_ok: "register (sy_next y) (sy_prober y) = (Inr s, p) \<Longrightarrow>
    prober_step y (Registered s (sy_next y))
      (y\<lparr>sy_prober := p, sy_next := Suc (sy_next y), sy_bufs := (sy_bufs y)(sy_next y := None),
         sy_calls := insert (s, sy_next y, Waiting) (sy_calls y)\<rparr>)"
| register_err: "register (sy_next y) (sy_prober y) = (Inl e, p) \<Longrightarrow>
    prober_step y (Refused e) (y\<lparr>sy_prober := p\<rparr>)"
| receive: "(s, c, Waiting) \<in> sy_calls y \<Longrightarrow> sy_bufs y c = Some r \<Longrightarrow>
    prober_step y (Received s c r)
      (y\<lparr>sy_bufs := (sy_bufs y)(c := None),
         sy_calls := insert (s, c, Leaving) (sy_calls y - {(s, c, Waiting)})\<rparr>)"
| give_up: "(s, c, Waiting) \<in> sy_calls y \<Longrightarrow>
    prober_step y (GaveUp s c)
      (y\<lparr>sy_calls := insert (s, c, Leaving) (sy_calls y - {(s, c, Waiting)})\<rparr>)"
| unregister_call: "(s, c, Leaving) \<in> sy_calls y \<Longrightarrow>
    prober_step y (Unregistered s c)
      (y\<lparr>sy_prober := unregister s (sy_prober y), sy_calls := sy_calls y - {(s, c, Leaving)}\<rparr>)"
| arrive: "sy_reader y = None \<Longrightarrow>
    prober_step y (Arrived s r) (y\<lparr>sy_reader := deliver_lookup s r (sy_prober y)\<rparr>)"
| offer: "sy_reader y = Some (s, r, c) \<Longrightarrow>
    prober_step y Offered (y\<lparr>sy_bufs := deliver_offer r c (sy_bufs y), sy_reader := None\<rparr>)"
| close: "prober_step y Closed (y\<lparr>sy_prober := close_prober (sy_prober y)\<rparr>)"

inductive prober_run :: "16 word \<Rightarrow> prober_event list \<Rightarrow> prober_sys \<Rightarrow> bool" for ident where
  start: "prober_run ident [] (new_sys ident)"
| step: "prober_run ident tr y \<Longrightarrow> prober_step y e y' \<Longrightarrow> prober_run ident (tr @ [e]) y'"

inductive_cases received_step: "prober_step y (Received s c r) y'"

definition justified :: "prober_event list \<Rightarrow> seqno \<Rightarrow> chan \<Rightarrow> icmp_result \<Rightarrow> bool" where
  "justified tr s c r \<longleftrightarrow> (\<exists>a b d. tr = a @ Registered s c # b @ Arrived s r # d
     \<and> Unregistered s c \<notin> set b)"

lemma justified_snoc: "justified tr s c r \<Longrightarrow> justified (tr @ [e]) s c r"
  unfolding justified_def by (metis append.assoc append_Cons)

lemma justified_registered: "justified tr s c r \<Longrightarrow> Registered s c \<in> set tr"
  by (auto simp: justified_def)

lemma justified_arrival:
  assumes "Registered s c \<in> set tr" "Unregistered s c \<notin> set tr"
  shows "justified (tr @ [Arrived s r]) s c r"
proof -
  obtain a b where "tr = a @ Registered s c # b" using assms(1) by (meson split_list)
  then show ?thesis using assms(2) unfolding justified_def
    by (intro exI [of _ a] exI [of _ b] exI [of _ "[]"]) auto
qed

definition owned :: "prober_event list \<Rightarrow> chan \<Rightarrow> icmp_result \<Rightarrow> bool" where
  "owned tr c r \<longleftrightarrow> (\<exists>s. justified tr s c r)"

lemma owned_snoc: "owned tr c r \<Longrightarrow> owned (tr @ [e]) c r"
  by (auto simp: owned_def intro: justified_snoc)

lemma justified_owned: "justified tr s c r \<Longrightarrow> owned tr c r"
  by (auto simp: owned_def)

lemmas justified_intros = justified_snoc owned_snoc justified_arrival justified_owned

text \<open>
  The invariant: every pending entry belongs to exactly one call, channels are never reused, and
  whatever the reader holds or a channel contains arrived for that channel's own number while its
  call was registered.
\<close>

definition flight_ok :: "prober_event list \<Rightarrow> prober_sys \<Rightarrow> bool" where
  "flight_ok tr y \<longleftrightarrow>
     (\<forall>s c. pb_pending (sy_prober y) s = Some c \<longrightarrow>
        Registered s c \<in> set tr \<and> Unregistered s c \<notin> set tr) \<and>
     (\<forall>s c ph. (s, c, ph) \<in> sy_calls y \<longrightarrow> pb_pending (sy_prober y) s = Some c) \<and>
     (\<forall>s c. \<not> ((s, c, Waiting) \<in> sy_calls y \<and> (s, c, Leaving) \<in> sy_calls y)) \<and>
     (\<forall>s c. Registered s c \<in> set tr \<or> Unregistered s c \<in> set tr \<longrightarrow> c < sy_next y) \<and>
     (\<forall>s s' c. Registered s c \<in> set tr \<longrightarrow> Registered s' c \<in> set tr \<longrightarrow> s = s') \<and>
     (\<forall>s r c. sy_reader y = Some (s, r, c) \<longrightarrow> justified tr s c r) \<and>
     (\<forall>c r. sy_bufs y c = Some r \<longrightarrow> owned tr c r) \<and>
     (\<forall>s c r. Received s c r \<in> set tr \<longrightarrow> Registered s c \<in> set tr \<and> (s, c, Waiting) \<notin> sy_calls y)"


lemma register_ok_pending:
  "register ch p = (Inr s, p') \<Longrightarrow>
     pb_pending p s = None \<and> pb_pending p' = (pb_pending p)(s \<mapsto> ch)"
  by (auto simp: register_def dest!: register_loop_ok split: if_splits)

lemma register_err_pending:
  "register ch p = (Inl e, p') \<Longrightarrow> pb_pending p' = pb_pending p"
proof -
  have "register_loop n ch q = (Inl e, q') \<Longrightarrow> pb_pending q' = pb_pending q" for n q q'
    by (induction n arbitrary: q) (auto simp: Let_def split: option.splits)
  then show "register ch p = (Inl e, p') \<Longrightarrow> pb_pending p' = pb_pending p"
    by (auto simp: register_def split: if_splits)
qed

lemma close_pending [simp]: "pb_pending (close_prober p) = pb_pending p"
  by (simp add: close_prober_def)

lemma unregister_pending [simp]: "pb_pending (unregister s p) = (pb_pending p)(s := None)"
  by (simp add: unregister_def)

lemma flight_ok_step [inv_facts]:
  assumes ok: "flight_ok tr y" and st: "prober_step y e y'"
  shows "flight_ok (tr @ [e]) y'"
  using st
proof (cases rule: prober_step.cases)
  case (register_ok s p)
  note new = register_ok_pending [OF register_ok(3)]
  have free: "(s, c, ph) \<notin> sy_calls y" for c ph
    using ok new unfolding flight_ok_def by fastforce
  have fresh: "Registered s' (sy_next y) \<notin> set tr" "Unregistered s' (sy_next y) \<notin> set tr" for s'
    using ok unfolding flight_ok_def by (meson less_irrefl)+
  have unread: "Received s' (sy_next y) r \<notin> set tr" for s' r
    using ok fresh unfolding flight_ok_def by metis
  show ?thesis
    using register_ok ok new free fresh unread unfolding flight_ok_def
    by (auto intro: justified_intros simp: less_Suc_eq simp del: all_simps)
next
  case (register_err er p)
  then show ?thesis
    using ok register_err_pending [OF register_err(3)] unfolding flight_ok_def
    by (auto intro: justified_intros simp del: all_simps)
next
  case (receive s c r)
  then show ?thesis
    using ok unfolding flight_ok_def by (auto intro: justified_intros simp del: all_simps)
next
  case (give_up s c)
  then show ?thesis
    using ok unfolding flight_ok_def by (auto intro: justified_intros simp del: all_simps)
next
  case (unregister_call s c)
  have own: "pb_pending (sy_prober y) s = Some c" and one: "(s, c, Waiting) \<notin> sy_calls y"
    using ok unregister_call(3) unfolding flight_ok_def by blast+
  have same: "c' = c \<and> ph = Leaving" if "(s, c', ph) \<in> sy_calls y" for c' ph
  proof -
    have "c' = c" using ok own that unfolding flight_ok_def by (metis option.inject)
    then show ?thesis using that one by (cases ph) auto
  qed
  have low: "c < sy_next y" using ok own unfolding flight_ok_def by blast
  show ?thesis
    using unregister_call ok low unfolding flight_ok_def
    by (auto intro: justified_intros dest: same simp del: all_simps)
next
  case (arrive s r)
  then show ?thesis
    using ok unfolding flight_ok_def
    by (auto intro: justified_intros simp: deliver_lookup_def split: option.splits simp del: all_simps)
next
  case (offer s r c)
  then show ?thesis
    using ok unfolding flight_ok_def
    by (auto intro: justified_intros simp: deliver_offer_def split: option.splits if_splits simp del: all_simps)
next
  case close
  then show ?thesis
    using ok unfolding flight_ok_def by (auto intro: justified_intros simp del: all_simps)
qed

lemma flight_ok_run: "prober_run ident tr y \<Longrightarrow> flight_ok tr y"
  by (induction rule: prober_run.induct)
    (auto simp: inv_facts, simp add: flight_ok_def new_sys_def)

lemma received_justified:
  assumes "flight_ok tr y" "prober_step y (Received s c r) y'"
  shows "justified tr s c r \<and> (\<forall>s' r'. Received s' c r' \<notin> set tr)"
proof -
  from assms(2) have w: "(s, c, Waiting) \<in> sy_calls y" "sy_bufs y c = Some r"
    by (auto elim: received_step)
  then have reg: "Registered s c \<in> set tr" using assms(1) unfolding flight_ok_def by meson
  obtain s' where "justified tr s' c r" using w assms(1) unfolding flight_ok_def owned_def by meson
  moreover from this have "s' = s"
    using reg assms(1) justified_registered unfolding flight_ok_def by meson
  moreover have "Received s' c r' \<notin> set tr" for s' r'
    using assms(1) w reg unfolding flight_ok_def by metis
  ultimately show ?thesis by blast
qed

text \<open>
  C15: in every interleaving of probes, replies, timeouts and \<open>Close\<close>, two calls in flight never
  share a sequence number or a channel, and a call of \<open>Probe\<close> that returns a reply returns one
  that arrived for its own sequence number, after it registered and before it unregistered, and
  returns at most one. A reply delivered through a channel that its call has already left is lost
  with the channel and never reaches another probe, even one that has reused the number.
\<close>

theorem replies_reach_their_own_probe:
  assumes "prober_run ident tr y"
  shows "(\<forall>s c ph s' c' ph'. (s, c, ph) \<in> sy_calls y \<longrightarrow> (s', c', ph') \<in> sy_calls y \<longrightarrow>
        (s = s' \<longleftrightarrow> c = c'))
    \<and> (\<forall>tr1 s c r tr2. tr = tr1 @ Received s c r # tr2 \<longrightarrow>
        (\<exists>a b d. tr1 = a @ Registered s c # b @ Arrived s r # d \<and> Unregistered s c \<notin> set b)
        \<and> (\<forall>s' r'. Received s' c r' \<notin> set tr1))"
proof
  have ok: "flight_ok tr y" using assms by (rule flight_ok_run)
  show "\<forall>s c ph s' c' ph'. (s, c, ph) \<in> sy_calls y \<longrightarrow> (s', c', ph') \<in> sy_calls y \<longrightarrow>
        (s = s' \<longleftrightarrow> c = c')"
    using ok unfolding flight_ok_def by (metis option.inject)
  show "\<forall>tr1 s c r tr2. tr = tr1 @ Received s c r # tr2 \<longrightarrow>
        (\<exists>a b d. tr1 = a @ Registered s c # b @ Arrived s r # d \<and> Unregistered s c \<notin> set b)
        \<and> (\<forall>s' r'. Received s' c r' \<notin> set tr1)"
    unfolding justified_def [symmetric] using assms
  proof (induction rule: prober_run.induct)
    case start
    then show ?case by simp
  next
    case (step tr y e y')
    show ?case
    proof (intro allI impI)
      fix tr1 s c r tr2
      assume eq: "tr @ [e] = tr1 @ Received s c r # tr2"
      show "justified tr1 s c r \<and> (\<forall>s' r'. Received s' c r' \<notin> set tr1)"
      proof (cases tr2 rule: rev_cases)
        case Nil
        with eq have "tr1 = tr" "e = Received s c r" by auto
        then show ?thesis using received_justified [OF flight_ok_run [OF step.hyps(1)]] step.hyps(2)
          by blast
      next
        case (snoc ys z)
        with eq have "tr = tr1 @ Received s c r # ys" by auto
        then show ?thesis using step.IH by blast
      qed
    qed
  qed
qed

lemma demo_flight:
  "\<exists>y. prober_run 7 [Registered 0 0, Arrived 0 \<lparr>ir_RespIP = V4 5, ir_Type = ReplyEchoReply\<rparr>,
       Offered, Received 0 0 \<lparr>ir_RespIP = V4 5, ir_Type = ReplyEchoReply\<rparr>] y"
proof -
  let ?r = "\<lparr>ir_RespIP = V4 5, ir_Type = ReplyEchoReply\<rparr>"
  let ?p = "\<lparr>pb_id = 7, pb_nextSeq = 1, pb_pending = [0 \<mapsto> 0], pb_closed = False\<rparr>"
  have reg: "register 0 (sy_prober (new_sys 7)) = (Inr 0, ?p)"
    using register_loop.simps(2) [of 65535 0 "sy_prober (new_sys 7)"]
    by (simp add: register_def new_sys_def Let_def)
  have "prober_run 7 [Registered 0 0] ((new_sys 7)\<lparr>sy_prober := ?p, sy_next := 1,
      sy_calls := {(0, 0, Waiting)}\<rparr>)"
    using prober_run.step [OF prober_run.start prober_step.register_ok, of 7 0 ?p] reg
    by (simp add: new_sys_def fun_upd_def)
  note 1 = this
  note 2 = prober_run.step [OF 1 prober_step.arrive, of 0 ?r]
  have "prober_run 7 [Registered 0 0, Arrived 0 ?r] ((new_sys 7)\<lparr>sy_prober := ?p, sy_next := 1,
      sy_calls := {(0, 0, Waiting)}, sy_reader := Some (0, ?r, 0)\<rparr>)"
    using 2 by (simp add: new_sys_def deliver_lookup_def)
  from prober_run.step [OF this prober_step.offer, of 0 ?r 0]
  have "prober_run 7 [Registered 0 0, Arrived 0 ?r, Offered] ((new_sys 7)\<lparr>sy_prober := ?p,
      sy_next := 1, sy_calls := {(0, 0, Waiting)}, sy_bufs := [0 \<mapsto> ?r]\<rparr>)"
    by (simp add: new_sys_def deliver_offer_def)
  from prober_run.step [OF this prober_step.receive, of 0 0 ?r] show ?thesis by auto
qed

theorem replies_reach_their_own_probe_witness:
  "\<exists>y. prober_run 7 [Registered 0 0, Arrived 0 \<lparr>ir_RespIP = V4 5, ir_Type = ReplyEchoReply\<rparr>,
       Offered, Received 0 0 \<lparr>ir_RespIP = V4 5, ir_Type = ReplyEchoReply\<rparr>] y
     \<and> (\<forall>s c ph s' c' ph'. (s, c, ph) \<in> sy_calls y \<longrightarrow> (s', c', ph') \<in> sy_calls y \<longrightarrow>
        (s = s' \<longleftrightarrow> c = c'))"
proof (rule exE [OF demo_flight], rule exI, rule conjI)
  fix y
  assume y: "prober_run 7 [Registered 0 0, Arrived 0 \<lparr>ir_RespIP = V4 5, ir_Type = ReplyEchoReply\<rparr>,
       Offered, Received 0 0 \<lparr>ir_RespIP = V4 5, ir_Type = ReplyEchoReply\<rparr>] y"
  then show "prober_run 7 [Registered 0 0, Arrived 0 \<lparr>ir_RespIP = V4 5, ir_Type = ReplyEchoReply\<rparr>,
       Offered, Received 0 0 \<lparr>ir_RespIP = V4 5, ir_Type = ReplyEchoReply\<rparr>] y" .
  show "\<forall>s c ph s' c' ph'. (s, c, ph) \<in> sy_calls y \<longrightarrow> (s', c', ph') \<in> sy_calls y \<longrightarrow>
        (s = s' \<longleftrightarrow> c = c')"
    by (rule conjunct1 [OF replies_reach_their_own_probe [OF y]])
qed

end
