(* ===== verification/History.thy ===== *)
theory History
  imports Prelude
begin

text \<open>
  The interface of a bounded history: a container that keeps the most recent entries pushed into
  it and drops the oldest one when it is full. Three components of the daemon have this contract:
  the per-hop ring buffers of the probe engine, the log ring behind the web UI's log viewer and
  the sample queue of the batched storage sink. What their clients need is proved here once.

  \<open>view\<close> is the abstraction: the retained entries, newest first. \<open>stamp\<close> is what the container
  itself writes into an entry as it stores it (nothing for the ring buffer, the sequence number
  for the log ring).
\<close>

locale bounded_history =
  fixes inv :: "'h \<Rightarrow> bool"
    and cap :: "'h \<Rightarrow> nat"
    and view :: "'h \<Rightarrow> 'a list"
    and push :: "'a \<Rightarrow> 'h \<Rightarrow> 'h"
    and stamp :: "'h \<Rightarrow> 'a \<Rightarrow> 'a"
  assumes inv_push: "inv h \<Longrightarrow> inv (push a h)"
    and cap_push: "inv h \<Longrightarrow> cap (push a h) = cap h"
    and view_push: "inv h \<Longrightarrow> view (push a h) = take (cap h) (stamp h a # view h)"
    and view_bound: "inv h \<Longrightarrow> length (view h) \<le> cap h"
begin

lemma inv_pushes: "inv h \<Longrightarrow> inv (fold push xs h)"
  by (induction xs arbitrary: h) (auto simp: inv_push)

lemma cap_pushes: "inv h \<Longrightarrow> cap (fold push xs h) = cap h"
  by (induction xs arbitrary: h) (auto simp: inv_push cap_push)

lemma length_view_push: "inv h \<Longrightarrow> length (view (push a h)) = min (cap h) (Suc (length (view h)))"
  by (simp add: view_push)

lemma length_view_pushes:
  "inv h \<Longrightarrow> length (view (fold push xs h)) = min (cap h) (length xs + length (view h))"
proof (induction xs arbitrary: h)
  case Nil
  then show ?case using view_bound by simp
next
  case (Cons x xs)
  then show ?case by (auto simp: inv_push cap_push length_view_push)
qed

lemma newest_is_pushed: "inv h \<Longrightarrow> 0 < cap h \<Longrightarrow> hd (view (push a h)) = stamp h a"
  by (cases "cap h") (auto simp: view_push)

end

text \<open>A history that stores entries as they are: after any pushes it holds exactly the most
  recent ones.\<close>

locale plain_history = bounded_history +
  assumes stamp_id: "stamp h a = a"
begin

lemma view_pushes: "inv h \<Longrightarrow> view (fold push xs h) = take (cap h) (rev xs @ view h)"
proof (induction xs arbitrary: h)
  case Nil
  then show ?case using view_bound by simp
next
  case (Cons x xs)
  have "view (fold push (x # xs) h) = take (cap h) (rev xs @ take (cap h) (x # view h))"
    using Cons.prems by (simp add: Cons.IH inv_push cap_push view_push stamp_id)
  then show ?case by (simp only: take_append_take) simp
qed

lemma view_pushes_empty: "inv h \<Longrightarrow> view h = [] \<Longrightarrow> view (fold push xs h) = take (cap h) (rev xs)"
  by (simp add: view_pushes)

end

text \<open>A history that numbers what it stores: the retained entries carry consecutive numbers,
  ending just below the next one to be given out.\<close>

locale numbered_history = bounded_history inv cap view push stamp
  for inv :: "'h \<Rightarrow> bool" and cap :: "'h \<Rightarrow> nat" and view :: "'h \<Rightarrow> 'a list"
    and push :: "'a \<Rightarrow> 'h \<Rightarrow> 'h" and stamp :: "'h \<Rightarrow> 'a \<Rightarrow> 'a" +
  fixes num :: "'a \<Rightarrow> int"
    and next_num :: "'h \<Rightarrow> int"
  assumes num_stamp: "num (stamp h a) = next_num h"
    and next_push: "inv h \<Longrightarrow> next_num (push a h) = next_num h + 1"
begin

definition numbered :: "'h \<Rightarrow> bool" where
  "numbered h \<longleftrightarrow> (\<forall>i < length (view h). num (view h ! i) = next_num h - 1 - int i)"

lemma numbered_push: "inv h \<Longrightarrow> numbered h \<Longrightarrow> numbered (push a h)"
  by (auto simp: numbered_def view_push next_push num_stamp nth_Cons split: nat.splits)

lemma numbered_pushes: "inv h \<Longrightarrow> numbered h \<Longrightarrow> numbered (fold push xs h)"
  by (induction xs arbitrary: h) (auto simp: inv_push numbered_push)

lemma next_pushes: "inv h \<Longrightarrow> next_num (fold push xs h) = next_num h + int (length xs)"
  by (induction xs arbitrary: h) (auto simp: inv_push next_push)

end

end
