(* ===== verification/LogRing.thy ===== *)
theory LogRing
  imports History
begin

text \<open>
  \<open>internal/logring/logring.go\<close> and \<open>internal/server/logs.go\<close>: the ring of recent log records and
  the incremental feed of the log viewer. The record's text is kept abstract in three strings. The
  sequence number is an \<open>int64\<close> that starts at 0 and grows by one per record, so it is a natural
  number here; what a client sends is an arbitrary \<open>int64\<close> and arithmetic on it wraps.
\<close>

record log_entry =
  le_Seq :: int
  le_Ts :: int
  le_Level :: string
  le_Msg :: string
  le_Attrs :: string

record log_ring =
  lr_buf :: "log_entry list"
  lr_cap :: nat
  lr_next :: nat

definition new_log_ring :: "int \<Rightarrow> log_ring" where
  "new_log_ring capacity =
     (let capacity = (if capacity < 1 then 1 else capacity)
      in \<lparr>lr_buf = [], lr_cap = nat capacity, lr_next = 0\<rparr>)"

definition log_append :: "log_entry \<Rightarrow> log_ring \<Rightarrow> log_ring" where
  "log_append e r =
     (let e = e\<lparr>le_Seq := int (lr_next r)\<rparr>;
          r' = (if length (lr_buf r) < lr_cap r
                then r\<lparr>lr_buf := lr_buf r @ [e]\<rparr>
                else r\<lparr>lr_buf := (lr_buf r)[lr_next r mod lr_cap r := e]\<rparr>)
      in r'\<lparr>lr_next := lr_next r + 1\<rparr>)"

text \<open>The copying loop runs from \<open>start\<close> to \<open>next - 1\<close>.\<close>

definition log_since :: "int \<Rightarrow> int \<Rightarrow> log_ring \<Rightarrow> log_entry list \<times> int" where
  "log_since afterSeq limit r =
     (let latest = int (lr_next r) - 1
      in if limit < 1 \<or> length (lr_buf r) = 0 then ([], latest)
         else
           let oldest = int (lr_next r) - int (length (lr_buf r));
               start = wrap64 (afterSeq + 1);
               start = (if start < oldest then oldest else start);
               n = int (lr_next r) - start
           in if n \<le> 0 then ([], latest)
              else
                let start = (if n > limit then int (lr_next r) - limit else start)
                in (map (\<lambda>s. lr_buf r ! (s mod lr_cap r)) [nat start ..< lr_next r], latest))"

section \<open>The ring as a numbered history\<close>

definition log_ok :: "log_ring \<Rightarrow> bool" where
  "log_ok r \<longleftrightarrow> 0 < lr_cap r \<and> length (lr_buf r) \<le> lr_cap r \<and>
     (if length (lr_buf r) < lr_cap r then lr_next r = length (lr_buf r) else lr_cap r \<le> lr_next r)"

definition log_view :: "log_ring \<Rightarrow> log_entry list" where
  "log_view r = rev (map (\<lambda>s. lr_buf r ! (s mod lr_cap r)) [lr_next r - length (lr_buf r) ..< lr_next r])"

lemma log_ok_new [simp, inv_facts]: "log_ok (new_log_ring c)" and
  log_view_new [simp]: "log_view (new_log_ring c) = []"
  by (auto simp: log_ok_def new_log_ring_def log_view_def Let_def)

lemma log_ok_append [inv_facts]: "log_ok r \<Longrightarrow> log_ok (log_append e r)"
  by (auto simp: log_ok_def log_append_def Let_def)

lemma mod_distinct:
  assumes "s < t" "t < s + (c :: nat)"
  shows "s mod c \<noteq> t mod c"
proof
  assume "s mod c = t mod c"
  then have "c dvd t - s" using assms(1) by (metis mod_eq_dvd_iff_nat less_imp_le)
  with assms show False by (auto dest: dvd_imp_le)
qed

lemma log_view_append [view_facts]:
  assumes ok: "log_ok r"
  shows "log_view (log_append e r) = take (lr_cap r) (e\<lparr>le_Seq := int (lr_next r)\<rparr> # log_view r)"
proof (cases "length (lr_buf r) < lr_cap r")
  case True
  let ?n = "lr_next r"
  have n: "?n = length (lr_buf r)" using ok True by (simp add: log_ok_def)
  have "log_view (log_append e r) = e\<lparr>le_Seq := int ?n\<rparr> # rev (map (\<lambda>s. lr_buf r ! s) [0 ..< ?n])"
    using True n by (auto simp: log_view_def log_append_def Let_def nth_append intro!: map_cong)
  moreover have "log_view r = rev (map (\<lambda>s. lr_buf r ! s) [0 ..< ?n])"
    using True n by (auto simp: log_view_def intro!: map_cong)
  ultimately show ?thesis using True n by simp
next
  case False
  let ?n = "lr_next r" and ?c = "lr_cap r"
  have l: "length (lr_buf r) = ?c" and c: "0 < ?c" "?c \<le> ?n" using ok False by (auto simp: log_ok_def)
  let ?e = "e\<lparr>le_Seq := int ?n\<rparr>"
  have eq: "(lr_buf r)[?n mod ?c := ?e] ! (s mod ?c) = lr_buf r ! (s mod ?c)"
    if "s \<in> set [Suc ?n - ?c ..< ?n]" for s
  proof -
    have "s < ?n" "?n < s + ?c" using that c by auto
    then show ?thesis using mod_distinct by (metis nth_list_update_neq)
  qed
  have top: "(lr_buf r)[?n mod ?c := ?e] ! (?n mod ?c) = ?e" using c l by simp
  have "log_view (log_append e r)
      = ?e # rev (map (\<lambda>s. (lr_buf r)[?n mod ?c := ?e] ! (s mod ?c)) [Suc ?n - ?c ..< ?n])"
    using False l c top by (simp add: log_view_def log_append_def Let_def Suc_diff_le)
  also have "\<dots> = ?e # rev (map (\<lambda>s. lr_buf r ! (s mod ?c)) [Suc ?n - ?c ..< ?n])"
    using eq by (simp cong: map_cong)
  finally have new: "log_view (log_append e r) = \<dots>" .
  have "log_view r = rev (map (\<lambda>s. lr_buf r ! (s mod ?c)) ((?n - ?c) # [Suc ?n - ?c ..< ?n]))"
    using l c by (simp add: log_view_def upt_conv_Cons [of "?n - ?c"] Suc_diff_le)
  then have "take (?c - 1) (log_view r) = rev (map (\<lambda>s. lr_buf r ! (s mod ?c)) [Suc ?n - ?c ..< ?n])"
    using c by simp
  then show ?thesis using new c by (simp add: take_Cons')
qed

interpretation lr: numbered_history log_ok lr_cap log_view log_append
    "\<lambda>r e. e\<lparr>le_Seq := int (lr_next r)\<rparr>" le_Seq "\<lambda>r. int (lr_next r)"
proof unfold_locales
  fix r e
  assume ok: "log_ok r"
  show "log_ok (log_append e r)" using ok by (rule log_ok_append)
  show "lr_cap (log_append e r) = lr_cap r" by (simp add: log_append_def Let_def)
  show "log_view (log_append e r) = take (lr_cap r) (e\<lparr>le_Seq := int (lr_next r)\<rparr> # log_view r)"
    using ok by (rule log_view_append)
  show "length (log_view r) \<le> lr_cap r" using ok by (auto simp: log_view_def log_ok_def)
  show "int (lr_next (log_append e r)) = int (lr_next r) + 1" by (simp add: log_append_def Let_def)
qed simp


section \<open>The feed\<close>

lemma log_entry_at:
  assumes "log_ok r" "lr.numbered r" "lr_next r - length (lr_buf r) \<le> s" "s < lr_next r"
  shows "le_Seq (lr_buf r ! (s mod lr_cap r)) = int s"
proof -
  let ?f = "\<lambda>s. lr_buf r ! (s mod lr_cap r)"
  have len: "length (lr_buf r) \<le> lr_next r" "length (log_view r) = length (lr_buf r)"
    using assms(1) by (auto simp: log_ok_def log_view_def split: if_splits)
  let ?i = "lr_next r - 1 - s"
  have i: "?i < length (log_view r)" using assms(3,4) len by simp
  have "log_view r ! ?i = ?f s"
    using assms(3,4) len by (simp add: log_view_def rev_nth)
  moreover have "le_Seq (log_view r ! ?i) = int (lr_next r) - 1 - int ?i"
    using assms(2) i unfolding lr.numbered_def by blast
  ultimately show ?thesis using assms(4) by simp
qed

lemma log_numbered: "lr.numbered (fold log_append es (new_log_ring c))"
  by (rule lr.numbered_pushes) (simp_all add: lr.numbered_def)

text \<open>What the ring retains, oldest first.\<close>

definition log_entries :: "log_ring \<Rightarrow> log_entry list" where
  "log_entries r = rev (log_view r)"

lemma filter_upt_ge: "filter (\<lambda>s. k \<le> s) [a ..< b] = [max a k ..< (b :: nat)]"
  by (induction b) (auto simp: max_def)

lemma map_filter_seq:
  assumes "\<And>s. s \<in> set ss \<Longrightarrow> le_Seq (f s) = int s"
  shows "filter (\<lambda>e. a < le_Seq e) (map f ss) = map f (filter (\<lambda>s. a < int s) ss)"
  using assms by (induction ss) auto

text \<open>
  polling the log viewer's feed after sequence number \<open>a\<close> returns, oldest first, exactly the
  retained records numbered above \<open>a\<close>, or the newest \<open>limit\<close> of them when there are more, and the
  number of the last record ever logged.
\<close>

theorem log_feed_is_exact:
  assumes ring: "r = fold log_append es (new_log_ring c)"
    and limit: "1 \<le> limit" and seq: "- 1 \<le> a" "a < 2 ^ 63 - 1"
  shows "log_since a limit r =
     (let new = filter (\<lambda>e. a < le_Seq e) (log_entries r)
      in (drop (length new - nat limit) new, int (length es) - 1))"
proof -
  let ?f = "\<lambda>s. lr_buf r ! (s mod lr_cap r)"
  let ?lo = "lr_next r - length (lr_buf r)"
  have ok: "log_ok r" and num: "lr.numbered r"
    using ring lr.inv_pushes log_numbered by auto
  have "int (lr_next (new_log_ring c)) = 0" by (simp add: new_log_ring_def Let_def)
  then have nxt: "lr_next r = length es"
    using lr.next_pushes [of "new_log_ring c" es] ring by simp
  have len: "length (lr_buf r) \<le> lr_next r" using ok by (auto simp: log_ok_def split: if_splits)
  have "filter (\<lambda>e. a < le_Seq e) (log_entries r)
      = map ?f (filter (\<lambda>s. a < int s) [?lo ..< lr_next r])"
    unfolding log_entries_def log_view_def rev_rev_ident
    by (rule map_filter_seq) (use log_entry_at [OF ok num] in auto)
  also have "filter (\<lambda>s. a < int s) [?lo ..< lr_next r] = [max ?lo (nat (a + 1)) ..< lr_next r]"
  proof -
    have "(\<lambda>s. a < int s) = (\<lambda>s. nat (a + 1) \<le> s)" using seq by (auto simp: fun_eq_iff nat_le_iff)
    then show ?thesis by (simp add: filter_upt_ge)
  qed
  finally have new: "filter (\<lambda>e. a < le_Seq e) (log_entries r) = map ?f [max ?lo (nat (a + 1)) ..< lr_next r]" .
  have w: "wrap64 (a + 1) = a + 1" using seq by (intro wrap64_id) auto
  show ?thesis
    unfolding new Let_def drop_map drop_upt length_map length_upt
    using limit seq len nxt unfolding log_since_def w
    by (auto simp: Let_def intro!: arg_cong [where f = "map ?f"] arg_cong2 [where f = upt])
qed


definition demo_entry :: "string \<Rightarrow> log_entry" where
  "demo_entry m = \<lparr>le_Seq = 0, le_Ts = 0, le_Level = ''info'', le_Msg = m, le_Attrs = []\<rparr>"

theorem log_feed_is_exact_witness:
  "let r = fold log_append (map demo_entry [''a'', ''b'', ''c'']) (new_log_ring 2)
   in map le_Msg (fst (log_since (- 1) 5 r)) = [''b'', ''c''] \<and> snd (log_since (- 1) 5 r) = 2"
proof -
  let ?r = "fold log_append (map demo_entry [''a'', ''b'', ''c'']) (new_log_ring 2)"
  have "map le_Msg (filter (\<lambda>e. - 1 < le_Seq e) (log_entries ?r)) = [''b'', ''c'']"
    by code_simp
  then have "map le_Msg (let new = filter (\<lambda>e. - 1 < le_Seq e) (log_entries ?r)
      in drop (length new - nat 5) new) = [''b'', ''c'']"
    using length_map [of le_Msg "filter (\<lambda>e. - 1 < le_Seq e) (log_entries ?r)"]
    by (simp add: Let_def)
  then show ?thesis
    using log_feed_is_exact [OF refl, of 5 "- 1" "map demo_entry [''a'', ''b'', ''c'']" 2]
    by (simp add: Let_def)
qed

text \<open>A client that sends the largest \<open>int64\<close> gets the whole ring, not nothing: the increment
  wraps to a negative number.\<close>

lemma log_since_max_int64:
  "log_since (2 ^ 63 - 1) limit r = log_since (- 1) limit r" if "log_ok r" "lr_buf r \<noteq> []"
proof -
  have "length (lr_buf r) \<le> lr_next r" using that by (auto simp: log_ok_def split: if_splits)
  then show ?thesis by (auto simp: log_since_def wrap64_def Let_def)
qed

section \<open>The handler\<close>

text \<open>A query parameter as \<open>strconv\<close> reads it.\<close>

datatype query_int = QAbsent | QMalformed | QInt int

datatype logs_error = MethodNotAllowed | NotWired | BadSince | BadLimit

definition handle_logs :: "bool \<Rightarrow> log_ring option \<Rightarrow> query_int \<Rightarrow> query_int
    \<Rightarrow> logs_error + log_entry list \<times> int" where
  "handle_logs is_get ring since_seq limit =
     (if \<not> is_get then Inl MethodNotAllowed
      else case ring of
        None \<Rightarrow> Inl NotWired
      | Some r \<Rightarrow>
          (case since_seq of
             QMalformed \<Rightarrow> Inl BadSince
           | _ \<Rightarrow>
               let afterSeq = (case since_seq of QInt n \<Rightarrow> n | _ \<Rightarrow> - 1)
               in case limit of
                    QMalformed \<Rightarrow> Inl BadLimit
                  | QInt n \<Rightarrow> if n < 1 \<or> n > 2000 then Inl BadLimit else Inr (log_since afterSeq n r)
                  | QAbsent \<Rightarrow> Inr (log_since afterSeq 500 r)))"

lemma handle_logs_bounded:
  "handle_logs g ring s l = Inr (es, latest) \<Longrightarrow> length es \<le> 2000"
  by (auto simp: handle_logs_def log_since_def Let_def
      split: if_splits option.splits query_int.splits)

end
