(* ===== verification/GoText.thy ===== *)
theory GoText
  imports Prelude
begin

text \<open>
  What the program uses of Go's \<open>strconv\<close> and \<open>strings\<close> packages: decimal integers
  (\<open>Itoa\<close>, \<open>Atoi\<close>), booleans (\<open>FormatBool\<close>, \<open>ParseBool\<close>), prefixes and the split at a first
  separator. A Go string is a list of bytes, an Isabelle \<^typ>\<open>string\<close>. The lemmas are the round
  trips the configuration loaders and the version parser rest on.
\<close>

section \<open>Digits and integers\<close>

definition is_digit :: "char \<Rightarrow> bool" where
  "is_digit c \<longleftrightarrow> 48 \<le> (of_char c :: nat) \<and> (of_char c :: nat) \<le> 57"

definition digit_value :: "char \<Rightarrow> nat" where
  "digit_value c = of_char c - 48"

fun dec_value :: "nat \<Rightarrow> string \<Rightarrow> nat option" where
  "dec_value acc [] = Some acc"
| "dec_value acc (c # cs) = (if is_digit c then dec_value (10 * acc + digit_value c) cs else None)"

text \<open>\<open>strconv.Itoa\<close> and \<open>strconv.Atoi\<close>: an optional sign, at least one digit, a value that fits
  an \<open>int64\<close>.\<close>

definition go_itoa :: "int \<Rightarrow> string" where
  "go_itoa i = (if i < 0 then CHR ''-'' # nat_dec (nat (- i)) else nat_dec (nat i))"

definition signed_digits :: "string \<Rightarrow> bool \<times> string" where
  "signed_digits s = (case s of [] \<Rightarrow> (False, [])
     | c # cs \<Rightarrow> if c = CHR ''-'' then (True, cs) else if c = CHR ''+'' then (False, cs) else (False, s))"

definition go_atoi :: "string \<Rightarrow> int option" where
  "go_atoi s = (case signed_digits s of (neg, ds) \<Rightarrow>
     if ds = [] then None
     else case dec_value 0 ds of None \<Rightarrow> None
       | Some n \<Rightarrow> (let v = (if neg then - int n else int n)
           in if - (2 ^ 63) \<le> v \<and> v < 2 ^ 63 then Some v else None))"

lemma of_char_char_of_small: "n < 256 \<Longrightarrow> (of_char (char_of n :: char) :: nat) = n"
  by simp

lemma digit_char: "d < 10 \<Longrightarrow> is_digit (char_of (48 + d)) \<and> digit_value (char_of (48 + d)) = d"
  by (simp add: is_digit_def digit_value_def of_char_char_of_small)

lemma dec_value_append:
  "dec_value acc (xs @ ys) = (case dec_value acc xs of None \<Rightarrow> None | Some a \<Rightarrow> dec_value a ys)"
  by (induction xs arbitrary: acc) auto

lemma dec_value_nat_dec [simp]: "dec_value 0 (nat_dec n) = Some n"
proof (induction n rule: nat_dec.induct)
  case (1 n)
  show ?case
  proof (cases "n < 10")
    case True
    then show ?thesis using digit_char [of n] by (simp add: nat_dec.simps [of n])
  next
    case False
    have "dec_value 0 (nat_dec n)
        = dec_value (n div 10) [char_of (48 + n mod 10)]"
      using False 1 by (simp add: nat_dec.simps [of n] dec_value_append)
    also have "\<dots> = Some n" using digit_char [of "n mod 10"] by simp
    finally show ?thesis .
  qed
qed

lemma nat_dec_digits: "c \<in> set (nat_dec n) \<Longrightarrow> is_digit c"
proof (induction n rule: nat_dec.induct)
  case (1 n)
  show ?case
  proof (cases "n < 10")
    case True
    then show ?thesis using 1(2) digit_char [of n] by (simp add: nat_dec.simps [of n])
  next
    case False
    then show ?thesis
      using 1 digit_char [of "n mod 10"] by (auto simp: nat_dec.simps [of n])
  qed
qed

lemma nat_dec_hd_digit: "is_digit (hd (nat_dec n))"
  by (rule nat_dec_digits [of _ n]) simp

lemma nat_dec_inj: "nat_dec m = nat_dec n \<Longrightarrow> m = n"
  by (metis dec_value_nat_dec option.inject)

lemma signs_not_digits [simp]: "\<not> is_digit CHR ''-''" "\<not> is_digit CHR ''+''" "\<not> is_digit CHR '':''"
  "\<not> is_digit CHR ''.''"
  by (simp_all add: is_digit_def)

lemma signed_digits_nat_dec: "signed_digits (nat_dec n) = (False, nat_dec n)"
proof -
  obtain c cs where c: "nat_dec n = c # cs" using nat_dec_not_Nil [of n] by (cases "nat_dec n") blast+
  have "is_digit c" using nat_dec_hd_digit [of n] c by simp
  then have "c \<noteq> CHR ''-''" "c \<noteq> CHR ''+''" by auto
  then show ?thesis by (simp add: c signed_digits_def)
qed

lemma go_atoi_itoa [simp]:
  assumes "- (2 ^ 63) \<le> i" "i < 2 ^ 63"
  shows "go_atoi (go_itoa i) = Some i"
proof (cases "i < 0")
  case True
  have "signed_digits (go_itoa i) = (True, nat_dec (nat (- i)))"
    using True by (simp add: go_itoa_def signed_digits_def)
  then show ?thesis using True assms by (simp add: go_atoi_def)
next
  case False
  have "signed_digits (go_itoa i) = (False, nat_dec (nat i))"
    using False by (simp add: go_itoa_def signed_digits_nat_dec)
  then show ?thesis using False assms by (simp add: go_atoi_def)
qed

lemma go_atoi_range: "go_atoi s = Some i \<Longrightarrow> - (2 ^ 63) \<le> i \<and> i < 2 ^ 63"
  by (auto simp: go_atoi_def Let_def split: prod.splits if_splits option.splits)

section \<open>Booleans\<close>

definition go_format_bool :: "bool \<Rightarrow> string" where
  "go_format_bool b = (if b then ''true'' else ''false'')"

definition go_parse_bool :: "string \<Rightarrow> bool option" where
  "go_parse_bool s =
     (if s \<in> {''1'', ''t'', ''T'', ''true'', ''TRUE'', ''True''} then Some True
      else if s \<in> {''0'', ''f'', ''F'', ''false'', ''FALSE'', ''False''} then Some False
      else None)"

lemma go_parse_format_bool [simp]: "go_parse_bool (go_format_bool b) = Some b"
  by (simp add: go_parse_bool_def go_format_bool_def)

section \<open>Prefixes and splitting\<close>

definition has_prefix :: "string \<Rightarrow> string \<Rightarrow> bool" where
  "has_prefix s p \<longleftrightarrow> take (length p) s = p"

text \<open>\<open>strings.ContainsAny\<close>.\<close>

definition contains_any :: "string \<Rightarrow> string \<Rightarrow> bool" where
  "contains_any s chars = list_ex (\<lambda>c. c \<in> set chars) s"

text \<open>\<open>strings.SplitN(v, sep, 2)\<close> for a one-byte separator: the text before the first separator,
  and, when there is one, the text after it.\<close>

definition split_first :: "char \<Rightarrow> string \<Rightarrow> string \<times> string option" where
  "split_first sep v = (takeWhile (\<lambda>c. c \<noteq> sep) v,
     case dropWhile (\<lambda>c. c \<noteq> sep) v of [] \<Rightarrow> None | _ # rest \<Rightarrow> Some rest)"

lemma split_first_Some: "split_first sep v = (a, Some b) \<Longrightarrow> v = a @ sep # b \<and> sep \<notin> set a"
proof -
  assume s: "split_first sep v = (a, Some b)"
  have v: "v = takeWhile (\<lambda>c. c \<noteq> sep) v @ dropWhile (\<lambda>c. c \<noteq> sep) v" by simp
  from s obtain x where d: "dropWhile (\<lambda>c. c \<noteq> sep) v = x # b"
    by (auto simp: split_first_def split: list.splits)
  have "x = sep" using hd_dropWhile [of "\<lambda>c. c \<noteq> sep" v] d by simp
  moreover have "a = takeWhile (\<lambda>c. c \<noteq> sep) v" using s by (simp add: split_first_def)
  ultimately show ?thesis using v d by (metis (mono_tags) set_takeWhileD)
qed

lemma split_first_at: "sep \<notin> set a \<Longrightarrow> split_first sep (a @ sep # b) = (a, Some b)"
proof -
  assume "sep \<notin> set a"
  then have all: "\<And>x. x \<in> set a \<Longrightarrow> x \<noteq> sep" by blast
  have "takeWhile (\<lambda>c. c \<noteq> sep) (a @ sep # b) = a"
    using all by (simp add: takeWhile_append2)
  moreover have "dropWhile (\<lambda>c. c \<noteq> sep) (a @ sep # b) = sep # b"
    using all by (simp add: dropWhile_append2)
  ultimately show ?thesis by (simp add: split_first_def)
qed

text \<open>A rune is a code point. Text the program builds from byte literals consists of the runes
  below 256 given by its bytes when they are ASCII.\<close>

type_synonym rune = nat

definition runes :: "string \<Rightarrow> rune list" where
  "runes s = map of_char s"

lemma runes_inj [simp]: "runes s = runes t \<longleftrightarrow> s = t"
proof
  assume "runes s = runes t"
  then have "map char_of (runes s) = (map char_of (runes t) :: string)" by simp
  then show "s = t" by (simp add: runes_def comp_def)
qed simp

lemma runes_bound: "r \<in> set (runes s) \<Longrightarrow> r < 256"
  by (auto simp: runes_def)

end
