(* ===== verification/AlertConfig.thy ===== *)
theory AlertConfig
  imports GoText
begin

text \<open>
  \<open>internal/alert/config.go\<close>: the operator's alerting configuration, its validation, the quiet-hours
  window (\<open>inQuietWindow\<close> of \<open>engine.go\<close>) and its persistence as rows of the \<open>config\<close> table
  (\<open>GetConfig\<close> and \<open>SetConfig\<close> of \<open>internal/storage/bandwidth.go\<close>).

  A \<open>float64\<close> field is a rational number; \<open>strconv.FormatFloat(x, 'f', -1, 64)\<close> and
  \<open>strconv.ParseFloat\<close> are the parameters \<open>fmt\<close> and \<open>prs\<close>. \<open>Config.fields\<close> is a Go map, so the
  loops over it visit the fields in an arbitrary order: the order is an argument.
\<close>

section \<open>The configuration\<close>

record alert_config =
  ac_enabled :: bool
  ac_server_url :: string
  ac_topic :: string
  ac_token :: string
  ac_ev_probe_offline :: bool
  ac_ev_target_loss :: bool
  ac_ev_latency :: bool
  ac_ev_derate :: bool
  ac_ev_capacity :: bool
  ac_loss_pct :: rat
  ac_sustain_s :: int
  ac_latency_level :: string
  ac_disk_free_floor_mb :: int
  ac_disk_free_pct_floor :: rat
  ac_headroom_threshold :: rat
  ac_cooldown_s :: int
  ac_rate_limit_per_h :: int
  ac_quiet_start :: string
  ac_quiet_end :: string

definition default_alert_config :: alert_config where
  "default_alert_config = \<lparr>
     ac_enabled = False, ac_server_url = [], ac_topic = [], ac_token = [],
     ac_ev_probe_offline = True, ac_ev_target_loss = True, ac_ev_latency = False,
     ac_ev_derate = True, ac_ev_capacity = True,
     ac_loss_pct = 20, ac_sustain_s = 120, ac_latency_level = ''critical'',
     ac_disk_free_floor_mb = 1024, ac_disk_free_pct_floor = 5 / 100,
     ac_headroom_threshold = 12 / 10, ac_cooldown_s = 1800, ac_rate_limit_per_h = 12,
     ac_quiet_start = [], ac_quiet_end = []\<rparr>"

section \<open>Validation\<close>

definition parse_hhmm :: "string \<Rightarrow> (int \<times> int) option" where
  "parse_hhmm v = (case split_first CHR '':'' v of
     (a, Some b) \<Rightarrow> (case (go_atoi a, go_atoi b) of
         (Some h, Some m) \<Rightarrow>
           if h \<ge> 0 \<and> h \<le> 23 \<and> m \<ge> 0 \<and> m \<le> 59 then Some (h, m) else None
       | _ \<Rightarrow> None)
   | (_, None) \<Rightarrow> None)"

datatype alert_config_error =
    BadServerUrl | EnabledWithoutTransport | BadTopic | LossPctRange | SustainRange
  | BadLatencyLevel | DiskFloorRange | DiskPctRange | HeadroomRange | CooldownRange
  | RateLimitRange | QuietPair | BadQuietTime string

definition check_quiet :: "alert_config \<Rightarrow> alert_config_error option" where
  "check_quiet c =
     (if (ac_quiet_start c = []) \<noteq> (ac_quiet_end c = []) then Some QuietPair
      else if ac_quiet_start c \<noteq> [] \<and> parse_hhmm (ac_quiet_start c) = None
        then Some (BadQuietTime (ac_quiet_start c))
      else if ac_quiet_end c \<noteq> [] \<and> parse_hhmm (ac_quiet_end c) = None
        then Some (BadQuietTime (ac_quiet_end c))
      else None)"

text \<open>\<open>Config.Validate\<close>: the first check that fails; \<^const>\<open>None\<close> is the nil error.\<close>

definition validate_alert_config :: "alert_config \<Rightarrow> alert_config_error option" where
  "validate_alert_config c =
     (if ac_server_url c \<noteq> [] \<and> \<not> has_prefix (ac_server_url c) ''http://''
          \<and> \<not> has_prefix (ac_server_url c) ''https://'' then Some BadServerUrl
      else if ac_enabled c \<and> (ac_server_url c = [] \<or> ac_topic c = []) then Some EnabledWithoutTransport
      else if ac_topic c \<noteq> [] \<and> contains_any (ac_topic c) '' /'' then Some BadTopic
      else if ac_loss_pct c < 1 \<or> ac_loss_pct c > 100 then Some LossPctRange
      else if ac_sustain_s c < 30 \<or> ac_sustain_s c > 3600 then Some SustainRange
      else if ac_latency_level c \<noteq> ''warning'' \<and> ac_latency_level c \<noteq> ''critical''
        then Some BadLatencyLevel
      else if ac_disk_free_floor_mb c < 0 \<or> ac_disk_free_floor_mb c > 1048576 then Some DiskFloorRange
      else if ac_disk_free_pct_floor c < 0 \<or> ac_disk_free_pct_floor c > 1 then Some DiskPctRange
      else if ac_headroom_threshold c < 1 \<or> ac_headroom_threshold c > 100 then Some HeadroomRange
      else if ac_cooldown_s c < 60 \<or> ac_cooldown_s c > 86400 then Some CooldownRange
      else if ac_rate_limit_per_h c < 1 \<or> ac_rate_limit_per_h c > 120 then Some RateLimitRange
      else check_quiet c)"

section \<open>Quiet hours\<close>

text \<open>\<open>inQuietWindow\<close> at the local wall-clock time \<open>hour:minute\<close> of now.\<close>

definition in_quiet_window :: "int \<times> int \<Rightarrow> string \<Rightarrow> string \<Rightarrow> bool" where
  "in_quiet_window clock start end =
     (if start = [] \<or> end = [] then False
      else case (parse_hhmm start, parse_hhmm end) of
        (Some (sh, sm), Some (eh, em)) \<Rightarrow>
          (let cur = fst clock * 60 + snd clock;
               s = sh * 60 + sm;
               e = eh * 60 + em
           in if s = e then False
              else if s < e then cur \<ge> s \<and> cur < e
              else cur \<ge> s \<or> cur < e)
      | _ \<Rightarrow> False)"

section \<open>Persistence\<close>

text \<open>The \<open>config\<close> table. A failed statement changes nothing.\<close>

type_synonym kv = "string \<rightharpoonup> string"

definition get_config :: "bool \<Rightarrow> string \<Rightarrow> kv \<Rightarrow> unit + string option" where
  "get_config fault key kv = (if fault then Inl () else Inr (kv key))"

definition set_config :: "bool \<Rightarrow> string \<Rightarrow> string \<Rightarrow> kv \<Rightarrow> bool \<times> kv" where
  "set_config fault key value kv =
     (if key = [] then (False, kv) else if fault then (False, kv) else (True, kv(key \<mapsto> value)))"

definition delete_config :: "bool \<Rightarrow> string \<Rightarrow> kv \<Rightarrow> bool \<times> kv" where
  "delete_config fault key kv = (if fault then (False, kv) else (True, kv(key := None)))"

datatype alert_field =
    FEnabled | FServerUrl | FTopic | FToken | FEvProbeOffline | FEvTargetLoss | FEvLatency
  | FEvDerate | FEvCapacity | FLossPct | FSustainS | FLatencyLevel | FDiskFreeFloorMb
  | FDiskFreePctFloor | FHeadroomThreshold | FCooldownS | FRateLimitPerH | FQuietStart | FQuietEnd

fun field_key :: "alert_field \<Rightarrow> string" where
  "field_key FEnabled = ''enabled''"
| "field_key FServerUrl = ''server_url''"
| "field_key FTopic = ''topic''"
| "field_key FToken = ''token''"
| "field_key FEvProbeOffline = ''events.probe_offline''"
| "field_key FEvTargetLoss = ''events.target_loss''"
| "field_key FEvLatency = ''events.latency''"
| "field_key FEvDerate = ''events.derate''"
| "field_key FEvCapacity = ''events.capacity''"
| "field_key FLossPct = ''loss_pct''"
| "field_key FSustainS = ''sustain_s''"
| "field_key FLatencyLevel = ''latency_level''"
| "field_key FDiskFreeFloorMb = ''disk_free_floor_mb''"
| "field_key FDiskFreePctFloor = ''disk_free_pct_floor''"
| "field_key FHeadroomThreshold = ''headroom_threshold''"
| "field_key FCooldownS = ''cooldown_s''"
| "field_key FRateLimitPerH = ''rate_limit_per_h''"
| "field_key FQuietStart = ''quiet_start''"
| "field_key FQuietEnd = ''quiet_end''"

definition key_prefix :: string where "key_prefix = ''alert.''"

fun field_get :: "(rat \<Rightarrow> string) \<Rightarrow> alert_field \<Rightarrow> alert_config \<Rightarrow> string" where
  "field_get fmt FEnabled c = go_format_bool (ac_enabled c)"
| "field_get fmt FServerUrl c = ac_server_url c"
| "field_get fmt FTopic c = ac_topic c"
| "field_get fmt FToken c = ac_token c"
| "field_get fmt FEvProbeOffline c = go_format_bool (ac_ev_probe_offline c)"
| "field_get fmt FEvTargetLoss c = go_format_bool (ac_ev_target_loss c)"
| "field_get fmt FEvLatency c = go_format_bool (ac_ev_latency c)"
| "field_get fmt FEvDerate c = go_format_bool (ac_ev_derate c)"
| "field_get fmt FEvCapacity c = go_format_bool (ac_ev_capacity c)"
| "field_get fmt FLossPct c = fmt (ac_loss_pct c)"
| "field_get fmt FSustainS c = go_itoa (ac_sustain_s c)"
| "field_get fmt FLatencyLevel c = ac_latency_level c"
| "field_get fmt FDiskFreeFloorMb c = go_itoa (ac_disk_free_floor_mb c)"
| "field_get fmt FDiskFreePctFloor c = fmt (ac_disk_free_pct_floor c)"
| "field_get fmt FHeadroomThreshold c = fmt (ac_headroom_threshold c)"
| "field_get fmt FCooldownS c = go_itoa (ac_cooldown_s c)"
| "field_get fmt FRateLimitPerH c = go_itoa (ac_rate_limit_per_h c)"
| "field_get fmt FQuietStart c = ac_quiet_start c"
| "field_get fmt FQuietEnd c = ac_quiet_end c"

fun field_set :: "(string \<Rightarrow> rat option) \<Rightarrow> alert_field \<Rightarrow> string \<Rightarrow> alert_config \<Rightarrow> alert_config option" where
  "field_set prs FEnabled v c = map_option (\<lambda>b. c\<lparr>ac_enabled := b\<rparr>) (go_parse_bool v)"
| "field_set prs FServerUrl v c = Some (c\<lparr>ac_server_url := v\<rparr>)"
| "field_set prs FTopic v c = Some (c\<lparr>ac_topic := v\<rparr>)"
| "field_set prs FToken v c = Some (c\<lparr>ac_token := v\<rparr>)"
| "field_set prs FEvProbeOffline v c = map_option (\<lambda>b. c\<lparr>ac_ev_probe_offline := b\<rparr>) (go_parse_bool v)"
| "field_set prs FEvTargetLoss v c = map_option (\<lambda>b. c\<lparr>ac_ev_target_loss := b\<rparr>) (go_parse_bool v)"
| "field_set prs FEvLatency v c = map_option (\<lambda>b. c\<lparr>ac_ev_latency := b\<rparr>) (go_parse_bool v)"
| "field_set prs FEvDerate v c = map_option (\<lambda>b. c\<lparr>ac_ev_derate := b\<rparr>) (go_parse_bool v)"
| "field_set prs FEvCapacity v c = map_option (\<lambda>b. c\<lparr>ac_ev_capacity := b\<rparr>) (go_parse_bool v)"
| "field_set prs FLossPct v c = map_option (\<lambda>x. c\<lparr>ac_loss_pct := x\<rparr>) (prs v)"
| "field_set prs FSustainS v c = map_option (\<lambda>n. c\<lparr>ac_sustain_s := n\<rparr>) (go_atoi v)"
| "field_set prs FLatencyLevel v c = Some (c\<lparr>ac_latency_level := v\<rparr>)"
| "field_set prs FDiskFreeFloorMb v c = map_option (\<lambda>n. c\<lparr>ac_disk_free_floor_mb := n\<rparr>) (go_atoi v)"
| "field_set prs FDiskFreePctFloor v c = map_option (\<lambda>x. c\<lparr>ac_disk_free_pct_floor := x\<rparr>) (prs v)"
| "field_set prs FHeadroomThreshold v c = map_option (\<lambda>x. c\<lparr>ac_headroom_threshold := x\<rparr>) (prs v)"
| "field_set prs FCooldownS v c = map_option (\<lambda>n. c\<lparr>ac_cooldown_s := n\<rparr>) (go_atoi v)"
| "field_set prs FRateLimitPerH v c = map_option (\<lambda>n. c\<lparr>ac_rate_limit_per_h := n\<rparr>) (go_atoi v)"
| "field_set prs FQuietStart v c = Some (c\<lparr>ac_quiet_start := v\<rparr>)"
| "field_set prs FQuietEnd v c = Some (c\<lparr>ac_quiet_end := v\<rparr>)"

text \<open>The loops of \<open>LoadConfig\<close> and \<open>SaveConfig\<close>. \<open>failing\<close> names the fields whose statement fails;
  the first component of the result is the field the error names, or \<^const>\<open>None\<close>.\<close>

fun load_fields :: "(string \<Rightarrow> rat option) \<Rightarrow> (alert_field \<Rightarrow> bool) \<Rightarrow> kv \<Rightarrow> alert_field list
    \<Rightarrow> alert_config \<Rightarrow> (alert_field \<times> string) list
    \<Rightarrow> alert_field option \<times> alert_config \<times> (alert_field \<times> string) list" where
  "load_fields prs failing kv [] c ws = (None, c, ws)"
| "load_fields prs failing kv (f # fs) c ws =
     (case get_config (failing f) (key_prefix @ field_key f) kv of
        Inl _ \<Rightarrow> (Some f, c, ws)
      | Inr None \<Rightarrow> load_fields prs failing kv fs c ws
      | Inr (Some v) \<Rightarrow>
          (case field_set prs f v c of
             Some c' \<Rightarrow> load_fields prs failing kv fs c' ws
           | None \<Rightarrow> load_fields prs failing kv fs c (ws @ [(f, v)])))"

definition load_alert_config where
  "load_alert_config prs failing order kv = load_fields prs failing kv order default_alert_config []"

fun save_alert_config :: "(rat \<Rightarrow> string) \<Rightarrow> (alert_field \<Rightarrow> bool) \<Rightarrow> alert_field list \<Rightarrow> alert_config
    \<Rightarrow> kv \<Rightarrow> alert_field option \<times> kv" where
  "save_alert_config fmt failing [] c kv = (None, kv)"
| "save_alert_config fmt failing (f # fs) c kv =
     (case set_config (failing f) (key_prefix @ field_key f) (field_get fmt f c) kv of
        (True, kv') \<Rightarrow> save_alert_config fmt failing fs c kv'
      | (False, kv') \<Rightarrow> (Some f, kv'))"

section \<open>Facts about validation and the window\<close>

definition quiet_times_ok :: "alert_config \<Rightarrow> bool" where
  "quiet_times_ok c \<longleftrightarrow> (ac_quiet_start c = [] \<and> ac_quiet_end c = []) \<or>
     (\<exists>s e. ac_quiet_start c \<noteq> [] \<and> ac_quiet_end c \<noteq> []
       \<and> parse_hhmm (ac_quiet_start c) = Some s \<and> parse_hhmm (ac_quiet_end c) = Some e)"

definition alert_config_ok :: "alert_config \<Rightarrow> bool" where
  "alert_config_ok c \<longleftrightarrow>
     (ac_server_url c = [] \<or> has_prefix (ac_server_url c) ''http://''
        \<or> has_prefix (ac_server_url c) ''https://'')
   \<and> (ac_enabled c \<longrightarrow> ac_server_url c \<noteq> [] \<and> ac_topic c \<noteq> [])
   \<and> CHR '' '' \<notin> set (ac_topic c) \<and> CHR ''/'' \<notin> set (ac_topic c)
   \<and> ac_loss_pct c \<in> {1..100} \<and> ac_sustain_s c \<in> {30..3600}
   \<and> ac_latency_level c \<in> {''warning'', ''critical''}
   \<and> ac_disk_free_floor_mb c \<in> {0..1048576} \<and> ac_disk_free_pct_floor c \<in> {0..1}
   \<and> ac_headroom_threshold c \<in> {1..100} \<and> ac_cooldown_s c \<in> {60..86400}
   \<and> ac_rate_limit_per_h c \<in> {1..120} \<and> quiet_times_ok c"

lemma check_quiet_None: "check_quiet c = None \<longleftrightarrow> quiet_times_ok c"
  by (auto simp: check_quiet_def quiet_times_ok_def)

lemma contains_any_topic: "contains_any t '' /'' \<longleftrightarrow> CHR '' '' \<in> set t \<or> CHR ''/'' \<in> set t"
  by (auto simp: contains_any_def list_ex_iff)

lemma validate_iff: "validate_alert_config c = None \<longleftrightarrow> alert_config_ok c"
proof -
  have topic: "(ac_topic c \<noteq> [] \<and> contains_any (ac_topic c) '' /'')
      \<longleftrightarrow> (CHR '' '' \<in> set (ac_topic c) \<or> CHR ''/'' \<in> set (ac_topic c))"
    by (auto simp: contains_any_topic)
  show ?thesis
    unfolding validate_alert_config_def alert_config_ok_def topic
    by (simp add: check_quiet_None not_less)
qed

lemma parse_hhmm_range: "parse_hhmm v = Some (h, m) \<Longrightarrow> h \<in> {0..23} \<and> m \<in> {0..59}"
  by (auto simp: parse_hhmm_def split: prod.splits option.splits if_splits)

lemma parse_hhmm_format:
  assumes "h \<in> {0..23}" "m \<in> {0..59}"
  shows "parse_hhmm (go_itoa h @ CHR '':'' # go_itoa m) = Some (h, m)"
proof -
  have "CHR '':'' \<notin> set (go_itoa h)"
    using assms nat_dec_digits [of "CHR '':''" "nat h"] by (auto simp: go_itoa_def)
  then show ?thesis using assms by (simp add: parse_hhmm_def split_first_at)
qed

text \<open> The quiet-hours test is membership in the half-open cyclic interval from the configured
  start to the configured end on the 1440-minute day, whether or not the window wraps midnight;
  equal ends mean no quiet hours.\<close>

theorem quiet_window_is_cyclic_interval:
  assumes "parse_hhmm start = Some (sh, sm)" "parse_hhmm end = Some (eh, em)"
    and "hour \<in> {0..23}" "minute \<in> {0..59}"
  shows "in_quiet_window (hour, minute) start end \<longleftrightarrow>
    (hour * 60 + minute - (sh * 60 + sm)) mod 1440 < (eh * 60 + em - (sh * 60 + sm)) mod 1440"
proof -
  define cur s e where d: "cur = hour * 60 + minute" "s = sh * 60 + sm" "e = eh * 60 + em"
  have r: "cur \<in> {0..<1440}" "s \<in> {0..<1440}" "e \<in> {0..<1440}"
    using parse_hhmm_range [OF assms(1)] parse_hhmm_range [OF assms(2)] assms(3,4) by (auto simp: d)
  have m: "(x - s) mod 1440 = (if s \<le> x then x - s else x - s + 1440)" if "x \<in> {0..<1440}" for x
  proof (cases "s \<le> x")
    case True
    then show ?thesis using that r(2) by simp
  next
    case False
    have "(x - s) mod 1440 = (x - s + 1440) mod 1440" by simp
    also have "\<dots> = x - s + 1440" using that r(2) False by (intro mod_pos_pos_trivial) auto
    finally show ?thesis using False by simp
  qed
  have "start \<noteq> []" "end \<noteq> []" using assms(1,2) by (auto simp: parse_hhmm_def split_first_def)
  then have "in_quiet_window (hour, minute) start end
      \<longleftrightarrow> (if s = e then False else if s < e then cur \<ge> s \<and> cur < e else cur \<ge> s \<or> cur < e)"
    using assms(1,2) by (simp add: in_quiet_window_def Let_def d)
  also have "\<dots> \<longleftrightarrow> (cur - s) mod 1440 < (e - s) mod 1440"
    using m [OF r(1)] m [OF r(3)] r by auto
  finally show ?thesis by (simp add: d)
qed

lemma quiet_window_is_cyclic_interval_witness:
  "in_quiet_window (23, 30) ''22:00'' ''07:00'' \<longleftrightarrow> ((23 * 60 + 30 - (22 * 60 + 0)) mod 1440 < (7 * 60 + 0 - (22 * 60 + 0)) mod (1440::int))"
proof (rule quiet_window_is_cyclic_interval)
  show "parse_hhmm ''22:00'' = Some (22, 0)" by code_simp
  show "parse_hhmm ''07:00'' = Some (7, 0)" by code_simp
qed simp_all

section \<open>Saving and loading\<close>

definition all_fields :: "alert_field list" where
  "all_fields = [FEnabled, FServerUrl, FTopic, FToken, FEvProbeOffline, FEvTargetLoss, FEvLatency,
     FEvDerate, FEvCapacity, FLossPct, FSustainS, FLatencyLevel, FDiskFreeFloorMb,
     FDiskFreePctFloor, FHeadroomThreshold, FCooldownS, FRateLimitPerH, FQuietStart, FQuietEnd]"

lemma all_fields_complete: "f \<in> set all_fields"
  by (cases f) (simp_all add: all_fields_def)

lemma field_key_inj [simp]: "field_key f = field_key g \<longleftrightarrow> f = g"
  by (cases f; cases g; simp)

text \<open>\<open>mix S c d\<close> has the fields of \<open>S\<close> from \<open>c\<close> and the others from \<open>d\<close>.\<close>

definition mix :: "alert_field set \<Rightarrow> alert_config \<Rightarrow> alert_config \<Rightarrow> alert_config" where
  "mix S c d = \<lparr>
     ac_enabled = (if FEnabled \<in> S then ac_enabled c else ac_enabled d),
     ac_server_url = (if FServerUrl \<in> S then ac_server_url c else ac_server_url d),
     ac_topic = (if FTopic \<in> S then ac_topic c else ac_topic d),
     ac_token = (if FToken \<in> S then ac_token c else ac_token d),
     ac_ev_probe_offline = (if FEvProbeOffline \<in> S then ac_ev_probe_offline c else ac_ev_probe_offline d),
     ac_ev_target_loss = (if FEvTargetLoss \<in> S then ac_ev_target_loss c else ac_ev_target_loss d),
     ac_ev_latency = (if FEvLatency \<in> S then ac_ev_latency c else ac_ev_latency d),
     ac_ev_derate = (if FEvDerate \<in> S then ac_ev_derate c else ac_ev_derate d),
     ac_ev_capacity = (if FEvCapacity \<in> S then ac_ev_capacity c else ac_ev_capacity d),
     ac_loss_pct = (if FLossPct \<in> S then ac_loss_pct c else ac_loss_pct d),
     ac_sustain_s = (if FSustainS \<in> S then ac_sustain_s c else ac_sustain_s d),
     ac_latency_level = (if FLatencyLevel \<in> S then ac_latency_level c else ac_latency_level d),
     ac_disk_free_floor_mb = (if FDiskFreeFloorMb \<in> S then ac_disk_free_floor_mb c else ac_disk_free_floor_mb d),
     ac_disk_free_pct_floor = (if FDiskFreePctFloor \<in> S then ac_disk_free_pct_floor c else ac_disk_free_pct_floor d),
     ac_headroom_threshold = (if FHeadroomThreshold \<in> S then ac_headroom_threshold c else ac_headroom_threshold d),
     ac_cooldown_s = (if FCooldownS \<in> S then ac_cooldown_s c else ac_cooldown_s d),
     ac_rate_limit_per_h = (if FRateLimitPerH \<in> S then ac_rate_limit_per_h c else ac_rate_limit_per_h d),
     ac_quiet_start = (if FQuietStart \<in> S then ac_quiet_start c else ac_quiet_start d),
     ac_quiet_end = (if FQuietEnd \<in> S then ac_quiet_end c else ac_quiet_end d)\<rparr>"

lemma mix_empty: "mix {} c d = d"
  by (simp add: mix_def)

lemma mix_all: "(\<And>f. f \<in> S) \<Longrightarrow> mix S c d = c"
  by (simp add: mix_def)

text \<open>The configuration's values survive their text form.\<close>

definition fields_printable where
  "fields_printable fmt prs c \<longleftrightarrow>
     prs (fmt (ac_loss_pct c)) = Some (ac_loss_pct c)
   \<and> prs (fmt (ac_disk_free_pct_floor c)) = Some (ac_disk_free_pct_floor c)
   \<and> prs (fmt (ac_headroom_threshold c)) = Some (ac_headroom_threshold c)
   \<and> go_atoi (go_itoa (ac_sustain_s c)) = Some (ac_sustain_s c)
   \<and> go_atoi (go_itoa (ac_disk_free_floor_mb c)) = Some (ac_disk_free_floor_mb c)
   \<and> go_atoi (go_itoa (ac_cooldown_s c)) = Some (ac_cooldown_s c)
   \<and> go_atoi (go_itoa (ac_rate_limit_per_h c)) = Some (ac_rate_limit_per_h c)"

lemma field_set_get:
  "fields_printable fmt prs c \<Longrightarrow>
   field_set prs f (field_get fmt f c) (mix S c d) = Some (mix (insert f S) c d)"
  by (cases f) (simp_all add: fields_printable_def mix_def Let_def)

text \<open>Every row of the fields in \<open>G\<close> holds \<open>c\<close>'s value; every other row is absent or does not
  parse.\<close>

definition rows_from where
  "rows_from fmt prs kv G c fs \<longleftrightarrow> (\<forall>f\<in>set fs.
     if f \<in> G then kv (key_prefix @ field_key f) = Some (field_get fmt f c)
     else \<forall>v d. kv (key_prefix @ field_key f) = Some v \<longrightarrow> field_set prs f v d = None)"

definition bad_rows :: "kv \<Rightarrow> alert_field set \<Rightarrow> alert_field list \<Rightarrow> (alert_field \<times> string) list" where
  "bad_rows kv G fs = map (\<lambda>f. (f, the (kv (key_prefix @ field_key f))))
     (filter (\<lambda>f. f \<notin> G \<and> kv (key_prefix @ field_key f) \<noteq> None) fs)"

lemma load_fields_mix:
  assumes "fields_printable fmt prs c" and "rows_from fmt prs kv G c fs"
  shows "load_fields prs (\<lambda>_. False) kv fs (mix S c d) ws
    = (None, mix (S \<union> set fs \<inter> G) c d, ws @ bad_rows kv G fs)"
  using assms(2)
proof (induction fs arbitrary: S ws)
  case Nil
  then show ?case by (simp add: bad_rows_def)
next
  case (Cons f fs)
  have rest: "rows_from fmt prs kv G c fs" using Cons.prems by (simp add: rows_from_def)
  show ?case
  proof (cases "f \<in> G")
    case True
    then have "kv (key_prefix @ field_key f) = Some (field_get fmt f c)"
      using Cons.prems by (simp add: rows_from_def)
    then show ?thesis
      using field_set_get [OF assms(1)] Cons.IH [OF rest] True
      by (simp add: get_config_def bad_rows_def Int_insert_left)
  next
    case False
    then have none: "kv (key_prefix @ field_key f) = Some v \<Longrightarrow> field_set prs f v e = None" for v e
      using Cons.prems by (simp add: rows_from_def)
    show ?thesis
    proof (cases "kv (key_prefix @ field_key f)")
      case None
      then show ?thesis using Cons.IH [OF rest] False by (simp add: get_config_def bad_rows_def)
    next
      case (Some v)
      then show ?thesis using Cons.IH [OF rest] False none [OF Some]
        by (simp add: get_config_def bad_rows_def)
    qed
  qed
qed

lemma save_keeps_other_keys:
  "(\<And>f. f \<in> set fs \<Longrightarrow> k \<noteq> key_prefix @ field_key f) \<Longrightarrow>
   snd (save_alert_config fmt (\<lambda>_. False) fs c kv) k = kv k"
  by (induction fs arbitrary: kv) (simp_all add: set_config_def key_prefix_def)

lemma save_writes:
  "fst (save_alert_config fmt (\<lambda>_. False) fs c kv) = None"
  "f \<in> set fs \<Longrightarrow> snd (save_alert_config fmt (\<lambda>_. False) fs c kv) (key_prefix @ field_key f)
     = Some (field_get fmt f c)"
proof -
  show "fst (save_alert_config fmt (\<lambda>_. False) fs c kv) = None"
    by (induction fs arbitrary: kv) (simp_all add: set_config_def key_prefix_def)
  show "snd (save_alert_config fmt (\<lambda>_. False) fs c kv) (key_prefix @ field_key f)
     = Some (field_get fmt f c)" if "f \<in> set fs"
    using that
  proof (induction fs arbitrary: kv)
    case (Cons g fs)
    show ?case
    proof (cases "f \<in> set fs")
      case True
      then show ?thesis using Cons.IH by (simp add: set_config_def key_prefix_def)
    next
      case False
      then have "f = g" using Cons.prems by simp
      have "snd (save_alert_config fmt (\<lambda>_. False) fs c (kv(key_prefix @ field_key f \<mapsto> field_get fmt f c)))
          (key_prefix @ field_key f) = Some (field_get fmt f c)"
        using False by (subst save_keeps_other_keys) auto
      then show ?thesis using \<open>f = g\<close> by (simp add: set_config_def key_prefix_def)
    qed
  qed simp
qed

lemma validated_printable:
  assumes "validate_alert_config c = None"
    and "\<And>x. x \<in> {ac_loss_pct c, ac_disk_free_pct_floor c, ac_headroom_threshold c} \<Longrightarrow> prs (fmt x) = Some x"
  shows "fields_printable fmt prs c"
  using assms by (simp add: fields_printable_def validate_iff alert_config_ok_def)

text \<open> A configuration that \<open>Validate\<close> accepts and \<open>SaveConfig\<close> writes is what \<open>LoadConfig\<close> reads back
  after a restart, without a warning, whatever order the two loops visit the fields in and
  whatever rows the table held, provided decimal text of its three floating-point fields parses
  back.\<close>

theorem alert_config_roundtrip:
  assumes "validate_alert_config c = None"
    and "\<And>x. x \<in> {ac_loss_pct c, ac_disk_free_pct_floor c, ac_headroom_threshold c} \<Longrightarrow> prs (fmt x) = Some x"
    and "set save_order = set all_fields" "set load_order = set all_fields"
  shows "load_alert_config prs (\<lambda>_. False) load_order
      (snd (save_alert_config fmt (\<lambda>_. False) save_order c kv)) = (None, c, [])"
proof -
  let ?kv = "snd (save_alert_config fmt (\<lambda>_. False) save_order c kv)"
  have "?kv (key_prefix @ field_key f) = Some (field_get fmt f c)" for f
    by (rule save_writes(2)) (simp only: assms(3) all_fields_complete)
  then have "rows_from fmt prs ?kv UNIV c load_order" by (simp add: rows_from_def)
  from load_fields_mix [OF validated_printable [of c prs fmt, OF assms(1,2)] this, of "{}" default_alert_config "[]"]
  have "load_fields prs (\<lambda>_. False) ?kv load_order default_alert_config []
      = (None, mix (set load_order) c default_alert_config, [])"
    by (simp add: mix_empty bad_rows_def)
  moreover have "mix (set load_order) c default_alert_config = c"
    by (rule mix_all) (simp only: assms(4) all_fields_complete)
  ultimately show ?thesis by (simp add: load_alert_config_def)
qed

definition demo_fmt :: "rat \<Rightarrow> string" where
  "demo_fmt x = (if x = 20 then ''20'' else if x = 5 / 100 then ''0.05'' else ''1.2'')"

definition demo_prs :: "string \<Rightarrow> rat option" where
  "demo_prs s = (if s = ''20'' then Some 20 else if s = ''0.05'' then Some (5 / 100)
     else if s = ''1.2'' then Some (12 / 10) else None)"

lemma alert_config_roundtrip_witness:
  "load_alert_config demo_prs (\<lambda>_. False) (rev all_fields)
      (snd (save_alert_config demo_fmt (\<lambda>_. False) all_fields default_alert_config Map.empty))
   = (None, default_alert_config, [])"
proof (rule alert_config_roundtrip)
  show "validate_alert_config default_alert_config = None"
    by (simp add: validate_iff alert_config_ok_def default_alert_config_def quiet_times_ok_def)
  show "demo_prs (demo_fmt x) = Some x"
    if "x \<in> {ac_loss_pct default_alert_config, ac_disk_free_pct_floor default_alert_config,
        ac_headroom_threshold default_alert_config}" for x
    using that by (auto simp: default_alert_config_def demo_fmt_def demo_prs_def)
qed simp_all

text \<open> Loading never fails on a corrupt row: when every row is absent, unparseable, or the text of
  \<open>c\<close>'s value, the result has \<open>c\<close>'s value in exactly the fields with a good row, the compiled default
  in all the others, and one warning for every unparseable row, in the order visited.\<close>

theorem corrupt_rows_keep_defaults:
  assumes "fields_printable fmt prs c" "rows_from fmt prs kv G c order"
    and "set order = set all_fields"
  shows "load_alert_config prs (\<lambda>_. False) order kv
    = (None, mix G c default_alert_config, bad_rows kv G order)"
proof -
  have "set order = UNIV" using assms(3) all_fields_complete by blast
  then show ?thesis
    using load_fields_mix [OF assms(1,2), of "{}" default_alert_config "[]"]
    by (simp add: load_alert_config_def mix_empty)
qed

lemma corrupt_rows_keep_defaults_witness:
  "load_alert_config demo_prs (\<lambda>_. False) all_fields
     [''alert.topic'' \<mapsto> ''ops'', ''alert.sustain_s'' \<mapsto> ''2m'']
   = (None, mix {FTopic} (default_alert_config\<lparr>ac_topic := ''ops''\<rparr>) default_alert_config,
      bad_rows [''alert.topic'' \<mapsto> ''ops'', ''alert.sustain_s'' \<mapsto> ''2m''] {FTopic} all_fields)"
proof (rule corrupt_rows_keep_defaults [where fmt = demo_fmt])
  show "fields_printable demo_fmt demo_prs (default_alert_config\<lparr>ac_topic := ''ops''\<rparr>)"
    by (simp add: fields_printable_def default_alert_config_def demo_fmt_def demo_prs_def)
  have "go_atoi ''2m'' = None" by code_simp
  then show "rows_from demo_fmt demo_prs [''alert.topic'' \<mapsto> ''ops'', ''alert.sustain_s'' \<mapsto> ''2m'']
      {FTopic} (default_alert_config\<lparr>ac_topic := ''ops''\<rparr>) all_fields"
    by (simp add: rows_from_def all_fields_def key_prefix_def)
qed simp

end
