(* ===== verification/AlertStore.thy ===== *)
theory AlertStore
  imports AlertConfig "HOL-Library.List_Lexorder" "HOL-Library.Char_ord"
begin

text \<open>
  \<open>internal/storage/alerts.go\<close>: the tables of the alerting subsystem (incident states, the
  notification queue, the history log) and the \<open>config\<close> row that buffers quiet-hours events, as one
  state record shared by the engine and the sender. Every statement may fail: the record carries
  the list of coming outcomes (\<open>al_faults\<close>, one entry per statement, an exhausted list meaning
  success), and a failed statement changes no table. Texts built by \<open>fmt.Sprintf\<close> are the
  constructors of \<open>alert_message\<close>, one per format string, applied to the values formatted.
\<close>

section \<open>Rows\<close>

datatype alert_event = ProbeOffline | TargetLoss | LatencyHigh | Derate | CapacityLow

fun event_name :: "alert_event \<Rightarrow> string" where
  "event_name ProbeOffline = ''probe_offline''"
| "event_name TargetLoss = ''target_loss''"
| "event_name LatencyHigh = ''latency''"
| "event_name Derate = ''derate''"
| "event_name CapacityLow = ''capacity''"

datatype alert_message =
    MsgOffline string instant
  | MsgProbeRecovered string
  | MsgUnreachable string rat duration
  | MsgReachable string
  | MsgLatencyOver string int int string duration
  | MsgLatencyBack string int
  | MsgDerate string
  | MsgDerateOver
  | MsgText string
  | MsgRemoved string alert_event

text \<open>\<open>AlertState\<close>: the state column holds ``raising'' or ``active''.\<close>

datatype incident_phase = Raising | Active

record incident =
  in_event :: alert_event
  in_subject :: string
  in_phase :: incident_phase
  in_since :: int
  in_notified :: "int option"

datatype summary_line =
    LineRecovered int alert_message int
  | LineStillActive int alert_message
  | LineCleared int alert_message

datatype alert_body = BodyMessage alert_message | BodyLines "summary_line list"

record queue_item =
  qi_id :: nat
  qi_created :: int
  qi_title :: "rune list"
  qi_body :: alert_body
  qi_priority :: string
  qi_attempts :: nat

datatype history_kind = HAlert | HRecovered | HCleared

record history_row =
  hr_id :: nat
  hr_ts :: int
  hr_event :: alert_event
  hr_subject :: string
  hr_kind :: history_kind
  hr_message :: alert_message

record summary_entry =
  se_ts :: int
  se_event :: alert_event
  se_subject :: string
  se_msg :: alert_message
  se_recovery :: bool

text \<open>The row \<open>alert.summary_pending\<close>: its value is the JSON text of a list of entries, or a text that
  does not decode to one.\<close>

datatype summary_row = NoRow | Entries "summary_entry list" | CorruptRow

record alerting =
  al_cfg :: alert_config
  al_last :: "string \<rightharpoonup> instant"
  al_sent :: "instant list"
  al_states :: "incident list"
  al_queue :: "queue_item list"
  al_queue_seq :: nat
  al_history :: "history_row list"
  al_history_seq :: nat
  al_summary :: summary_row
  al_faults :: "bool list"

section \<open>Statements\<close>

definition take_fault :: "alerting \<Rightarrow> bool \<times> alerting" where
  "take_fault w = (case al_faults w of [] \<Rightarrow> (False, w) | b # bs \<Rightarrow> (b, w\<lparr>al_faults := bs\<rparr>))"

definition db_exec :: "(alerting \<Rightarrow> alerting) \<Rightarrow> alerting \<Rightarrow> bool \<times> alerting" where
  "db_exec f w = (case take_fault w of (fails, w') \<Rightarrow> if fails then (False, w') else (True, f w'))"

definition list_alert_states :: "alerting \<Rightarrow> incident list option \<times> alerting" where
  "list_alert_states w = (case take_fault w of (fails, w') \<Rightarrow>
     (if fails then None else Some (al_states w'), w'))"

definition same_incident :: "alert_event \<Rightarrow> string \<Rightarrow> incident \<Rightarrow> bool" where
  "same_incident ev subj r \<longleftrightarrow> in_event r = ev \<and> in_subject r = subj"

fun upsert_row :: "incident \<Rightarrow> incident list \<Rightarrow> incident list" where
  "upsert_row a [] = [a]"
| "upsert_row a (r # rs) =
     (if same_incident (in_event a) (in_subject a) r
      then r\<lparr>in_phase := in_phase a, in_since := in_since a, in_notified := in_notified a\<rparr> # rs
      else r # upsert_row a rs)"

definition upsert_alert_state :: "incident \<Rightarrow> alerting \<Rightarrow> bool \<times> alerting" where
  "upsert_alert_state a = db_exec (\<lambda>w. w\<lparr>al_states := upsert_row a (al_states w)\<rparr>)"

definition delete_alert_state :: "alert_event \<Rightarrow> string \<Rightarrow> alerting \<Rightarrow> bool \<times> alerting" where
  "delete_alert_state ev subj =
     db_exec (\<lambda>w. w\<lparr>al_states := filter (\<lambda>r. \<not> same_incident ev subj r) (al_states w)\<rparr>)"

definition enqueue_alert :: "rune list \<Rightarrow> alert_body \<Rightarrow> string \<Rightarrow> instant \<Rightarrow> alerting \<Rightarrow> bool \<times> alerting" where
  "enqueue_alert title body priority created =
     db_exec (\<lambda>w. w\<lparr>al_queue := al_queue w @ [\<lparr>qi_id = al_queue_seq w + 1, qi_created = unix_milli created,
          qi_title = title, qi_body = body,
          qi_priority = (if priority = [] then ''default'' else priority), qi_attempts = 0\<rparr>],
        al_queue_seq := al_queue_seq w + 1\<rparr>)"

text \<open>\<open>SELECT ... ORDER BY id ASC LIMIT 1\<close>: the row of the smallest id.\<close>

fun oldest_item :: "queue_item list \<Rightarrow> queue_item option" where
  "oldest_item [] = None"
| "oldest_item (q # qs) = (case oldest_item qs of None \<Rightarrow> Some q
     | Some p \<Rightarrow> if qi_id p < qi_id q then Some p else Some q)"

definition next_queued_alert :: "alerting \<Rightarrow> queue_item option option \<times> alerting" where
  "next_queued_alert w = (case take_fault w of (fails, w') \<Rightarrow>
     (if fails then None else Some (oldest_item (al_queue w')), w'))"

definition alert_queue_depth :: "alerting \<Rightarrow> nat option \<times> alerting" where
  "alert_queue_depth w = (case take_fault w of (fails, w') \<Rightarrow>
     (if fails then None else Some (length (al_queue w')), w'))"

definition delete_queued_alert :: "nat \<Rightarrow> alerting \<Rightarrow> bool \<times> alerting" where
  "delete_queued_alert i = db_exec (\<lambda>w. w\<lparr>al_queue := filter (\<lambda>q. qi_id q \<noteq> i) (al_queue w)\<rparr>)"

definition bump_alert_attempts :: "nat \<Rightarrow> alerting \<Rightarrow> bool \<times> alerting" where
  "bump_alert_attempts i = db_exec (\<lambda>w. w\<lparr>al_queue :=
     map (\<lambda>q. if qi_id q = i then q\<lparr>qi_attempts := qi_attempts q + 1\<rparr> else q) (al_queue w)\<rparr>)"

definition append_alert_history :: "int \<Rightarrow> alert_event \<Rightarrow> string \<Rightarrow> history_kind \<Rightarrow> alert_message
    \<Rightarrow> alerting \<Rightarrow> bool \<times> alerting" where
  "append_alert_history ts ev subj kind msg =
     db_exec (\<lambda>w. w\<lparr>al_history := al_history w @ [\<lparr>hr_id = al_history_seq w + 1, hr_ts = ts,
          hr_event = ev, hr_subject = subj, hr_kind = kind, hr_message = msg\<rparr>],
        al_history_seq := al_history_seq w + 1\<rparr>)"

text \<open>\<open>ListAlertHistory\<close>: newest first, at most \<open>limit\<close> rows, a limit outside 1 to 1000 being 200.\<close>

definition list_alert_history :: "int \<Rightarrow> alerting \<Rightarrow> history_row list option \<times> alerting" where
  "list_alert_history limit w =
     (let n = (if limit < 1 \<or> limit > 1000 then 200 else limit)
      in case take_fault w of (fails, w') \<Rightarrow>
        (if fails then None
         else Some (take (nat n) (rev (sort_key hr_ts (sort_key (\<lambda>r. int (hr_id r)) (al_history w'))))), w'))"

definition delete_alert_history_older_than :: "instant \<Rightarrow> alerting \<Rightarrow> nat option \<times> alerting" where
  "delete_alert_history_older_than cutoff w = (case take_fault w of (fails, w') \<Rightarrow>
     if fails then (None, w')
     else (Some (length (filter (\<lambda>r. hr_ts r < unix_milli cutoff) (al_history w'))),
           w'\<lparr>al_history := filter (\<lambda>r. \<not> hr_ts r < unix_milli cutoff) (al_history w')\<rparr>))"

text \<open>The summary row through \<open>GetConfig\<close>, \<open>SetConfig\<close> and \<open>DeleteConfig\<close>.\<close>

definition get_summary :: "alerting \<Rightarrow> summary_row option \<times> alerting" where
  "get_summary w = (case take_fault w of (fails, w') \<Rightarrow> (if fails then None else Some (al_summary w'), w'))"

definition put_summary :: "summary_entry list \<Rightarrow> alerting \<Rightarrow> bool \<times> alerting" where
  "put_summary es = db_exec (\<lambda>w. w\<lparr>al_summary := Entries es\<rparr>)"

definition drop_summary :: "alerting \<Rightarrow> bool \<times> alerting" where
  "drop_summary = db_exec (\<lambda>w. w\<lparr>al_summary := NoRow\<rparr>)"

section \<open>Incident rows as a table keyed by event and subject\<close>

definition find_incident :: "alert_event \<Rightarrow> string \<Rightarrow> incident list \<Rightarrow> incident option" where
  "find_incident ev subj rs = find (same_incident ev subj) rs"

definition incident_key_of :: "incident \<Rightarrow> alert_event \<times> string" where
  "incident_key_of r = (in_event r, in_subject r)"

definition distinct_incidents :: "incident list \<Rightarrow> bool" where
  "distinct_incidents rs \<longleftrightarrow> distinct (map incident_key_of rs)"

lemma incident_key_upsert:
  "incident_key_of ` set (upsert_row a rs) = insert (incident_key_of a) (incident_key_of ` set rs)"
  by (induction rs) (auto simp: same_incident_def incident_key_of_def)

lemma distinct_upsert [inv_facts]:
  "distinct_incidents rs \<Longrightarrow> distinct_incidents (upsert_row a rs)"
proof (induction rs)
  case (Cons r rs)
  have "incident_key_of r \<notin> incident_key_of ` set (upsert_row a rs)"
    if "\<not> same_incident (in_event a) (in_subject a) r"
    using Cons.prems that incident_key_upsert [of a rs]
    by (auto simp: distinct_incidents_def same_incident_def incident_key_of_def)
  then show ?case using Cons by (auto simp: distinct_incidents_def incident_key_of_def)
qed (simp add: distinct_incidents_def)

lemma distinct_filter [inv_facts]:
  "distinct_incidents rs \<Longrightarrow> distinct_incidents (filter P rs)"
  by (simp add: distinct_incidents_def distinct_map_filter)

lemma find_upsert [view_facts]:
  "find_incident ev subj (upsert_row a rs)
   = (if in_event a = ev \<and> in_subject a = subj then Some a else find_incident ev subj rs)"
proof (induction rs)
  case Nil
  then show ?case by (simp add: find_incident_def same_incident_def)
next
  case (Cons r rs)
  then show ?case by (auto simp: find_incident_def same_incident_def)
qed

lemma find_filter_same [view_facts]:
  "find_incident ev subj (filter (\<lambda>r. \<not> same_incident ev' subj' r) rs)
   = (if ev = ev' \<and> subj = subj' then None else find_incident ev subj rs)"
  by (induction rs) (auto simp: find_incident_def same_incident_def)

lemma find_incident_Some: "find_incident ev subj rs = Some r \<Longrightarrow> r \<in> set rs \<and> in_event r = ev \<and> in_subject r = subj"
  by (auto simp: find_incident_def find_Some_iff same_incident_def)

lemma find_incident_None: "find_incident ev subj rs = None \<longleftrightarrow> (ev, subj) \<notin> incident_key_of ` set rs"
  by (auto simp: find_incident_def find_None_iff same_incident_def incident_key_of_def)

lemma find_incident_mem:
  "distinct_incidents rs \<Longrightarrow> r \<in> set rs \<Longrightarrow> find_incident (in_event r) (in_subject r) rs = Some r"
  by (induction rs) (auto simp: distinct_incidents_def find_incident_def same_incident_def incident_key_of_def
      rev_image_eqI)

section \<open>What a statement leaves alone\<close>

lemma take_fault_frame [simp]:
  "al_cfg (snd (take_fault w)) = al_cfg w" "al_last (snd (take_fault w)) = al_last w"
  "al_sent (snd (take_fault w)) = al_sent w" "al_states (snd (take_fault w)) = al_states w"
  "al_queue (snd (take_fault w)) = al_queue w" "al_queue_seq (snd (take_fault w)) = al_queue_seq w"
  "al_history (snd (take_fault w)) = al_history w"
  "al_history_seq (snd (take_fault w)) = al_history_seq w"
  "al_summary (snd (take_fault w)) = al_summary w"
  by (simp_all add: take_fault_def split: list.split)

lemma take_fault_none [simp]: "al_faults w = [] \<Longrightarrow> take_fault w = (False, w)"
  by (simp add: take_fault_def)

lemma db_exec_none [simp]: "al_faults w = [] \<Longrightarrow> db_exec f w = (True, f w)"
  by (simp add: db_exec_def)

lemma db_exec_cases:
  obtains (fails) "db_exec f w = (False, snd (take_fault w))"
  | (succeeds) "db_exec f w = (True, f (snd (take_fault w)))"
proof (cases "take_fault w")
  case (Pair a b)
  then show thesis using fails succeeds by (cases a) (auto simp: db_exec_def)
qed

lemma db_exec_keeps:
  assumes "\<And>w. g (f w) = g w" and "g (snd (take_fault w)) = g w"
  shows "g (snd (db_exec f w)) = g w"
  by (rule db_exec_cases [of f w]) (simp_all add: assms)

lemmas statement_defs = upsert_alert_state_def delete_alert_state_def enqueue_alert_def
  delete_queued_alert_def bump_alert_attempts_def append_alert_history_def put_summary_def
  drop_summary_def

end
