(* ===== verification/AlertEngine.thy ===== *)
theory AlertEngine
  imports AlertStore
begin

text \<open>
  \<open>internal/alert/engine.go\<close>: one evaluation pass (\<open>Tick\<close>) over the injected providers, the
  per-incident state machine (\<open>step\<close>, \<open>raise\<close>), the delivery gates (quiet hours, cooldown, rate
  limit), the quiet-hours summary and the sweep of incidents whose subject is no longer monitored.

  What a tick reads from outside is its input record: the time, the local wall clock, the answers
  of the providers (an absent provider, an error, or a value), and the rendering of a summary line
  under the local time zone. A Go map is given by the list of its entries in the order of this
  tick's iteration.
\<close>

section \<open>Inputs\<close>

record thresholds =
  th_warning :: "int option"
  th_critical :: "int option"

record window_stats =
  ws_sent :: int
  ws_received :: int
  ws_avg_rtt_us :: int

record capacity_verdict =
  cv_valid :: bool
  cv_tripped :: bool
  cv_alert_msg :: string
  cv_recover_msg :: string

record tick_input =
  ti_now :: instant
  ti_clock :: "int \<times> int"
  ti_render :: "summary_line \<Rightarrow> string"
  ti_probes :: "(string \<times> instant) list option option"
  ti_targets :: "(string \<times> thresholds) list option"
  ti_window :: "(string \<Rightarrow> instant \<Rightarrow> instant \<Rightarrow> window_stats option) option"
  ti_derate :: "(bool \<times> string) option option"
  ti_capacity :: "(bool \<Rightarrow> capacity_verdict option) option"

definition probe_offline_after :: duration where "probe_offline_after = 180 * go_second"

definition new_alert_engine :: "alert_config \<Rightarrow> alerting \<Rightarrow> alerting" where
  "new_alert_engine cfg db = db\<lparr>al_cfg := cfg, al_last := Map.empty, al_sent := []\<rparr>"

definition reconfigure :: "alert_config \<Rightarrow> alerting \<Rightarrow> alerting" where
  "reconfigure cfg w = w\<lparr>al_cfg := cfg\<rparr>"

definition quiet_now :: "alert_config \<Rightarrow> tick_input \<Rightarrow> bool" where
  "quiet_now cfg inp = in_quiet_window (ti_clock inp) (ac_quiet_start cfg) (ac_quiet_end cfg)"

definition incident_key :: "alert_event \<Rightarrow> string \<Rightarrow> string" where
  "incident_key ev subj = event_name ev @ CHR ''|'' # subj"

section \<open>Delivery\<close>

definition sanitize_latin1 :: "rune list \<Rightarrow> rune list" where
  "sanitize_latin1 s = map (\<lambda>r. if r > 255 then of_char CHR ''?'' else r) s"

definition load_summary :: "alerting \<Rightarrow> summary_entry list option \<times> alerting" where
  "load_summary w = (case get_summary w of
     (None, w') \<Rightarrow> (None, w')
   | (Some NoRow, w') \<Rightarrow> (Some [], w')
   | (Some CorruptRow, w') \<Rightarrow> (Some [], w')
   | (Some (Entries es), w') \<Rightarrow> (Some es, w'))"

text \<open>\<open>entries, _ := e.loadSummary(ctx)\<close>: an error counts as an empty buffer.\<close>

definition append_summary :: "summary_entry \<Rightarrow> alerting \<Rightarrow> bool \<times> alerting" where
  "append_summary en w = (case load_summary w of (es, w') \<Rightarrow>
     put_summary ((case es of None \<Rightarrow> [] | Some l \<Rightarrow> l) @ [en]) w')"

text \<open>The sliding-hour rate limit: whether a slot was free, and the recorded times.\<close>

definition take_slot :: "int \<Rightarrow> instant \<Rightarrow> instant list \<Rightarrow> bool \<times> instant list" where
  "take_slot limit now sent =
     (let kept = filter (\<lambda>t. t > now - go_hour) sent
      in if int (length kept) \<ge> limit then (False, kept) else (True, kept @ [now]))"

definition alert_title :: "alert_event \<Rightarrow> rune list" where
  "alert_title ev = sanitize_latin1 (runes (''hoptrail: '' @ event_name ev))"

definition recovered_title :: "rune list" where
  "recovered_title = sanitize_latin1 (runes ''hoptrail: recovered'')"

definition gated_enqueue :: "alert_config \<Rightarrow> tick_input \<Rightarrow> alert_event \<Rightarrow> string \<Rightarrow> alert_message
    \<Rightarrow> string \<Rightarrow> bool \<Rightarrow> alerting \<Rightarrow> bool \<times> alerting" where
  "gated_enqueue cfg inp ev subj msg prio recovery w =
     (let now = ti_now inp
      in if quiet_now cfg inp
         then append_summary \<lparr>se_ts = unix_milli now, se_event = ev, se_subject = subj, se_msg = msg,
                se_recovery = recovery\<rparr> w
         else if recovery
         then enqueue_alert recovered_title (BodyMessage msg) ''default'' now w
         else (case take_slot (ac_rate_limit_per_h cfg) now (al_sent w) of
             (False, kept) \<Rightarrow> (False, w\<lparr>al_sent := kept\<rparr>)
           | (True, sent) \<Rightarrow> enqueue_alert (alert_title ev) (BodyMessage msg) prio now (w\<lparr>al_sent := sent\<rparr>)))"

definition deliver :: "alert_config \<Rightarrow> tick_input \<Rightarrow> alert_event \<Rightarrow> string \<Rightarrow> alert_message \<Rightarrow> string
    \<Rightarrow> bool \<Rightarrow> alerting \<Rightarrow> bool \<times> alerting" where
  "deliver cfg inp ev subj msg prio recovery w =
     gated_enqueue cfg inp ev subj msg prio recovery
       (snd (append_alert_history (unix_milli (ti_now inp)) ev subj
              (if recovery then HRecovered else HAlert) msg w))"

text \<open>\<open>raise\<close> mutates the incident it is given; the result is the incident and the state.\<close>

definition raise_incident :: "alert_config \<Rightarrow> tick_input \<Rightarrow> incident \<Rightarrow> alert_event \<Rightarrow> string
    \<Rightarrow> alert_message \<Rightarrow> string \<Rightarrow> alerting \<Rightarrow> incident \<times> alerting" where
  "raise_incident cfg inp st ev subj msg prio w =
     (let st1 = st\<lparr>in_phase := Active\<rparr>;
          key = incident_key ev subj;
          now = ti_now inp;
          suppressed = (case al_last w key of None \<Rightarrow> False
            | Some prev \<Rightarrow> now - prev < ac_cooldown_s cfg * go_second)
      in if suppressed then (st1, w)
         else (case deliver cfg inp ev subj msg prio False (w\<lparr>al_last := (al_last w)(key \<mapsto> now)\<rparr>) of
             (True, w') \<Rightarrow> (st1\<lparr>in_notified := Some (unix_milli now)\<rparr>, w')
           | (False, w') \<Rightarrow> (st1, w')))"

section \<open>The incident state machine\<close>

type_synonym incident_map = "string \<rightharpoonup> incident"

definition alert_step :: "alert_config \<Rightarrow> tick_input \<Rightarrow> alert_event \<Rightarrow> string \<Rightarrow> bool \<Rightarrow> duration
    \<Rightarrow> alert_message \<Rightarrow> alert_message \<Rightarrow> string \<Rightarrow> incident_map \<times> alerting \<Rightarrow> incident_map \<times> alerting" where
  "alert_step cfg inp ev subj condition sustain amsg rmsg prio sw =
     (case sw of (so, w) \<Rightarrow>
      (let key = incident_key ev subj; now = ti_now inp in
       case so key of
         None \<Rightarrow>
           if condition then
             (let ns = \<lparr>in_event = ev, in_subject = subj, in_phase = Raising,
                        in_since = unix_milli now, in_notified = None\<rparr>;
                  (ns', w1) = (if sustain = 0 then raise_incident cfg inp ns ev subj amsg prio w else (ns, w))
              in (so, snd (upsert_alert_state ns' w1)))
           else (so, w)
       | Some st \<Rightarrow>
           if condition \<and> in_phase st = Raising then
             (if now - of_unix_milli (in_since st) \<ge> sustain then
                (let (st', w1) = raise_incident cfg inp st ev subj amsg prio w
                 in (so(key \<mapsto> st'), snd (upsert_alert_state st' w1)))
              else (so, w))
           else if \<not> condition then
             (let w1 = (if in_phase st = Active \<and> in_notified st \<noteq> None
                        then snd (deliver cfg inp ev subj rmsg ''default'' True w) else w)
              in (so, snd (delete_alert_state ev subj w1)))
           else (so, w)))"

section \<open>The quiet-hours summary\<close>

type_synonym fold_pairs = "string list \<times> (string \<rightharpoonup> summary_entry option \<times> summary_entry option)"

definition fold_entry :: "fold_pairs \<Rightarrow> summary_entry \<Rightarrow> fold_pairs" where
  "fold_entry op en =
     (let k = incident_key (se_event en) (se_subject en);
          order' = (if snd op k = None then fst op @ [k] else fst op);
          p = (case snd op k of None \<Rightarrow> (None, None) | Some p \<Rightarrow> p);
          p' = (if se_recovery en then (fst p, Some en)
                else if fst p = None then (Some en, snd p) else p)
      in (order', (snd op)(k \<mapsto> p')))"

definition pair_entries :: "summary_entry list \<Rightarrow> fold_pairs" where
  "pair_entries es = foldl fold_entry ([], Map.empty) es"

fun pair_line :: "summary_entry option \<times> summary_entry option \<Rightarrow> summary_line list" where
  "pair_line (Some r, Some c) = [LineRecovered (se_ts r) (se_msg r) (se_ts c)]"
| "pair_line (Some r, None) = [LineStillActive (se_ts r) (se_msg r)]"
| "pair_line (None, Some c) = [LineCleared (se_ts c) (se_msg c)]"
| "pair_line (None, None) = []"

definition summary_lines :: "fold_pairs \<Rightarrow> summary_line list" where
  "summary_lines op = concat (map (\<lambda>k. case snd op k of None \<Rightarrow> [] | Some p \<Rightarrow> pair_line p) (fst op))"

definition summary_title :: "nat \<Rightarrow> rune list" where
  "summary_title n = sanitize_latin1
     (runes (''hoptrail: '' @ nat_dec n @ '' alert(s) during quiet hours''))"

definition flush_summary :: "tick_input \<Rightarrow> alerting \<Rightarrow> bool \<times> alerting" where
  "flush_summary inp w = (case load_summary w of
     (None, w1) \<Rightarrow> (False, w1)
   | (Some es, w1) \<Rightarrow>
       if es = [] then (True, w1)
       else (let op = pair_entries es;
                 lines = sort_key (ti_render inp) (summary_lines op)
             in case enqueue_alert (summary_title (length (fst op))) (BodyLines lines) ''default''
                       (ti_now inp) w1 of
                  (False, w2) \<Rightarrow> (False, w2)
                | (True, w2) \<Rightarrow> drop_summary w2))"

section \<open>The sections of a tick\<close>

text \<open>A section that returns an error ends the tick: \<^const>\<open>Inl\<close> of the state reached.\<close>

type_synonym section_result = "alerting + incident_map \<times> alerting"

definition probe_step :: "alert_config \<Rightarrow> tick_input \<Rightarrow> string \<times> instant \<Rightarrow> incident_map \<times> alerting
    \<Rightarrow> incident_map \<times> alerting" where
  "probe_step cfg inp p = (case p of (i, last_seen) \<Rightarrow>
     alert_step cfg inp ProbeOffline i (ti_now inp - last_seen > probe_offline_after) 0
       (MsgOffline i last_seen) (MsgProbeRecovered i) ''high'')"

definition probe_section :: "alert_config \<Rightarrow> tick_input \<Rightarrow> incident_map \<times> alerting \<Rightarrow> section_result" where
  "probe_section cfg inp sw =
     (case ti_probes inp of
        None \<Rightarrow> Inr sw
      | Some answer \<Rightarrow>
          if \<not> ac_ev_probe_offline cfg then Inr sw
          else (case answer of None \<Rightarrow> Inl (snd sw)
                | Some ps \<Rightarrow> Inr (fold (probe_step cfg inp) ps sw)))"

definition min_samples :: int where "min_samples = 10"

definition target_step :: "alert_config \<Rightarrow> tick_input \<Rightarrow> string \<Rightarrow> thresholds \<Rightarrow> window_stats
    \<Rightarrow> incident_map \<times> alerting \<Rightarrow> incident_map \<times> alerting" where
  "target_step cfg inp target thr st sw =
     (let sustain = ac_sustain_s cfg * go_second in
      if ws_sent st \<ge> min_samples then
        (let sw1 = (if ac_ev_target_loss cfg then
               (let loss = 100 * of_int (ws_sent st - ws_received st) / of_int (ws_sent st) :: rat
                in alert_step cfg inp TargetLoss target (loss \<ge> ac_loss_pct cfg) sustain
                     (MsgUnreachable target loss sustain) (MsgReachable target) ''high'' sw)
               else sw)
         in if ac_ev_latency cfg \<and> ws_received st > 0 then
              (case (if ac_latency_level cfg = ''warning'' then th_warning thr else th_critical thr) of
                 None \<Rightarrow> sw1
               | Some limit \<Rightarrow>
                   (let avg = go_quot (ws_avg_rtt_us st) 1000
                    in alert_step cfg inp LatencyHigh target (avg > limit) sustain
                         (MsgLatencyOver target avg limit (ac_latency_level cfg) sustain)
                         (MsgLatencyBack target limit) ''default'' sw1))
            else sw1)
      else sw)"

fun target_section :: "alert_config \<Rightarrow> tick_input \<Rightarrow> (string \<times> thresholds) list
    \<Rightarrow> incident_map \<times> alerting \<Rightarrow> section_result" where
  "target_section cfg inp [] sw = Inr sw"
| "target_section cfg inp ((target, thr) # ts) sw =
     (case ti_window inp of
        None \<Rightarrow> Inr sw
      | Some stats \<Rightarrow>
          (case stats target (ti_now inp - ac_sustain_s cfg * go_second) (ti_now inp) of
             None \<Rightarrow> Inl (snd sw)
           | Some st \<Rightarrow> target_section cfg inp ts (target_step cfg inp target thr st sw)))"

definition derate_section :: "alert_config \<Rightarrow> tick_input \<Rightarrow> incident_map \<times> alerting \<Rightarrow> section_result" where
  "derate_section cfg inp sw =
     (case ti_derate inp of
        None \<Rightarrow> Inr sw
      | Some answer \<Rightarrow>
          if \<not> ac_ev_derate cfg then Inr sw
          else (case answer of None \<Rightarrow> Inl (snd sw)
                | Some (active, desc) \<Rightarrow>
                    Inr (alert_step cfg inp Derate ''bandwidth'' active 0 (MsgDerate desc) MsgDerateOver
                           ''default'' sw)))"

definition state_active :: "incident_map \<Rightarrow> alert_event \<Rightarrow> string \<Rightarrow> bool" where
  "state_active so ev subj = (case so (incident_key ev subj) of None \<Rightarrow> False
     | Some st \<Rightarrow> in_phase st = Active)"

definition capacity_section :: "alert_config \<Rightarrow> tick_input \<Rightarrow> incident_map \<times> alerting
    \<Rightarrow> incident_map \<times> alerting" where
  "capacity_section cfg inp sw =
     (case ti_capacity inp of
        None \<Rightarrow> sw
      | Some prov \<Rightarrow>
          if \<not> ac_ev_capacity cfg then sw
          else (case prov (state_active (fst sw) CapacityLow ''disk'') of
                  None \<Rightarrow> sw
                | Some v \<Rightarrow> if cv_valid v
                    then alert_step cfg inp CapacityLow ''disk'' (cv_tripped v) 0
                           (MsgText (cv_alert_msg v)) (MsgText (cv_recover_msg v)) ''high'' sw
                    else sw))"

definition is_orphan :: "alert_config \<Rightarrow> tick_input \<Rightarrow> incident \<Rightarrow> bool" where
  "is_orphan cfg inp st =
     (let probes_evaluated = (ac_ev_probe_offline cfg \<and> ti_probes inp \<noteq> None);
          probes = (case ti_probes inp of Some (Some ps) \<Rightarrow> map fst ps | _ \<Rightarrow> []);
          targets = (case ti_targets inp of Some ts \<Rightarrow> map fst ts | None \<Rightarrow> [])
      in case in_event st of
           ProbeOffline \<Rightarrow> probes_evaluated \<and> in_subject st \<notin> set probes
         | TargetLoss \<Rightarrow> ac_ev_target_loss cfg \<and> ti_targets inp \<noteq> None \<and> in_subject st \<notin> set targets
         | LatencyHigh \<Rightarrow> ac_ev_latency cfg \<and> ti_targets inp \<noteq> None \<and> in_subject st \<notin> set targets
         | _ \<Rightarrow> False)"

definition clear_orphan :: "tick_input \<Rightarrow> incident \<Rightarrow> alerting \<Rightarrow> alerting" where
  "clear_orphan inp st w =
     (let w1 = (if in_phase st = Active
                then snd (append_alert_history (unix_milli (ti_now inp)) (in_event st) (in_subject st)
                            HCleared (MsgRemoved (in_subject st) (in_event st)) w)
                else w)
      in case delete_alert_state (in_event st) (in_subject st) w1 of
           (False, w2) \<Rightarrow> w2
         | (True, w2) \<Rightarrow> w2\<lparr>al_last := (al_last w2)(incident_key (in_event st) (in_subject st) := None)\<rparr>)"

text \<open>The sweep visits the incidents the tick started with, as the steps left them in the map.\<close>

definition orphan_sweep :: "alert_config \<Rightarrow> tick_input \<Rightarrow> incident list \<Rightarrow> incident_map \<times> alerting \<Rightarrow> alerting" where
  "orphan_sweep cfg inp rows sw =
     fold (\<lambda>r w. case fst sw (incident_key (in_event r) (in_subject r)) of
             None \<Rightarrow> w
           | Some st \<Rightarrow> if is_orphan cfg inp st then clear_orphan inp st w else w) rows (snd sw)"

definition incident_map_of :: "incident list \<Rightarrow> incident_map" where
  "incident_map_of rows = foldl (\<lambda>m r. m(incident_key (in_event r) (in_subject r) \<mapsto> r)) Map.empty rows"

definition tick_body :: "alert_config \<Rightarrow> tick_input \<Rightarrow> incident list \<Rightarrow> alerting \<Rightarrow> bool \<times> alerting" where
  "tick_body cfg inp rows w =
     (case probe_section cfg inp (incident_map_of rows, w) of Inl w1 \<Rightarrow> (False, w1) | Inr sw1 \<Rightarrow>
      case target_section cfg inp (case ti_targets inp of None \<Rightarrow> [] | Some ts \<Rightarrow> ts) sw1 of
        Inl w2 \<Rightarrow> (False, w2) | Inr sw2 \<Rightarrow>
      case derate_section cfg inp sw2 of Inl w3 \<Rightarrow> (False, w3) | Inr sw3 \<Rightarrow>
      (True, orphan_sweep cfg inp rows (capacity_section cfg inp sw3)))"

definition alert_tick :: "tick_input \<Rightarrow> alerting \<Rightarrow> bool \<times> alerting" where
  "alert_tick inp w =
     (let cfg = al_cfg w;
          w1 = (if quiet_now cfg inp then w else snd (flush_summary inp w))
      in if \<not> ac_enabled cfg then (True, w1)
         else (case list_alert_states w1 of
                 (None, w2) \<Rightarrow> (False, w2)
               | (Some rows, w2) \<Rightarrow> tick_body cfg inp rows w2))"

text \<open>What happens to a running engine: the ticker of \<open>Run\<close> and the settings endpoint.\<close>

datatype alert_op = OpTick tick_input | OpReconfigure alert_config

fun alert_op_step :: "alert_op \<Rightarrow> alerting \<Rightarrow> alerting" where
  "alert_op_step (OpTick inp) w = snd (alert_tick inp w)"
| "alert_op_step (OpReconfigure cfg) w = reconfigure cfg w"

definition alert_run :: "alert_op list \<Rightarrow> alerting \<Rightarrow> alerting" where
  "alert_run ops w = fold alert_op_step ops w"

section \<open>Keys and titles\<close>

lemma event_name_no_bar: "CHR ''|'' \<notin> set (event_name ev)"
  by (cases ev) simp_all

lemma event_name_inj [simp]: "event_name a = event_name b \<longleftrightarrow> a = b"
  by (cases a; cases b; simp)

lemma incident_key_inj [simp]: "incident_key e s = incident_key e' s' \<longleftrightarrow> e = e' \<and> s = s'"
proof
  assume "incident_key e s = incident_key e' s'"
  then have "split_first CHR ''|'' (incident_key e s) = split_first CHR ''|'' (incident_key e' s')" by simp
  then show "e = e' \<and> s = s'"
    by (simp add: incident_key_def split_first_at event_name_no_bar)
qed simp

lemma sanitize_ascii [simp]: "sanitize_latin1 (runes s) = runes s"
  by (auto simp: sanitize_latin1_def intro!: map_idI dest: runes_bound)

definition is_raise_item :: "queue_item \<Rightarrow> bool" where
  "is_raise_item q \<longleftrightarrow> (\<exists>ev. qi_title q = alert_title ev)"

lemma alert_title_is_no_other:
  "alert_title ev \<noteq> recovered_title" "alert_title ev \<noteq> summary_title n"
proof -
  show "alert_title ev \<noteq> recovered_title"
    by (cases ev) (simp_all add: alert_title_def recovered_title_def)
  show "alert_title ev \<noteq> summary_title n"
  proof
    assume "alert_title ev = summary_title n"
    then have "event_name ev = nat_dec n @ '' alert(s) during quiet hours''"
      by (simp add: alert_title_def summary_title_def)
    then have "hd (event_name ev) = hd (nat_dec n)" by simp
    moreover have "\<not> is_digit (hd (event_name ev))" by (cases ev) (simp_all add: is_digit_def)
    ultimately show False using nat_dec_hd_digit [of n] by simp
  qed
qed

section \<open>Invariants of a tick\<close>

text \<open>
  The contract between the tick and a property kept by it: every incident step and every orphan
  clearing keeps the property \<open>I\<close> of the incident map and the state. The body of the tick then
  keeps it whatever the providers answer.
\<close>

definition sweeping :: "alert_config \<Rightarrow> tick_input \<Rightarrow> bool" where
  "sweeping cfg inp \<longleftrightarrow> (ac_ev_probe_offline cfg \<longrightarrow> ti_probes inp \<noteq> Some None)"

locale tick_invariant =
  fixes cfg :: alert_config and inp :: tick_input and I :: "incident_map \<times> alerting \<Rightarrow> bool"
  assumes step_keeps: "I sw \<Longrightarrow> I (alert_step cfg inp ev subj c sustain am rm prio sw)"
    and orphan_keeps: "I (so, w) \<Longrightarrow> so (incident_key ev subj) = Some st \<Longrightarrow> is_orphan cfg inp st
      \<Longrightarrow> sweeping cfg inp \<Longrightarrow> I (so, clear_orphan inp st w)"
begin

lemma probe_step_keeps: "I sw \<Longrightarrow> I (probe_step cfg inp p sw)"
  by (cases p) (simp add: probe_step_def step_keeps)

lemma probes_keep: "I sw \<Longrightarrow> I (fold (probe_step cfg inp) ps sw)"
  by (induction ps arbitrary: sw) (simp_all add: probe_step_keeps)

lemma probe_section_keeps:
  "I sw \<Longrightarrow> case probe_section cfg inp sw of Inl w \<Rightarrow> \<exists>so. I (so, w)
     | Inr sw' \<Rightarrow> I sw' \<and> sweeping cfg inp"
  by (cases sw) (auto simp: probe_section_def sweeping_def intro: probes_keep split: option.splits)

lemma target_step_keeps: "I sw \<Longrightarrow> I (target_step cfg inp target thr st sw)"
  by (auto simp: target_step_def Let_def intro: step_keeps split: option.split)

lemma target_section_keeps:
  "I sw \<Longrightarrow> case target_section cfg inp ts sw of Inl w \<Rightarrow> \<exists>so. I (so, w) | Inr sw' \<Rightarrow> I sw'"
proof (induction ts arbitrary: sw)
  case (Cons t ts)
  obtain target thr where t: "t = (target, thr)" by (cases t)
  show ?case
  proof (cases "ti_window inp")
    case None
    then show ?thesis using Cons.prems by (simp add: t)
  next
    case (Some f)
    show ?thesis
    proof (cases "f target (ti_now inp - ac_sustain_s cfg * go_second) (ti_now inp)")
      case None
      then show ?thesis using Cons.prems Some by (cases sw) (auto simp: t)
    next
      case stats: (Some st)
      then show ?thesis using Cons.IH [OF target_step_keeps [OF Cons.prems]] Some by (simp add: t)
    qed
  qed
qed simp

lemma derate_section_keeps:
  "I sw \<Longrightarrow> case derate_section cfg inp sw of Inl w \<Rightarrow> \<exists>so. I (so, w) | Inr sw' \<Rightarrow> I sw'"
  by (cases sw) (auto simp: derate_section_def intro: step_keeps split: option.split)

lemma capacity_section_keeps: "I sw \<Longrightarrow> I (capacity_section cfg inp sw)"
  by (auto simp: capacity_section_def intro: step_keeps split: option.split)

lemma orphan_sweep_keeps:
  "I (so, w) \<Longrightarrow> sweeping cfg inp \<Longrightarrow> I (so, orphan_sweep cfg inp rows (so, w))"
  unfolding orphan_sweep_def
proof (induction rows arbitrary: w)
  case (Cons r rows)
  have "I (so, case so (incident_key (in_event r) (in_subject r)) of None \<Rightarrow> w
      | Some st \<Rightarrow> if is_orphan cfg inp st then clear_orphan inp st w else w)"
    using Cons.prems orphan_keeps by (auto split: option.split)
  from Cons.IH [OF this Cons.prems(2)] show ?case by (simp split: option.split)
qed simp

lemma tick_body_keeps:
  assumes "I (incident_map_of rows, w)"
  shows "\<exists>so. I (so, snd (tick_body cfg inp rows w))"
proof (cases "probe_section cfg inp (incident_map_of rows, w)")
  case (Inl w1)
  then show ?thesis using probe_section_keeps [OF assms] by (simp add: tick_body_def)
next
  case sw1: (Inr sw1)
  have i1: "I sw1" "sweeping cfg inp" using probe_section_keeps [OF assms] sw1 by simp_all
  let ?ts = "case ti_targets inp of None \<Rightarrow> [] | Some ts \<Rightarrow> ts"
  show ?thesis
  proof (cases "target_section cfg inp ?ts sw1")
    case (Inl w2)
    then show ?thesis using target_section_keeps [OF i1(1), of ?ts] sw1 by (simp add: tick_body_def)
  next
    case sw2: (Inr sw2)
    have i2: "I sw2" using target_section_keeps [OF i1(1), of ?ts] sw2 by simp
    show ?thesis
    proof (cases "derate_section cfg inp sw2")
      case (Inl w3)
      then show ?thesis using derate_section_keeps [OF i2] sw1 sw2 by (simp add: tick_body_def)
    next
      case sw3: (Inr sw3)
      have "I sw3" using derate_section_keeps [OF i2] sw3 by simp
      then have i4: "I (capacity_section cfg inp sw3)" by (rule capacity_section_keeps)
      then show ?thesis
        using orphan_sweep_keeps [OF _ i1(2), of "fst (capacity_section cfg inp sw3)"
            "snd (capacity_section cfg inp sw3)" rows] sw1 sw2 sw3
        by (auto simp: tick_body_def)
    qed
  qed
qed

end

text \<open>A property of the state alone that statements and the flush keep as well is kept by the whole
  tick.\<close>

locale tick_state_invariant = tick_invariant cfg inp "\<lambda>sw. J (snd sw)"
  for cfg inp and J :: "alerting \<Rightarrow> bool" +
  assumes fault_keeps: "J w \<Longrightarrow> J (snd (take_fault w))"
    and flush_keeps: "J w \<Longrightarrow> \<not> quiet_now cfg inp \<Longrightarrow> J (snd (flush_summary inp w))"
begin

lemma tick_keeps:
  assumes "J w" "al_cfg w = cfg"
  shows "J (snd (alert_tick inp w))"
proof -
  define w1 where "w1 = (if quiet_now cfg inp then w else snd (flush_summary inp w))"
  have j1: "J w1" using assms(1) flush_keeps by (simp add: w1_def)
  have "snd (list_alert_states w1) = snd (take_fault w1)"
    by (simp add: list_alert_states_def split: prod.split)
  then have j2: "J (snd (list_alert_states w1))" using fault_keeps [OF j1] by simp
  show ?thesis
    using j1 j2 tick_body_keeps [of _ "snd (list_alert_states w1)"] assms(2)
    by (auto simp: alert_tick_def Let_def w1_def split: option.split prod.split)
qed

end

section \<open>A concrete engine\<close>

definition demo_alert_config :: alert_config where
  "demo_alert_config = default_alert_config
     \<lparr>ac_enabled := True, ac_server_url := ''http://n'', ac_topic := ''ops''\<rparr>"

definition demo_db :: alerting where
  "demo_db = \<lparr>al_cfg = demo_alert_config, al_last = Map.empty, al_sent = [], al_states = [], al_queue = [],
     al_queue_seq = 0, al_history = [], al_history_seq = 0, al_summary = NoRow, al_faults = []\<rparr>"

text \<open>A tick \<open>s\<close> seconds after the epoch that sees one probe whose last heartbeat was at the epoch.\<close>

definition demo_tick :: "int \<Rightarrow> tick_input" where
  "demo_tick s = \<lparr>ti_now = s * go_second, ti_clock = (12, 0), ti_render = (\<lambda>_. []),
     ti_probes = Some (Some [(''p1'', 0)]), ti_targets = None, ti_window = None, ti_derate = None,
     ti_capacity = None\<rparr>"

definition demo_ops :: "alert_op list" where
  "demo_ops = [OpTick (demo_tick 200), OpReconfigure demo_alert_config, OpTick (demo_tick 215)]"

end
