(* ===== verification/AlertLimits.thy ===== *)
theory AlertLimits
  imports AlertEngine
begin

text \<open>
  What bounds the notifications of the alerting engine: the global rate limit over every sliding
  hour and the cooldown of each incident, over arbitrary runs of ticks and reconfigurations with
  arbitrary store failures.
\<close>

section \<open>The rate limit\<close>

definition op_times :: "alert_op list \<Rightarrow> instant list" where
  "op_times ops = concat (map (\<lambda>op. case op of OpTick inp \<Rightarrow> [ti_now inp] | OpReconfigure _ \<Rightarrow> []) ops)"

definition op_configs :: "alert_op list \<Rightarrow> alert_config list" where
  "op_configs ops = concat (map (\<lambda>op. case op of OpTick _ \<Rightarrow> [] | OpReconfigure c \<Rightarrow> [c]) ops)"

text \<open>The alerts queued in the hour of 3600000 milliseconds that ends with millisecond \<open>m\<close>.\<close>

definition raises_after :: "int \<Rightarrow> alerting \<Rightarrow> nat" where
  "raises_after m w = length (filter (\<lambda>q. is_raise_item q \<and> m < qi_created q) (al_queue w))"

definition raises_in_hour :: "int \<Rightarrow> alerting \<Rightarrow> nat" where
  "raises_in_hour m w = length (filter (\<lambda>q. is_raise_item q \<and> m - 3600000 < qi_created q \<and> qi_created q \<le> m)
     (al_queue w))"

definition rate_inv :: "nat \<Rightarrow> instant \<Rightarrow> alerting \<Rightarrow> bool" where
  "rate_inv L T w \<longleftrightarrow>
     (\<forall>m \<ge> unix_milli (T - go_hour). raises_after m w \<le> length (filter (\<lambda>t. m < unix_milli t) (al_sent w)))
   \<and> (\<forall>m. raises_in_hour m w \<le> L)
   \<and> (\<forall>q \<in> set (al_queue w). is_raise_item q \<longrightarrow> qi_created q \<le> unix_milli T)"

lemma rate_inv_mono: "rate_inv L T w \<Longrightarrow> T \<le> T' \<Longrightarrow> rate_inv L T' w"
  unfolding rate_inv_def
  by (meson diff_right_mono order_trans unix_milli_mono)

lemma rate_inv_same:
  "al_queue w' = al_queue w \<Longrightarrow> al_sent w' = al_sent w \<Longrightarrow> rate_inv L T w' = rate_inv L T w"
  by (simp add: rate_inv_def raises_after_def raises_in_hour_def)

lemma unix_milli_hour: "unix_milli (t - go_hour) = unix_milli t - 3600000"
proof -
  have "t - go_hour = t + (- 3600000) * go_ms" by (simp add: go_units)
  then have "unix_milli (t - go_hour) = unix_milli (t + (- 3600000) * go_ms)" by (rule arg_cong)
  also have "\<dots> = - 3600000 + unix_milli t"
    unfolding unix_milli_def by (rule div_mult_self1) (simp add: go_ms_def)
  finally show ?thesis by simp
qed

text \<open>Dropping the entries at or before the cut loses none the invariant counts.\<close>

lemma prune_sent:
  assumes "m \<ge> unix_milli (T - go_hour)"
  shows "filter (\<lambda>t. T - go_hour < t \<and> m < unix_milli t) sent = filter (\<lambda>t. m < unix_milli t) sent"
proof -
  have "t > T - go_hour" if "m < unix_milli t" for t
  proof (rule ccontr)
    assume "\<not> T - go_hour < t"
    then have "unix_milli t \<le> unix_milli (T - go_hour)" by (intro unix_milli_mono) simp
    then show False using that assms by linarith
  qed
  then show ?thesis by (auto intro!: filter_cong)
qed

lemma rate_inv_prune:
  "rate_inv L T w \<Longrightarrow> rate_inv L T (w\<lparr>al_sent := filter (\<lambda>t. t > T - go_hour) (al_sent w)\<rparr>)"
  by (simp add: rate_inv_def raises_after_def raises_in_hour_def prune_sent)

lemma rate_inv_extra_slot:
  "rate_inv L T w \<Longrightarrow> rate_inv L T (w\<lparr>al_sent := al_sent w @ [t]\<rparr>)"
  by (force simp: rate_inv_def raises_after_def raises_in_hour_def)

definition add_item :: "queue_item \<Rightarrow> alerting \<Rightarrow> alerting" where
  "add_item q w = w\<lparr>al_queue := al_queue w @ [q], al_queue_seq := al_queue_seq w + 1\<rparr>"

lemma rate_inv_other_item:
  "rate_inv L T w \<Longrightarrow> \<not> is_raise_item q \<Longrightarrow> rate_inv L T (add_item q w)"
  by (simp add: rate_inv_def raises_after_def raises_in_hour_def add_item_def)

text \<open>The heart of the argument: an alert is queued only with a slot, and the slots of the last hour
  cover the alerts of every window that ends now or later.\<close>

lemma rate_inv_raise:
  assumes inv: "rate_inv L T w" and q: "qi_created q = unix_milli T"
    and room: "length (filter (\<lambda>t. t > T - go_hour) (al_sent w)) < L"
  shows "rate_inv L T (add_item q (w\<lparr>al_sent := filter (\<lambda>t. t > T - go_hour) (al_sent w) @ [T]\<rparr>))"
proof -
  let ?sent = "filter (\<lambda>t. t > T - go_hour) (al_sent w)"
  let ?w = "add_item q (w\<lparr>al_sent := ?sent @ [T]\<rparr>)"
  have after: "raises_after m w \<le> length (filter (\<lambda>t. m < unix_milli t) ?sent)"
    if "m \<ge> unix_milli (T - go_hour)" for m
    using inv that by (simp add: rate_inv_def prune_sent)
  have "raises_after m ?w \<le> length (filter (\<lambda>t. m < unix_milli t) (al_sent ?w))"
    if "m \<ge> unix_milli (T - go_hour)" for m
    using after [OF that] q by (simp add: raises_after_def add_item_def)
  moreover have "raises_in_hour m ?w \<le> L" for m
  proof (cases "unix_milli T \<le> m")
    case True
    have early: "qi_created p \<le> m" if "p \<in> set (al_queue w)" "is_raise_item p" for p
      using inv that True by (force simp: rate_inv_def)
    have "raises_in_hour m w \<le> raises_after (unix_milli (T - go_hour)) w"
      unfolding raises_in_hour_def raises_after_def
      using True by (intro length_filter_mono) (auto simp: unix_milli_hour)
    also have "\<dots> \<le> length (filter (\<lambda>t. unix_milli (T - go_hour) < unix_milli t) ?sent)"
      by (rule after) simp
    also have "\<dots> \<le> length ?sent" by (rule length_filter_le)
    finally show ?thesis using room by (auto simp: raises_in_hour_def add_item_def)
  next
    case False
    then show ?thesis using inv q by (simp add: rate_inv_def raises_in_hour_def add_item_def)
  qed
  moreover have "\<forall>p \<in> set (al_queue ?w). is_raise_item p \<longrightarrow> qi_created p \<le> unix_milli T"
    using inv q by (auto simp: rate_inv_def add_item_def)
  ultimately show ?thesis by (simp add: rate_inv_def)
qed

lemma rate_inv_fault: "rate_inv L T w \<Longrightarrow> rate_inv L T (snd (take_fault w))"
  by (subst rate_inv_same [of "snd (take_fault w)" w]) simp_all

lemma rate_inv_statement:
  assumes "rate_inv L T w" and "\<And>w. al_queue (f w) = al_queue w" "\<And>w. al_sent (f w) = al_sent w"
  shows "rate_inv L T (snd (db_exec f w))"
proof (rule db_exec_cases [of f w])
  show "db_exec f w = (False, snd (take_fault w)) \<Longrightarrow> ?thesis"
    by (simp add: rate_inv_fault [OF assms(1)])
  have "rate_inv L T (f (snd (take_fault w)))"
    using rate_inv_fault [OF assms(1)]
      rate_inv_same [OF assms(2,3), of L T "snd (take_fault w)"] by blast
  then show "db_exec f w = (True, f (snd (take_fault w))) \<Longrightarrow> ?thesis" by simp
qed

lemma enqueue_cases:
  obtains "enqueue_alert title body prio t w = (False, snd (take_fault w))"
  | q where "enqueue_alert title body prio t w = (True, add_item q (snd (take_fault w)))"
    "qi_created q = unix_milli t" "qi_title q = title"
  unfolding enqueue_alert_def by (rule db_exec_cases) (auto simp: add_item_def)

lemma rate_inv_enqueue_other:
  assumes "rate_inv L T w" "\<And>ev. title \<noteq> alert_title ev"
  shows "rate_inv L T (snd (enqueue_alert title body prio t w))"
proof (rule enqueue_cases [of title body prio t w])
  show "enqueue_alert title body prio t w = (False, snd (take_fault w)) \<Longrightarrow> ?thesis"
    using assms by (simp add: rate_inv_fault)
  show "?thesis" if "enqueue_alert title body prio t w = (True, add_item q (snd (take_fault w)))"
    "qi_title q = title" for q
    using rate_inv_other_item [OF rate_inv_fault [OF assms(1)], of q] assms(2) that
    by (simp add: is_raise_item_def)
qed

lemma load_summary_state: "snd (load_summary w) = snd (take_fault w)"
  by (simp add: load_summary_def get_summary_def split: prod.split option.split summary_row.split)

lemma rate_inv_append_summary: "rate_inv L T w \<Longrightarrow> rate_inv L T (snd (append_summary en w))"
  unfolding append_summary_def put_summary_def case_prod_beta
  by (rule rate_inv_statement) (simp_all add: load_summary_state rate_inv_fault)

lemma rate_inv_history: "rate_inv L T w \<Longrightarrow> rate_inv L T (snd (append_alert_history ts ev subj k m w))"
  unfolding append_alert_history_def by (rule rate_inv_statement) simp_all

lemma rate_inv_upsert: "rate_inv L T w \<Longrightarrow> rate_inv L T (snd (upsert_alert_state a w))"
  unfolding upsert_alert_state_def by (rule rate_inv_statement) simp_all

lemma rate_inv_delete: "rate_inv L T w \<Longrightarrow> rate_inv L T (snd (delete_alert_state ev subj w))"
  unfolding delete_alert_state_def by (rule rate_inv_statement) simp_all

lemma rate_inv_last: "rate_inv L T (w\<lparr>al_last := m\<rparr>) = rate_inv L T w"
  by (rule rate_inv_same) simp_all

lemma rate_inv_take_slot:
  assumes inv: "rate_inv L (ti_now inp) w" and lim: "limit \<le> int L"
    and slot: "take_slot limit (ti_now inp) (al_sent w) = (ok, sent)"
  shows "if ok then rate_inv L (ti_now inp) (snd (enqueue_alert title body prio (ti_now inp) (w\<lparr>al_sent := sent\<rparr>)))
    else rate_inv L (ti_now inp) (w\<lparr>al_sent := sent\<rparr>)"
proof (cases ok)
  case True
  define kept where "kept = filter (\<lambda>t. t > ti_now inp - go_hour) (al_sent w)"
  have s: "sent = kept @ [ti_now inp]" and room: "length kept < L"
    using slot True lim by (auto simp: take_slot_def Let_def kept_def split: if_splits)
  let ?w = "w\<lparr>al_sent := sent\<rparr>"
  have pruned: "rate_inv L (ti_now inp) ?w"
    using rate_inv_extra_slot [OF rate_inv_prune [OF inv], of "ti_now inp"] by (simp add: s kept_def)
  have "rate_inv L (ti_now inp) (snd (enqueue_alert title body prio (ti_now inp) ?w))"
  proof (rule enqueue_cases [of title body prio "ti_now inp" ?w])
    show "enqueue_alert title body prio (ti_now inp) ?w = (False, snd (take_fault ?w)) \<Longrightarrow> ?thesis"
      using rate_inv_fault [OF pruned] by simp
    fix q
    assume e: "enqueue_alert title body prio (ti_now inp) ?w = (True, add_item q (snd (take_fault ?w)))"
      and q: "qi_created q = unix_milli (ti_now inp)"
    have "rate_inv L (ti_now inp) (add_item q (w\<lparr>al_sent := kept @ [ti_now inp]\<rparr>))"
      using rate_inv_raise [OF inv q] room by (simp add: kept_def)
    moreover have "rate_inv L (ti_now inp) (add_item q (snd (take_fault ?w)))
        = rate_inv L (ti_now inp) (add_item q (w\<lparr>al_sent := kept @ [ti_now inp]\<rparr>))"
      by (rule rate_inv_same) (simp_all add: add_item_def s)
    ultimately show ?thesis using e by simp
  qed
  then show ?thesis using True by simp
next
  case False
  then have "sent = filter (\<lambda>t. t > ti_now inp - go_hour) (al_sent w)"
    using slot by (auto simp: take_slot_def Let_def split: if_splits)
  then show ?thesis using False rate_inv_prune [OF inv] by simp
qed

lemma rate_inv_gated:
  assumes i: "rate_inv L (ti_now inp) w" and lim: "ac_rate_limit_per_h cfg \<le> int L"
  shows "rate_inv L (ti_now inp) (snd (gated_enqueue cfg inp ev subj msg prio recovery w))"
proof -
  obtain ok sent where slot: "take_slot (ac_rate_limit_per_h cfg) (ti_now inp) (al_sent w) = (ok, sent)"
    by (cases "take_slot (ac_rate_limit_per_h cfg) (ti_now inp) (al_sent w)")
  have "rate_inv L (ti_now inp) (snd (enqueue_alert recovered_title b p t w))" for b p t
    by (rule rate_inv_enqueue_other [OF i]) (metis alert_title_is_no_other(1))
  then show ?thesis
    using rate_inv_append_summary [OF i]
      rate_inv_take_slot [OF i lim slot, of "alert_title ev" "BodyMessage msg" prio]
    by (cases ok) (simp_all add: gated_enqueue_def Let_def slot)
qed

lemma rate_inv_deliver:
  "rate_inv L (ti_now inp) w \<Longrightarrow> ac_rate_limit_per_h cfg \<le> int L
   \<Longrightarrow> rate_inv L (ti_now inp) (snd (deliver cfg inp ev subj msg prio recovery w))"
  unfolding deliver_def by (intro rate_inv_gated rate_inv_history)

lemma rate_inv_raise_incident:
  assumes "rate_inv L (ti_now inp) w" "ac_rate_limit_per_h cfg \<le> int L"
  shows "rate_inv L (ti_now inp) (snd (raise_incident cfg inp st ev subj msg prio w))"
  using rate_inv_deliver [OF _ assms(2), of inp "w\<lparr>al_last := (al_last w)(incident_key ev subj \<mapsto> ti_now inp)\<rparr>" ev subj msg prio False]
    assms(1)
  by (auto simp: raise_incident_def Let_def rate_inv_last split: prod.split bool.split option.split)

lemma rate_inv_step:
  assumes "rate_inv L (ti_now inp) (snd sw)" "ac_rate_limit_per_h cfg \<le> int L"
  shows "rate_inv L (ti_now inp) (snd (alert_step cfg inp ev subj c sustain am rm prio sw))"
proof -
  obtain so w where sw: "sw = (so, w)" by (cases sw)
  have i: "rate_inv L (ti_now inp) w" using assms(1) sw by simp
  note raise = rate_inv_raise_incident [OF i assms(2)]
  show ?thesis
    using raise i rate_inv_deliver [OF i assms(2)]
    by (auto simp: sw alert_step_def Let_def case_prod_beta split: option.split
        intro!: rate_inv_upsert rate_inv_delete)
qed

lemma rate_inv_orphan: "rate_inv L T w \<Longrightarrow> rate_inv L T (clear_orphan inp st w)"
  using rate_inv_delete [of L T "if in_phase st = Active
      then snd (append_alert_history (unix_milli (ti_now inp)) (in_event st) (in_subject st) HCleared
              (MsgRemoved (in_subject st) (in_event st)) w) else w" "in_event st" "in_subject st"]
  by (auto simp: clear_orphan_def Let_def rate_inv_last rate_inv_history split: prod.splits bool.split if_splits)

lemma rate_inv_flush: "rate_inv L T w \<Longrightarrow> rate_inv L T (snd (flush_summary inp w))"
proof -
  assume i: "rate_inv L T w"
  obtain es w1 where l: "load_summary w = (es, w1)" by (cases "load_summary w")
  have i1: "rate_inv L T w1"
    using rate_inv_fault [OF i] load_summary_state [of w] l by simp
  have e: "rate_inv L T (snd (enqueue_alert (summary_title n) b p t w1))" for n b p t
    by (rule rate_inv_enqueue_other [OF i1]) (metis alert_title_is_no_other(2))
  have d: "rate_inv L T w2 \<Longrightarrow> rate_inv L T (snd (drop_summary w2))" for w2
    unfolding drop_summary_def by (rule rate_inv_statement) simp_all
  show ?thesis
  proof (cases es)
    case None
    then show ?thesis using l i1 by (simp add: flush_summary_def)
  next
    case (Some xs)
    show ?thesis
    proof (cases "enqueue_alert (summary_title (length (fst (pair_entries xs))))
        (BodyLines (sort_key (ti_render inp) (summary_lines (pair_entries xs)))) ''default'' (ti_now inp) w1")
      case (Pair ok w2)
      then have "rate_inv L T w2" using e by (metis snd_conv)
      then show ?thesis using l i1 Some Pair d by (cases ok) (auto simp: flush_summary_def Let_def)
    qed
  qed
qed

interpretation rate: tick_state_invariant cfg inp
  "\<lambda>w. ac_rate_limit_per_h cfg \<le> int L \<longrightarrow> rate_inv L (ti_now inp) w" for cfg inp L
  by unfold_locales (auto intro: rate_inv_step rate_inv_orphan rate_inv_fault rate_inv_flush)

lemma rate_inv_tick:
  "rate_inv L (ti_now inp) w \<Longrightarrow> ac_rate_limit_per_h (al_cfg w) \<le> int L
   \<Longrightarrow> rate_inv L (ti_now inp) (snd (alert_tick inp w))"
  using rate.tick_keeps [of "al_cfg w" L inp w] by simp

text \<open>A tick leaves the configuration alone.\<close>

lemma statement_cfg [simp]:
  "al_cfg (snd (upsert_alert_state a w)) = al_cfg w"
  "al_cfg (snd (delete_alert_state ev subj w)) = al_cfg w"
  "al_cfg (snd (enqueue_alert title body prio t w)) = al_cfg w"
  "al_cfg (snd (append_alert_history ts ev subj k m w)) = al_cfg w"
  "al_cfg (snd (put_summary es w)) = al_cfg w"
  "al_cfg (snd (drop_summary w)) = al_cfg w"
  by (simp_all add: statement_defs db_exec_keeps [where g = al_cfg])

lemma append_summary_cfg [simp]: "al_cfg (snd (append_summary en w)) = al_cfg w"
  by (simp add: append_summary_def case_prod_beta load_summary_state)

lemma gated_cfg [simp]: "al_cfg (snd (gated_enqueue cfg inp ev subj msg prio r w)) = al_cfg w"
  by (simp add: gated_enqueue_def Let_def case_prod_beta split: bool.split)

lemma deliver_cfg [simp]: "al_cfg (snd (deliver cfg inp ev subj msg prio r w)) = al_cfg w"
  by (simp add: deliver_def)

lemma raise_cfg [simp]: "al_cfg (snd (raise_incident cfg inp st ev subj msg prio w)) = al_cfg w"
  using deliver_cfg [of cfg inp ev subj msg prio False "w\<lparr>al_last := (al_last w)(incident_key ev subj \<mapsto> ti_now inp)\<rparr>"]
  by (auto simp: raise_incident_def Let_def simp del: deliver_cfg split: option.split prod.split bool.split)

lemma step_cfg [simp]: "al_cfg (snd (alert_step cfg inp ev subj c sustain am rm prio sw)) = al_cfg (snd sw)"
  by (auto simp: alert_step_def Let_def case_prod_beta split: option.split)

lemma orphan_cfg [simp]: "al_cfg (clear_orphan inp st w) = al_cfg w"
proof -
  have "al_cfg (snd (delete_alert_state (in_event st) (in_subject st) v)) = al_cfg v" for v by simp
  then show ?thesis
    by (auto simp: clear_orphan_def Let_def case_prod_beta split: bool.split)
qed

lemma flush_cfg [simp]: "al_cfg (snd (flush_summary inp w)) = al_cfg w"
  using load_summary_state [of w]
  by (auto simp: flush_summary_def Let_def case_prod_beta split: prod.split option.split bool.split
      dest: arg_cong [where f = al_cfg])

interpretation cfg_frame: tick_state_invariant cfg inp "\<lambda>w. al_cfg w = c" for cfg inp c
  by unfold_locales simp_all

lemma tick_cfg [simp]: "al_cfg (snd (alert_tick inp w)) = al_cfg w"
  using cfg_frame.tick_keeps [where cfg = "al_cfg w" and c = "al_cfg w" and w = w and inp = inp] by simp

lemma run_rate_inv:
  assumes "rate_inv L T w" "sorted (T # op_times ops)"
    and "\<And>c. c \<in> set (al_cfg w # op_configs ops) \<Longrightarrow> ac_rate_limit_per_h c \<le> int L"
  shows "\<exists>T'. rate_inv L T' (alert_run ops w)"
  using assms
proof (induction ops arbitrary: T w)
  case Nil
  then show ?case by (auto simp: alert_run_def)
next
  case (Cons op ops)
  show ?case
  proof (cases op)
    case (OpTick inp)
    have "rate_inv L (ti_now inp) (snd (alert_tick inp w))"
      using Cons.prems OpTick
      by (intro rate_inv_tick rate_inv_mono [OF Cons.prems(1)]) (simp_all add: op_times_def)
    then show ?thesis
      using Cons.IH [of "ti_now inp" "snd (alert_tick inp w)"] Cons.prems OpTick
      by (simp add: op_times_def op_configs_def alert_run_def)
  next
    case (OpReconfigure c)
    have "rate_inv L T (reconfigure c w)"
      using Cons.prems(1) rate_inv_same [of "reconfigure c w" w] by (simp add: reconfigure_def)
    then show ?thesis
      using Cons.IH [of T "reconfigure c w"] Cons.prems OpReconfigure
      by (simp add: op_times_def op_configs_def alert_run_def reconfigure_def)
  qed
qed

text \<open> C5: However long the engine runs, whatever the providers answer, whichever statements fail and however
  often the settings change, at most \<open>L\<close> alerts are queued in any 3600000 consecutive milliseconds,
  where \<open>L\<close> is the largest rate limit configured during the run and the clock does not go back.
  Recoveries and quiet-hours summaries are exempt, as the code says.\<close>

theorem rate_limit_holds_in_every_hour:
  assumes "al_queue db = []" "sorted (op_times ops)"
    and "\<And>c. c \<in> set (cfg # op_configs ops) \<Longrightarrow> ac_rate_limit_per_h c \<le> int L"
  shows "raises_in_hour m (alert_run ops (new_alert_engine cfg db)) \<le> L"
proof -
  let ?w = "new_alert_engine cfg db"
  define T where "T = (case op_times ops of [] \<Rightarrow> 0 | t # _ \<Rightarrow> t)"
  have "rate_inv L T ?w"
    using assms(1) by (simp add: rate_inv_def raises_after_def raises_in_hour_def new_alert_engine_def)
  moreover have "sorted (T # op_times ops)"
    using assms(2) by (cases "op_times ops") (simp_all add: T_def)
  ultimately obtain T' where "rate_inv L T' (alert_run ops ?w)"
    using run_rate_inv [of L T ?w ops] assms(3) by (auto simp: new_alert_engine_def)
  then show ?thesis by (simp add: rate_inv_def)
qed

lemma rate_limit_holds_in_every_hour_witness:
  "raises_in_hour 200000 (alert_run demo_ops (new_alert_engine demo_alert_config demo_db)) \<le> 12"
  by (rule rate_limit_holds_in_every_hour)
     (auto simp: demo_db_def demo_ops_def demo_tick_def op_times_def op_configs_def go_units
       demo_alert_config_def default_alert_config_def)

section \<open>The cooldown\<close>

definition alert_times :: "alert_event \<Rightarrow> string \<Rightarrow> alerting \<Rightarrow> int list" where
  "alert_times ev subj w = map hr_ts (filter (\<lambda>r. hr_kind r = HAlert \<and> hr_event r = ev \<and> hr_subject r = subj)
     (al_history w))"

definition cool_inv :: "alert_event \<Rightarrow> string \<Rightarrow> int \<Rightarrow> alerting \<Rightarrow> bool" where
  "cool_inv ev subj C w \<longleftrightarrow>
     (\<forall>t \<in> set (alert_times ev subj w). \<exists>prev. al_last w (incident_key ev subj) = Some prev \<and> t \<le> unix_milli prev)
   \<and> sorted_wrt (\<lambda>a b. a + C * 1000 \<le> b) (alert_times ev subj w)"

lemma unix_milli_add_seconds: "unix_milli (t + C * go_second) = unix_milli t + C * 1000"
proof -
  have "t + C * go_second = t + (C * 1000) * go_ms" by (simp add: go_units)
  then have "unix_milli (t + C * go_second) = (t + (C * 1000) * go_ms) div go_ms"
    by (simp only: unix_milli_def)
  also have "\<dots> = C * 1000 + unix_milli t"
    unfolding unix_milli_def by (rule div_mult_self1) (simp add: go_ms_def)
  finally show ?thesis by simp
qed

lemma cool_inv_same:
  "al_last w' (incident_key ev subj) = al_last w (incident_key ev subj) \<Longrightarrow> al_history w' = al_history w
   \<Longrightarrow> cool_inv ev subj C w' = cool_inv ev subj C w"
  by (simp add: cool_inv_def alert_times_def)

lemma statement_last [simp]:
  "al_last (snd (upsert_alert_state a w)) = al_last w"
  "al_last (snd (delete_alert_state ev subj w)) = al_last w"
  "al_last (snd (enqueue_alert title body prio t w)) = al_last w"
  "al_last (snd (append_alert_history ts ev subj k m w)) = al_last w"
  "al_last (snd (put_summary es w)) = al_last w"
  "al_last (snd (drop_summary w)) = al_last w"
  by (simp_all add: statement_defs db_exec_keeps [where g = al_last])

lemma statement_history [simp]:
  "al_history (snd (upsert_alert_state a w)) = al_history w"
  "al_history (snd (delete_alert_state ev subj w)) = al_history w"
  "al_history (snd (enqueue_alert title body prio t w)) = al_history w"
  "al_history (snd (put_summary es w)) = al_history w"
  "al_history (snd (drop_summary w)) = al_history w"
  by (simp_all add: statement_defs db_exec_keeps [where g = al_history])

lemma history_after_append:
  "al_history (snd (append_alert_history ts ev subj k m w)) \<in>
     {al_history w, al_history w @ [\<lparr>hr_id = al_history_seq w + 1, hr_ts = ts, hr_event = ev,
        hr_subject = subj, hr_kind = k, hr_message = m\<rparr>]}"
  by (simp add: append_alert_history_def db_exec_def case_prod_beta)

lemma gated_frame [simp]:
  "al_last (snd (gated_enqueue cfg inp ev subj msg prio r w)) = al_last w"
  "al_history (snd (gated_enqueue cfg inp ev subj msg prio r w)) = al_history w"
  by (simp_all add: gated_enqueue_def append_summary_def load_summary_state Let_def case_prod_beta split: bool.split)

lemma alert_times_append_other:
  "k \<noteq> HAlert \<or> (ev', subj') \<noteq> (ev, subj) \<Longrightarrow>
   alert_times ev subj (snd (append_alert_history ts ev' subj' k m w)) = alert_times ev subj w"
  using history_after_append [of ts ev' subj' k m w] by (auto simp: alert_times_def)

lemma alert_times_append:
  "alert_times ev subj (snd (append_alert_history ts ev subj HAlert m w))
     \<in> {alert_times ev subj w, alert_times ev subj w @ [ts]}"
  using history_after_append [of ts ev subj HAlert m w] by (auto simp: alert_times_def)

lemma cool_inv_other_deliver:
  assumes "cool_inv ev subj C w" "recovery \<or> (ev', subj') \<noteq> (ev, subj)"
  shows "cool_inv ev subj C (snd (deliver cfg inp ev' subj' msg prio recovery w))"
proof -
  have "alert_times ev subj (snd (deliver cfg inp ev' subj' msg prio recovery w)) = alert_times ev subj w"
    using assms(2) alert_times_append_other [of "if recovery then HRecovered else HAlert" ev' subj' ev subj]
    by (auto simp: deliver_def alert_times_def)
  then show ?thesis using assms(1) by (simp add: cool_inv_def deliver_def)
qed

lemma deliver_alert_times:
  "alert_times ev subj (snd (deliver cfg inp ev subj msg prio False w))
     \<in> {alert_times ev subj w, alert_times ev subj w @ [unix_milli (ti_now inp)]}"
  using alert_times_append [of ev subj "unix_milli (ti_now inp)" msg w]
  by (simp add: deliver_def alert_times_def)

lemma deliver_last [simp]: "al_last (snd (deliver cfg inp ev subj msg prio r w)) = al_last w"
  by (simp add: deliver_def)

lemma cool_inv_own_raise:
  assumes inv: "cool_inv ev subj C w" and C: "0 \<le> C" "C \<le> C'"
    and free: "\<And>prev. al_last w (incident_key ev subj) = Some prev \<Longrightarrow> \<not> ti_now inp - prev < C' * go_second"
  shows "cool_inv ev subj C (snd (deliver cfg inp ev subj msg prio False
           (w\<lparr>al_last := (al_last w)(incident_key ev subj \<mapsto> ti_now inp)\<rparr>)))"
    (is "cool_inv ev subj C (snd (deliver cfg inp ev subj msg prio False ?w))")
proof -
  let ?now = "unix_milli (ti_now inp)"
  have late: "t + C * 1000 \<le> ?now" if "t \<in> set (alert_times ev subj w)" for t
  proof -
    obtain p where p: "al_last w (incident_key ev subj) = Some p" "t \<le> unix_milli p"
      using inv \<open>t \<in> set (alert_times ev subj w)\<close> by (auto simp: cool_inv_def)
    have "\<not> ti_now inp - p < C' * go_second" by (rule free [OF p(1)])
    moreover have "C * go_second \<le> C' * go_second" using C by (simp add: go_units)
    ultimately have "unix_milli (p + C * go_second) \<le> ?now" by (intro unix_milli_mono) linarith
    then show ?thesis using p(2) by (simp add: unix_milli_add_seconds)
  qed
  have same: "alert_times ev subj ?w = alert_times ev subj w" by (simp add: alert_times_def)
  have times: "alert_times ev subj (snd (deliver cfg inp ev subj msg prio False ?w))
      \<in> {alert_times ev subj w, alert_times ev subj w @ [?now]}"
    using deliver_alert_times [of ev subj cfg inp msg prio ?w] by (simp add: same)
  have "t \<le> ?now" if "t \<in> set (alert_times ev subj w)" for t
    using late [OF that] C by linarith
  moreover have "sorted_wrt (\<lambda>a b. a + C * 1000 \<le> b) (alert_times ev subj w @ [?now])"
    using inv late by (auto simp: cool_inv_def sorted_wrt_append)
  ultimately show ?thesis
    using times inv by (auto simp: cool_inv_def)
qed

lemma cool_inv_raise_incident:
  assumes "cool_inv ev subj C w" "0 \<le> C" "C \<le> ac_cooldown_s cfg"
  shows "cool_inv ev subj C (snd (raise_incident cfg inp st ev' subj' msg prio w))"
proof (cases "\<exists>prev. al_last w (incident_key ev' subj') = Some prev
    \<and> ti_now inp - prev < ac_cooldown_s cfg * go_second")
  case True
  then show ?thesis using assms(1) by (auto simp: raise_incident_def Let_def)
next
  case False
  let ?w = "w\<lparr>al_last := (al_last w)(incident_key ev' subj' \<mapsto> ti_now inp)\<rparr>"
  have "cool_inv ev subj C (snd (deliver cfg inp ev' subj' msg prio False ?w))"
  proof (cases "(ev', subj') = (ev, subj)")
    case True
    then show ?thesis using cool_inv_own_raise [OF assms] False by simp
  next
    case other: False
    have "cool_inv ev subj C ?w" using assms(1) other cool_inv_same [of ?w ev subj w C] by auto
    then show ?thesis using other by (intro cool_inv_other_deliver) simp_all
  qed
  moreover have "snd (raise_incident cfg inp st ev' subj' msg prio w)
      = snd (deliver cfg inp ev' subj' msg prio False ?w)"
    using False by (auto simp: raise_incident_def Let_def split: option.split prod.split bool.split)
  ultimately show ?thesis by simp
qed

lemma cool_inv_statement:
  "cool_inv ev subj C w \<Longrightarrow> cool_inv ev subj C (snd (upsert_alert_state a w))"
  "cool_inv ev subj C w \<Longrightarrow> cool_inv ev subj C (snd (delete_alert_state ev' subj' w))"
  "cool_inv ev subj C w \<Longrightarrow> cool_inv ev subj C (snd (take_fault w))"
  by (simp_all add: cool_inv_def alert_times_def)

lemma cool_inv_step:
  assumes "cool_inv ev subj C (snd sw)" "0 \<le> C" "C \<le> ac_cooldown_s cfg"
  shows "cool_inv ev subj C (snd (alert_step cfg inp ev' subj' c sustain am rm prio sw))"
proof -
  obtain so w where sw: "sw = (so, w)" by (cases sw)
  have i: "cool_inv ev subj C w" using assms(1) sw by simp
  show ?thesis
    using cool_inv_raise_incident [OF i assms(2,3)] i cool_inv_other_deliver [OF i]
    by (auto simp: sw alert_step_def Let_def case_prod_beta split: option.split intro!: cool_inv_statement)
qed

lemma cool_inv_flush: "cool_inv ev subj C w \<Longrightarrow> cool_inv ev subj C (snd (flush_summary inp w))"
proof -
  assume i: "cool_inv ev subj C w"
  have "al_last (snd (flush_summary inp w)) = al_last w"
    "al_history (snd (flush_summary inp w)) = al_history w"
    using load_summary_state [of w]
    by (auto simp: flush_summary_def Let_def case_prod_beta split: prod.split option.split bool.split
        dest: arg_cong [where f = al_last] arg_cong [where f = al_history])
  then show ?thesis using i by (simp add: cool_inv_def alert_times_def)
qed

text \<open>A tick in which the subject is monitored never clears its incident as an orphan.\<close>

definition monitored :: "alert_event \<Rightarrow> string \<Rightarrow> tick_input \<Rightarrow> bool" where
  "monitored ev subj inp \<longleftrightarrow> (case ev of
      ProbeOffline \<Rightarrow> (case ti_probes inp of Some (Some ps) \<Rightarrow> subj \<in> fst ` set ps | _ \<Rightarrow> True)
    | TargetLoss \<Rightarrow> (case ti_targets inp of Some ts \<Rightarrow> subj \<in> fst ` set ts | None \<Rightarrow> True)
    | LatencyHigh \<Rightarrow> (case ti_targets inp of Some ts \<Rightarrow> subj \<in> fst ` set ts | None \<Rightarrow> True)
    | _ \<Rightarrow> True)"

lemma monitored_no_orphan:
  "monitored (in_event st) (in_subject st) inp \<Longrightarrow> sweeping cfg inp \<Longrightarrow> \<not> is_orphan cfg inp st"
  by (cases "in_event st"; cases "ti_probes inp"; cases "ti_targets inp")
     (auto simp: monitored_def is_orphan_def sweeping_def split: option.splits)

text \<open>The map's keys are those of the incidents stored under them.\<close>

definition keys_match :: "incident_map \<Rightarrow> bool" where
  "keys_match so \<longleftrightarrow> (\<forall>k st. so k = Some st \<longrightarrow> k = incident_key (in_event st) (in_subject st))"

lemma raise_incident_identity [simp]:
  "in_event (fst (raise_incident cfg inp st ev subj msg prio w)) = in_event st"
  "in_subject (fst (raise_incident cfg inp st ev subj msg prio w)) = in_subject st"
  by (simp_all add: raise_incident_def Let_def split: option.split prod.split bool.split)

lemma keys_match_step:
  "keys_match (fst sw) \<Longrightarrow> keys_match (fst (alert_step cfg inp ev subj c sustain am rm prio sw))"
  by (cases sw) (auto simp: keys_match_def alert_step_def Let_def case_prod_beta split: option.split;
      metis incident_key_inj)

lemma keys_match_upd: "keys_match m \<Longrightarrow> keys_match (m(incident_key (in_event r) (in_subject r) \<mapsto> r))"
  by (simp add: keys_match_def)

lemma keys_match_of_rows: "keys_match (incident_map_of rows)"
proof -
  have fold: "keys_match m \<Longrightarrow> keys_match (foldl (\<lambda>m r. m(incident_key (in_event r) (in_subject r) \<mapsto> r)) m rows)" for m
    by (induction rows arbitrary: m) (simp_all add: keys_match_upd)
  have "keys_match Map.empty" by (simp add: keys_match_def)
  then show ?thesis unfolding incident_map_of_def by (rule fold)
qed

lemma cool_inv_orphan:
  assumes "cool_inv ev subj C w" "(in_event st, in_subject st) \<noteq> (ev, subj)"
  shows "cool_inv ev subj C (clear_orphan inp st w)"
proof -
  let ?w1 = "if in_phase st = Active
     then snd (append_alert_history (unix_milli (ti_now inp)) (in_event st) (in_subject st) HCleared
             (MsgRemoved (in_subject st) (in_event st)) w) else w"
  have "alert_times ev subj ?w1 = alert_times ev subj w" by (simp add: alert_times_append_other)
  then have i1: "cool_inv ev subj C ?w1" using assms(1) by (simp add: cool_inv_def)
  obtain ok w2 where d: "delete_alert_state (in_event st) (in_subject st) ?w1 = (ok, w2)"
    by (cases "delete_alert_state (in_event st) (in_subject st) ?w1")
  have i2: "cool_inv ev subj C w2"
    using cool_inv_statement(2) [OF i1, of "in_event st" "in_subject st"] by (simp add: d)
  then have "cool_inv ev subj C (w2\<lparr>al_last := (al_last w2)(incident_key (in_event st) (in_subject st) := None)\<rparr>)"
    using assms(2) by (subst cool_inv_same [of _ ev subj w2]) auto
  then show ?thesis using i2 d by (cases ok) (auto simp: clear_orphan_def Let_def)
qed

interpretation cool: tick_invariant cfg inp
  "\<lambda>sw. keys_match (fst sw) \<and> (monitored ev subj inp \<and> 0 \<le> C \<and> C \<le> ac_cooldown_s cfg
      \<longrightarrow> cool_inv ev subj C (snd sw))" for cfg inp ev subj C
proof unfold_locales
  fix so w ev' subj' st
  assume i: "keys_match (fst (so, w)) \<and> (monitored ev subj inp \<and> 0 \<le> C \<and> C \<le> ac_cooldown_s cfg
      \<longrightarrow> cool_inv ev subj C (snd (so, w)))"
    and st: "so (incident_key ev' subj') = Some st" "is_orphan cfg inp st" "sweeping cfg inp"
  show "keys_match (fst (so, clear_orphan inp st w)) \<and> (monitored ev subj inp \<and> 0 \<le> C \<and> C \<le> ac_cooldown_s cfg
      \<longrightarrow> cool_inv ev subj C (snd (so, clear_orphan inp st w)))"
    using i monitored_no_orphan [of st inp cfg] st(2,3) cool_inv_orphan [of ev subj C w st inp] by auto
qed (auto intro: keys_match_step cool_inv_step)

lemma cool_inv_tick:
  assumes "cool_inv ev subj C w" "monitored ev subj inp" "0 \<le> C" "C \<le> ac_cooldown_s (al_cfg w)"
  shows "cool_inv ev subj C (snd (alert_tick inp w))"
proof -
  let ?w1 = "if quiet_now (al_cfg w) inp then w else snd (flush_summary inp w)"
  have i1: "cool_inv ev subj C ?w1" using assms(1) by (simp add: cool_inv_flush)
  obtain rows w2 where l: "list_alert_states ?w1 = (rows, w2)" by (cases "list_alert_states ?w1")
  then have "w2 = snd (take_fault ?w1)"
    by (auto simp: list_alert_states_def split: prod.splits)
  then have i2: "cool_inv ev subj C w2" using cool_inv_statement(3) [OF i1] by simp
  have "cool_inv ev subj C (snd (tick_body (al_cfg w) inp rs w2))" for rs
    using cool.tick_body_keeps [where ev = ev and subj = subj and C = C and cfg = "al_cfg w"
        and inp = inp and rows = rs and w = w2] assms(2-) i2 keys_match_of_rows by auto
  then show ?thesis using i1 i2 l by (auto simp: alert_tick_def Let_def split: option.split)
qed

lemma run_cool_inv:
  assumes "cool_inv ev subj C w" "0 \<le> C" "\<And>inp. OpTick inp \<in> set ops \<Longrightarrow> monitored ev subj inp"
    and "\<And>c. c \<in> set (al_cfg w # op_configs ops) \<Longrightarrow> C \<le> ac_cooldown_s c"
  shows "cool_inv ev subj C (alert_run ops w)"
  using assms
proof (induction ops arbitrary: w)
  case Nil
  then show ?case by (simp add: alert_run_def)
next
  case (Cons op ops)
  show ?case
  proof (cases op)
    case (OpTick inp)
    have "cool_inv ev subj C (snd (alert_tick inp w))"
      using Cons.prems OpTick by (intro cool_inv_tick) auto
    then show ?thesis
      using Cons.IH [of "snd (alert_tick inp w)"] Cons.prems OpTick
      by (simp add: op_configs_def alert_run_def)
  next
    case (OpReconfigure c)
    have "cool_inv ev subj C (reconfigure c w)"
      using Cons.prems(1) cool_inv_same [of "reconfigure c w" ev subj w] by (simp add: reconfigure_def)
    then show ?thesis
      using Cons.IH [of "reconfigure c w"] Cons.prems OpReconfigure
      by (simp add: op_configs_def alert_run_def reconfigure_def)
  qed
qed



end
