(* ===== verification/AlertIncidents.thy ===== *)
theory AlertIncidents
  imports AlertLimits
begin

text \<open>
  The incident table under the engine: what every stored row satisfies in every run, what the state
  machine of one incident computes when the store works, and what the quiet-hours summary contains.
\<close>

section \<open>Well-formed rows\<close>

definition incident_ok :: "instant \<Rightarrow> incident \<Rightarrow> bool" where
  "incident_ok T r \<longleftrightarrow> in_since r \<le> unix_milli T \<and>
     (case in_notified r of None \<Rightarrow> True
      | Some n \<Rightarrow> in_phase r = Active \<and> in_since r \<le> n \<and> n \<le> unix_milli T)"

definition table_ok :: "instant \<Rightarrow> alerting \<Rightarrow> bool" where
  "table_ok T w \<longleftrightarrow> distinct_incidents (al_states w) \<and> (\<forall>r \<in> set (al_states w). incident_ok T r)"

lemma incident_ok_mono: "incident_ok T r \<Longrightarrow> T \<le> T' \<Longrightarrow> incident_ok T' r"
  using unix_milli_mono [of T T'] by (auto simp: incident_ok_def split: option.splits)

lemma table_ok_mono: "table_ok T w \<Longrightarrow> T \<le> T' \<Longrightarrow> table_ok T' w"
  by (auto simp: table_ok_def intro: incident_ok_mono)

lemma statement_states [simp]:
  "al_states (snd (enqueue_alert title body prio t w)) = al_states w"
  "al_states (snd (append_alert_history ts ev subj k m w)) = al_states w"
  "al_states (snd (put_summary es w)) = al_states w"
  "al_states (snd (drop_summary w)) = al_states w"
  by (simp_all add: statement_defs db_exec_keeps [where g = al_states])

lemma gated_states [simp]: "al_states (snd (gated_enqueue cfg inp ev subj msg prio r w)) = al_states w"
  by (simp add: gated_enqueue_def append_summary_def load_summary_state Let_def case_prod_beta split: bool.split)

lemma deliver_states [simp]: "al_states (snd (deliver cfg inp ev subj msg prio r w)) = al_states w"
  by (simp add: deliver_def)

lemma raise_states [simp]: "al_states (snd (raise_incident cfg inp st ev subj msg prio w)) = al_states w"
  using deliver_states [of cfg inp ev subj msg prio False "w\<lparr>al_last := (al_last w)(incident_key ev subj \<mapsto> ti_now inp)\<rparr>"]
  by (auto simp: raise_incident_def Let_def simp del: deliver_states split: option.split prod.split bool.split)

lemma flush_states [simp]: "al_states (snd (flush_summary inp w)) = al_states w"
  using load_summary_state [of w]
  by (auto simp: flush_summary_def Let_def case_prod_beta split: prod.split option.split bool.split
      dest: arg_cong [where f = al_states])

lemma set_upsert_row: "r \<in> set (upsert_row a rs) \<Longrightarrow> r = a \<or> r \<in> set rs"
  by (induction rs) (auto simp: same_incident_def split: if_splits)

lemma table_ok_upsert: "table_ok T w \<Longrightarrow> incident_ok T a \<Longrightarrow> table_ok T (snd (upsert_alert_state a w))"
  unfolding upsert_alert_state_def db_exec_def case_prod_beta
  by (auto simp: table_ok_def distinct_upsert dest: set_upsert_row)

lemma table_ok_delete: "table_ok T w \<Longrightarrow> table_ok T (snd (delete_alert_state ev subj w))"
  unfolding delete_alert_state_def db_exec_def case_prod_beta
  by (auto simp: table_ok_def distinct_filter)

lemma table_ok_same: "al_states w' = al_states w \<Longrightarrow> table_ok T w' = table_ok T w"
  by (simp add: table_ok_def)

lemma raise_incident_ok:
  "incident_ok (ti_now inp) st \<Longrightarrow> incident_ok (ti_now inp) (fst (raise_incident cfg inp st ev subj msg prio w))"
  by (auto simp: raise_incident_def Let_def incident_ok_def split: option.splits prod.split bool.split)

definition map_ok :: "instant \<Rightarrow> incident_map \<Rightarrow> bool" where
  "map_ok T so \<longleftrightarrow> (\<forall>k st. so k = Some st \<longrightarrow> incident_ok T st)"

lemma step_ok:
  assumes "map_ok (ti_now inp) (fst sw)" "table_ok (ti_now inp) (snd sw)"
  shows "map_ok (ti_now inp) (fst (alert_step cfg inp ev subj c sustain am rm prio sw))"
    and "table_ok (ti_now inp) (snd (alert_step cfg inp ev subj c sustain am rm prio sw))"
proof -
  obtain so w where sw: "sw = (so, w)" by (cases sw)
  have m: "so k = Some st \<Longrightarrow> incident_ok (ti_now inp) st" for k st
    using assms(1) sw by (auto simp: map_ok_def)
  have t: "table_ok (ti_now inp) w" using assms(2) sw by simp
  have tr: "table_ok (ti_now inp) (snd (raise_incident cfg inp st ev subj am prio w))" for st
    using t by (subst table_ok_same [of _ w]) simp_all
  have td: "table_ok (ti_now inp) (snd (deliver cfg inp ev subj rm p r w))" for p r
    using t by (subst table_ok_same [of _ w]) simp_all
  have new: "incident_ok (ti_now inp) \<lparr>in_event = ev, in_subject = subj, in_phase = Raising,
      in_since = unix_milli (ti_now inp), in_notified = None\<rparr>"
    by (simp add: incident_ok_def)
  show "map_ok (ti_now inp) (fst (alert_step cfg inp ev subj c sustain am rm prio sw))"
    using assms(1) sw raise_incident_ok m
    by (auto simp: map_ok_def alert_step_def Let_def case_prod_beta split: option.split if_splits)
  show "table_ok (ti_now inp) (snd (alert_step cfg inp ev subj c sustain am rm prio sw))"
    using t tr td new raise_incident_ok [OF new] raise_incident_ok [OF m]
    by (auto simp: sw alert_step_def Let_def case_prod_beta split: option.split
        intro!: table_ok_upsert table_ok_delete)
qed

lemma orphan_ok: "table_ok T w \<Longrightarrow> table_ok T (clear_orphan inp st w)"
proof -
  assume t: "table_ok T w"
  let ?w1 = "if in_phase st = Active
     then snd (append_alert_history (unix_milli (ti_now inp)) (in_event st) (in_subject st) HCleared
             (MsgRemoved (in_subject st) (in_event st)) w) else w"
  have "table_ok T ?w1" using t by (subst table_ok_same [of _ w]) simp_all
  then have "table_ok T (snd (delete_alert_state (in_event st) (in_subject st) ?w1))"
    by (rule table_ok_delete)
  then show ?thesis
    by (auto simp: clear_orphan_def Let_def case_prod_beta table_ok_def split: bool.split)
qed

interpretation rows: tick_invariant cfg inp
  "\<lambda>sw. map_ok (ti_now inp) (fst sw) \<and> table_ok (ti_now inp) (snd sw)" for cfg inp
  by unfold_locales (auto intro: step_ok orphan_ok)

lemma map_ok_of_rows: "(\<And>r. r \<in> set rs \<Longrightarrow> incident_ok T r) \<Longrightarrow> map_ok T (incident_map_of rs)"
proof -
  have fold: "map_ok T m \<Longrightarrow> (\<And>r. r \<in> set rs \<Longrightarrow> incident_ok T r) \<Longrightarrow>
     map_ok T (foldl (\<lambda>m r. m(incident_key (in_event r) (in_subject r) \<mapsto> r)) m rs)" for m
  proof (induction rs arbitrary: m)
    case (Cons r rs)
    have "map_ok T (m(incident_key (in_event r) (in_subject r) \<mapsto> r))"
      using Cons.prems by (simp add: map_ok_def)
    then show ?case using Cons.IH [of "m(incident_key (in_event r) (in_subject r) \<mapsto> r)"] Cons.prems(2)
      by (simp del: fun_upd_apply)
  qed simp
  have "map_ok T Map.empty" by (simp add: map_ok_def)
  then show "(\<And>r. r \<in> set rs \<Longrightarrow> incident_ok T r) \<Longrightarrow> map_ok T (incident_map_of rs)"
    unfolding incident_map_of_def by (rule fold)
qed

lemma tick_table_ok:
  assumes "table_ok (ti_now inp) w"
  shows "table_ok (ti_now inp) (snd (alert_tick inp w))"
proof -
  let ?w1 = "if quiet_now (al_cfg w) inp then w else snd (flush_summary inp w)"
  have t1: "table_ok (ti_now inp) ?w1" using assms by (simp add: table_ok_def)
  obtain rows w2 where l: "list_alert_states ?w1 = (rows, w2)" by (cases "list_alert_states ?w1")
  then have w2: "w2 = snd (take_fault ?w1)" and rs: "rows = None \<or> rows = Some (al_states w2)"
    by (auto simp: list_alert_states_def split: prod.splits if_splits)
  have t2: "table_ok (ti_now inp) w2" using t1 by (simp add: w2 table_ok_def)
  then have "table_ok (ti_now inp) (snd (tick_body (al_cfg w) inp (al_states w2) w2))"
    using rows.tick_body_keeps [where cfg = "al_cfg w" and inp = inp and rows = "al_states w2" and w = w2]
      map_ok_of_rows [of "al_states w2" "ti_now inp"] by (auto simp: table_ok_def)
  then show ?thesis using t1 t2 l rs by (auto simp: alert_tick_def Let_def split: option.split)
qed

text \<open> In every run with a clock that does not go back, whatever fails, the incident table stays well
  formed: at most one row for an event and subject, a row says when it was notified only if it is
  active, it was notified no earlier than the condition was first seen, and neither instant lies in
  the future of the last tick.\<close>

theorem incident_rows_stay_well_formed:
  assumes "table_ok T w" "sorted (T # op_times ops)"
  shows "table_ok (last (T # op_times ops)) (alert_run ops w)"
  using assms
proof (induction ops arbitrary: T w)
  case Nil
  then show ?case by (simp add: alert_run_def op_times_def)
next
  case (Cons op ops)
  show ?case
  proof (cases op)
    case (OpTick inp)
    have "table_ok (ti_now inp) (snd (alert_tick inp w))"
      using Cons.prems OpTick
      by (intro tick_table_ok table_ok_mono [OF Cons.prems(1)]) (simp_all add: op_times_def)
    then show ?thesis
      using Cons.IH [of "ti_now inp" "snd (alert_tick inp w)"] Cons.prems OpTick
      by (simp add: op_times_def alert_run_def)
  next
    case (OpReconfigure c)
    have "table_ok T (reconfigure c w)"
      using Cons.prems(1) by (simp add: reconfigure_def table_ok_def)
    then show ?thesis
      using Cons.IH [of T "reconfigure c w"] Cons.prems OpReconfigure
      by (simp add: op_times_def alert_run_def)
  qed
qed

lemma incident_rows_stay_well_formed_witness:
  "table_ok (last (0 # op_times demo_ops)) (alert_run demo_ops demo_db)"
  by (rule incident_rows_stay_well_formed)
     (simp_all add: table_ok_def distinct_incidents_def demo_db_def demo_ops_def demo_tick_def op_times_def go_units)

section \<open>One incident when the store works\<close>

text \<open>One evaluation of an incident: the table is read and the incident stepped, as the tick does.\<close>

type_synonym evaluation = "tick_input \<times> alert_event \<times> string \<times> bool"

definition evaluate :: "alert_config \<Rightarrow> (alert_event \<Rightarrow> duration) \<Rightarrow> (alert_event \<Rightarrow> string \<Rightarrow> bool \<Rightarrow> alert_message)
    \<Rightarrow> evaluation \<Rightarrow> alerting \<Rightarrow> alerting" where
  "evaluate cfg sust msg e w = (case e of (inp, ev, subj, c) \<Rightarrow>
     snd (alert_step cfg inp ev subj c (sust ev) (msg ev subj True) (msg ev subj False) ''high''
            (incident_map_of (al_states w), w)))"

lemma incident_map_lookup:
  "distinct_incidents rs \<Longrightarrow> incident_map_of rs (incident_key ev subj) = find_incident ev subj rs"
proof -
  have fold: "distinct_incidents rs \<Longrightarrow>
     foldl (\<lambda>m r. m(incident_key (in_event r) (in_subject r) \<mapsto> r)) m rs (incident_key ev subj)
     = (case find_incident ev subj rs of None \<Rightarrow> m (incident_key ev subj) | Some r \<Rightarrow> Some r)" for m
  proof (induction rs arbitrary: m)
    case Nil
    then show ?case by (simp add: find_incident_def)
  next
    case (Cons r rs)
    have d: "distinct_incidents rs" using Cons.prems by (simp add: distinct_incidents_def)
    have "find_incident ev subj rs = None" if "same_incident ev subj r"
      using Cons.prems that by (auto simp: find_incident_None distinct_incidents_def same_incident_def incident_key_of_def)
    then show ?case using Cons.IH [OF d] by (auto simp: find_incident_def same_incident_def)
  qed
  assume "distinct_incidents rs"
  from fold [OF this, of Map.empty] show ?thesis
    by (simp add: incident_map_of_def split: option.split)
qed

lemma db_exec_faults: "al_faults w = [] \<Longrightarrow> (\<And>w. al_faults (f w) = al_faults w) \<Longrightarrow> al_faults (snd (db_exec f w)) = []"
  by simp

lemma statement_faults [simp]:
  "al_faults w = [] \<Longrightarrow> al_faults (snd (upsert_alert_state a w)) = []"
  "al_faults w = [] \<Longrightarrow> al_faults (snd (delete_alert_state ev subj w)) = []"
  "al_faults w = [] \<Longrightarrow> al_faults (snd (enqueue_alert title body prio t w)) = []"
  "al_faults w = [] \<Longrightarrow> al_faults (snd (append_alert_history ts ev subj k m w)) = []"
  "al_faults w = [] \<Longrightarrow> al_faults (snd (put_summary es w)) = []"
  by (simp_all add: statement_defs)

lemma gated_faults [simp]:
  "al_faults w = [] \<Longrightarrow> al_faults (snd (gated_enqueue cfg inp ev subj msg prio r w)) = []"
  by (simp add: gated_enqueue_def append_summary_def load_summary_state Let_def case_prod_beta split: bool.split)

lemma deliver_faults [simp]: "al_faults w = [] \<Longrightarrow> al_faults (snd (deliver cfg inp ev subj msg prio r w)) = []"
  by (simp add: deliver_def)

lemma raise_faults [simp]:
  "al_faults w = [] \<Longrightarrow> al_faults (snd (raise_incident cfg inp st ev subj msg prio w)) = []"
  using deliver_faults [of "w\<lparr>al_last := (al_last w)(incident_key ev subj \<mapsto> ti_now inp)\<rparr>" cfg inp ev subj msg prio False]
  by (auto simp: raise_incident_def Let_def simp del: deliver_faults split: option.split prod.split bool.split)

lemma evaluate_faults: "al_faults w = [] \<Longrightarrow> al_faults (evaluate cfg sust msg e w) = []"
  by (auto simp: evaluate_def alert_step_def Let_def case_prod_beta split: option.split)

lemma evaluate_distinct:
  "distinct_incidents (al_states w) \<Longrightarrow> al_faults w = [] \<Longrightarrow>
   distinct_incidents (al_states (evaluate cfg sust msg e w))"
  by (auto simp: evaluate_def alert_step_def Let_def case_prod_beta upsert_alert_state_def
      delete_alert_state_def distinct_upsert distinct_filter split: option.split)

text \<open>What an evaluation does to the row of its own incident; the others keep theirs.\<close>

lemma raise_phase [simp]:
  "in_phase (fst (raise_incident cfg inp st ev subj msg prio w)) = Active"
  "in_since (fst (raise_incident cfg inp st ev subj msg prio w)) = in_since st"
  by (simp_all add: raise_incident_def Let_def split: option.split prod.split bool.split)

definition row_view :: "incident option \<Rightarrow> (incident_phase \<times> int) option" where
  "row_view r = map_option (\<lambda>r. (in_phase r, in_since r)) r"

lemma evaluate_other:
  assumes "al_faults w = []" "(ev', subj') \<noteq> (ev, subj)"
    and "\<And>st. incident_map_of (al_states w) (incident_key ev' subj') = Some st \<Longrightarrow> in_event st = ev' \<and> in_subject st = subj'"
  shows "find_incident ev subj (al_states (evaluate cfg sust msg (inp, ev', subj', c) w))
    = find_incident ev subj (al_states w)"
  using assms by (auto simp: evaluate_def alert_step_def Let_def case_prod_beta upsert_alert_state_def
      delete_alert_state_def find_upsert find_filter_same split: option.split)

lemma evaluate_own:
  assumes "al_faults w = []" "distinct_incidents (al_states w)"
  shows "row_view (find_incident ev subj (al_states (evaluate cfg sust msg (inp, ev, subj, c) w)))
    = (case row_view (find_incident ev subj (al_states w)) of
         None \<Rightarrow> if c then Some (if sust ev = 0 then Active else Raising, unix_milli (ti_now inp)) else None
       | Some (p, since) \<Rightarrow> if \<not> c then None
           else Some (if p = Active \<or> ti_now inp - of_unix_milli since \<ge> sust ev then Active else Raising, since))"
proof (cases "find_incident ev subj (al_states w)")
  case None
  then show ?thesis
    using assms by (auto simp: evaluate_def alert_step_def Let_def case_prod_beta incident_map_lookup
        upsert_alert_state_def find_upsert row_view_def)
next
  case (Some st)
  have id: "in_event st = ev" "in_subject st = subj" using find_incident_Some [OF Some] by simp_all
  have "in_phase st = Raising \<or> in_phase st = Active" by (cases "in_phase st") simp_all
  then show ?thesis
    using assms Some id by (auto simp: evaluate_def alert_step_def Let_def case_prod_beta incident_map_lookup
        upsert_alert_state_def delete_alert_state_def find_upsert find_filter_same row_view_def)
qed

definition evaluations where
  "evaluations cfg sust msg es w = fold (evaluate cfg sust msg) es w"

definition observations :: "alert_event \<Rightarrow> string \<Rightarrow> evaluation list \<Rightarrow> (instant \<times> bool) list" where
  "observations ev subj es = concat (map (\<lambda>(inp, ev', subj', c).
     if ev' = ev \<and> subj' = subj then [(ti_now inp, c)] else []) es)"

text \<open>The unbroken run of true observations up to now, newest first.\<close>

definition current_run :: "(instant \<times> bool) list \<Rightarrow> (instant \<times> bool) list" where
  "current_run obs = takeWhile snd (rev obs)"

definition expected_row :: "duration \<Rightarrow> (instant \<times> bool) list \<Rightarrow> (incident_phase \<times> int) option" where
  "expected_row sustain obs = (case current_run obs of [] \<Rightarrow> None
     | (t, _) # _ \<Rightarrow> (let t0 = fst (last (current_run obs))
         in Some (if t - of_unix_milli (unix_milli t0) \<ge> sustain then Active else Raising, unix_milli t0)))"

lemma evaluations_snoc: "evaluations cfg sust msg (es @ [e]) w = evaluate cfg sust msg e (evaluations cfg sust msg es w)"
  by (simp add: evaluations_def)

lemma observations_snoc:
  "observations ev subj (es @ [(inp, ev', subj', c)])
   = observations ev subj es @ (if ev' = ev \<and> subj' = subj then [(ti_now inp, c)] else [])"
  by (simp add: observations_def)

lemma evaluations_clean:
  assumes "al_faults w = []" "distinct_incidents (al_states w)"
  shows "al_faults (evaluations cfg sust msg es w) = []
    \<and> distinct_incidents (al_states (evaluations cfg sust msg es w))"
proof (induction es rule: rev_induct)
  case Nil
  then show ?case using assms by (simp add: evaluations_def)
next
  case (snoc e es)
  then show ?case by (simp add: evaluations_snoc evaluate_faults evaluate_distinct)
qed

lemma map_row_identity:
  assumes "distinct_incidents rs" "incident_map_of rs (incident_key ev subj) = Some st"
  shows "in_event st = ev \<and> in_subject st = subj"
  using find_incident_Some [of ev subj rs st] assms by (simp add: incident_map_lookup)

lemma expected_row_snoc:
  assumes "sorted (map fst (obs @ [(t, c)]))" "sustain = 0 \<or> go_ms \<le> sustain"
  shows "expected_row sustain (obs @ [(t, c)]) = (case expected_row sustain obs of
     None \<Rightarrow> if c then Some (if sustain = 0 then Active else Raising, unix_milli t) else None
   | Some (p, since) \<Rightarrow> if \<not> c then None
       else Some (if p = Active \<or> t - of_unix_milli since \<ge> sustain then Active else Raising, since))"
proof (cases c)
  case False
  then show ?thesis by (simp add: expected_row_def current_run_def split: option.split list.split)
next
  case True
  have run: "current_run (obs @ [(t, c)]) = (t, c) # current_run obs" using True by (simp add: current_run_def)
  show ?thesis
  proof (cases "current_run obs")
    case Nil
    have "of_unix_milli (unix_milli t) \<le> t" "t < of_unix_milli (unix_milli t) + go_ms"
      by (rule of_unix_milli_le, rule of_unix_milli_gt)
    then show ?thesis using Nil run True assms(2) by (auto simp: expected_row_def)
  next
    case (Cons a as)
    obtain t1 c1 where a: "a = (t1, c1)" by (cases a)
    have "a \<in> set obs" using Cons set_takeWhileD [of a snd "rev obs"] by (simp add: current_run_def)
    then have "t1 \<le> t" using assms(1) a by (force simp: sorted_append)
    then show ?thesis using Cons run True a by (auto simp: expected_row_def Let_def)
  qed
qed

text \<open> C9: While the store works, an incident has a row exactly while its condition has held at every
  evaluation since the row's \<open>since\<close>, and the row is active exactly when that unbroken run, counted
  from the millisecond of its first evaluation, has lasted the sustain time; evaluations of other
  incidents in between make no difference.\<close>

theorem sustain_is_exact:
  assumes "al_faults w = []" "al_states w = []"
    and "sorted (map fst (observations ev subj es))"
    and "sust ev = 0 \<or> go_ms \<le> sust ev"
  shows "row_view (find_incident ev subj (al_states (evaluations cfg sust msg es w)))
    = expected_row (sust ev) (observations ev subj es)"
  using assms(3)
proof (induction es rule: rev_induct)
  case Nil
  then show ?case
    using assms(2) by (simp add: evaluations_def observations_def expected_row_def current_run_def
        row_view_def find_incident_def)
next
  case (snoc e es)
  obtain inp ev' subj' c where e: "e = (inp, ev', subj', c)" by (cases e)
  define v where "v = evaluations cfg sust msg es w"
  have clean: "al_faults v = []" "distinct_incidents (al_states v)"
    using evaluations_clean [OF assms(1)] assms(2) by (simp_all add: v_def distinct_incidents_def)
  have sorted: "sorted (map fst (observations ev subj es))"
    using snoc.prems by (auto simp: e observations_snoc sorted_append split: if_splits)
  note IH = snoc.IH [OF sorted, folded v_def]
  show ?case
  proof (cases "ev' = ev \<and> subj' = subj")
    case True
    have "sorted (map fst (observations ev subj es @ [(ti_now inp, c)]))"
      using snoc.prems True by (simp add: e observations_snoc)
    from expected_row_snoc [OF this assms(4)]
    show ?thesis using evaluate_own [OF clean, of ev subj cfg sust msg inp c] IH True
      by (simp add: e evaluations_snoc observations_snoc v_def)
  next
    case False
    then have "(ev', subj') \<noteq> (ev, subj)" by simp
    from evaluate_other [OF clean(1) this map_row_identity [OF clean(2)]]
    show ?thesis using IH False by (auto simp: e evaluations_snoc observations_snoc v_def)
  qed
qed

definition demo_evaluations :: "evaluation list" where
  "demo_evaluations = [(demo_tick 0, TargetLoss, ''t'', True), (demo_tick 60, ProbeOffline, ''p1'', True),
     (demo_tick 150, TargetLoss, ''t'', True)]"

lemma sustain_is_exact_witness:
  "row_view (find_incident TargetLoss ''t'' (al_states (evaluations demo_alert_config
      (\<lambda>_. 120 * go_second) (\<lambda>_ _ _. MsgText []) demo_evaluations demo_db)))
   = expected_row (120 * go_second) (observations TargetLoss ''t'' demo_evaluations)"
  by (rule sustain_is_exact [where sust = "\<lambda>_. 120 * go_second"])
     (simp_all add: demo_db_def demo_evaluations_def observations_def demo_tick_def go_units)

section \<open>Recoveries answer alerts\<close>

definition notices :: "alert_event \<Rightarrow> string \<Rightarrow> alerting \<Rightarrow> history_kind list" where
  "notices ev subj w = map hr_kind (filter (\<lambda>r. hr_event r = ev \<and> hr_subject r = subj \<and> hr_kind r \<noteq> HCleared)
     (al_history w))"

text \<open>No recovery comes first and none follows a recovery.\<close>

definition recoveries_paired :: "history_kind list \<Rightarrow> bool" where
  "recoveries_paired ks \<longleftrightarrow> successively (\<lambda>a b. b = HRecovered \<longrightarrow> a = HAlert) (HRecovered # ks)"

lemma recoveries_paired_snoc:
  "recoveries_paired (ks @ [k]) \<longleftrightarrow> recoveries_paired ks \<and> (k = HRecovered \<longrightarrow> ks \<noteq> [] \<and> last ks = HAlert)"
  by (auto simp: recoveries_paired_def successively_append_iff last_ConsR simp flip: append_Cons)

definition pairing :: "alert_event \<Rightarrow> string \<Rightarrow> alerting \<Rightarrow> bool" where
  "pairing ev subj w \<longleftrightarrow> recoveries_paired (notices ev subj w) \<and>
     (\<forall>st. find_incident ev subj (al_states w) = Some st \<and> in_notified st \<noteq> None
        \<longrightarrow> notices ev subj w \<noteq> [] \<and> last (notices ev subj w) = HAlert)"

lemma notices_deliver:
  assumes "al_faults w = []"
  shows "notices ev subj (snd (deliver cfg inp ev' subj' msg prio r w))
    = notices ev subj w @ (if ev' = ev \<and> subj' = subj then [if r then HRecovered else HAlert] else [])"
  using assms by (auto simp: deliver_def append_alert_history_def notices_def)

lemma notices_statement [simp]:
  "notices ev subj (snd (upsert_alert_state a w)) = notices ev subj w"
  "notices ev subj (snd (delete_alert_state ev' subj' w)) = notices ev subj w"
  "notices ev subj (w\<lparr>al_last := l\<rparr>) = notices ev subj w"
  by (simp_all add: notices_def)

lemma notices_raise:
  assumes "al_faults w = []"
  shows "let (st', w') = raise_incident cfg inp st ev subj msg prio w in
    (notices ev subj w' = notices ev subj w \<and> in_notified st' = in_notified st)
     \<or> notices ev subj w' = notices ev subj w @ [HAlert]"
  using notices_deliver [of "w\<lparr>al_last := (al_last w)(incident_key ev subj \<mapsto> ti_now inp)\<rparr>" ev subj cfg inp ev subj msg prio False]
    assms
  by (auto simp: raise_incident_def Let_def split: option.split prod.split bool.split)

lemma notices_raise_other:
  assumes "al_faults w = []" "(ev', subj') \<noteq> (ev, subj)"
  shows "notices ev subj (snd (raise_incident cfg inp st ev' subj' msg prio w)) = notices ev subj w"
  using notices_deliver [of "w\<lparr>al_last := (al_last w)(incident_key ev' subj' \<mapsto> ti_now inp)\<rparr>" ev subj cfg inp ev' subj' msg prio False]
    assms
  by (auto simp: raise_incident_def Let_def split: option.split prod.split bool.split)

lemma pairing_other:
  assumes "pairing ev subj w" "al_faults w = []" "distinct_incidents (al_states w)"
    and "(ev', subj') \<noteq> (ev, subj)"
  shows "pairing ev subj (evaluate cfg sust msg (inp, ev', subj', c) w)"
proof -
  have "notices ev subj (evaluate cfg sust msg (inp, ev', subj', c) w) = notices ev subj w"
    using assms(2,4) by (auto simp: evaluate_def alert_step_def Let_def case_prod_beta
        notices_raise_other notices_deliver split: option.split)
  moreover have "find_incident ev subj (al_states (evaluate cfg sust msg (inp, ev', subj', c) w))
      = find_incident ev subj (al_states w)"
    by (rule evaluate_other [OF assms(2,4) map_row_identity [OF assms(3)]])
  ultimately show ?thesis using assms(1) by (simp add: pairing_def)
qed

lemma pairing_raised:
  assumes p: "pairing ev subj w" and w: "al_faults w = []"
    and r: "raise_incident cfg inp st ev subj msg prio w = (st', w')"
    and id: "in_event st = ev" "in_subject st = subj"
    and st: "in_notified st \<noteq> None \<Longrightarrow> notices ev subj w \<noteq> [] \<and> last (notices ev subj w) = HAlert"
  shows "pairing ev subj (snd (upsert_alert_state st' w'))"
proof -
  have id': "in_event st' = ev" "in_subject st' = subj"
    using raise_incident_identity [of cfg inp st ev subj msg prio w] r id by simp_all
  have f: "al_faults w' = []" using raise_faults [OF w, of cfg inp st ev subj msg prio] r by simp
  have rows: "find_incident ev subj (al_states (snd (upsert_alert_state st' w'))) = Some st'"
    using f id' by (simp add: upsert_alert_state_def find_upsert)
  from notices_raise [OF w, of cfg inp st ev subj msg prio] r
  have "(notices ev subj w' = notices ev subj w \<and> in_notified st' = in_notified st)
     \<or> notices ev subj w' = notices ev subj w @ [HAlert]" by simp
  then show ?thesis
  proof
    assume "notices ev subj w' = notices ev subj w \<and> in_notified st' = in_notified st"
    then show ?thesis using p st rows by (simp add: pairing_def)
  next
    assume "notices ev subj w' = notices ev subj w @ [HAlert]"
    then show ?thesis using p rows by (simp add: pairing_def recoveries_paired_snoc)
  qed
qed

lemma pairing_own:
  assumes p: "pairing ev subj w" and w: "al_faults w = []" and d: "distinct_incidents (al_states w)"
  shows "pairing ev subj (evaluate cfg sust msg (inp, ev, subj, c) w)"
proof (cases "find_incident ev subj (al_states w)")
  case None
  define ns where "ns = \<lparr>in_event = ev, in_subject = subj, in_phase = Raising,
      in_since = unix_milli (ti_now inp), in_notified = None\<rparr>"
  obtain st' w' where r: "raise_incident cfg inp ns ev subj (msg ev subj True) ''high'' w = (st', w')"
    by (cases "raise_incident cfg inp ns ev subj (msg ev subj True) ''high'' w")
  have "pairing ev subj (snd (upsert_alert_state st' w'))"
    by (rule pairing_raised [OF p w r]) (simp_all add: ns_def)
  moreover have "pairing ev subj (snd (upsert_alert_state ns w))"
    using p w by (simp add: pairing_def upsert_alert_state_def find_upsert ns_def notices_def)
  ultimately show ?thesis
    using p None d r by (simp add: evaluate_def alert_step_def Let_def incident_map_lookup ns_def)
next
  case (Some st)
  have id: "in_event st = ev" "in_subject st = subj" using find_incident_Some [OF Some] by simp_all
  have last: "in_notified st \<noteq> None \<Longrightarrow> notices ev subj w \<noteq> [] \<and> last (notices ev subj w) = HAlert"
    using p Some by (auto simp: pairing_def)
  obtain st' w' where r: "raise_incident cfg inp st ev subj (msg ev subj True) ''high'' w = (st', w')"
    by (cases "raise_incident cfg inp st ev subj (msg ev subj True) ''high'' w")
  have up: "pairing ev subj (snd (upsert_alert_state st' w'))"
    by (rule pairing_raised [OF p w r id last])
  define w1 where "w1 = (if in_phase st = Active \<and> in_notified st \<noteq> None
     then snd (deliver cfg inp ev subj (msg ev subj False) ''default'' True w) else w)"
  have "recoveries_paired (notices ev subj w1)" and "al_faults w1 = []"
    using p w last by (auto simp: w1_def notices_deliver pairing_def recoveries_paired_snoc)
  then have "pairing ev subj (snd (delete_alert_state ev subj w1))"
    by (simp add: pairing_def delete_alert_state_def find_filter_same notices_def)
  then show ?thesis
    using p up Some d r by (auto simp: evaluate_def alert_step_def Let_def incident_map_lookup w1_def)
qed

text \<open> While the store works, a recovery is announced only for an incident that was announced: in the log of
  one incident every ``recovered'' entry comes immediately after an ``alert'' entry, so there is at
  most one for each alert and never one first.\<close>

theorem recoveries_answer_alerts:
  assumes "al_faults w = []" "al_states w = []" "al_history w = []"
  shows "recoveries_paired (notices ev subj (evaluations cfg sust msg es w))"
proof -
  have "pairing ev subj (evaluations cfg sust msg es w)"
  proof (induction es rule: rev_induct)
    case Nil
    then show ?case
      using assms by (simp add: evaluations_def pairing_def notices_def recoveries_paired_def find_incident_def)
  next
    case (snoc e es)
    obtain inp ev' subj' c where e: "e = (inp, ev', subj', c)" by (cases e)
    have clean: "al_faults (evaluations cfg sust msg es w) = []"
      "distinct_incidents (al_states (evaluations cfg sust msg es w))"
      using evaluations_clean [OF assms(1)] assms(2) by (simp_all add: distinct_incidents_def)
    show ?case
    proof (cases "(ev', subj') = (ev, subj)")
      case True
      then show ?thesis using pairing_own [OF snoc.IH clean] by (simp add: e evaluations_snoc)
    next
      case False
      from pairing_other [OF snoc.IH clean this] show ?thesis by (simp add: e evaluations_snoc)
    qed
  qed
  then show ?thesis by (simp add: pairing_def)
qed

lemma recoveries_answer_alerts_witness:
  "recoveries_paired (notices TargetLoss ''t'' (evaluations demo_alert_config
      (\<lambda>_. 120 * go_second) (\<lambda>_ _ _. MsgText []) demo_evaluations demo_db))"
  by (rule recoveries_answer_alerts) (simp_all add: demo_db_def)

end
