(* ===== verification/AlertSummary.thy ===== *)
theory AlertSummary
  imports AlertLimits "HOL-Library.Multiset"
begin

text \<open>
  The quiet-hours buffer and its summary: what the one message that follows a quiet period says
  about the events buffered in it, and two ways in which it can say too little.
\<close>

definition entry_key :: "summary_entry \<Rightarrow> string" where
  "entry_key en = incident_key (se_event en) (se_subject en)"

definition entries_of :: "string \<Rightarrow> summary_entry list \<Rightarrow> summary_entry list" where
  "entries_of k es = filter (\<lambda>en. entry_key en = k) es"

definition last_opt :: "'a list \<Rightarrow> 'a option" where
  "last_opt xs = (if xs = [] then None else Some (last xs))"

definition first_raise :: "summary_entry list \<Rightarrow> summary_entry option" where
  "first_raise es = find (\<lambda>en. \<not> se_recovery en) es"

definition last_recovery :: "summary_entry list \<Rightarrow> summary_entry option" where
  "last_recovery es = last_opt (filter se_recovery es)"

text \<open>The line of an incident: its first alert and its last recovery.\<close>

definition incident_lines :: "summary_entry list \<Rightarrow> string \<Rightarrow> summary_line list" where
  "incident_lines es k = pair_line (first_raise (entries_of k es), last_recovery (entries_of k es))"

lemma find_snoc: "find P (xs @ [x]) = (case find P xs of None \<Rightarrow> if P x then Some x else None | Some y \<Rightarrow> Some y)"
  by (induction xs) auto

lemma last_opt_snoc: "last_opt (xs @ [x]) = Some x"
  by (simp add: last_opt_def)

lemma entries_of_snoc:
  "entries_of k (es @ [en]) = entries_of k es @ (if entry_key en = k then [en] else [])"
  by (simp add: entries_of_def)

lemma entries_of_empty: "entries_of k es = [] \<longleftrightarrow> k \<notin> entry_key ` set es"
  by (auto simp: entries_of_def filter_empty_conv)

lemma pair_entries_snoc: "pair_entries (es @ [en]) = fold_entry (pair_entries es) en"
  by (simp add: pair_entries_def)

lemma pair_entries_spec:
  "distinct (fst (pair_entries es)) \<and> set (fst (pair_entries es)) = entry_key ` set es
   \<and> (\<forall>k. snd (pair_entries es) k = (if k \<in> entry_key ` set es
        then Some (first_raise (entries_of k es), last_recovery (entries_of k es)) else None))"
proof (induction es rule: rev_induct)
  case Nil
  then show ?case by (simp add: pair_entries_def)
next
  case (snoc en es)
  define k where "k = entry_key en"
  have dom: "snd (pair_entries es) k = None \<longleftrightarrow> k \<notin> entry_key ` set es" using snoc.IH by simp
  have order: "fst (pair_entries (es @ [en]))
      = (if k \<in> entry_key ` set es then fst (pair_entries es) else fst (pair_entries es) @ [k])"
    using dom by (auto simp: pair_entries_snoc fold_entry_def Let_def k_def [unfolded entry_key_def] entry_key_def)
  have own: "snd (pair_entries (es @ [en])) k
      = Some (first_raise (entries_of k (es @ [en])), last_recovery (entries_of k (es @ [en])))"
  proof (cases "k \<in> entry_key ` set es")
    case True
    then have s: "snd (pair_entries es) k = Some (first_raise (entries_of k es), last_recovery (entries_of k es))"
      using snoc.IH by simp
    show ?thesis
      using s by (auto simp: pair_entries_snoc fold_entry_def Let_def entries_of_snoc first_raise_def
          last_recovery_def find_snoc last_opt_snoc k_def entry_key_def split: option.split)
  next
    case False
    then have s: "snd (pair_entries es) k = None" using dom by simp
    have e: "entries_of k es = []" using False by (simp add: entries_of_empty)
    show ?thesis
      using s e by (auto simp: pair_entries_snoc fold_entry_def Let_def entries_of_snoc first_raise_def
          last_recovery_def last_opt_def k_def entry_key_def)
  qed
  have other: "snd (pair_entries (es @ [en])) j = snd (pair_entries es) j
      \<and> entries_of j (es @ [en]) = entries_of j es" if "j \<noteq> k" for j
    using that by (simp add: pair_entries_snoc fold_entry_def Let_def entries_of_snoc k_def entry_key_def)
  have img: "entry_key ` set (es @ [en]) = insert k (entry_key ` set es)" by (simp add: k_def)
  show ?case
  proof (intro conjI allI)
    show "distinct (fst (pair_entries (es @ [en])))" using snoc.IH order by auto
    show "set (fst (pair_entries (es @ [en]))) = entry_key ` set (es @ [en])"
      using snoc.IH order img by auto
    fix j
    show "snd (pair_entries (es @ [en])) j = (if j \<in> entry_key ` set (es @ [en])
        then Some (first_raise (entries_of j (es @ [en])), last_recovery (entries_of j (es @ [en]))) else None)"
      using own other [of j] img snoc.IH by (cases "j = k") auto
  qed
qed

lemma pair_has_line:
  assumes "k \<in> entry_key ` set es"
  shows "\<exists>l. incident_lines es k = [l]"
proof -
  have "entries_of k es \<noteq> []" using assms by (simp add: entries_of_empty)
  moreover have "first_raise xs \<noteq> None \<or> last_recovery xs \<noteq> None" if "xs \<noteq> []" for xs
    using that by (cases xs) (auto simp: first_raise_def last_recovery_def last_opt_def find_None_iff)
  ultimately have "first_raise (entries_of k es) \<noteq> None \<or> last_recovery (entries_of k es) \<noteq> None" by blast
  then show ?thesis
    by (cases "first_raise (entries_of k es)"; cases "last_recovery (entries_of k es)")
       (simp_all add: incident_lines_def)
qed

lemma summary_lines_spec:
  "summary_lines (pair_entries es) = concat (map (incident_lines es) (fst (pair_entries es)))"
proof -
  have "(case snd (pair_entries es) k of None \<Rightarrow> [] | Some p \<Rightarrow> pair_line p) = incident_lines es k"
    if "k \<in> set (fst (pair_entries es))" for k
    using pair_entries_spec [of es] that by (simp add: incident_lines_def)
  then show ?thesis by (simp add: summary_lines_def cong: map_cong)
qed

text \<open>Buffering a sequence of events while quiet.\<close>

definition buffer_events :: "summary_entry list \<Rightarrow> alerting \<Rightarrow> alerting" where
  "buffer_events es w = fold (\<lambda>en w. snd (append_summary en w)) es w"

definition buffered :: "alerting \<Rightarrow> summary_entry list" where
  "buffered w = (case al_summary w of Entries es \<Rightarrow> es | _ \<Rightarrow> [])"

lemma append_summary_ok:
  assumes "al_faults w = []"
  shows "append_summary en w = (True, w\<lparr>al_summary := Entries (buffered w @ [en])\<rparr>)"
  using assms by (simp add: append_summary_def load_summary_def get_summary_def put_summary_def buffered_def
      split: summary_row.split)

lemma buffer_events_ok:
  assumes "al_faults w = []"
  shows "buffer_events es w = (if es = [] then w else w\<lparr>al_summary := Entries (buffered w @ es)\<rparr>)"
  using assms
proof (induction es arbitrary: w)
  case Nil
  then show ?case by (simp add: buffer_events_def)
next
  case (Cons en es)
  let ?w = "w\<lparr>al_summary := Entries (buffered w @ [en])\<rparr>"
  have "buffer_events (en # es) w = buffer_events es ?w"
    by (simp add: buffer_events_def append_summary_ok [OF Cons.prems])
  then show ?case using Cons by (simp add: buffered_def)
qed

text \<open> The events of a quiet period come out in one message after it: starting from an empty buffer,
  buffering events and then flushing queues exactly one notification, whose title counts the
  distinct incidents and whose lines are one line for every incident, built from its first alert
  and its last recovery, and leaves the buffer empty; while quiet nothing is queued.\<close>

theorem summary_reports_every_incident:
  assumes "al_faults w = []" "al_summary w = NoRow" "es \<noteq> []"
  shows "\<exists>q lines ks. al_queue (snd (flush_summary inp (buffer_events es w))) = al_queue w @ [q]
    \<and> al_queue (buffer_events es w) = al_queue w
    \<and> al_summary (snd (flush_summary inp (buffer_events es w))) = NoRow
    \<and> qi_title q = summary_title (card (entry_key ` set es)) \<and> qi_body q = BodyLines lines
    \<and> distinct ks \<and> set ks = entry_key ` set es
    \<and> mset lines = mset (concat (map (incident_lines es) ks)) \<and> length lines = length ks"
proof -
  have buf: "buffer_events es w = w\<lparr>al_summary := Entries es\<rparr>"
    using buffer_events_ok [OF assms(1)] assms(2,3) by (simp add: buffered_def)
  define ks where "ks = fst (pair_entries es)"
  have ks: "distinct ks" "set ks = entry_key ` set es" using pair_entries_spec [of es] by (auto simp: ks_def)
  have "\<And>k. k \<in> set ks \<Longrightarrow> length (incident_lines es k) = 1"
    using pair_has_line ks(2) by fastforce
  then have len: "length (concat (map (incident_lines es) ks)) = length ks"
    by (induction ks) (auto simp: length_concat)
  have card: "length ks = card (entry_key ` set es)" using ks by (metis distinct_card)
  show ?thesis
    using assms(1,3) ks len card
    by (intro exI [of _ "\<lparr>qi_id = al_queue_seq w + 1, qi_created = unix_milli (ti_now inp),
          qi_title = summary_title (length ks),
          qi_body = BodyLines (sort_key (ti_render inp) (summary_lines (pair_entries es))),
          qi_priority = ''default'', qi_attempts = 0\<rparr>"]
        exI [of _ "sort_key (ti_render inp) (summary_lines (pair_entries es))"] exI [of _ ks])
      (simp add: buf flush_summary_def load_summary_def get_summary_def enqueue_alert_def drop_summary_def
        Let_def ks_def [symmetric] summary_lines_spec)
qed

definition demo_entries :: "summary_entry list" where
  "demo_entries = [\<lparr>se_ts = 1, se_event = ProbeOffline, se_subject = ''p1'', se_msg = MsgText [], se_recovery = False\<rparr>,
     \<lparr>se_ts = 2, se_event = Derate, se_subject = ''bandwidth'', se_msg = MsgText [], se_recovery = False\<rparr>,
     \<lparr>se_ts = 3, se_event = ProbeOffline, se_subject = ''p1'', se_msg = MsgText [], se_recovery = True\<rparr>]"

lemma summary_reports_every_incident_witness:
  "\<exists>q lines ks. al_queue (snd (flush_summary (demo_tick 300) (buffer_events demo_entries demo_db))) = al_queue demo_db @ [q]
    \<and> al_queue (buffer_events demo_entries demo_db) = al_queue demo_db
    \<and> al_summary (snd (flush_summary (demo_tick 300) (buffer_events demo_entries demo_db))) = NoRow
    \<and> qi_title q = summary_title (card (entry_key ` set demo_entries)) \<and> qi_body q = BodyLines lines
    \<and> distinct ks \<and> set ks = entry_key ` set demo_entries
    \<and> mset lines = mset (concat (map (incident_lines demo_entries) ks)) \<and> length lines = length ks"
  by (rule summary_reports_every_incident) (simp_all add: demo_db_def demo_entries_def)

text \<open>When the buffer cannot be read, the event that is being added replaces all the buffered ones: they
  are never reported.\<close>

lemma read_error_loses_the_buffer:
  assumes "al_faults w = [True]"
  shows "al_summary (snd (append_summary en w)) = Entries [en]"
  using assms by (simp add: append_summary_def load_summary_def get_summary_def put_summary_def
      take_fault_def db_exec_def split: summary_row.split)

text \<open>An incident raised again after it recovered, and still active, is reported as recovered.\<close>

lemma reraised_incident_reported_recovered:
  assumes "entries_of k es = [a, r, b]" "\<not> se_recovery a" "se_recovery r" "\<not> se_recovery b"
  shows "incident_lines es k = [LineRecovered (se_ts a) (se_msg a) (se_ts r)]"
  using assms by (simp add: incident_lines_def first_raise_def last_recovery_def last_opt_def)

end
