(* ===== verification/AlertSender.thy ===== *)
theory AlertSender
  imports AlertIncidents
begin

text \<open>
  \<open>internal/alert/sender.go\<close>: the loop that drains the notification queue into ntfy, oldest first,
  with exponential backoff. One iteration is \<open>sender_iter\<close>; its input says what the environment did:
  the configuration read, the outcome of the HTTP exchange, and the notifications the engine queued
  since the iteration before. Waits are recorded, not performed.
\<close>

section \<open>Posting\<close>

text \<open>What \<open>NtfyPost\<close> meets: a request that cannot be built, a transport error, or a response.\<close>

datatype http_outcome = BadRequest string | TransportError string | Response int string

datatype post_result = PostOk | PostPermanent string | PostRetry string

definition ntfy_message :: "int \<Rightarrow> string \<Rightarrow> string" where
  "ntfy_message status body = ''ntfy '' @ go_itoa status @ '': '' @ body"

fun ntfy_post :: "http_outcome \<Rightarrow> post_result" where
  "ntfy_post (BadRequest e) = PostPermanent e"
| "ntfy_post (TransportError e) = PostRetry e"
| "ntfy_post (Response status body) =
     (if status \<ge> 200 \<and> status < 300 then PostOk
      else if status \<ge> 400 \<and> status < 500 \<and> status \<noteq> 429 then PostPermanent (ntfy_message status body)
      else PostRetry (ntfy_message status body))"

section \<open>The loop\<close>

definition min_backoff :: duration where "min_backoff = 5 * go_second"
definition max_backoff :: duration where "max_backoff = 5 * go_minute"

record sender =
  sn_backoff :: duration
  sn_last_err :: string
  sn_posted :: "queue_item list"
  sn_db :: alerting

definition new_sender :: "alerting \<Rightarrow> sender" where
  "new_sender db = \<lparr>sn_backoff = min_backoff, sn_last_err = [], sn_posted = [], sn_db = db\<rparr>"

record send_input =
  si_cfg :: alert_config
  si_http :: http_outcome

text \<open>One turn of the loop: the wait that ends it (zero meaning \<open>continue\<close> at once) and the state.
  \<open>sn_posted\<close> records the notifications handed to ntfy that it accepted.\<close>

definition sender_iter :: "send_input \<Rightarrow> sender \<Rightarrow> duration \<times> sender" where
  "sender_iter inp s = (case next_queued_alert (sn_db s) of
     (None, db) \<Rightarrow> (5 * go_second, s\<lparr>sn_db := db\<rparr>)
   | (Some None, db) \<Rightarrow> (5 * go_second, s\<lparr>sn_db := db\<rparr>)
   | (Some (Some item), db) \<Rightarrow>
       if ac_server_url (si_cfg inp) = [] \<or> ac_topic (si_cfg inp) = []
       then (30 * go_second, s\<lparr>sn_db := db\<rparr>)
       else (case ntfy_post (si_http inp) of
           PostOk \<Rightarrow> (0, s\<lparr>sn_last_err := [], sn_posted := sn_posted s @ [item],
                        sn_db := snd (delete_queued_alert (qi_id item) db), sn_backoff := min_backoff\<rparr>)
         | PostPermanent e \<Rightarrow> (0, s\<lparr>sn_last_err := e, sn_db := snd (delete_queued_alert (qi_id item) db)\<rparr>)
         | PostRetry e \<Rightarrow> (sn_backoff s, s\<lparr>sn_last_err := e,
                        sn_db := snd (bump_alert_attempts (qi_id item) db),
                        sn_backoff := min (sn_backoff s * 2) max_backoff\<rparr>)))"

text \<open>The loop for ever: iteration \<open>n\<close> runs on the state left by the ones before it, after the
  notifications the engine queued meanwhile.\<close>

type_synonym notification = "rune list \<times> alert_body \<times> string \<times> instant"

definition queue_arrivals :: "notification list \<Rightarrow> alerting \<Rightarrow> alerting" where
  "queue_arrivals ns db = fold (\<lambda>(t, b, p, c) db. snd (enqueue_alert t b p c db)) ns db"

fun sender_run :: "(nat \<Rightarrow> send_input) \<Rightarrow> (nat \<Rightarrow> notification list) \<Rightarrow> nat \<Rightarrow> sender \<Rightarrow> sender" where
  "sender_run inp arr 0 s = s"
| "sender_run inp arr (Suc n) s =
     (let s' = sender_run inp arr n s
      in snd (sender_iter (inp n) (s'\<lparr>sn_db := queue_arrivals (arr n) (sn_db s')\<rparr>)))"

section \<open>Backoff\<close>

lemma backoff_range_iter:
  assumes "min_backoff \<le> sn_backoff s" "sn_backoff s \<le> max_backoff"
  shows "min_backoff \<le> sn_backoff (snd (sender_iter inp s)) \<and> sn_backoff (snd (sender_iter inp s)) \<le> max_backoff
    \<and> 0 \<le> fst (sender_iter inp s) \<and> fst (sender_iter inp s) \<le> max_backoff"
  using assms
  by (auto simp: sender_iter_def min_backoff_def max_backoff_def go_units
      split: prod.split option.split post_result.split)

text \<open>After \<open>n\<close> failures in a row the next wait is five seconds doubled \<open>n\<close> times, at most five minutes.\<close>

definition backoff_after :: "nat \<Rightarrow> duration" where
  "backoff_after n = min (min_backoff * 2 ^ n) max_backoff"

definition failing_post :: "send_input \<Rightarrow> bool" where
  "failing_post inp \<longleftrightarrow> ac_server_url (si_cfg inp) \<noteq> [] \<and> ac_topic (si_cfg inp) \<noteq> []
     \<and> (\<exists>e. ntfy_post (si_http inp) = PostRetry e)"

lemma backoff_after_Suc: "min (backoff_after n * 2) max_backoff = backoff_after (Suc n)"
  by (simp add: backoff_after_def max_backoff_def go_units min_def)

lemma failing_run_backoff:
  assumes "al_faults (sn_db s) = []" "al_queue (sn_db s) = [q]" "sn_backoff s = min_backoff"
    and "\<And>i. i \<le> n \<Longrightarrow> failing_post (inp i)"
  shows "sn_backoff (sender_run inp (\<lambda>_. []) n s) = backoff_after n
    \<and> al_faults (sn_db (sender_run inp (\<lambda>_. []) n s)) = []
    \<and> (\<exists>q. al_queue (sn_db (sender_run inp (\<lambda>_. []) n s)) = [q])"
  using assms(4)
proof (induction n)
  case 0
  then show ?case using assms by (simp add: backoff_after_def min_backoff_def max_backoff_def go_units)
next
  case (Suc n)
  define s' where "s' = sender_run inp (\<lambda>_. []) n s"
  obtain q where st: "sn_backoff s' = backoff_after n" "al_faults (sn_db s') = []" "al_queue (sn_db s') = [q]"
    using Suc by (auto simp: s'_def)
  have "failing_post (inp n)" using Suc.prems by simp
  then obtain e where "ntfy_post (si_http (inp n)) = PostRetry e"
    and "ac_server_url (si_cfg (inp n)) \<noteq> []" "ac_topic (si_cfg (inp n)) \<noteq> []"
    by (auto simp: failing_post_def)
  then show ?case
    using st by (simp add: s'_def [symmetric] Let_def sender_iter_def next_queued_alert_def
        queue_arrivals_def bump_alert_attempts_def backoff_after_Suc)
qed

section \<open>Draining\<close>

definition queue_ids :: "alerting \<Rightarrow> nat list" where
  "queue_ids db = map qi_id (al_queue db)"

definition queue_ok :: "alerting \<Rightarrow> bool" where
  "queue_ok db \<longleftrightarrow> sorted_wrt (<) (queue_ids db) \<and> (\<forall>i \<in> set (queue_ids db). i \<le> al_queue_seq db)"

lemma oldest_is_first: "sorted_wrt (<) (map qi_id qs) \<Longrightarrow> oldest_item qs = (if qs = [] then None else Some (hd qs))"
proof (induction qs)
  case (Cons q qs)
  then show ?case by (cases qs) auto
qed simp

lemma delete_first: "sorted_wrt (<) (map qi_id (q # qs)) \<Longrightarrow> filter (\<lambda>p. qi_id p \<noteq> qi_id q) (q # qs) = qs"
  by (auto simp: filter_id_conv)

lemma arrivals_ok:
  assumes "queue_ok db" "al_faults db = []"
  shows "queue_ok (queue_arrivals ns db) \<and> al_faults (queue_arrivals ns db) = []
    \<and> (\<exists>new. queue_ids (queue_arrivals ns db) = queue_ids db @ new \<and> (\<forall>i \<in> set new. al_queue_seq db < i))
    \<and> al_queue_seq db \<le> al_queue_seq (queue_arrivals ns db)"
  using assms
proof (induction ns arbitrary: db)
  case Nil
  then show ?case by (simp add: queue_arrivals_def)
next
  case (Cons n ns)
  obtain t b p c where n: "n = (t, b, p, c)" by (cases n)
  define db1 where "db1 = snd (enqueue_alert t b p c db)"
  have db1: "queue_ids db1 = queue_ids db @ [al_queue_seq db + 1]" "al_queue_seq db1 = al_queue_seq db + 1"
    "al_faults db1 = []"
    using Cons.prems(2) by (simp_all add: db1_def enqueue_alert_def queue_ids_def)
  have ok1: "queue_ok db1" using Cons.prems(1) db1 by (auto simp: queue_ok_def sorted_wrt_append)
  have run: "queue_arrivals (n # ns) db = queue_arrivals ns db1" by (simp add: queue_arrivals_def n db1_def)
  show ?case using Cons.IH [OF ok1 db1(3)] db1 by (auto simp: run) (metis Suc_lessD)
qed

definition settles :: "send_input \<Rightarrow> bool" where
  "settles inp \<longleftrightarrow> ac_server_url (si_cfg inp) \<noteq> [] \<and> ac_topic (si_cfg inp) \<noteq> []
     \<and> (\<forall>e. ntfy_post (si_http inp) \<noteq> PostRetry e)"

lemma iter_ids:
  assumes "queue_ok (sn_db s)" "al_faults (sn_db s) = []"
  shows "queue_ids (sn_db (snd (sender_iter inp s)))
      = (if settles inp then tl (queue_ids (sn_db s)) else queue_ids (sn_db s))
    \<and> al_faults (sn_db (snd (sender_iter inp s))) = []
    \<and> al_queue_seq (sn_db (snd (sender_iter inp s))) = al_queue_seq (sn_db s)"
proof (cases "al_queue (sn_db s)")
  case Nil
  then show ?thesis using assms by (simp add: sender_iter_def next_queued_alert_def queue_ids_def)
next
  case (Cons q qs)
  have sorted: "sorted_wrt (<) (map qi_id (q # qs))" using assms(1) Cons by (simp add: queue_ok_def queue_ids_def)
  have old: "oldest_item (al_queue (sn_db s)) = Some q" using oldest_is_first [OF sorted] Cons by simp
  have bump: "qi_id (if qi_id p = i then p\<lparr>qi_attempts := qi_attempts p + 1\<rparr> else p) = qi_id p" for i p
    by simp
  show ?thesis
    using assms(2) old Cons delete_first [OF sorted]
    by (auto simp: sender_iter_def next_queued_alert_def settles_def queue_ids_def delete_queued_alert_def
        bump_alert_attempts_def bump split: post_result.split)
qed

lemma queue_ok_tl: "queue_ok db \<Longrightarrow> queue_ids db' = tl (queue_ids db) \<or> queue_ids db' = queue_ids db
  \<Longrightarrow> al_queue_seq db' = al_queue_seq db \<Longrightarrow> queue_ok db'"
  by (cases "queue_ids db") (auto simp: queue_ok_def)

lemma run_ids:
  fixes inp arr s
  assumes "queue_ok (sn_db s)" "al_faults (sn_db s) = []"
  defines "r \<equiv> \<lambda>n. sender_run inp arr n s"
  shows "queue_ok (sn_db (r n)) \<and> al_faults (sn_db (r n)) = []"
    and "\<exists>new. (\<forall>i \<in> set new. al_queue_seq (sn_db (r n)) < i) \<and> queue_ids (sn_db (r (Suc n)))
      = (if settles (inp n) then tl (queue_ids (sn_db (r n)) @ new) else queue_ids (sn_db (r n)) @ new)"
proof -
  show ok: "queue_ok (sn_db (r n)) \<and> al_faults (sn_db (r n)) = []" for n
  proof (induction n)
    case 0
    then show ?case using assms by simp
  next
    case (Suc n)
    let ?a = "(r n)\<lparr>sn_db := queue_arrivals (arr n) (sn_db (r n))\<rparr>"
    have a: "queue_ok (sn_db ?a)" "al_faults (sn_db ?a) = []" using arrivals_ok Suc by simp_all
    have "r (Suc n) = snd (sender_iter (inp n) ?a)" by (simp add: r_def Let_def)
    then show ?case
      using iter_ids [OF a, of "inp n"] queue_ok_tl [OF a(1), of "sn_db (r (Suc n))"] by auto
  qed
  let ?a = "(r n)\<lparr>sn_db := queue_arrivals (arr n) (sn_db (r n))\<rparr>"
  from arrivals_ok [of "sn_db (r n)" "arr n"] ok [of n] obtain new where new:
    "queue_ids (sn_db ?a) = queue_ids (sn_db (r n)) @ new" "\<forall>i \<in> set new. al_queue_seq (sn_db (r n)) < i"
    and a: "queue_ok (sn_db ?a)" "al_faults (sn_db ?a) = []" by auto
  have "r (Suc n) = snd (sender_iter (inp n) ?a)" by (simp add: r_def Let_def)
  then show "\<exists>new. (\<forall>i \<in> set new. al_queue_seq (sn_db (r n)) < i) \<and> queue_ids (sn_db (r (Suc n)))
      = (if settles (inp n) then tl (queue_ids (sn_db (r n)) @ new) else queue_ids (sn_db (r n)) @ new)"
    using iter_ids [OF a, of "inp n"] new by (intro exI [of _ new]) simp
qed

text \<open>The measure: the notifications up to a given one that still wait.\<close>

definition waiting_up_to :: "nat \<Rightarrow> nat list \<Rightarrow> nat" where
  "waiting_up_to i ids = length (filter (\<lambda>j. j \<le> i) ids)"

lemma waiting_step:
  assumes ok: "queue_ok db" and i: "i \<in> set (queue_ids db)" and new: "\<forall>j \<in> set new. al_queue_seq db < j"
  shows "waiting_up_to i (queue_ids db @ new) = waiting_up_to i (queue_ids db)"
    and "waiting_up_to i (tl (queue_ids db @ new)) < waiting_up_to i (queue_ids db)"
proof -
  have "i \<le> al_queue_seq db" using ok i by (auto simp: queue_ok_def)
  then have none: "filter (\<lambda>j. j \<le> i) new = []" using new by (force simp: filter_empty_conv)
  then show "waiting_up_to i (queue_ids db @ new) = waiting_up_to i (queue_ids db)"
    by (simp add: waiting_up_to_def)
  obtain h t where h: "queue_ids db = h # t" using i by (cases "queue_ids db") auto
  then have "h \<le> i" using ok i by (auto simp: queue_ok_def)
  then show "waiting_up_to i (tl (queue_ids db @ new)) < waiting_up_to i (queue_ids db)"
    using h none by (simp add: waiting_up_to_def)
qed

lemma item_leaves:
  assumes "queue_ok (sn_db s)" "al_faults (sn_db s) = []"
    and "\<And>n. \<exists>m \<ge> n. settles (inp m)"
  shows "\<exists>m \<ge> n. i \<notin> set (queue_ids (sn_db (sender_run inp arr m s)))"
proof (induction "waiting_up_to i (queue_ids (sn_db (sender_run inp arr n s)))" arbitrary: n rule: less_induct)
  case less
  define r where "r n = sender_run inp arr n s" for n
  define ids where "ids n = queue_ids (sn_db (r n))" for n
  note run = run_ids [OF assms(1,2), of inp arr, folded r_def]
  show ?case
  proof (rule ccontr)
    assume never: "\<not> ?thesis"
    then have i: "i \<in> set (ids m)" if "m \<ge> n" for m using that by (auto simp: ids_def r_def)
    have le: "waiting_up_to i (ids (Suc m)) \<le> waiting_up_to i (ids m)" if "m \<ge> n" for m
    proof -
      obtain new where "\<forall>j \<in> set new. al_queue_seq (sn_db (r m)) < j"
        "ids (Suc m) = (if settles (inp m) then tl (ids m @ new) else ids m @ new)"
        using run(2) [of m] by (auto simp: ids_def)
      then show ?thesis using waiting_step [of "sn_db (r m)" i new] run(1) [of m] i [OF that]
        by (auto simp: ids_def)
    qed
    have chain: "waiting_up_to i (ids (n + d)) \<le> waiting_up_to i (ids n)" for d
    proof (induction d)
      case (Suc d)
      then show ?case using le [of "n + d"] by simp
    qed simp
    obtain m where m: "m \<ge> n" "settles (inp m)" using assms(3) by blast
    obtain new where "\<forall>j \<in> set new. al_queue_seq (sn_db (r m)) < j" "ids (Suc m) = tl (ids m @ new)"
      using run(2) [of m] m(2) by (auto simp: ids_def)
    then have "waiting_up_to i (ids (Suc m)) < waiting_up_to i (ids m)"
      using waiting_step(2) [of "sn_db (r m)" i new] run(1) [of m] i [OF m(1)] by (auto simp: ids_def)
    also have "\<dots> \<le> waiting_up_to i (ids n)" using chain [of "m - n"] m(1) by simp
    finally have "\<exists>k \<ge> Suc m. i \<notin> set (ids k)"
      using less [of "Suc m"] by (simp add: ids_def r_def)
    then show False using i m(1) by (meson Suc_leD le_trans)
  qed
qed


text \<open>The fair schedule the witness uses: one notification, a transport that fails twice and then
  accepts, and so on.\<close>

definition demo_send_input :: "nat \<Rightarrow> send_input" where
  "demo_send_input n = \<lparr>si_cfg = default_alert_config\<lparr>ac_server_url := ''http://n'', ac_topic := ''ops''\<rparr>,
     si_http = (if n mod 3 = 2 then Response 200 [] else TransportError ''refused'')\<rparr>"


section \<open>What is posted\<close>

definition posted_ids :: "sender \<Rightarrow> nat list" where
  "posted_ids s = map qi_id (sn_posted s)"

definition posted_ok :: "sender \<Rightarrow> bool" where
  "posted_ok s \<longleftrightarrow> sorted_wrt (<) (posted_ids s @ queue_ids (sn_db s))
     \<and> (\<forall>i \<in> set (posted_ids s @ queue_ids (sn_db s)). i \<le> al_queue_seq (sn_db s))"

lemma posted_iter:
  assumes "queue_ok (sn_db s)" "al_faults (sn_db s) = []"
  shows "posted_ids (snd (sender_iter inp s)) = posted_ids s
    \<or> settles inp \<and> queue_ids (sn_db s) \<noteq> []
       \<and> posted_ids (snd (sender_iter inp s)) = posted_ids s @ [hd (queue_ids (sn_db s))]"
proof (cases "al_queue (sn_db s)")
  case Nil
  then show ?thesis using assms by (simp add: sender_iter_def next_queued_alert_def posted_ids_def)
next
  case (Cons q qs)
  have "sorted_wrt (<) (map qi_id (q # qs))" using assms(1) Cons by (simp add: queue_ok_def queue_ids_def)
  from oldest_is_first [OF this] have old: "oldest_item (al_queue (sn_db s)) = Some q" using Cons by simp
  then show ?thesis
    using assms(2) Cons by (auto simp: sender_iter_def next_queued_alert_def posted_ids_def queue_ids_def
        settles_def split: post_result.split)
qed

lemma posted_ok_arrivals:
  assumes "posted_ok s" "al_faults (sn_db s) = []"
  shows "posted_ok (s\<lparr>sn_db := queue_arrivals ns (sn_db s)\<rparr>)"
    and "queue_ok (queue_arrivals ns (sn_db s))" "al_faults (queue_arrivals ns (sn_db s)) = []"
proof -
  let ?db = "queue_arrivals ns (sn_db s)"
  have q: "queue_ok (sn_db s)" using assms(1) by (simp add: posted_ok_def queue_ok_def sorted_wrt_append)
  from arrivals_ok [OF q assms(2), of ns] obtain new where a: "queue_ok ?db" "al_faults ?db = []"
    and new: "queue_ids ?db = queue_ids (sn_db s) @ new" "\<forall>i \<in> set new. al_queue_seq (sn_db s) < i"
    and seq: "al_queue_seq (sn_db s) \<le> al_queue_seq ?db" by auto
  show "queue_ok ?db" "al_faults ?db = []" by (fact a)+
  have seq_p: "i \<le> al_queue_seq (sn_db s)" if "i \<in> set (posted_ids s)" for i
    using assms(1) that by (auto simp: posted_ok_def)
  have small: "i < j" if "i \<in> set (posted_ids s)" "j \<in> set (queue_ids ?db)" for i j
  proof -
    have "j \<in> set (queue_ids (sn_db s)) \<Longrightarrow> i < j"
      using assms(1) that(1) by (auto simp: posted_ok_def sorted_wrt_append)
    moreover have "j \<in> set new \<Longrightarrow> al_queue_seq (sn_db s) < j" using new(2) by blast
    moreover have "j \<in> set (queue_ids (sn_db s)) \<or> j \<in> set new" using that(2) new(1) by simp
    ultimately show ?thesis using seq_p [OF that(1)] by linarith
  qed
  have bound: "i \<le> al_queue_seq ?db" if "i \<in> set (posted_ids s)" for i
    using seq_p [OF that] seq by linarith
  have "posted_ids (s\<lparr>sn_db := ?db\<rparr>) = posted_ids s" by (simp add: posted_ids_def)
  moreover have "sorted_wrt (<) (posted_ids s)" using assms(1) by (simp add: posted_ok_def sorted_wrt_append)
  ultimately show "posted_ok (s\<lparr>sn_db := ?db\<rparr>)"
    unfolding posted_ok_def sorted_wrt_append using a(1) small bound by (auto simp: queue_ok_def)
qed

lemma posted_ok_iter:
  assumes p: "posted_ok s" and a: "queue_ok (sn_db s)" "al_faults (sn_db s) = []"
  shows "posted_ok (snd (sender_iter inp s))"
proof -
  define s' where "s' = snd (sender_iter inp s)"
  have ids: "queue_ids (sn_db s') = (if settles inp then tl (queue_ids (sn_db s)) else queue_ids (sn_db s))"
    "al_queue_seq (sn_db s') = al_queue_seq (sn_db s)"
    using iter_ids [OF a, of inp] by (simp_all add: s'_def)
  have "posted_ids s' = posted_ids s \<or> settles inp \<and> queue_ids (sn_db s) \<noteq> []
       \<and> posted_ids s' = posted_ids s @ [hd (queue_ids (sn_db s))]"
    using posted_iter [OF a, of inp] by (simp add: s'_def)
  then have "posted_ok s'"
  proof
    assume "posted_ids s' = posted_ids s"
    then show ?thesis
      using p ids by (cases "queue_ids (sn_db s)") (auto simp: posted_ok_def sorted_wrt_append)
  next
    assume "settles inp \<and> queue_ids (sn_db s) \<noteq> []
       \<and> posted_ids s' = posted_ids s @ [hd (queue_ids (sn_db s))]"
    then have "posted_ids s' @ queue_ids (sn_db s') = posted_ids s @ queue_ids (sn_db s)"
      using ids(1) by simp
    then show ?thesis using p ids(2) unfolding posted_ok_def by metis
  qed
  then show ?thesis by (simp add: s'_def)
qed

lemma posted_ok_run:
  assumes "posted_ok s" "al_faults (sn_db s) = []"
  shows "posted_ok (sender_run inp arr n s) \<and> al_faults (sn_db (sender_run inp arr n s)) = []"
proof (induction n)
  case 0
  then show ?case using assms by simp
next
  case (Suc n)
  then have r: "posted_ok (sender_run inp arr n s)" "al_faults (sn_db (sender_run inp arr n s)) = []" by simp_all
  note a = posted_ok_arrivals [OF r, of "arr n"]
  show ?case
    using posted_ok_iter [OF a(1)] iter_ids [of "(sender_run inp arr n s)
        \<lparr>sn_db := queue_arrivals (arr n) (sn_db (sender_run inp arr n s))\<rparr>" "inp n"] a(2,3)
    by (simp add: Let_def)
qed

text \<open> While the store works, ntfy accepts notifications in the order they were queued and each at most
  once, whatever is queued meanwhile and whatever the transport answers.\<close>

theorem notifications_posted_in_order_once:
  assumes "posted_ok s" "al_faults (sn_db s) = []"
  shows "sorted_wrt (<) (posted_ids (sender_run inp arr n s))"
  using posted_ok_run [OF assms, of inp arr n] by (simp add: posted_ok_def sorted_wrt_append)

lemma notifications_posted_in_order_once_witness:
  "sorted_wrt (<) (posted_ids (sender_run demo_send_input (\<lambda>n. [(runes ''x'', BodyLines [], [], 0)]) 7
      (new_sender (undefined\<lparr>al_queue := [], al_queue_seq := 0, al_faults := []\<rparr>))))"
  by (rule notifications_posted_in_order_once) (simp_all add: new_sender_def posted_ok_def posted_ids_def queue_ids_def)

text \<open>The wait that ends iteration \<open>n\<close>.\<close>

definition sender_wait where
  "sender_wait inp arr n s = fst (sender_iter (inp n) ((sender_run inp arr n s)
     \<lparr>sn_db := queue_arrivals (arr n) (sn_db (sender_run inp arr n s))\<rparr>))"

text \<open> When the queue can be read but not written, the loop delivers the same notification again and
  again without waiting: with \<open>n\<close> pairs of a successful read and a failed delete ahead, the first \<open>n\<close>
  iterations post the one queued notification \<open>n\<close> times and every one of them ends with wait zero,
  the exponential backoff never applying. The error of \<open>DeleteQueuedAlert\<close> is discarded.\<close>

theorem failed_delete_reposts_without_wait:
  assumes "al_queue (sn_db s) = [q]" "al_faults (sn_db s) = concat (replicate n [False, True])"
    and "\<And>k. k < n \<Longrightarrow> ac_server_url (si_cfg (inp k)) \<noteq> [] \<and> ac_topic (si_cfg (inp k)) \<noteq> []
           \<and> ntfy_post (si_http (inp k)) = PostOk"
  shows "sn_posted (sender_run inp (\<lambda>_. []) n s) = sn_posted s @ replicate n q
    \<and> (\<forall>k < n. sender_wait inp (\<lambda>_. []) k s = 0)"
proof -
  have run: "sn_posted (sender_run inp (\<lambda>_. []) k s) = sn_posted s @ replicate k q
      \<and> al_queue (sn_db (sender_run inp (\<lambda>_. []) k s)) = [q]
      \<and> al_faults (sn_db (sender_run inp (\<lambda>_. []) k s)) = concat (replicate (n - k) [False, True])"
    if "k \<le> n" for k
    using that
  proof (induction k)
    case 0
    then show ?case using assms by simp
  next
    case (Suc k)
    obtain m where m: "n - k = Suc m" "n - Suc k = m" using Suc.prems by (metis Suc_diff_Suc Suc_le_lessD)
    define r where "r = sender_run inp (\<lambda>_. []) k s"
    have r: "sn_posted r = sn_posted s @ replicate k q" "al_queue (sn_db r) = [q]"
      "al_faults (sn_db r) = False # True # concat (replicate m [False, True])"
      using Suc m by (simp_all add: r_def)
    have ok: "ac_server_url (si_cfg (inp k)) \<noteq> []" "ac_topic (si_cfg (inp k)) \<noteq> []"
      "ntfy_post (si_http (inp k)) = PostOk" using assms(3) [of k] Suc.prems by simp_all
    have "sn_posted (snd (sender_iter (inp k) r)) = sn_posted r @ [q]"
      "al_queue (sn_db (snd (sender_iter (inp k) r))) = [q]"
      "al_faults (sn_db (snd (sender_iter (inp k) r))) = concat (replicate m [False, True])"
      using r(2,3) ok by (simp_all add: sender_iter_def next_queued_alert_def take_fault_def
          delete_queued_alert_def db_exec_def)
    then show ?case using r(1) m(2)
      by (simp add: r_def [symmetric] queue_arrivals_def Let_def replicate_append_same)
  qed
  have "sender_wait inp (\<lambda>_. []) k s = 0" if kn: "k < n" for k
  proof -
    obtain m where m: "n - k = Suc m" using kn by (cases "n - k") simp_all
    define r where "r = sender_run inp (\<lambda>_. []) k s"
    have "al_queue (sn_db r) = [q]" "al_faults (sn_db r) = False # True # concat (replicate m [False, True])"
      using run [of k] kn m by (simp_all add: r_def)
    moreover note assms(3) [OF kn]
    ultimately show ?thesis
      unfolding sender_wait_def r_def [symmetric] queue_arrivals_def
      by (simp add: sender_iter_def next_queued_alert_def take_fault_def)
  qed
  then show ?thesis using run [of n] by simp
qed

lemma failed_delete_reposts_without_wait_witness:
  "\<exists>q. sn_posted (sender_run (\<lambda>_. demo_send_input 2) (\<lambda>_. []) 3
       (new_sender (undefined\<lparr>al_queue := [q], al_faults := concat (replicate 3 [False, True])\<rparr>))) = replicate 3 q"
proof -
  define q where "q = \<lparr>qi_id = 1, qi_created = 0, qi_title = runes ''x'', qi_body = BodyLines [],
     qi_priority = ''high'', qi_attempts = 0\<rparr>"
  have "sn_posted (sender_run (\<lambda>_. demo_send_input 2) (\<lambda>_. []) 3
       (new_sender (undefined\<lparr>al_queue := [q], al_faults := concat (replicate 3 [False, True])\<rparr>)))
     = sn_posted (new_sender (undefined\<lparr>al_queue := [q], al_faults := concat (replicate 3 [False, True])\<rparr>))
       @ replicate 3 q \<and> (\<forall>k < 3. sender_wait (\<lambda>_. demo_send_input 2) (\<lambda>_. []) k
         (new_sender (undefined\<lparr>al_queue := [q], al_faults := concat (replicate 3 [False, True])\<rparr>)) = 0)"
    by (rule failed_delete_reposts_without_wait)
       (simp_all add: new_sender_def demo_send_input_def)
  then show ?thesis by (auto simp: new_sender_def)
qed

text \<open>The bound on every wait.\<close>

lemma waits_bounded:
  assumes "min_backoff \<le> sn_backoff s" "sn_backoff s \<le> max_backoff"
  shows "min_backoff \<le> sn_backoff (sender_run inp arr n s) \<and> sn_backoff (sender_run inp arr n s) \<le> max_backoff"
proof (induction n)
  case (Suc n)
  let ?s = "(sender_run inp arr n s)\<lparr>sn_db := queue_arrivals (arr n) (sn_db (sender_run inp arr n s))\<rparr>"
  have "min_backoff \<le> sn_backoff ?s" "sn_backoff ?s \<le> max_backoff" using Suc by simp_all
  from backoff_range_iter [OF this, of "inp n"] show ?case by (simp add: Let_def)
qed (use assms in simp)

end
