(* ===== verification/Spill.thy ===== *)
theory Spill
  imports Prelude "HOL-Library.List_Lexorder" "HOL-Library.Char_ord" "HOL-Library.Multiset"
begin

text \<open>
  \<open>internal/agent/buffer.go\<close>: the spill buffer of a remote probe, one SQLite table of marshaled
  batches. The table is the list of its rows; \<open>batch_id\<close> is its primary key, so \<open>INSERT OR REPLACE\<close>
  first removes a row with the same key. Statements run inside a transaction act on a copy that a
  failure discards; which statements fail is an argument. A payload is a value of any type with a
  length.
\<close>

record 'p pending_batch =
  pb_batch_id :: string
  pb_created_at :: int
  pb_payload :: 'p

text \<open>\<open>ORDER BY created_at ASC, batch_id ASC\<close>; text compares bytewise.\<close>

definition older :: "'p pending_batch \<Rightarrow> 'p pending_batch \<Rightarrow> bool" where
  "older a b \<longleftrightarrow> pb_created_at a < pb_created_at b \<or>
     (pb_created_at a = pb_created_at b \<and> pb_batch_id a < pb_batch_id b)"

fun oldest_row :: "'p pending_batch list \<Rightarrow> 'p pending_batch option" where
  "oldest_row [] = None"
| "oldest_row (b # bs) =
     (case oldest_row bs of None \<Rightarrow> Some b | Some c \<Rightarrow> Some (if older c b then c else b))"

definition delete_batch :: "string \<Rightarrow> 'p pending_batch list \<Rightarrow> 'p pending_batch list" where
  "delete_batch i bs = filter (\<lambda>b. pb_batch_id b \<noteq> i) bs"

definition insert_or_replace :: "'p pending_batch \<Rightarrow> 'p pending_batch list \<Rightarrow> 'p pending_batch list" where
  "insert_or_replace b bs = delete_batch (pb_batch_id b) bs @ [b]"

definition payload_sum :: "('p \<Rightarrow> nat) \<Rightarrow> 'p pending_batch list \<Rightarrow> nat" where
  "payload_sum len bs = sum_list (map (\<lambda>b. len (pb_payload b)) bs)"

record add_faults =
  af_begin :: bool
  af_insert :: bool
  af_size :: "nat \<Rightarrow> bool"
  af_evict :: "nat \<Rightarrow> bool"
  af_commit :: bool

datatype buffer_error = TooLarge | BeginError | InsertError | SizeError | EvictError | CommitError

lemma oldest_row_mem: "oldest_row bs = Some b \<Longrightarrow> b \<in> set bs"
  by (induction bs arbitrary: b) (auto split: option.splits if_splits)

lemma oldest_row_None [simp]: "oldest_row bs = None \<longleftrightarrow> bs = []"
  by (cases bs) (auto split: option.splits)

lemma delete_oldest_shorter:
  "oldest_row bs = Some b \<Longrightarrow> length (delete_batch (pb_batch_id b) bs) < length bs"
  by (auto simp: delete_batch_def dest!: oldest_row_mem intro: length_filter_lt)

text \<open>The eviction loop; \<open>evicted\<close> doubles as the iteration count the faults refer to. \<open>SUM\<close> of an
  empty table is \<open>NULL\<close>.\<close>

function evict_loop :: "('p \<Rightarrow> nat) \<Rightarrow> int \<Rightarrow> add_faults \<Rightarrow> nat \<Rightarrow> 'p pending_batch list
    \<Rightarrow> nat \<times> (buffer_error + 'p pending_batch list)" where
  "evict_loop len maxBytes af evicted bs =
     (if af_size af evicted then (evicted, Inl SizeError)
      else case oldest_row bs of
        None \<Rightarrow> (evicted, Inr bs)
      | Some b \<Rightarrow>
          if int (payload_sum len bs) \<le> maxBytes then (evicted, Inr bs)
          else if af_evict af evicted then (evicted, Inl EvictError)
          else evict_loop len maxBytes af (evicted + 1) (delete_batch (pb_batch_id b) bs))"
  by pat_completeness auto
termination
  by (relation "measure (\<lambda>(_, _, _, _, bs). length bs)") (auto intro: delete_oldest_shorter)

declare evict_loop.simps [simp del]

text \<open>\<open>Add\<close>: how many batches were evicted, the error, and the table afterwards.\<close>

definition buffer_add :: "('p \<Rightarrow> nat) \<Rightarrow> int \<Rightarrow> add_faults \<Rightarrow> 'p pending_batch \<Rightarrow> 'p pending_batch list
    \<Rightarrow> (nat \<times> buffer_error option) \<times> 'p pending_batch list" where
  "buffer_add len maxBytes af b bs =
     (if int (len (pb_payload b)) > maxBytes then ((0, Some TooLarge), bs)
      else if af_begin af then ((0, Some BeginError), bs)
      else if af_insert af then ((0, Some InsertError), bs)
      else case evict_loop len maxBytes af 0 (insert_or_replace b bs) of
             (n, Inl e) \<Rightarrow> ((n, Some e), bs)
           | (n, Inr bs') \<Rightarrow> if af_commit af then ((n, Some CommitError), bs) else ((n, None), bs'))"

definition buffer_oldest :: "'p pending_batch list \<Rightarrow> (string \<times> 'p) option" where
  "buffer_oldest bs = map_option (\<lambda>b. (pb_batch_id b, pb_payload b)) (oldest_row bs)"

definition buffer_count :: "'p pending_batch list \<Rightarrow> nat" where
  "buffer_count bs = length bs"

definition open_buffer :: "int \<Rightarrow> string + int" where
  "open_buffer maxSizeMB =
     (if maxSizeMB < 1 then Inl ''buffer max_size_mb must be >= 1'' else Inr (maxSizeMB * 2 ^ 20))"

section \<open>The order of the queue\<close>

definition keys_ok :: "'p pending_batch list \<Rightarrow> bool" where
  "keys_ok bs \<longleftrightarrow> distinct (map pb_batch_id bs)"

lemma older_trans: "older a b \<Longrightarrow> older b c \<Longrightarrow> older a c"
  by (auto simp: older_def)

lemma older_irrefl [simp]: "\<not> older a a"
  by (simp add: older_def)

lemma older_linear: "pb_batch_id a \<noteq> pb_batch_id b \<Longrightarrow> older a b \<or> older b a"
  by (auto simp: older_def)

lemma older_asym: "older a b \<Longrightarrow> \<not> older b a"
  by (auto simp: older_def)

lemma keys_ok_simps [simp]:
  "keys_ok []"
  "keys_ok (b # bs) \<longleftrightarrow> pb_batch_id b \<notin> pb_batch_id ` set bs \<and> keys_ok bs"
  by (auto simp: keys_ok_def)

lemma keys_ok_delete [inv_facts]: "keys_ok bs \<Longrightarrow> keys_ok (delete_batch i bs)"
  by (auto simp: keys_ok_def delete_batch_def distinct_map inj_on_def)

lemma keys_ok_insert [inv_facts]: "keys_ok bs \<Longrightarrow> keys_ok (insert_or_replace b bs)"
  by (auto simp: keys_ok_def insert_or_replace_def delete_batch_def distinct_map inj_on_def)

lemma oldest_row_least:
  "oldest_row bs = Some b \<Longrightarrow> keys_ok bs \<Longrightarrow> c \<in> set bs \<Longrightarrow> c = b \<or> older b c"
proof (induction bs arbitrary: b)
  case Nil
  then show ?case by simp
next
  case (Cons a bs)
  show ?case
  proof (cases "oldest_row bs")
    case None
    with Cons.prems show ?thesis by auto
  next
    case (Some d)
    then have d: "d \<in> set bs" by (rule oldest_row_mem)
    have "pb_batch_id a \<noteq> pb_batch_id d" using Cons.prems(2) d by auto
    then have ad: "older a d \<or> older d a" by (rule older_linear)
    have IH: "c = d \<or> older d c" if "c \<in> set bs" using Cons.IH [OF Some] Cons.prems(2) that by simp
    show ?thesis
      using Cons.prems Some ad IH older_trans older_asym by (auto split: if_splits)
  qed
qed

text \<open>The table in delivery order.\<close>

function queue_order :: "'p pending_batch list \<Rightarrow> 'p pending_batch list" where
  "queue_order bs =
     (case oldest_row bs of None \<Rightarrow> [] | Some b \<Rightarrow> b # queue_order (delete_batch (pb_batch_id b) bs))"
  by pat_completeness auto
termination
  by (relation "measure length") (auto intro: delete_oldest_shorter)

declare queue_order.simps [simp del]

lemma queue_order_Nil [simp]: "queue_order [] = []"
  by (simp add: queue_order.simps)

lemma queue_order_Some:
  "oldest_row bs = Some b \<Longrightarrow> queue_order bs = b # queue_order (delete_batch (pb_batch_id b) bs)"
  by (simp add: queue_order.simps)

lemma delete_oldest_mset:
  assumes "oldest_row bs = Some b" "keys_ok bs"
  shows "mset bs = add_mset b (mset (delete_batch (pb_batch_id b) bs))"
proof -
  from assms(1) have "b \<in> set bs" by (rule oldest_row_mem)
  then obtain xs ys where bs: "bs = xs @ b # ys" by (meson split_list)
  have "filter (\<lambda>c. pb_batch_id c \<noteq> pb_batch_id b) xs = xs"
      "filter (\<lambda>c. pb_batch_id c \<noteq> pb_batch_id b) ys = ys"
    using assms(2) bs by (auto simp: keys_ok_def intro!: filter_True) (metis imageI)+
  with bs show ?thesis by (simp add: delete_batch_def)
qed

lemma queue_order_mset: "keys_ok bs \<Longrightarrow> mset (queue_order bs) = mset bs"
proof (induction bs rule: queue_order.induct)
  case (1 bs)
  show ?case
  proof (cases "oldest_row bs")
    case None
    then show ?thesis by simp
  next
    case (Some b)
    with 1 show ?thesis
      by (simp add: queue_order_Some keys_ok_delete delete_oldest_mset [OF Some])
  qed
qed

lemma set_queue_order: "keys_ok bs \<Longrightarrow> set (queue_order bs) = set bs"
  by (metis queue_order_mset set_mset_mset)

lemma length_queue_order: "keys_ok bs \<Longrightarrow> length (queue_order bs) = length bs"
  by (metis queue_order_mset size_mset)

lemma payload_sum_mset: "mset bs = mset cs \<Longrightarrow> payload_sum len bs = payload_sum len cs"
  by (metis mset_map payload_sum_def sum_mset_sum_list)

lemma queue_order_sum: "keys_ok bs \<Longrightarrow> payload_sum len (queue_order bs) = payload_sum len bs"
  by (rule payload_sum_mset) (rule queue_order_mset)

lemma queue_order_sorted: "keys_ok bs \<Longrightarrow> sorted_wrt older (queue_order bs)"
proof (induction bs rule: queue_order.induct)
  case (1 bs)
  show ?case
  proof (cases "oldest_row bs")
    case None
    then show ?thesis by simp
  next
    case (Some b)
    let ?d = "delete_batch (pb_batch_id b) bs"
    have "older b c" if "c \<in> set ?d" for c
      using that oldest_row_least [OF Some \<open>keys_ok bs\<close>] by (auto simp: delete_batch_def)
    then show ?thesis
      using 1 Some by (simp add: queue_order_Some keys_ok_delete set_queue_order)
  qed
qed

lemma sorted_older_unique:
  "sorted_wrt older xs \<Longrightarrow> sorted_wrt older ys \<Longrightarrow> set xs = set ys \<Longrightarrow> xs = ys"
proof (induction xs arbitrary: ys)
  case Nil
  then show ?case by simp
next
  case (Cons x xs)
  then obtain y ys' where ys: "ys = y # ys'" by (cases ys) auto
  have xy: "x = y"
    using Cons.prems older_asym unfolding ys by (metis list.set_intros(1) set_ConsD sorted_wrt.simps(2))
  have "x \<notin> set xs" "y \<notin> set ys'" using Cons.prems ys by auto
  then have "set xs = set ys'" using Cons.prems(3) ys xy by auto
  with Cons ys xy show ?case by simp
qed

lemma queue_order_eqI:
  "keys_ok bs \<Longrightarrow> sorted_wrt older xs \<Longrightarrow> set xs = set bs \<Longrightarrow> queue_order bs = xs"
  by (rule sorted_older_unique) (simp_all add: queue_order_sorted set_queue_order)

lemma queue_order_delete:
  assumes "keys_ok bs"
  shows "queue_order (delete_batch i bs) = delete_batch i (queue_order bs)"
  by (rule queue_order_eqI)
    (use assms keys_ok_delete [OF assms, of i] in \<open>auto simp: delete_batch_def set_queue_order
       intro: sorted_wrt_filter queue_order_sorted\<close>)

lemma buffer_oldest_queue:
  "buffer_oldest bs = (case queue_order bs of [] \<Rightarrow> None | b # _ \<Rightarrow> Some (pb_batch_id b, pb_payload b))"
  by (cases "oldest_row bs") (auto simp: buffer_oldest_def queue_order_Some)

section \<open>Adding and evicting\<close>

lemma evict_loop_ok:
  "evict_loop len mx af e bs = (n, Inr bs') \<Longrightarrow> keys_ok bs \<Longrightarrow> 0 \<le> mx \<Longrightarrow>
     e \<le> n \<and> keys_ok bs' \<and> queue_order bs' = drop (n - e) (queue_order bs)
     \<and> int (payload_sum len bs') \<le> mx
     \<and> (\<forall>k < n - e. mx < int (payload_sum len (drop k (queue_order bs))))"
proof (induction len mx af e bs rule: evict_loop.induct)
  case (1 len mx af e bs)
  show ?case
  proof (cases "oldest_row bs")
    case None
    with 1 show ?thesis
      by (subst (asm) evict_loop.simps) (auto simp: payload_sum_def split: if_splits)
  next
    case (Some b)
    show ?thesis
    proof (cases "int (payload_sum len bs) \<le> mx")
      case True
      with 1 Some show ?thesis by (subst (asm) (2) evict_loop.simps) (auto split: if_splits)
    next
      case False
      let ?d = "delete_batch (pb_batch_id b) bs"
      have nf: "\<not> af_size af e" "\<not> af_evict af e"
        using 1(2) Some False by (subst (asm) evict_loop.simps, simp split: if_splits)+
      then have "evict_loop len mx af (e + 1) ?d = (n, Inr bs')"
        using 1(2) Some False by (subst (asm) evict_loop.simps) simp
      from 1(1) [OF nf(1) Some False nf(2) this] 1(3,4)
      have IH: "e + 1 \<le> n" "keys_ok bs'" "queue_order bs' = drop (n - (e + 1)) (queue_order ?d)"
          "int (payload_sum len bs') \<le> mx"
          "\<forall>k < n - (e + 1). mx < int (payload_sum len (drop k (queue_order ?d)))"
        by (auto simp: keys_ok_delete)
      have q: "queue_order bs = b # queue_order ?d" using Some by (rule queue_order_Some)
      have "mx < int (payload_sum len (drop k (queue_order bs)))" if "k < n - e" for k
      proof (cases k)
        case 0
        with False q queue_order_sum [OF 1(3)] show ?thesis by simp
      next
        case (Suc j)
        with IH(5) that q show ?thesis by simp
      qed
      moreover have "queue_order bs' = drop (n - e) (queue_order bs)"
        using IH(1,3) q by (simp add: drop_Cons' Suc_diff_le)
      ultimately show ?thesis using IH by auto
    qed
  qed
qed

lemma evict_loop_total:
  "\<forall>i. \<not> af_size af i \<and> \<not> af_evict af i \<Longrightarrow> \<exists>n bs'. evict_loop len mx af e bs = (n, Inr bs')"
proof (induction len mx af e bs rule: evict_loop.induct)
  case (1 len mx af e bs)
  then show ?case
    by (subst evict_loop.simps) (auto split: option.splits)
qed

definition no_add_faults :: add_faults where
  "no_add_faults = \<lparr>af_begin = False, af_insert = False, af_size = (\<lambda>_. False),
     af_evict = (\<lambda>_. False), af_commit = False\<rparr>"

lemma last_is_newest:
  assumes ks: "keys_ok cs" and b: "b \<in> set cs"
    and newest: "\<And>c. c \<in> set cs \<Longrightarrow> c = b \<or> older c b"
  shows "queue_order cs \<noteq> [] \<and> last (queue_order cs) = b"
proof -
  from b ks obtain xs ys where q: "queue_order cs = xs @ b # ys"
    by (metis set_queue_order split_list)
  have "ys = []"
  proof (rule ccontr)
    assume "ys \<noteq> []"
    then obtain y where y: "y \<in> set ys" by (meson last_in_set)
    then have "older b y" using queue_order_sorted [OF ks] q by (auto simp: sorted_wrt_append)
    moreover have "y \<in> set cs" using set_queue_order [OF ks] q y by auto
    ultimately show False using newest older_asym older_irrefl by metis
  qed
  with q show ?thesis by simp
qed

lemma buffer_add_err:
  assumes "buffer_add len mx af b bs = ((n, Some e), bs')"
  shows "bs' = bs \<and> (e = TooLarge \<longleftrightarrow> mx < int (len (pb_payload b))) \<and> (e = TooLarge \<or> af \<noteq> no_add_faults)"
proof -
  have "e \<noteq> TooLarge" if "evict_loop len mx af k cs = (j, Inl e)" for k cs j
    using that
  proof (induction len mx af k cs rule: evict_loop.induct)
    case (1 len mx af k cs)
    then show ?case
      by (subst (asm) (2) evict_loop.simps) (auto split: if_splits option.splits)
  qed
  moreover have "\<exists>j cs'. evict_loop len mx no_add_faults k cs = (j, Inr cs')" for k cs
    by (rule evict_loop_total) (simp add: no_add_faults_def)
  ultimately show ?thesis
    using assms unfolding buffer_add_def
    by (auto simp: no_add_faults_def split: if_splits prod.splits sum.splits) (metis sum.distinct(1) prod.inject)+
qed

lemma buffer_add_ok:
  assumes keys: "keys_ok bs" and bound: "0 \<le> mx"
    and add: "buffer_add len mx af b bs = ((n, None), bs')"
  shows "keys_ok bs'" "queue_order bs' = drop n (queue_order (insert_or_replace b bs))"
    "int (payload_sum len bs') \<le> mx"
    "\<forall>k < n. mx < int (payload_sum len (drop k (queue_order (insert_or_replace b bs))))"
    "int (len (pb_payload b)) \<le> mx"
proof -
  have ks: "keys_ok (insert_or_replace b bs)" using keys by (rule keys_ok_insert)
  from add have "int (len (pb_payload b)) \<le> mx"
      and ev: "evict_loop len mx af 0 (insert_or_replace b bs) = (n, Inr bs')"
    by (auto simp: buffer_add_def split: if_splits prod.splits sum.splits)
  with evict_loop_ok [OF ev ks bound] show "keys_ok bs'"
    "queue_order bs' = drop n (queue_order (insert_or_replace b bs))"
    "int (payload_sum len bs') \<le> mx"
    "\<forall>k < n. mx < int (payload_sum len (drop k (queue_order (insert_or_replace b bs))))"
    "int (len (pb_payload b)) \<le> mx"
    by auto
qed

lemma buffer_add_keeps_newest:
  assumes keys: "keys_ok bs" and bound: "0 \<le> mx"
    and add: "buffer_add len mx af b bs = ((n, None), bs')"
    and newest: "\<forall>c \<in> set bs. pb_batch_id c \<noteq> pb_batch_id b \<longrightarrow> older c b"
  shows "b \<in> set bs'"
proof -
  note r = buffer_add_ok [OF keys bound add]
  let ?cs = "insert_or_replace b bs"
  let ?q = "queue_order ?cs"
  have "b \<in> set ?cs" by (simp add: insert_or_replace_def)
  moreover have "c = b \<or> older c b" if "c \<in> set ?cs" for c
    using that newest by (auto simp: insert_or_replace_def delete_batch_def)
  ultimately have l: "?q \<noteq> []" "last ?q = b" using last_is_newest [OF keys_ok_insert [OF keys]] by blast+
  then have "drop (length ?q - 1) ?q = [b]"
    by (metis append_butlast_last_id append_eq_conv_conj length_butlast)
  then have "\<not> length ?q - 1 < n" using r(4,5) by (auto simp: payload_sum_def)
  then have "n < length ?q" using l(1) by (cases ?q) auto
  then have "b \<in> set (queue_order bs')"
    using r(2) l by (metis drop_eq_Nil last_drop last_in_set leD)
  then show ?thesis using r(1) by (simp add: set_queue_order)
qed

text \<open>
  \<open>Add\<close> either fails and leaves the table as it was, or stores the batch (replacing one with
  the same id) and evicts exactly the oldest batches, and no more of them than needed to get the
  stored bytes down to the bound, and says how many. A batch larger than the whole bound is always
  refused; otherwise an add in which no statement fails succeeds, and the batch just added survives
  it whenever it is the newest.
\<close>

theorem add_evicts_oldest_only:
  assumes keys: "keys_ok bs" and bound: "0 \<le> mx"
    and add: "buffer_add len mx af b bs = ((n, err), bs')"
  shows "(case err of
      Some e \<Rightarrow> bs' = bs \<and> (e = TooLarge \<longleftrightarrow> mx < int (len (pb_payload b))) \<and>
        (e = TooLarge \<or> af \<noteq> no_add_faults)
    | None \<Rightarrow> let q = queue_order (insert_or_replace b bs) in
        keys_ok bs' \<and> queue_order bs' = drop n q \<and> int (payload_sum len bs') \<le> mx
        \<and> (\<forall>k < n. mx < int (payload_sum len (drop k q)))
        \<and> ((\<forall>c \<in> set bs. pb_batch_id c \<noteq> pb_batch_id b \<longrightarrow> older c b) \<longrightarrow> b \<in> set bs'))"
proof (cases err)
  case None
  with add show ?thesis
    using buffer_add_ok [OF keys bound, of len af b n bs'] buffer_add_keeps_newest [OF keys bound, of len af b n bs']
    by (simp add: Let_def)
next
  case (Some e)
  with add buffer_add_err [of len mx af b bs n e bs'] show ?thesis by auto
qed

definition demo_batch :: "string \<Rightarrow> int \<Rightarrow> nat \<Rightarrow> nat pending_batch" where
  "demo_batch i t n = \<lparr>pb_batch_id = i, pb_created_at = t, pb_payload = n\<rparr>"

theorem add_evicts_oldest_only_witness:
  "case buffer_add id 6 no_add_faults (demo_batch ''c'' 3 3) [demo_batch ''b'' 2 3, demo_batch ''a'' 1 3] of
     ((n, err), bs') \<Rightarrow> n = 1 \<and> err = None \<and> demo_batch ''c'' 3 3 \<in> set bs'
       \<and> demo_batch ''a'' 1 3 \<notin> set bs' \<and> payload_sum id bs' \<le> 6"
proof -
  let ?bs = "[demo_batch ''b'' 2 3, demo_batch ''a'' 1 3]"
  let ?r = "buffer_add id 6 no_add_faults (demo_batch ''c'' 3 3) ?bs"
  obtain n err bs' where r: "?r = ((n, err), bs')" by (metis prod.collapse)
  have "fst ?r = (1, None) \<and> demo_batch ''a'' 1 3 \<notin> set (snd ?r)" by code_simp
  then have n: "n = 1" "err = None" "demo_batch ''a'' 1 3 \<notin> set bs'" using r by auto
  have "keys_ok ?bs" by (simp add: keys_ok_def demo_batch_def)
  from add_evicts_oldest_only [OF this _ r] n
  have "payload_sum id bs' \<le> 6" "demo_batch ''c'' 3 3 \<in> set bs'"
    by (auto simp: Let_def demo_batch_def older_def)
  with r n show ?thesis by simp
qed

section \<open>The queue a drain loop works on\<close>

text \<open>
  What the drain loop relies on: the entry it is given is the first pending one, and deleting an
  id removes exactly that entry. Entries have distinct ids.
\<close>

locale delivery_queue =
  fixes inv :: "'q \<Rightarrow> bool"
    and pending :: "'q \<Rightarrow> (string \<times> 'p) list"
    and oldest :: "'q \<Rightarrow> (string \<times> 'p) option"
    and delete :: "string \<Rightarrow> 'q \<Rightarrow> 'q"
  assumes oldest_pending: "inv q \<Longrightarrow> oldest q = (case pending q of [] \<Rightarrow> None | x # _ \<Rightarrow> Some x)"
    and pending_delete: "inv q \<Longrightarrow> pending (delete i q) = filter (\<lambda>x. fst x \<noteq> i) (pending q)"
    and inv_delete: "inv q \<Longrightarrow> inv (delete i q)"
    and distinct_pending: "inv q \<Longrightarrow> distinct (map fst (pending q))"
begin

lemma oldest_Some: "inv q \<Longrightarrow> oldest q = Some x \<longleftrightarrow> (\<exists>xs. pending q = x # xs)"
  by (auto simp: oldest_pending split: list.splits)

lemma pending_delete_oldest:
  assumes "inv q" "pending q = (i, p) # xs"
  shows "pending (delete i q) = xs"
proof -
  have "distinct (map fst ((i, p) # xs))" using distinct_pending [OF assms(1)] assms(2) by simp
  then have "filter (\<lambda>x. fst x \<noteq> i) xs = xs" by (auto intro!: filter_True)
  then show ?thesis using pending_delete [OF assms(1), of i] assms(2) by simp
qed

end

definition spill_pending :: "'p pending_batch list \<Rightarrow> (string \<times> 'p) list" where
  "spill_pending bs = map (\<lambda>b. (pb_batch_id b, pb_payload b)) (queue_order bs)"

interpretation sq: delivery_queue keys_ok spill_pending buffer_oldest delete_batch
proof unfold_locales
  fix bs :: "'p pending_batch list" and i
  assume ok: "keys_ok bs"
  show "buffer_oldest bs = (case spill_pending bs of [] \<Rightarrow> None | x # _ \<Rightarrow> Some x)"
    by (simp add: buffer_oldest_queue spill_pending_def split: list.splits)
  show "spill_pending (delete_batch i bs) = filter (\<lambda>x. fst x \<noteq> i) (spill_pending bs)"
    unfolding spill_pending_def queue_order_delete [OF ok]
    by (simp add: filter_map comp_def delete_batch_def)
  show "keys_ok (delete_batch i bs)" using ok by (rule keys_ok_delete)
  have "distinct (map pb_batch_id (queue_order bs))"
    using ok by (metis keys_ok_def mset_map queue_order_mset distinct_count_atmost_1 mset_eq_imp_distinct_iff)
  then show "distinct (map fst (spill_pending bs))" by (simp add: spill_pending_def comp_def)
qed

end
