(* ===== verification/RingBuf.thy ===== *)
theory RingBuf
  imports History
begin

text \<open>
  \<open>internal/analysis/ringbuf.go\<close>: the fixed-capacity ring buffer behind every per-hop history.
  The record has the struct's three fields; each method is one definition. Go would panic on an
  index outside \<open>buf\<close>; the invariant \<open>ring_ok\<close> shows that no method ever forms one.
\<close>

record 'a ring =
  rb_buf :: "'a list"
  rb_head :: nat
  rb_size :: nat

definition new_ring :: "'a \<Rightarrow> int \<Rightarrow> 'a ring" where
  "new_ring zero capacity =
     (let capacity = (if capacity < 1 then 1 else capacity)
      in \<lparr>rb_buf = replicate (nat capacity) zero, rb_head = 0, rb_size = 0\<rparr>)"

definition ring_push :: "'a \<Rightarrow> 'a ring \<Rightarrow> 'a ring" where
  "ring_push v r =
     (let buf = (rb_buf r)[rb_head r := v];
          head = (rb_head r + 1) mod length buf;
          sz = (if rb_size r < length buf then rb_size r + 1 else rb_size r)
      in \<lparr>rb_buf = buf, rb_head = head, rb_size = sz\<rparr>)"

definition ring_len :: "'a ring \<Rightarrow> nat" where
  "ring_len r = rb_size r"

definition ring_cap :: "'a ring \<Rightarrow> nat" where
  "ring_cap r = length (rb_buf r)"

text \<open>\<open>(i - 1 + len) % len\<close>, the step one slot back: the sum is never negative.\<close>

definition ring_back :: "'a ring \<Rightarrow> nat \<Rightarrow> nat" where
  "ring_back r i = (i + length (rb_buf r) - 1) mod length (rb_buf r)"

definition ring_newest :: "'a ring \<Rightarrow> 'a option" where
  "ring_newest r = (if rb_size r = 0 then None else Some (rb_buf r ! ring_back r (rb_head r)))"

definition ring_oldest :: "'a ring \<Rightarrow> 'a option" where
  "ring_oldest r =
     (if rb_size r = 0 then None
      else let idx = (if rb_size r = length (rb_buf r) then rb_head r else 0)
           in Some (rb_buf r ! idx))"

fun ring_walk :: "'a ring \<Rightarrow> nat \<Rightarrow> nat \<Rightarrow> 'a list" where
  "ring_walk r idx 0 = []"
| "ring_walk r idx (Suc n) = rb_buf r ! idx # ring_walk r (ring_back r idx) n"

definition ring_newest_first :: "'a ring \<Rightarrow> 'a list" where
  "ring_newest_first r =
     (if rb_size r = 0 then [] else ring_walk r (ring_back r (rb_head r)) (rb_size r))"

text \<open>The in-place reversal of \<open>OldestFirst\<close>: swap the ends and move both indices inwards. Go's
  \<open>j\<close> starts at \<open>len(nf)-1\<close>, which is \<open>-1\<close> for an empty slice, so the indices are integers.\<close>

function swap_loop :: "'a list \<Rightarrow> int \<Rightarrow> int \<Rightarrow> 'a list" where
  "swap_loop xs i j =
     (if i < j
      then swap_loop (xs[nat i := xs ! nat j, nat j := xs ! nat i]) (i + 1) (j - 1)
      else xs)"
  by pat_completeness auto
termination
  by (relation "measure (\<lambda>(xs, i, j). nat (j - i))") auto

declare swap_loop.simps [simp del]

definition ring_oldest_first :: "'a ring \<Rightarrow> 'a list" where
  "ring_oldest_first r =
     (let nf = ring_newest_first r in swap_loop nf 0 (int (length nf) - 1))"

section \<open>Invariant\<close>

definition ring_ok :: "'a ring \<Rightarrow> bool" where
  "ring_ok r \<longleftrightarrow> rb_head r < length (rb_buf r) \<and> rb_size r \<le> length (rb_buf r) \<and>
     (rb_size r < length (rb_buf r) \<longrightarrow> rb_head r = rb_size r)"

lemma ring_ok_new [simp, inv_facts]: "ring_ok (new_ring z c)"
  by (auto simp: ring_ok_def new_ring_def Let_def)

lemma ring_ok_push [inv_facts]: "ring_ok r \<Longrightarrow> ring_ok (ring_push v r)"
  by (auto simp: ring_ok_def ring_push_def Let_def mod_Suc)

lemma ring_cap_push [simp]: "ring_cap (ring_push v r) = ring_cap r"
  by (simp add: ring_cap_def ring_push_def Let_def)

lemma ring_cap_new [simp]: "ring_cap (new_ring z c) = nat (max 1 c)"
  by (auto simp: ring_cap_def new_ring_def Let_def)

lemma ring_cap_pos: "ring_ok r \<Longrightarrow> 0 < ring_cap r"
  by (auto simp: ring_ok_def ring_cap_def)

section \<open>The contents\<close>

text \<open>The slot that holds the \<open>k\<close>-th most recent value.\<close>

definition ring_slot :: "nat \<Rightarrow> nat \<Rightarrow> nat \<Rightarrow> nat" where
  "ring_slot len head k = (head + (len - 1 - k)) mod len"

lemma ring_back_lt [ring_facts]: "ring_ok r \<Longrightarrow> ring_back r i < length (rb_buf r)"
  unfolding ring_back_def ring_ok_def by (metis mod_less_divisor gr_zeroI not_less_zero)

lemma ring_back_slot [ring_facts]:
  "k + 1 < length (rb_buf r) \<Longrightarrow>
   ring_back r (ring_slot (length (rb_buf r)) h k) = ring_slot (length (rb_buf r)) h (Suc k)"
proof -
  assume k: "k + 1 < length (rb_buf r)"
  let ?n = "length (rb_buf r)"
  have "(((h + (?n - 1 - k)) mod ?n) + (?n - 1)) mod ?n = (h + (?n - 1 - k) + (?n - 1)) mod ?n"
    by (simp add: mod_add_left_eq)
  also have "h + (?n - 1 - k) + (?n - 1) = (h + (?n - 1 - Suc k)) + ?n"
    using k by simp
  also have "\<dots> mod ?n = (h + (?n - 1 - Suc k)) mod ?n" by simp
  finally show ?thesis using k by (simp add: ring_back_def ring_slot_def)
qed

lemma ring_walk_length [simp]: "length (ring_walk r i n) = n"
  by (induction n arbitrary: i) auto

lemma ring_walk_slots:
  "k + n \<le> length (rb_buf r) \<Longrightarrow>
   ring_walk r (ring_slot (length (rb_buf r)) h k) n
     = map (\<lambda>i. rb_buf r ! ring_slot (length (rb_buf r)) h i) [k ..< k + n]"
proof (induction n arbitrary: k)
  case 0
  then show ?case by simp
next
  case (Suc n)
  show ?case
  proof (cases n)
    case 0
    then show ?thesis by simp
  next
    case (Suc m)
    with Suc.prems have "k + 1 < length (rb_buf r)" by simp
    moreover have "[k ..< k + Suc n] = k # [Suc k ..< Suc k + n]"
      by (simp add: upt_rec)
    ultimately show ?thesis
      using Suc.prems Suc.IH [of "Suc k"] by (simp add: ring_facts del: upt_Suc)
  qed
qed

lemma ring_view:
  assumes "ring_ok r"
  shows "ring_newest_first r
    = map (\<lambda>i. rb_buf r ! ring_slot (length (rb_buf r)) (rb_head r) i) [0 ..< rb_size r]"
proof (cases "rb_size r = 0")
  case True
  then show ?thesis by (simp add: ring_newest_first_def)
next
  case False
  have "ring_back r (rb_head r) = ring_slot (length (rb_buf r)) (rb_head r) 0"
    using assms by (simp add: ring_back_def ring_slot_def ring_ok_def)
  then show ?thesis
    using False assms ring_walk_slots [of 0 "rb_size r" r "rb_head r"]
    by (simp add: ring_newest_first_def ring_ok_def)
qed

lemma length_newest_first [simp]: "length (ring_newest_first r) = rb_size r"
  by (simp add: ring_newest_first_def)

lemma ring_slot_push_0 [ring_facts]:
  "h < n \<Longrightarrow> ring_slot n ((h + 1) mod n) 0 = h"
proof -
  assume h: "h < n"
  have "((h + 1) mod n + (n - 1)) mod n = (h + 1 + (n - 1)) mod n"
    by (simp add: mod_add_left_eq)
  also have "h + 1 + (n - 1) = h + n" using h by simp
  finally show ?thesis using h by (simp add: ring_slot_def)
qed

lemma ring_slot_push_Suc [ring_facts]:
  "Suc k < n \<Longrightarrow> ring_slot n ((h + 1) mod n) (Suc k) = ring_slot n h k"
proof -
  assume k: "Suc k < n"
  have "((h + 1) mod n + (n - 1 - Suc k)) mod n = (h + 1 + (n - 1 - Suc k)) mod n"
    by (simp add: mod_add_left_eq)
  also have "h + 1 + (n - 1 - Suc k) = h + (n - 1 - k)" using k by simp
  finally show ?thesis by (simp add: ring_slot_def)
qed

lemma ring_slot_neq_head [ring_facts]:
  assumes "h < n" "Suc k < n" shows "ring_slot n h k \<noteq> h"
proof
  assume "ring_slot n h k = h"
  then have eq: "(h + (n - 1 - k)) mod n = h" by (simp add: ring_slot_def)
  define m where "m = n - k - 2"
  have n: "n = k + m + 2" using assms(2) by (simp add: m_def)
  have e: "n - 1 - k = m + 1" using n by simp
  from eq have eq': "(h + (m + 1)) mod n = h" unfolding e .
  show False
  proof (cases "h + (m + 1) < n")
    case True
    then have "(h + (m + 1)) mod n = h + (m + 1)" by (rule mod_less)
    with eq' show False by linarith
  next
    case False
    then have "(h + (m + 1)) mod n = (h + (m + 1) - n) mod n"
      by (intro le_mod_geq) simp
    also have "\<dots> = h + (m + 1) - n"
      using assms n by (intro mod_less) linarith
    finally show False using eq' False n by linarith
  qed
qed

lemma ring_push_view [view_facts]:
  assumes ok: "ring_ok r"
  shows "ring_newest_first (ring_push v r) = take (ring_cap r) (v # ring_newest_first r)"
proof (rule nth_equalityI)
  let ?n = "length (rb_buf r)"
  from ok have len: "length (ring_newest_first (ring_push v r)) = min ?n (Suc (rb_size r))"
    by (auto simp: ring_push_def ring_ok_def Let_def)
  then show "length (ring_newest_first (ring_push v r))
      = length (take (ring_cap r) (v # ring_newest_first r))"
    by (simp add: ring_cap_def)
  fix i
  assume "i < length (ring_newest_first (ring_push v r))"
  with len have i: "i < ?n" "i < Suc (rb_size r)" by auto
  have h: "rb_head r < ?n" using ok by (simp add: ring_ok_def)
  have sz: "i < rb_size (ring_push v r)"
    using i by (auto simp: ring_push_def Let_def)
  have lhs: "ring_newest_first (ring_push v r) ! i
      = (rb_buf r)[rb_head r := v] ! ring_slot ?n ((rb_head r + 1) mod ?n) i"
    using sz by (subst ring_view [OF ring_ok_push [OF ok]]) (simp add: ring_push_def Let_def)
  show "ring_newest_first (ring_push v r) ! i
      = take (ring_cap r) (v # ring_newest_first r) ! i"
  proof (cases i)
    case 0
    then show ?thesis
      using lhs h ring_slot_push_0 [OF h] by (auto simp: ring_cap_def take_Cons')
  next
    case (Suc k)
    then have k: "Suc k < ?n" "k < rb_size r" using i by auto
    then have "ring_newest_first (ring_push v r) ! i = rb_buf r ! ring_slot ?n (rb_head r) k"
      using lhs Suc h ring_slot_neq_head [OF h k(1)] ring_slot_push_Suc [OF k(1)] by simp
    also have "\<dots> = ring_newest_first r ! k"
      using k by (subst ring_view [OF ok]) simp
    finally show ?thesis using Suc i by (simp add: ring_cap_def)
  qed
qed

lemma ring_new_view [simp]: "ring_newest_first (new_ring z c) = []"
  by (simp add: ring_newest_first_def new_ring_def Let_def)

interpretation rb: plain_history ring_ok ring_cap ring_newest_first ring_push "\<lambda>_ v. v"
proof unfold_locales
  fix h :: "'a ring"
  assume "ring_ok h"
  then show "length (ring_newest_first h) \<le> ring_cap h"
    by (simp add: ring_ok_def ring_cap_def)
qed (auto simp: inv_facts view_facts)

section \<open>The accessors\<close>

lemma swap_loop_step:
  "swap_loop (x # xs @ [y]) 0 (int (length xs) + 1) = y # swap_loop xs 0 (int (length xs) - 1) @ [x]"
proof -
  have shift: "swap_loop (a # zs @ [b]) (i + 1) (j + 1) = a # swap_loop zs i j @ [b]"
    if "0 \<le> i" "j < int (length zs)" for a b :: 'a and zs i j
    using that
  proof (induction zs i j rule: swap_loop.induct)
    case (1 zs i j)
    show ?case
    proof (cases "i < j")
      case True
      obtain m n where mn: "i = int m" "j = int n"
        using 1(2) True by (metis nonneg_int_cases order_less_imp_le order_trans)
      have upd: "(a # zs @ [b])[nat (i + 1) := (a # zs @ [b]) ! nat (j + 1),
            nat (j + 1) := (a # zs @ [b]) ! nat (i + 1)]
          = a # (zs[nat i := zs ! nat j, nat j := zs ! nat i]) @ [b]"
        using True 1(3) by (simp add: mn nat_add_distrib list_update_append nth_append)
      have "swap_loop (a # zs @ [b]) (i + 1) (j + 1)
          = swap_loop (a # (zs[nat i := zs ! nat j, nat j := zs ! nat i]) @ [b]) (i + 1 + 1) (j - 1 + 1)"
        using True by (subst swap_loop.simps, subst upd) simp
      also have "\<dots> = a # swap_loop (zs[nat i := zs ! nat j, nat j := zs ! nat i]) (i + 1) (j - 1) @ [b]"
        using 1 True by simp
      also have "\<dots> = a # swap_loop zs i j @ [b]"
        using True by (simp add: swap_loop.simps [of zs i j])
      finally show ?thesis .
    next
      case False
      then show ?thesis by (subst (1 2) swap_loop.simps) simp
    qed
  qed
  have ends: "(x # xs @ [y])[0 := y, nat (int (length xs) + 1) := x] = y # xs @ [x]"
    by (simp add: nat_add_distrib list_update_append)
  show ?thesis
    using shift [of 0 "int (length xs) - 1" xs y x]
    by (subst swap_loop.simps) (simp add: ends nat_add_distrib nth_append)
qed

lemma swap_loop_rev: "swap_loop xs 0 (int (length xs) - 1) = rev xs"
proof (induction xs rule: length_induct)
  case (1 xs)
  show ?case
  proof (cases xs)
    case Nil
    then show ?thesis by (simp add: swap_loop.simps)
  next
    case (Cons x ys)
    show ?thesis
    proof (cases ys rule: rev_cases)
      case Nil
      with Cons show ?thesis by (simp add: swap_loop.simps)
    next
      case (snoc zs y)
      with Cons 1 show ?thesis using swap_loop_step [of x zs y] by (simp add: add.commute)
    qed
  qed
qed

lemma ring_oldest_first_rev: "ring_oldest_first r = rev (ring_newest_first r)"
  using swap_loop_rev [of "ring_newest_first r"] by (simp add: ring_oldest_first_def Let_def)

lemma ring_newest_hd:
  "ring_newest r = (case ring_newest_first r of [] \<Rightarrow> None | v # _ \<Rightarrow> Some v)"
proof (cases "rb_size r")
  case 0
  then show ?thesis by (simp add: ring_newest_def ring_newest_first_def)
next
  case (Suc n)
  then show ?thesis by (simp add: ring_newest_def ring_newest_first_def)
qed

lemma ring_oldest_last:
  assumes ok: "ring_ok r"
  shows "ring_oldest r = (if ring_newest_first r = [] then None
     else Some (last (ring_newest_first r)))"
proof (cases "rb_size r = 0")
  case True
  then show ?thesis by (simp add: ring_oldest_def ring_newest_first_def)
next
  case False
  let ?n = "length (rb_buf r)" and ?s = "rb_size r"
  have ne: "ring_newest_first r \<noteq> []"
    using False length_newest_first [of r] by (metis list.size(3))
  have last: "last (ring_newest_first r) = rb_buf r ! ring_slot ?n (rb_head r) (?s - 1)"
    using False by (simp add: ring_view [OF ok] last_map)
  have "ring_slot ?n (rb_head r) (?s - 1) = (if ?s = ?n then rb_head r else 0)"
    using ok False by (auto simp: ring_slot_def ring_ok_def)
  then show ?thesis using False ne last by (simp add: ring_oldest_def Let_def)
qed

section \<open>Properties\<close>

text \<open>
  whatever is pushed into a ring made by \<open>NewRingBuffer(c)\<close>, the ring holds exactly the
  \<open>max 1 c\<close> most recent values, most recent first in \<open>NewestFirst\<close> and in time order in
  \<open>OldestFirst\<close>, and \<open>Newest\<close> and \<open>Oldest\<close> are the two ends of that list. The slice reversal of
  \<open>OldestFirst\<close> and the modular walk of \<open>NewestFirst\<close> are the code's own loops.
\<close>

theorem ring_keeps_most_recent:
  "ring_newest_first (fold ring_push vs (new_ring z c)) = take (nat (max 1 c)) (rev vs)
   \<and> ring_oldest_first (fold ring_push vs (new_ring z c)) = rev (take (nat (max 1 c)) (rev vs))
   \<and> ring_newest (fold ring_push vs (new_ring z c)) = (if vs = [] then None else Some (last vs))
   \<and> ring_oldest (fold ring_push vs (new_ring z c))
       = (if vs = [] then None else Some (last (take (nat (max 1 c)) (rev vs))))
   \<and> ring_len (fold ring_push vs (new_ring z c)) = min (nat (max 1 c)) (length vs)"
proof -
  let ?r = "fold ring_push vs (new_ring z c)"
  have view: "ring_newest_first ?r = take (nat (max 1 c)) (rev vs)"
    by (simp add: rb.view_pushes_empty)
  have ok: "ring_ok ?r" by (simp add: rb.inv_pushes)
  have newest: "ring_newest ?r = (if vs = [] then None else Some (last vs))"
  proof (cases vs rule: rev_cases)
    case Nil
    then show ?thesis by (simp add: ring_newest_def new_ring_def Let_def)
  next
    case (snoc us u)
    then show ?thesis using view by (auto simp: ring_newest_hd take_Cons split: nat.splits)
  qed
  have oldest: "ring_oldest ?r = (if vs = [] then None else Some (last (take (nat (max 1 c)) (rev vs))))"
    using view by (auto simp: ring_oldest_last [OF ok])
  have len: "ring_len ?r = min (nat (max 1 c)) (length vs)"
    using length_newest_first [of ?r] view by (simp add: ring_len_def)
  from view newest oldest len show ?thesis by (simp add: ring_oldest_first_rev)
qed

end
