(* ===== verification/Routing.thy ===== *)
theory Routing
  imports Prelude
begin

text \<open>
  \<open>internal/analysis/routing.go\<close>: when a hop's address has really changed (\<open>DetectRouteChange\<close>)
  and which address a hop shows meanwhile (\<open>ModalIP\<close>). Observations are newest first, as
  \<open>RingBuffer.NewestFirst\<close> returns them; an invalid address is an anonymous observation.
\<close>

text \<open>The counting loop: anonymous entries are skipped, another valid address ends the run.\<close>

fun consecutive_run :: "addr \<Rightarrow> addr list \<Rightarrow> nat" where
  "consecutive_run candidate [] = 0"
| "consecutive_run candidate (o1 # obs) =
     (if \<not> addr_valid o1 then consecutive_run candidate obs
      else if o1 = candidate then Suc (consecutive_run candidate obs)
      else 0)"

definition detect_route_change :: "addr list \<Rightarrow> addr \<Rightarrow> int \<Rightarrow> bool \<times> addr" where
  "detect_route_change observations currentIP threshold =
     (let threshold = (if threshold < 1 then 1 else threshold)
      in case find addr_valid observations of
           None \<Rightarrow> (False, NoAddr)
         | Some candidate \<Rightarrow>
             if int (consecutive_run candidate observations) \<ge> threshold \<and> candidate \<noteq> currentIP
             then (True, candidate)
             else (False, NoAddr))"

text \<open>\<open>counts[obs]++\<close> on Go's map, kept as an association list so that its length is a value.\<close>

fun count_inc :: "addr \<Rightarrow> (addr \<times> nat) list \<Rightarrow> (addr \<times> nat) list" where
  "count_inc a [] = [(a, 1)]"
| "count_inc a ((b, n) # cs) = (if a = b then (b, Suc n) # cs else (b, n) # count_inc a cs)"

fun count_valid :: "(addr \<times> nat) list \<Rightarrow> addr list \<Rightarrow> (addr \<times> nat) list" where
  "count_valid cs [] = cs"
| "count_valid cs (o1 # obs) = count_valid (if addr_valid o1 then count_inc o1 cs else cs) obs"

definition count_of :: "(addr \<times> nat) list \<Rightarrow> addr \<Rightarrow> nat" where
  "count_of cs a = (case map_of cs a of None \<Rightarrow> 0 | Some n \<Rightarrow> n)"

fun modal_loop :: "(addr \<times> nat) list \<Rightarrow> nat \<Rightarrow> addr \<Rightarrow> addr list \<Rightarrow> addr" where
  "modal_loop cs best modal [] = modal"
| "modal_loop cs best modal (o1 # obs) =
     (if \<not> addr_valid o1 then modal_loop cs best modal obs
      else if count_of cs o1 > best then modal_loop cs (count_of cs o1) o1 obs
      else modal_loop cs best modal obs)"

definition modal_ip :: "addr list \<Rightarrow> addr \<times> bool" where
  "modal_ip observations =
     (let counts = count_valid [] observations
      in if length counts = 0 then (NoAddr, False)
         else (modal_loop counts 0 NoAddr observations, True))"

section \<open>The detector\<close>

lemma find_valid_filter:
  "find addr_valid obs = (case filter addr_valid obs of [] \<Rightarrow> None | a # _ \<Rightarrow> Some a)"
  by (induction obs) auto

lemma find_valid_SomeD: "find addr_valid obs = Some a \<Longrightarrow> addr_valid a \<and> a \<in> set obs"
  by (induction obs) (auto split: if_splits)

lemma consecutive_run_takeWhile:
  "consecutive_run a obs = length (takeWhile (\<lambda>x. x = a) (filter addr_valid obs))"
  by (induction obs) auto

lemma consecutive_run_filter: "consecutive_run a (filter addr_valid obs) = consecutive_run a obs"
  by (simp add: consecutive_run_takeWhile)

lemma find_filter_valid: "find addr_valid (filter addr_valid obs) = find addr_valid obs"
  by (simp add: find_valid_filter)

lemma consecutive_run_take: "consecutive_run a (take n obs) \<le> consecutive_run a obs"
  by (induction obs arbitrary: n) (auto simp: take_Cons split: nat.splits)

lemma threshold_max: "(if th < 1 then 1 else th) = max 1 (th :: int)"
  by simp

lemma detect_fires:
  "detect_route_change obs cur th = (True, ip) \<longleftrightarrow>
     find addr_valid obs = Some ip \<and> ip \<noteq> cur \<and> max 1 th \<le> int (consecutive_run ip obs)"
  by (auto simp: detect_route_change_def Let_def split: option.splits)

lemma detect_quiet:
  "\<not> fst (detect_route_change obs cur th) \<Longrightarrow> detect_route_change obs cur th = (False, NoAddr)"
  unfolding detect_route_change_def Let_def threshold_max by (auto split: option.splits if_splits)

lemma detect_fst:
  "fst (detect_route_change obs cur th) \<longleftrightarrow>
     (\<exists>ip. find addr_valid obs = Some ip \<and> ip \<noteq> cur \<and> max 1 th \<le> int (consecutive_run ip obs))"
  unfolding detect_route_change_def Let_def threshold_max by (auto split: option.splits)

lemma detect_Nil [simp]: "detect_route_change [] cur th = (False, NoAddr)"
  by (simp add: detect_route_change_def)

lemma detect_new_valid:
  "detect_route_change obs cur th = (True, ip) \<Longrightarrow> addr_valid ip \<and> ip \<noteq> cur \<and> ip \<in> set obs"
  by (auto simp: detect_fires dest: find_valid_SomeD)

text \<open>Once the detector is quiet, another anonymous observation cannot make it fire: the run it
  counts can only lose its oldest entries.\<close>

lemma find_valid_take: "find addr_valid (take n obs) = Some a \<Longrightarrow> find addr_valid obs = Some a"
  by (induction obs arbitrary: n) (auto simp: take_Cons split: nat.splits if_splits)

lemma detect_anonymous_quiet:
  assumes "\<not> fst (detect_route_change obs cur th)"
  shows "\<not> fst (detect_route_change (take n (NoAddr # obs)) cur th)"
proof
  assume "fst (detect_route_change (take n (NoAddr # obs)) cur th)"
  then obtain ip where ip: "find addr_valid (take n (NoAddr # obs)) = Some ip" "ip \<noteq> cur"
      "max 1 th \<le> int (consecutive_run ip (take n (NoAddr # obs)))"
    by (auto simp: detect_fst)
  have "find addr_valid obs = Some ip"
    using find_valid_take [OF ip(1)] by simp
  moreover have "consecutive_run ip (take n (NoAddr # obs)) \<le> consecutive_run ip obs"
    using consecutive_run_take [of ip n "NoAddr # obs"] by simp
  ultimately show False using assms ip(2,3) by (auto simp: detect_fst)
qed

lemma detect_after_adopting:
  "detect_route_change obs cur th = (True, ip) \<Longrightarrow> \<not> fst (detect_route_change obs ip th)"
  by (auto simp: detect_fires detect_fst)

section \<open>The modal address\<close>

lemma count_of_inc: "count_of (count_inc a cs) b = (if a = b then Suc (count_of cs b) else count_of cs b)"
  by (induction a cs rule: count_inc.induct) (auto simp: count_of_def)

lemma count_of_valid:
  "count_of (count_valid cs obs) a
     = count_of cs a + (if addr_valid a then count_list obs a else 0)"
  by (induction cs obs rule: count_valid.induct) (auto simp: count_of_inc)

lemma count_of_Nil [simp]: "count_of [] a = 0"
  by (simp add: count_of_def)

lemma count_inc_not_Nil [simp]: "count_inc a cs \<noteq> []"
  by (cases cs) (auto split: if_splits)

lemma count_valid_Nil: "count_valid cs obs = [] \<longleftrightarrow> cs = [] \<and> filter addr_valid obs = []"
  by (induction cs obs rule: count_valid.induct) auto

text \<open>The loop keeps the first address whose count beats everything before it and is never beaten.\<close>

definition modal_result :: "(addr \<times> nat) list \<Rightarrow> nat \<Rightarrow> addr list \<Rightarrow> addr \<Rightarrow> bool" where
  "modal_result cs best obs r \<longleftrightarrow> addr_valid r \<and> best < count_of cs r \<and>
     (\<forall>b \<in> set obs. addr_valid b \<longrightarrow> count_of cs b \<le> count_of cs r) \<and>
     (\<exists>pre post. obs = pre @ r # post \<and>
        (\<forall>b \<in> set pre. addr_valid b \<longrightarrow> count_of cs b < count_of cs r))"

lemma modal_loop_result:
  "(modal_loop cs best m obs = m \<and> (\<forall>b \<in> set obs. addr_valid b \<longrightarrow> count_of cs b \<le> best))
   \<or> modal_result cs best obs (modal_loop cs best m obs)"
proof (induction cs best m obs rule: modal_loop.induct)
  case (1 cs best m)
  then show ?case by simp
next
  case (2 cs best m a obs)
  have extend: "modal_result cs best (a # obs) r"
    if "modal_result cs best' obs r" "best \<le> best'" "addr_valid a \<longrightarrow> count_of cs a \<le> best'" for best' r
  proof -
    from that(1) obtain pre post where "obs = pre @ r # post"
      and "\<forall>b \<in> set pre. addr_valid b \<longrightarrow> count_of cs b < count_of cs r"
      by (auto simp: modal_result_def)
    with that have "a # obs = (a # pre) @ r # post"
      and "\<forall>b \<in> set (a # pre). addr_valid b \<longrightarrow> count_of cs b < count_of cs r"
      by (auto simp: modal_result_def)
    then have "\<exists>pre post. a # obs = pre @ r # post \<and>
        (\<forall>b \<in> set pre. addr_valid b \<longrightarrow> count_of cs b < count_of cs r)"
      by blast
    with that show ?thesis by (auto simp: modal_result_def)
  qed
  show ?case
  proof (cases "addr_valid a \<and> best < count_of cs a")
    case False
    then have "modal_loop cs best m (a # obs) = modal_loop cs best m obs" by auto
    with False 2 extend [of best] show ?thesis by (auto simp: not_less)
  next
    case True
    then have step: "modal_loop cs best m (a # obs) = modal_loop cs (count_of cs a) a obs" by simp
    from True 2 have "(modal_loop cs (count_of cs a) a obs = a \<and>
        (\<forall>b \<in> set obs. addr_valid b \<longrightarrow> count_of cs b \<le> count_of cs a))
      \<or> modal_result cs (count_of cs a) obs (modal_loop cs (count_of cs a) a obs)"
      by simp
    then show ?thesis
    proof
      assume *: "modal_loop cs (count_of cs a) a obs = a \<and>
        (\<forall>b \<in> set obs. addr_valid b \<longrightarrow> count_of cs b \<le> count_of cs a)"
      have "\<exists>pre post. a # obs = pre @ a # post \<and>
          (\<forall>b \<in> set pre. addr_valid b \<longrightarrow> count_of cs b < count_of cs a)"
        by (rule exI [of _ "[]"]) simp
      with * True show ?thesis by (auto simp: step modal_result_def)
    qed (use True step extend [of "count_of cs a"] in auto)
  qed
qed

lemma count_valid_list:
  "addr_valid a \<Longrightarrow> count_of (count_valid [] obs) a = count_list obs a"
  by (simp add: count_of_valid)

lemma count_list_valid_pos: "a \<in> set obs \<Longrightarrow> 0 < count_list obs a"
  by (induction obs) auto

lemma modal_ip_spec:
  "modal_ip obs = (m, True) \<Longrightarrow>
     addr_valid m \<and> m \<in> set obs \<and>
     (\<forall>b \<in> set obs. addr_valid b \<longrightarrow> count_list obs b \<le> count_list obs m) \<and>
     (\<exists>pre post. obs = pre @ m # post \<and>
        (\<forall>b \<in> set pre. addr_valid b \<longrightarrow> count_list obs b < count_list obs m))"
proof -
  let ?cs = "count_valid [] obs"
  assume ok: "modal_ip obs = (m, True)"
  then have ne: "filter addr_valid obs \<noteq> []" and m: "m = modal_loop ?cs 0 NoAddr obs"
    by (auto simp: modal_ip_def Let_def count_valid_Nil split: if_splits)
  from ne obtain b where b: "b \<in> set obs" "addr_valid b" by (auto simp: filter_empty_conv)
  have "\<not> (\<forall>b \<in> set obs. addr_valid b \<longrightarrow> count_of ?cs b \<le> 0)"
    using b count_list_valid_pos [OF b(1)] by (auto simp: count_valid_list)
  then have r: "modal_result ?cs 0 obs m"
    using modal_loop_result [of ?cs 0 NoAddr obs] m by auto
  then obtain pre post where obs: "obs = pre @ m # post"
    and pre: "\<forall>b \<in> set pre. addr_valid b \<longrightarrow> count_of ?cs b < count_of ?cs m"
    by (auto simp: modal_result_def)
  have "\<exists>pre post. obs = pre @ m # post \<and>
      (\<forall>b \<in> set pre. addr_valid b \<longrightarrow> count_list obs b < count_list obs m)"
    using obs pre r by (intro exI [of _ pre] exI [of _ post]) (auto simp: modal_result_def count_valid_list)
  moreover have "m \<in> set obs" by (subst obs) simp
  ultimately show ?thesis using r by (auto simp: modal_result_def count_valid_list)
qed

lemma modal_ip_ok: "snd (modal_ip obs) \<longleftrightarrow> (\<exists>a \<in> set obs. addr_valid a)"
  by (auto simp: modal_ip_def Let_def count_valid_Nil filter_empty_conv)

lemma modal_ip_none: "\<not> snd (modal_ip obs) \<Longrightarrow> modal_ip obs = (NoAddr, False)"
  by (auto simp: modal_ip_def Let_def split: if_splits)

section \<open>Properties\<close>

text \<open>
  C12: \<open>DetectRouteChange\<close> fires exactly when the newest valid observations form an unbroken run,
  anonymous entries ignored, of at least \<open>max 1 threshold\<close> sightings of one address that is not
  the current one, and it reports that address. Hence anonymous entries never matter, it never
  reports an invalid or unchanged address, and a hop that flaps between addresses (the two newest
  valid sightings differ) never fires when the threshold is at least 2.
\<close>

theorem route_change_detection_exact:
  "(detect_route_change obs cur th = (True, ip) \<longleftrightarrow>
      (\<exists>n rest. filter addr_valid obs = replicate n ip @ rest \<and> max 1 th \<le> int n \<and> ip \<noteq> cur))
   \<and> detect_route_change obs cur th = detect_route_change (filter addr_valid obs) cur th
   \<and> (\<not> fst (detect_route_change obs cur th) \<longrightarrow> detect_route_change obs cur th = (False, NoAddr))
   \<and> (fst (detect_route_change obs cur th) \<longrightarrow>
        addr_valid (snd (detect_route_change obs cur th)) \<and> snd (detect_route_change obs cur th) \<noteq> cur)
   \<and> (\<forall>a b rest. filter addr_valid obs = a # b # rest \<and> a \<noteq> b \<and> 2 \<le> th \<longrightarrow>
        \<not> fst (detect_route_change obs cur th))"
proof (intro conjI)
  show "detect_route_change obs cur th = (True, ip) \<longleftrightarrow>
      (\<exists>n rest. filter addr_valid obs = replicate n ip @ rest \<and> max 1 th \<le> int n \<and> ip \<noteq> cur)"
    (is "?fires \<longleftrightarrow> ?run")
  proof
    assume fires: ?fires
    let ?f = "filter addr_valid obs"
    have "?f = takeWhile (\<lambda>x. x = ip) ?f @ dropWhile (\<lambda>x. x = ip) ?f" by simp
    also have "takeWhile (\<lambda>x. x = ip) ?f = replicate (consecutive_run ip obs) ip"
      by (subst consecutive_run_takeWhile) (rule takeWhile_same)
    finally show ?run using fires by (auto simp: detect_fires)
  next
    assume ?run
    then obtain n rest where f: "filter addr_valid obs = replicate n ip @ rest"
      and n: "max 1 th \<le> int n" "ip \<noteq> cur" by blast
    then have "0 < n" by simp
    then have "find addr_valid obs = Some ip" using f by (cases n) (auto simp: find_valid_filter)
    moreover have "n \<le> consecutive_run ip obs"
      using f by (simp add: consecutive_run_takeWhile takeWhile_append)
    ultimately show ?fires using n by (auto simp: detect_fires)
  qed
  show "detect_route_change obs cur th = detect_route_change (filter addr_valid obs) cur th"
    unfolding detect_route_change_def find_filter_valid consecutive_run_filter ..
  show "\<not> fst (detect_route_change obs cur th) \<longrightarrow> detect_route_change obs cur th = (False, NoAddr)"
    using detect_quiet by blast
  show "fst (detect_route_change obs cur th) \<longrightarrow>
      addr_valid (snd (detect_route_change obs cur th)) \<and> snd (detect_route_change obs cur th) \<noteq> cur"
    using detect_new_valid by (metis prod.collapse)
  show "\<forall>a b rest. filter addr_valid obs = a # b # rest \<and> a \<noteq> b \<and> 2 \<le> th \<longrightarrow>
      \<not> fst (detect_route_change obs cur th)"
    by (auto simp: detect_fst find_valid_filter consecutive_run_takeWhile)
qed

theorem route_change_detection_exact_witness:
  "detect_route_change [V4 2, NoAddr, V4 2, V4 2, V4 1] (V4 1) 3 = (True, V4 2)
   \<and> \<not> fst (detect_route_change [V4 2, V4 1, V4 2, V4 1] (V4 3) 2)"
proof -
  have "\<exists>n rest. filter addr_valid [V4 2, NoAddr, V4 2, V4 2, V4 1] = replicate n (V4 2) @ rest
      \<and> max 1 3 \<le> int n \<and> V4 2 \<noteq> V4 1"
    by (rule exI [of _ 3], rule exI [of _ "[V4 1]"]) (simp add: numeral_3_eq_3)
  then have "detect_route_change [V4 2, NoAddr, V4 2, V4 2, V4 1] (V4 1) 3 = (True, V4 2)"
    using route_change_detection_exact by blast
  moreover have "\<not> fst (detect_route_change [V4 2, V4 1, V4 2, V4 1] (V4 3) 2)"
    using route_change_detection_exact [of "[V4 2, V4 1, V4 2, V4 1]" "V4 3" 2 "V4 2"] by auto
  ultimately show ?thesis by blast
qed

text \<open>
  \<open>ModalIP\<close> answers exactly when some observation is valid; the address it returns was
  observed, no valid address occurs more often, and among those that occur as often it is the one
  seen most recently.
\<close>

theorem modal_ip_is_most_frequent:
  "(snd (modal_ip obs) \<longleftrightarrow> (\<exists>a \<in> set obs. addr_valid a))
   \<and> (snd (modal_ip obs) \<longrightarrow>
        (let m = fst (modal_ip obs) in
           addr_valid m \<and> (\<forall>b \<in> set obs. addr_valid b \<longrightarrow> count_list obs b \<le> count_list obs m)
           \<and> (\<exists>pre post. obs = pre @ m # post \<and>
                (\<forall>b \<in> set pre. addr_valid b \<longrightarrow> count_list obs b < count_list obs m))))"
  using modal_ip_ok modal_ip_spec [of obs "fst (modal_ip obs)"]
  by (auto simp: Let_def) (metis prod.collapse)+

theorem modal_ip_is_most_frequent_witness:
  "snd (modal_ip [NoAddr, V4 1, V4 2, V4 2, V4 1, V4 3])
   \<and> fst (modal_ip [NoAddr, V4 1, V4 2, V4 2, V4 1, V4 3]) = V4 1"
  using modal_ip_is_most_frequent [of "[NoAddr, V4 1, V4 2, V4 2, V4 1, V4 3]"]
  by (auto simp: modal_ip_def count_of_def)

end
