(* ===== verification/PathState.thy ===== *)
theory PathState
  imports RingBuf Routing ProbeEvents
begin

text \<open>
  \<open>internal/probe/path.go\<close>: the in-memory state of one traced path. A \<open>*Hop\<close> is only reachable
  through its slot of the \<open>hops\<close> array, so a hop is a value stored in a list of 65 optional slots.
  The \<open>panic\<close> of \<open>ApplyProbeResult\<close> on a TTL outside 1..64 is the result \<open>None\<close>. A TTL is a
  \<open>uint8\<close>; the bound 64 keeps every loop counter far from wrapping, so it is a \<^typ>\<open>nat\<close> here.
\<close>

definition max_ttl :: nat where "max_ttl = 64"
definition default_candidates_cap :: int where "default_candidates_cap = 10"
definition default_samples_cap :: int where "default_samples_cap = 300"

record hop =
  h_TTL :: nat
  h_CurrentIP :: addr
  h_candidates :: "addr ring"
  h_recentRTTs :: "duration ring"
  h_recentLosses :: "bool ring"
  h_LastResponse :: instant

record path_state =
  ps_target :: addr
  ps_targetID :: string
  ps_started :: instant
  ps_hops :: "hop option list"
  ps_maxSeen :: nat
  ps_targetTTL :: nat
  ps_candidatesCap :: int
  ps_samplesCap :: int

definition new_path_state_with_caps :: "addr \<Rightarrow> string \<Rightarrow> int \<Rightarrow> int \<Rightarrow> instant \<Rightarrow> path_state" where
  "new_path_state_with_caps target targetID candidatesCap samplesCap now =
     \<lparr>ps_target = target, ps_targetID = targetID, ps_started = now,
      ps_hops = replicate (max_ttl + 1) None, ps_maxSeen = 0, ps_targetTTL = 0,
      ps_candidatesCap = candidatesCap, ps_samplesCap = samplesCap\<rparr>"

definition new_path_state :: "addr \<Rightarrow> string \<Rightarrow> instant \<Rightarrow> path_state" where
  "new_path_state target targetID now =
     new_path_state_with_caps target targetID default_candidates_cap default_samples_cap now"

definition get_or_create_hop :: "path_state \<Rightarrow> nat \<Rightarrow> hop" where
  "get_or_create_hop s ttl =
     (case ps_hops s ! ttl of
        None \<Rightarrow> \<lparr>h_TTL = ttl, h_CurrentIP = NoAddr,
                 h_candidates = new_ring NoAddr (ps_candidatesCap s),
                 h_recentRTTs = new_ring 0 (ps_samplesCap s),
                 h_recentLosses = new_ring False (ps_samplesCap s),
                 h_LastResponse = zero_time\<rparr>
      | Some h \<Rightarrow> h)"

text \<open>A destination-unreachable reply counts as a miss: its source is not the hop at that TTL.\<close>

definition is_miss :: "probe_result \<Rightarrow> bool" where
  "is_miss r \<longleftrightarrow> pr_TimedOut r \<or> pr_Reply r = ReplyDestUnreachable"

definition record_observation :: "probe_result \<Rightarrow> hop \<Rightarrow> hop" where
  "record_observation r h =
     (if is_miss r
      then h\<lparr>h_candidates := ring_push NoAddr (h_candidates h),
             h_recentRTTs := ring_push 0 (h_recentRTTs h),
             h_recentLosses := ring_push True (h_recentLosses h)\<rparr>
      else h\<lparr>h_candidates := ring_push (pr_RespIP r) (h_candidates h),
             h_recentRTTs := ring_push (pr_RTT r) (h_recentRTTs h),
             h_recentLosses := ring_push False (h_recentLosses h),
             h_LastResponse := pr_Ts r\<rparr>)"

definition update_max_seen :: "probe_result \<Rightarrow> nat \<Rightarrow> nat" where
  "update_max_seen r m = (if \<not> is_miss r \<and> pr_TTL r > m then pr_TTL r else m)"

definition update_target_ttl :: "probe_result \<Rightarrow> nat \<Rightarrow> nat" where
  "update_target_ttl r t =
     (case pr_Reply r of
        ReplyEchoReply \<Rightarrow> if t = 0 \<or> pr_TTL r < t then pr_TTL r else t
      | ReplyTimeExceeded \<Rightarrow> if t \<noteq> 0 \<and> pr_TTL r = t then 0 else t
      | _ \<Rightarrow> t)"

text \<open>Route-change detection on the freshly updated buffer, and the tentative identity of a hop
  that has none yet.\<close>

definition settle_identity ::
  "path_state \<Rightarrow> probe_result \<Rightarrow> int \<Rightarrow> hop \<Rightarrow> hop \<times> route_change option" where
  "settle_identity s r threshold h =
     (let obs = ring_newest_first (h_candidates h);
          (changed, newIP) = detect_route_change obs (h_CurrentIP h) threshold
      in if changed
         then (h\<lparr>h_CurrentIP := newIP\<rparr>,
               Some \<lparr>rc_Target = ps_target s, rc_TargetID = ps_targetID s, rc_TTL = pr_TTL r,
                     rc_Ts = pr_Ts r, rc_OldIP = h_CurrentIP h, rc_NewIP = newIP\<rparr>)
         else if \<not> addr_valid (h_CurrentIP h)
         then (case modal_ip obs of
                 (modal, ok) \<Rightarrow> if ok then (h\<lparr>h_CurrentIP := modal\<rparr>, None) else (h, None))
         else (h, None))"

definition probe_sample :: "path_state \<Rightarrow> probe_result \<Rightarrow> sample" where
  "probe_sample s r =
     \<lparr>s_Target = ps_target s, s_TargetID = ps_targetID s, s_TTL = pr_TTL r, s_Ts = pr_Ts r,
      s_IP = (if is_miss r then NoAddr else pr_RespIP r),
      s_RTT = (if is_miss r then 0 else pr_RTT r)\<rparr>"

definition apply_probe_result ::
  "probe_result \<Rightarrow> int \<Rightarrow> path_state \<Rightarrow> (path_state \<times> sample \<times> route_change option) option" where
  "apply_probe_result r threshold s =
     (if pr_TTL r = 0 \<or> pr_TTL r > max_ttl then None
      else
        let hop = record_observation r (get_or_create_hop s (pr_TTL r));
            (hop, rc) = settle_identity s r threshold hop
        in Some (s\<lparr>ps_hops := (ps_hops s)[pr_TTL r := Some hop],
                   ps_maxSeen := update_max_seen r (ps_maxSeen s),
                   ps_targetTTL := update_target_ttl r (ps_targetTTL s)\<rparr>,
                 probe_sample s r, rc))"

section \<open>Snapshots\<close>

record hop_snapshot =
  hs_TTL :: nat
  hs_CurrentIP :: addr
  hs_LastResponse :: instant
  hs_AvgRTT :: duration
  hs_CurrentRTT :: duration
  hs_MinRTT :: duration
  hs_LossPercent :: rat

record path_snapshot =
  sn_Hops :: "hop_snapshot list"
  sn_TargetTTL :: nat

text \<open>The statistics loop over the round-trip times, oldest first: sum, count, last and least of
  the positive ones.\<close>

fun rtt_stats :: "duration \<times> nat \<times> duration \<times> duration \<Rightarrow> duration list
    \<Rightarrow> duration \<times> nat \<times> duration \<times> duration" where
  "rtt_stats acc [] = acc"
| "rtt_stats (tot, count, cur, mn) (r # rs) =
     (if r > 0
      then rtt_stats (tot + r, Suc count, r, if mn = 0 \<or> r < mn then r else mn) rs
      else rtt_stats (tot, count, cur, mn) rs)"

definition hop_snapshot_of :: "(rat \<Rightarrow> rat) \<Rightarrow> hop \<Rightarrow> hop_snapshot" where
  "hop_snapshot_of rnd h =
     (let (tot, count, cur, mn) = rtt_stats (0, 0, 0, 0) (ring_oldest_first (h_recentRTTs h));
          losses = ring_oldest_first (h_recentLosses h);
          lost = length (filter (\<lambda>l. l) losses)
      in \<lparr>hs_TTL = h_TTL h, hs_CurrentIP = h_CurrentIP h, hs_LastResponse = h_LastResponse h,
          hs_AvgRTT = (if count > 0 then tot div int count else 0),
          hs_CurrentRTT = (if count > 0 then cur else 0),
          hs_MinRTT = (if count > 0 then mn else 0),
          hs_LossPercent = (if length losses > 0
             then rnd (rnd (100 * of_nat lost) / of_nat (length losses)) else 0)\<rparr>)"

definition snapshot :: "(rat \<Rightarrow> rat) \<Rightarrow> path_state \<Rightarrow> path_snapshot" where
  "snapshot rnd s =
     (if ps_maxSeen s = 0 then \<lparr>sn_Hops = [], sn_TargetTTL = ps_targetTTL s\<rparr>
      else
        let maxVisible = (if ps_targetTTL s \<noteq> 0 \<and> ps_targetTTL s < ps_maxSeen s
                          then ps_targetTTL s else ps_maxSeen s)
        in \<lparr>sn_Hops = map (hop_snapshot_of rnd)
              (List.map_filter (\<lambda>ttl. ps_hops s ! ttl) [1 ..< Suc maxVisible]),
            sn_TargetTTL = ps_targetTTL s\<rparr>)"

section \<open>Invariant\<close>

text \<open>
  What every reachable path state satisfies, for the threshold the engine runs with: each hop sits
  in its own slot, its rings are sound, the loss flags and round-trip times advance in step, and
  the detector is quiet (its verdict on the stored candidates has already been acted on).
\<close>

definition hop_ok :: "int \<Rightarrow> nat \<Rightarrow> hop \<Rightarrow> bool" where
  "hop_ok th i h \<longleftrightarrow> h_TTL h = i \<and> ring_ok (h_candidates h) \<and> ring_ok (h_recentRTTs h) \<and>
     ring_ok (h_recentLosses h) \<and> ring_cap (h_recentRTTs h) = ring_cap (h_recentLosses h) \<and>
     list_all2 (\<lambda>rtt lost. lost \<longrightarrow> rtt = 0)
       (ring_newest_first (h_recentRTTs h)) (ring_newest_first (h_recentLosses h)) \<and>
     \<not> fst (detect_route_change (ring_newest_first (h_candidates h)) (h_CurrentIP h) th)"

definition path_ok :: "int \<Rightarrow> path_state \<Rightarrow> bool" where
  "path_ok th s \<longleftrightarrow> length (ps_hops s) = max_ttl + 1 \<and> ps_hops s ! 0 = None \<and>
     (\<forall>i h. i \<le> max_ttl \<longrightarrow> ps_hops s ! i = Some h \<longrightarrow> hop_ok th i h) \<and>
     ps_maxSeen s \<le> max_ttl \<and> (ps_maxSeen s \<noteq> 0 \<longrightarrow> ps_hops s ! ps_maxSeen s \<noteq> None) \<and>
     ps_targetTTL s \<le> max_ttl"

lemma path_ok_new [simp, inv_facts]: "path_ok th (new_path_state_with_caps t i c m now)"
  by (auto simp: path_ok_def new_path_state_with_caps_def nth_replicate simp del: replicate_Suc)

lemma hop_ok_get_or_create:
  "path_ok th s \<Longrightarrow> ttl \<le> max_ttl \<Longrightarrow> hop_ok th ttl (get_or_create_hop s ttl)"
  by (cases "ps_hops s ! ttl") (simp_all add: path_ok_def get_or_create_hop_def hop_ok_def)

lemma record_observation_simps [simp]:
  "h_TTL (record_observation r h) = h_TTL h"
  "h_CurrentIP (record_observation r h) = h_CurrentIP h"
  "h_candidates (record_observation r h)
     = ring_push (if is_miss r then NoAddr else pr_RespIP r) (h_candidates h)"
  "h_recentRTTs (record_observation r h)
     = ring_push (if is_miss r then 0 else pr_RTT r) (h_recentRTTs h)"
  "h_recentLosses (record_observation r h) = ring_push (is_miss r) (h_recentLosses h)"
  by (simp_all add: record_observation_def)

lemma settle_identity_fields:
  assumes "settle_identity s r th h = (h', rc)"
  shows "h_TTL h' = h_TTL h" "h_candidates h' = h_candidates h"
    "h_recentRTTs h' = h_recentRTTs h" "h_recentLosses h' = h_recentLosses h"
  using assms by (auto simp: settle_identity_def Let_def split: prod.splits if_splits)

text \<open>Acting on the detector's verdict silences it, whichever way it went.\<close>

lemma settle_identity_quiet:
  assumes "settle_identity s r th h = (h', rc)"
  shows "\<not> fst (detect_route_change (ring_newest_first (h_candidates h')) (h_CurrentIP h') th)"
proof -
  let ?obs = "ring_newest_first (h_candidates h)"
  obtain changed ip where d: "detect_route_change ?obs (h_CurrentIP h) th = (changed, ip)"
    by fastforce
  have obs: "ring_newest_first (h_candidates h') = ?obs"
    using settle_identity_fields [OF assms] by simp
  show ?thesis
  proof (cases changed)
    case True
    with d assms have "h_CurrentIP h' = ip" by (auto simp: settle_identity_def Let_def)
    with True d obs show ?thesis using detect_after_adopting by simp
  next
    case False
    show ?thesis
    proof (cases "addr_valid (h_CurrentIP h)")
      case True
      with False d assms have "h_CurrentIP h' = h_CurrentIP h"
        by (auto simp: settle_identity_def Let_def)
      with False d obs show ?thesis by simp
    next
      case invalid: False
      show ?thesis
      proof
        assume "fst (detect_route_change (ring_newest_first (h_candidates h')) (h_CurrentIP h') th)"
        then obtain c where "find addr_valid ?obs = Some c" "max 1 th \<le> int (consecutive_run c ?obs)"
          by (auto simp: detect_fst obs)
        moreover from this(1) have "c \<noteq> h_CurrentIP h"
          using invalid by (auto dest: find_valid_SomeD)
        ultimately have "fst (detect_route_change ?obs (h_CurrentIP h) th)"
          by (auto simp: detect_fst)
        with False d show False by simp
      qed
    qed
  qed
qed

lemma hop_ok_step [inv_facts]:
  assumes ok: "hop_ok th i h" and settle: "settle_identity s r th (record_observation r h) = (h', rc)"
  shows "hop_ok th i h'"
proof -
  from ok have "list_all2 (\<lambda>rtt lost. lost \<longrightarrow> rtt = 0)
      (ring_newest_first (ring_push (if is_miss r then 0 else pr_RTT r) (h_recentRTTs h)))
      (ring_newest_first (ring_push (is_miss r) (h_recentLosses h)))"
    by (auto simp: hop_ok_def view_facts intro!: list_all2_takeI)
  then show ?thesis
    using ok settle_identity_quiet [OF settle] settle_identity_fields [OF settle]
    by (auto simp: hop_ok_def inv_facts)
qed

lemma apply_cases:
  assumes "apply_probe_result r th s = Some (s', smp, rc)"
  obtains h where "0 < pr_TTL r" "pr_TTL r \<le> max_ttl"
    "settle_identity s r th (record_observation r (get_or_create_hop s (pr_TTL r))) = (h, rc)"
    "s' = s\<lparr>ps_hops := (ps_hops s)[pr_TTL r := Some h],
            ps_maxSeen := update_max_seen r (ps_maxSeen s),
            ps_targetTTL := update_target_ttl r (ps_targetTTL s)\<rparr>"
    "smp = probe_sample s r"
  using assms by (auto simp: apply_probe_result_def Let_def split: prod.splits if_splits)

lemma path_ok_apply [inv_facts]:
  assumes ok: "path_ok th s" and ap: "apply_probe_result r th s = Some (s', smp, rc)"
  shows "path_ok th s'"
proof -
  from ap obtain h where h: "0 < pr_TTL r" "pr_TTL r \<le> max_ttl"
      "settle_identity s r th (record_observation r (get_or_create_hop s (pr_TTL r))) = (h, rc)"
      "s' = s\<lparr>ps_hops := (ps_hops s)[pr_TTL r := Some h],
              ps_maxSeen := update_max_seen r (ps_maxSeen s),
              ps_targetTTL := update_target_ttl r (ps_targetTTL s)\<rparr>"
    by (rule apply_cases)
  have "hop_ok th (pr_TTL r) h"
    using hop_ok_step [OF hop_ok_get_or_create [OF ok h(2)] h(3)] .
  then show ?thesis
    using ok h(1,2) unfolding path_ok_def h(4)
    by (auto simp: nth_list_update update_max_seen_def update_target_ttl_def split: reply_type.splits)
qed


fun path_run :: "int \<Rightarrow> probe_result list \<Rightarrow> path_state \<Rightarrow> path_state option" where
  "path_run th [] s = Some s"
| "path_run th (r # rs) s =
     (case apply_probe_result r th s of None \<Rightarrow> None | Some (s', _, _) \<Rightarrow> path_run th rs s')"

lemma apply_probe_result_None: "apply_probe_result r th s = None \<longleftrightarrow> pr_TTL r = 0 \<or> max_ttl < pr_TTL r"
  by (auto simp: apply_probe_result_def Let_def split: prod.splits)

lemma apply_probe_result_ttl:
  "apply_probe_result r th s = Some x \<Longrightarrow> 0 < pr_TTL r \<and> pr_TTL r \<le> max_ttl"
  using apply_probe_result_None [of r th s] by auto

lemma path_ok_run: "path_ok th s \<Longrightarrow> path_run th rs s = Some s' \<Longrightarrow> path_ok th s'"
  by (induction rs arbitrary: s) (auto split: option.splits intro: path_ok_apply)

lemma path_run_append:
  "path_run th (rs @ [r]) s = (case path_run th rs s of None \<Rightarrow> None
     | Some s' \<Rightarrow> map_option fst (apply_probe_result r th s'))"
  by (induction rs arbitrary: s) (auto split: option.splits)

lemma path_run_None: "path_run th rs s = None \<longleftrightarrow> (\<exists>r \<in> set rs. pr_TTL r = 0 \<or> max_ttl < pr_TTL r)"
  by (induction rs arbitrary: s)
     (auto simp: apply_probe_result_None split: option.splits dest: apply_probe_result_ttl)

section \<open>Properties\<close>

text \<open>
  C13: applying any sequence of probe results to a new path returns (does not panic) exactly when
  every TTL is in 1..64, and then the resulting state satisfies the path invariant: every hop is in
  the slot of its own TTL with sound ring buffers whose loss flags and round-trip times agree, the
  greatest TTL seen has a hop, and the route-change detector has no pending verdict.
\<close>

theorem path_state_invariant:
  "(path_run th rs (new_path_state target ident now) \<noteq> None
      \<longleftrightarrow> (\<forall>r \<in> set rs. 1 \<le> pr_TTL r \<and> pr_TTL r \<le> 64))
   \<and> (\<forall>s. path_run th rs (new_path_state target ident now) = Some s \<longrightarrow> path_ok th s)"
proof (intro conjI allI impI)
  show "path_run th rs (new_path_state target ident now) \<noteq> None
      \<longleftrightarrow> (\<forall>r \<in> set rs. 1 \<le> pr_TTL r \<and> pr_TTL r \<le> 64)"
    using path_run_None [of th rs "new_path_state target ident now"]
    by (auto simp: max_ttl_def not_less Suc_le_eq)
  fix s
  assume "path_run th rs (new_path_state target ident now) = Some s"
  then show "path_ok th s"
    using path_ok_run [of th "new_path_state target ident now" rs s] by (simp add: new_path_state_def)
qed

text \<open>A reply by router \<open>ip\<close> at TTL 3, used by the witnesses below.\<close>

definition router_reply :: "nat \<Rightarrow> nat \<Rightarrow> probe_result" where
  "router_reply ttl ip = zero_probe_result\<lparr>pr_TTL := ttl, pr_RespIP := V4 ip, pr_RTT := 1000,
     pr_Reply := ReplyTimeExceeded\<rparr>"

theorem path_state_invariant_witness:
  "path_run 2 [router_reply 3 7, router_reply 3 7] (new_path_state (V4 9) ''t'' 0) \<noteq> None"
  using path_state_invariant [of 2 "[router_reply 3 7, router_reply 3 7]" "V4 9" "''t''" 0]
  by (auto simp: router_reply_def zero_probe_result_def)

lemma settle_identity_cases:
  assumes "settle_identity s r th h = (h', rc)"
  shows "(rc = None \<and> (h_CurrentIP h' = h_CurrentIP h \<or> \<not> addr_valid (h_CurrentIP h)))
   \<or> (\<exists>ip. detect_route_change (ring_newest_first (h_candidates h)) (h_CurrentIP h) th = (True, ip)
        \<and> h_CurrentIP h' = ip
        \<and> rc = Some \<lparr>rc_Target = ps_target s, rc_TargetID = ps_targetID s, rc_TTL = pr_TTL r,
             rc_Ts = pr_Ts r, rc_OldIP = h_CurrentIP h, rc_NewIP = ip\<rparr>)"
  using assms by (auto simp: settle_identity_def Let_def split: prod.splits if_splits)

text \<open>The detector fires only on an observation that shows the new address.\<close>

lemma detect_fires_on_sighting:
  assumes quiet: "\<not> fst (detect_route_change obs cur th)"
    and fires: "detect_route_change (take n (o1 # obs)) cur th = (True, ip)"
  shows "o1 = ip"
proof (cases "addr_valid o1")
  case False
  then have "o1 = NoAddr" by (simp add: addr_valid_iff)
  then show ?thesis using detect_anonymous_quiet [OF quiet, of n] fires by simp
next
  case True
  have "find addr_valid (o1 # obs) = Some ip"
    using fires find_valid_take detect_fires by blast
  with True show ?thesis by simp
qed

text \<open>
  on any reachable path state, a probe result emits a route change exactly when it changes the
  address of a hop that had one or gives one its first confirmed address: the change is reported
  for the probed TTL with the previous and the new address, which differ; the new address is the
  one that just answered (so a timeout or an unreachable reply never emits one); a run of at least
  \<open>max 1 threshold\<close> consecutive valid sightings of it backs it; and without a report a known
  address stays as it was. No other hop's slot changes.
\<close>

theorem route_change_reported:
  assumes ok: "path_ok th s" and ap: "apply_probe_result r th s = Some (s', smp, rc)"
  shows "\<exists>h h'. h = get_or_create_hop s (pr_TTL r) \<and> ps_hops s' ! pr_TTL r = Some h' \<and>
    (\<forall>i. i \<noteq> pr_TTL r \<longrightarrow> ps_hops s' ! i = ps_hops s ! i) \<and>
    (rc = None \<longrightarrow> addr_valid (h_CurrentIP h) \<longrightarrow> h_CurrentIP h' = h_CurrentIP h) \<and>
    (\<forall>c. rc = Some c \<longrightarrow>
       \<not> is_miss r \<and> rc_TTL c = pr_TTL r \<and> rc_Ts c = pr_Ts r \<and> rc_OldIP c = h_CurrentIP h \<and>
       rc_NewIP c = h_CurrentIP h' \<and> rc_NewIP c \<noteq> rc_OldIP c \<and> rc_NewIP c = pr_RespIP r \<and>
       addr_valid (rc_NewIP c) \<and>
       max 1 th \<le> int (consecutive_run (rc_NewIP c) (ring_newest_first (h_candidates h'))))"
proof -
  let ?h = "get_or_create_hop s (pr_TTL r)"
  let ?seen = "if is_miss r then NoAddr else pr_RespIP r"
  from ap obtain h' where ttl: "0 < pr_TTL r" "pr_TTL r \<le> max_ttl"
    and settle: "settle_identity s r th (record_observation r ?h) = (h', rc)"
    and hops: "ps_hops s' = (ps_hops s)[pr_TTL r := Some h']"
    by (rule apply_cases) auto
  have slot: "ps_hops s' ! pr_TTL r = Some h'" "\<forall>i. i \<noteq> pr_TTL r \<longrightarrow> ps_hops s' ! i = ps_hops s ! i"
    using hops ok ttl by (auto simp: path_ok_def)
  have hok: "hop_ok th (pr_TTL r) ?h" using hop_ok_get_or_create ok ttl by blast
  have same: "h_candidates h' = ring_push ?seen (h_candidates ?h)"
    using settle_identity_fields [OF settle] by simp
  have reported: "?seen = ip \<and> addr_valid ip \<and> ip \<noteq> h_CurrentIP ?h
      \<and> max 1 th \<le> int (consecutive_run ip (ring_newest_first (h_candidates h')))"
    if "detect_route_change (ring_newest_first (h_candidates (record_observation r ?h)))
          (h_CurrentIP (record_observation r ?h)) th = (True, ip)" for ip
    using detect_fires_on_sighting [of "ring_newest_first (h_candidates ?h)" "h_CurrentIP ?h" th
        "ring_cap (h_candidates ?h)" ?seen ip] that hok detect_new_valid [OF that]
    by (auto simp: hop_ok_def view_facts same detect_fires)
  have "(rc = None \<longrightarrow> addr_valid (h_CurrentIP ?h) \<longrightarrow> h_CurrentIP h' = h_CurrentIP ?h) \<and>
    (\<forall>c. rc = Some c \<longrightarrow>
       \<not> is_miss r \<and> rc_TTL c = pr_TTL r \<and> rc_Ts c = pr_Ts r \<and> rc_OldIP c = h_CurrentIP ?h \<and>
       rc_NewIP c = h_CurrentIP h' \<and> rc_NewIP c \<noteq> rc_OldIP c \<and> rc_NewIP c = pr_RespIP r \<and>
       addr_valid (rc_NewIP c) \<and>
       max 1 th \<le> int (consecutive_run (rc_NewIP c) (ring_newest_first (h_candidates h'))))"
    using settle_identity_cases [OF settle]
  proof
    assume "rc = None \<and> (h_CurrentIP h' = h_CurrentIP (record_observation r ?h)
        \<or> \<not> addr_valid (h_CurrentIP (record_observation r ?h)))"
    then show ?thesis by auto
  next
    assume "\<exists>ip. detect_route_change (ring_newest_first (h_candidates (record_observation r ?h)))
        (h_CurrentIP (record_observation r ?h)) th = (True, ip) \<and> h_CurrentIP h' = ip \<and>
        rc = Some \<lparr>rc_Target = ps_target s, rc_TargetID = ps_targetID s, rc_TTL = pr_TTL r,
          rc_Ts = pr_Ts r, rc_OldIP = h_CurrentIP (record_observation r ?h), rc_NewIP = ip\<rparr>"
    then obtain ip where ip: "h_CurrentIP h' = ip"
        "rc = Some \<lparr>rc_Target = ps_target s, rc_TargetID = ps_targetID s, rc_TTL = pr_TTL r,
          rc_Ts = pr_Ts r, rc_OldIP = h_CurrentIP ?h, rc_NewIP = ip\<rparr>"
      and fires: "detect_route_change (ring_newest_first (h_candidates (record_observation r ?h)))
        (h_CurrentIP (record_observation r ?h)) th = (True, ip)"
      by auto
    from reported [OF fires] ip show ?thesis by (cases "is_miss r") auto
  qed
  with slot show ?thesis by blast
qed

text \<open>A short run used by the witnesses: router 7 is sighted three times at TTL 3, then router 8.\<close>

definition demo_path :: path_state where
  "demo_path = new_path_state_with_caps (V4 9) ''t'' 4 4 0"

definition demo_run :: "probe_result list" where
  "demo_run = [router_reply 3 7, router_reply 3 7, router_reply 3 7, router_reply 3 8]"

lemma demo_change:
  "case path_run 2 demo_run demo_path of None \<Rightarrow> False
   | Some s \<Rightarrow> (case apply_probe_result (router_reply 3 8) 2 s of
        Some (s1, smp, Some c) \<Rightarrow> rc_OldIP c = V4 7 | _ \<Rightarrow> False)"
  by code_simp

theorem route_change_reported_witness:
  "\<exists>s s1 smp c. path_run 2 demo_run demo_path = Some s
     \<and> apply_probe_result (router_reply 3 8) 2 s = Some (s1, smp, Some c)
     \<and> rc_OldIP c = V4 7 \<and> rc_NewIP c = V4 8 \<and> ps_hops s1 ! 4 = ps_hops s ! 4"
proof -
  obtain s s1 smp c where run: "path_run 2 demo_run demo_path = Some s"
    and ap: "apply_probe_result (router_reply 3 8) 2 s = Some (s1, smp, Some c)"
    and old: "rc_OldIP c = V4 7"
    using demo_change by (auto split: option.splits)
  have "path_ok 2 s"
    using path_ok_run [OF _ run] by (simp add: demo_path_def)
  from route_change_reported [OF this ap]
  have "rc_NewIP c = V4 8 \<and> ps_hops s1 ! 4 = ps_hops s ! 4"
    by (auto simp: router_reply_def)
  with run ap old show ?thesis by blast
qed

text \<open>
  a destination-unreachable reply has exactly the effect of a timeout, on the whole path state,
  on the emitted sample and on route-change detection: the address that reported it never becomes
  the identity of a hop (the sample is anonymous with a zero round-trip time), neither the greatest
  responding TTL nor the target TTL moves, and the hop's last-response time stays.
\<close>

theorem unreachable_is_timeout:
  "apply_probe_result (r\<lparr>pr_Reply := ReplyDestUnreachable\<rparr>) th s
     = apply_probe_result (r\<lparr>pr_Reply := ReplyNone, pr_TimedOut := True\<rparr>) th s
   \<and> (case apply_probe_result (r\<lparr>pr_Reply := ReplyDestUnreachable\<rparr>) th s of
        None \<Rightarrow> pr_TTL r = 0 \<or> 64 < pr_TTL r
      | Some (s', smp, rc) \<Rightarrow> s_IP smp = NoAddr \<and> s_RTT smp = 0 \<and> s_TTL smp = pr_TTL r
          \<and> ps_maxSeen s' = ps_maxSeen s \<and> ps_targetTTL s' = ps_targetTTL s)"
proof -
  have "settle_identity s (r\<lparr>pr_Reply := ReplyDestUnreachable\<rparr>) th h
      = settle_identity s (r\<lparr>pr_Reply := ReplyNone, pr_TimedOut := True\<rparr>) th h" for h
    by (auto simp: settle_identity_def Let_def split: prod.splits)
  moreover have "record_observation (r\<lparr>pr_Reply := ReplyDestUnreachable\<rparr>) h
      = record_observation (r\<lparr>pr_Reply := ReplyNone, pr_TimedOut := True\<rparr>) h" for h
    by (simp add: record_observation_def is_miss_def)
  ultimately show ?thesis
    by (simp add: apply_probe_result_def is_miss_def update_max_seen_def update_target_ttl_def
        probe_sample_def max_ttl_def Let_def split: prod.splits)
qed

section \<open>Snapshot properties\<close>

definition stats_ok :: "duration \<times> nat \<times> duration \<times> duration \<Rightarrow> bool" where
  "stats_ok st = (case st of (t, c, l, m) \<Rightarrow>
     (0 < c \<longrightarrow> 0 < m \<and> int c * m \<le> t \<and> m \<le> l) \<and> (c = 0 \<longrightarrow> t = 0 \<and> m = 0))"

lemma stats_ok_step:
  assumes ok: "stats_ok (t, c, l, m)" and r: "0 < r"
  shows "stats_ok (t + r, Suc c, r, if m = 0 \<or> r < m then r else m)"
proof (cases "c = 0")
  case True
  with ok r show ?thesis by (simp add: stats_ok_def)
next
  case False
  define m2 where "m2 = (if m = 0 \<or> r < m then r else m)"
  from False ok r have "m2 \<le> m" "m2 \<le> r" "0 < m2" and t: "int c * m \<le> t"
    by (auto simp: m2_def stats_ok_def)
  from this(1) have "int c * m2 \<le> int c * m" by (intro mult_left_mono) simp_all
  with t \<open>m2 \<le> r\<close> have "int (Suc c) * m2 \<le> t + r" by (simp add: algebra_simps)
  with \<open>0 < m2\<close> \<open>m2 \<le> r\<close> show ?thesis unfolding m2_def [symmetric] by (simp add: stats_ok_def)
qed

lemma stats_ok_run: "stats_ok st \<Longrightarrow> stats_ok (rtt_stats st rs)"
proof (induction st rs rule: rtt_stats.induct)
  case (2 tot count cur mn r rs)
  then show ?case using stats_ok_step [of tot count cur mn r] by simp
qed simp

lemma rtt_stats_init:
  assumes "rtt_stats (0, 0, 0, 0) rs = (t, c, l, m)"
  shows "0 < c \<longrightarrow> 0 < m \<and> m \<le> t div int c \<and> m \<le> l"
proof
  assume c: "0 < c"
  have "stats_ok (t, c, l, m)"
    using stats_ok_run [of "(0, 0, 0, 0)" rs] assms by (simp add: stats_ok_def)
  with c have m: "0 < m" "int c * m \<le> t" "m \<le> l" by (auto simp: stats_ok_def)
  have "m = (int c * m) div int c" using c by simp
  also have "\<dots> \<le> t div int c" using c m(2) by (intro zdiv_mono1) simp_all
  finally show "0 < m \<and> m \<le> t div int c \<and> m \<le> l" using m by simp
qed

text \<open>Every field of a hop's summary is in range: the loss is a percentage and the minimum is at
  most the average and the latest round-trip time; a fully lost hop has no times at all.\<close>

definition summary_ok :: "hop_snapshot \<Rightarrow> bool" where
  "summary_ok hs \<longleftrightarrow> 0 \<le> hs_LossPercent hs \<and> hs_LossPercent hs \<le> 100 \<and>
     0 \<le> hs_MinRTT hs \<and> hs_MinRTT hs \<le> hs_AvgRTT hs \<and> hs_MinRTT hs \<le> hs_CurrentRTT hs \<and>
     (hs_MinRTT hs = 0 \<longrightarrow> hs_AvgRTT hs = 0 \<and> hs_CurrentRTT hs = 0)"

lemma percent_bounds:
  fixes rnd :: "rat \<Rightarrow> rat"
  assumes mono: "mono rnd" and exact: "rnd 0 = 0" "rnd 100 = 100"
    and hundred: "\<And>k. k \<le> n \<Longrightarrow> rnd (100 * of_nat k) = 100 * of_nat k" and lost: "lost \<le> n" and n: "0 < n"
  shows "0 \<le> rnd (rnd (100 * of_nat lost) / of_nat n)"
    and "rnd (rnd (100 * of_nat lost) / of_nat n) \<le> 100"
proof -
  have "rnd (100 * of_nat lost) = 100 * of_nat lost" using hundred lost by blast
  then have q: "rnd (100 * of_nat lost) / of_nat n = 100 * (of_nat lost / of_nat n :: rat)" by simp
  have "0 \<le> (of_nat lost / of_nat n :: rat)" "of_nat lost / of_nat n \<le> (1 :: rat)"
    using lost n by (auto simp: divide_le_eq_1)
  then show "0 \<le> rnd (rnd (100 * of_nat lost) / of_nat n)"
    and "rnd (rnd (100 * of_nat lost) / of_nat n) \<le> 100"
    using monoD [OF mono, of 0 "rnd (100 * of_nat lost) / of_nat n"]
      monoD [OF mono, of "rnd (100 * of_nat lost) / of_nat n" 100] exact
    by (simp_all add: q)
qed

lemma hop_snapshot_summary_ok:
  fixes rnd :: "rat \<Rightarrow> rat"
  assumes "mono rnd" "rnd 0 = 0" "rnd 100 = 100"
    and "\<And>k. k \<le> ring_cap (h_recentLosses h) \<Longrightarrow> rnd (100 * of_nat k) = 100 * of_nat k"
    and ok: "hop_ok th i h"
  shows "summary_ok (hop_snapshot_of rnd h) \<and> hs_TTL (hop_snapshot_of rnd h) = i"
proof -
  let ?losses = "ring_oldest_first (h_recentLosses h)"
  obtain t c l m where st: "rtt_stats (0, 0, 0, 0) (ring_oldest_first (h_recentRTTs h)) = (t, c, l, m)"
    by (metis prod_cases4)
  have len: "length ?losses \<le> ring_cap (h_recentLosses h)"
    using ok by (simp add: hop_ok_def ring_oldest_first_rev ring_ok_def ring_cap_def)
  have loss: "0 \<le> hs_LossPercent (hop_snapshot_of rnd h) \<and> hs_LossPercent (hop_snapshot_of rnd h) \<le> 100"
  proof (cases "?losses = []")
    case True
    then show ?thesis by (simp add: hop_snapshot_of_def st)
  next
    case False
    then show ?thesis
      using percent_bounds [OF assms(1-3), of "length ?losses" "length (filter (\<lambda>l. l) ?losses)"]
        assms(4) len by (simp add: hop_snapshot_of_def st Let_def)
  qed
  show ?thesis
    using loss rtt_stats_init [OF st] ok
    by (auto simp: hop_snapshot_of_def st summary_ok_def hop_ok_def Let_def)
qed

lemma map_filter_upt_sorted:
  assumes "\<And>i h. i \<in> set is \<Longrightarrow> f i = Some h \<Longrightarrow> g h = i" and "sorted_wrt (<) (is :: nat list)"
  shows "sorted_wrt (<) (map g (List.map_filter f is)) \<and> set (map g (List.map_filter f is)) \<subseteq> set is"
  using assms
proof (induction "is")
  case Nil
  then show ?case by (simp add: map_filter_simps)
next
  case (Cons i "is")
  then have IH: "sorted_wrt (<) (map g (List.map_filter f is))"
      "set (map g (List.map_filter f is)) \<subseteq> set is" by auto
  show ?case
  proof (cases "f i")
    case None
    with IH show ?thesis by (auto simp: map_filter_simps)
  next
    case (Some h)
    then have "g h = i" using Cons.prems by simp
    moreover have "i < y" if "y \<in> set (map g (List.map_filter f is))" for y
      using that IH(2) Cons.prems by auto
    ultimately show ?thesis using IH Some by (auto simp: map_filter_simps)
  qed
qed

text \<open>
  a snapshot of a reachable path lists its hops in strictly increasing TTL order; every listed
  TTL is at least 1 and at most the target TTL once the target is known (64 otherwise); each
  listed hop's loss is between 0 and 100 percent and its minimum round-trip time bounds its average
  and its latest one from below, all of them zero together. The assumptions on \<open>rnd\<close> are those of
  IEEE rounding on the small integers involved.
\<close>

theorem snapshot_well_formed:
  fixes rnd :: "rat \<Rightarrow> rat"
  assumes ok: "path_ok th s" and mono: "mono rnd" and zero: "rnd 0 = 0" and hundred: "rnd 100 = 100"
    and small: "\<And>h k. Some h \<in> set (ps_hops s) \<Longrightarrow> k \<le> ring_cap (h_recentLosses h) \<Longrightarrow>
      rnd (100 * of_nat k) = 100 * of_nat k"
  shows "sorted_wrt (<) (map hs_TTL (sn_Hops (snapshot rnd s)))
    \<and> (\<forall>hs \<in> set (sn_Hops (snapshot rnd s)). summary_ok hs \<and> 1 \<le> hs_TTL hs \<and> hs_TTL hs \<le> 64
         \<and> (ps_targetTTL s \<noteq> 0 \<longrightarrow> hs_TTL hs \<le> ps_targetTTL s))
    \<and> sn_TargetTTL (snapshot rnd s) = ps_targetTTL s"
proof (cases "ps_maxSeen s = 0")
  case True
  then show ?thesis by (simp add: snapshot_def)
next
  case False
  define m where "m = (if ps_targetTTL s \<noteq> 0 \<and> ps_targetTTL s < ps_maxSeen s
    then ps_targetTTL s else ps_maxSeen s)"
  let ?hops = "List.map_filter (\<lambda>ttl. ps_hops s ! ttl) [1 ..< Suc m]"
  have m: "m \<le> max_ttl" "ps_targetTTL s \<noteq> 0 \<longrightarrow> m \<le> ps_targetTTL s"
    using ok by (auto simp: m_def path_ok_def)
  have sn: "sn_Hops (snapshot rnd s) = map (hop_snapshot_of rnd) ?hops"
    using False by (simp add: snapshot_def m_def Let_def)
  have each: "summary_ok (hop_snapshot_of rnd h) \<and> hs_TTL (hop_snapshot_of rnd h) = i"
    if "i \<in> set [1 ..< Suc m]" "ps_hops s ! i = Some h" for i h
  proof -
    have "i < length (ps_hops s)" and i: "i \<le> max_ttl" using that m ok by (auto simp: path_ok_def)
    then have "Some h \<in> set (ps_hops s)" using that by (metis nth_mem)
    moreover have "hop_ok th i h" using ok that i by (auto simp: path_ok_def)
    ultimately show ?thesis
      using hop_snapshot_summary_ok [OF mono zero hundred] small by blast
  qed
  have ttls: "sorted_wrt (<) (map (hs_TTL \<circ> hop_snapshot_of rnd) ?hops)
      \<and> set (map (hs_TTL \<circ> hop_snapshot_of rnd) ?hops) \<subseteq> set [1 ..< Suc m]"
    using each by (intro map_filter_upt_sorted sorted_wrt_upt) (simp del: upt_Suc)
  have eq: "map hs_TTL (sn_Hops (snapshot rnd s)) = map (hs_TTL \<circ> hop_snapshot_of rnd) ?hops"
    by (simp only: sn map_map)
  have "summary_ok hs \<and> 1 \<le> hs_TTL hs \<and> hs_TTL hs \<le> m" if hs: "hs \<in> set (sn_Hops (snapshot rnd s))" for hs
  proof -
    from hs sn obtain i h where "i \<in> set [1 ..< Suc m]" "ps_hops s ! i = Some h" "hs = hop_snapshot_of rnd h"
      by (auto simp: map_filter_def simp del: upt_Suc)
    then show ?thesis using each [of i h] by (auto simp del: upt_Suc)
  qed
  then show ?thesis
    using ttls m eq False by (fastforce simp: snapshot_def max_ttl_def Let_def)
qed

theorem snapshot_well_formed_witness:
  "\<exists>s. path_run 2 demo_run demo_path = Some s
     \<and> map hs_TTL (sn_Hops (snapshot id s)) = [3] \<and> summary_ok (hd (sn_Hops (snapshot id s)))"
proof -
  have "case path_run 2 demo_run demo_path of None \<Rightarrow> False
      | Some s \<Rightarrow> map hs_TTL (sn_Hops (snapshot id s)) = [3]"
    by code_simp
  then obtain s where run: "path_run 2 demo_run demo_path = Some s"
    and ttl: "map hs_TTL (sn_Hops (snapshot id s)) = [3]" by (auto split: option.splits)
  have ok: "path_ok 2 s" using path_ok_run [OF _ run] by (simp add: demo_path_def)
  have "\<forall>hs \<in> set (sn_Hops (snapshot id s)). summary_ok hs"
    using snapshot_well_formed [OF ok, of id] by (simp add: mono_def)
  with run ttl show ?thesis by (cases "sn_Hops (snapshot id s)") auto
qed

section \<open>The target TTL\<close>

lemma apply_target_ttl:
  "apply_probe_result r th s = Some (s', smp, rc) \<Longrightarrow>
   ps_targetTTL s' = update_target_ttl r (ps_targetTTL s)"
  by (erule apply_cases) simp

definition reached_at :: "nat \<Rightarrow> probe_result list \<Rightarrow> bool" where
  "reached_at t rs \<longleftrightarrow> (\<exists>pre r post. rs = pre @ r # post \<and> pr_Reply r = ReplyEchoReply \<and> pr_TTL r = t \<and>
     (\<forall>q \<in> set post. \<not> (pr_TTL q = t \<and> pr_Reply q = ReplyTimeExceeded) \<and>
        \<not> (pr_TTL q < t \<and> pr_Reply q = ReplyEchoReply)))"

lemma reached_at_snoc_keep:
  "reached_at t rs \<Longrightarrow> \<not> (pr_TTL q = t \<and> pr_Reply q = ReplyTimeExceeded) \<Longrightarrow>
   \<not> (pr_TTL q < t \<and> pr_Reply q = ReplyEchoReply) \<Longrightarrow> reached_at t (rs @ [q])"
  unfolding reached_at_def
proof (elim exE conjE)
  fix pre r post
  assume *: "\<not> (pr_TTL q = t \<and> pr_Reply q = ReplyTimeExceeded)"
      "\<not> (pr_TTL q < t \<and> pr_Reply q = ReplyEchoReply)"
      "rs = pre @ r # post" "pr_Reply r = ReplyEchoReply" "pr_TTL r = t"
      "\<forall>q \<in> set post. \<not> (pr_TTL q = t \<and> pr_Reply q = ReplyTimeExceeded) \<and>
        \<not> (pr_TTL q < t \<and> pr_Reply q = ReplyEchoReply)"
  show "\<exists>pre r post. rs @ [q] = pre @ r # post \<and> pr_Reply r = ReplyEchoReply \<and> pr_TTL r = t \<and>
     (\<forall>q \<in> set post. \<not> (pr_TTL q = t \<and> pr_Reply q = ReplyTimeExceeded) \<and>
        \<not> (pr_TTL q < t \<and> pr_Reply q = ReplyEchoReply))"
    by (rule exI [of _ pre], rule exI [of _ r], rule exI [of _ "post @ [q]"]) (use * in auto)
qed

lemma reached_at_snoc_new: "pr_Reply q = ReplyEchoReply \<Longrightarrow> reached_at (pr_TTL q) (rs @ [q])"
  unfolding reached_at_def by (rule exI [of _ rs], rule exI [of _ q], rule exI [of _ "[]"]) simp

lemma target_ttl_history:
  "path_run th rs s = Some s' \<Longrightarrow> ps_targetTTL s = 0 \<Longrightarrow> ps_targetTTL s' \<noteq> 0 \<Longrightarrow>
   reached_at (ps_targetTTL s') rs"
proof (induction rs arbitrary: s' rule: rev_induct)
  case Nil
  then show ?case by simp
next
  case (snoc q rs)
  then obtain s1 smp rc where s1: "path_run th rs s = Some s1"
    and ap: "apply_probe_result q th s1 = Some (s', smp, rc)"
    by (auto simp: path_run_append split: option.splits)
  have upd: "ps_targetTTL s' = update_target_ttl q (ps_targetTTL s1)"
    by (rule apply_target_ttl [OF ap])
  show ?case
  proof (cases "ps_targetTTL s' = ps_targetTTL s1")
    case True
    with snoc s1 have "reached_at (ps_targetTTL s') rs" by simp
    then show ?thesis
      using True upd snoc.prems
      by (intro reached_at_snoc_keep) (auto simp: update_target_ttl_def split: if_splits)
  next
    case False
    with upd snoc.prems have "pr_Reply q = ReplyEchoReply" "ps_targetTTL s' = pr_TTL q"
      by (auto simp: update_target_ttl_def split: reply_type.splits if_splits)
    then show ?thesis using reached_at_snoc_new by metis
  qed
qed

text \<open>
  whenever the target TTL is known it is justified by the history: some echo reply of the
  destination arrived at that TTL, and since then no router answered there with time-exceeded (the
  path has not grown past it) and no echo reply arrived at a smaller TTL. So the discovery sweep
  and the pinger, which stop at the target TTL, never stop short of a hop that a later reply has
  put before the destination.
\<close>

theorem target_ttl_is_justified:
  assumes "path_run th rs (new_path_state target ident now) = Some s" and "ps_targetTTL s \<noteq> 0"
  shows "ps_targetTTL s \<le> 64 \<and> (\<exists>pre r post. rs = pre @ r # post
    \<and> pr_Reply r = ReplyEchoReply \<and> pr_TTL r = ps_targetTTL s
    \<and> (\<forall>q \<in> set post. \<not> (pr_TTL q = ps_targetTTL s \<and> pr_Reply q = ReplyTimeExceeded)
          \<and> \<not> (pr_TTL q < ps_targetTTL s \<and> pr_Reply q = ReplyEchoReply)))"
proof -
  have start: "ps_targetTTL (new_path_state target ident now) = 0"
    by (simp add: new_path_state_def new_path_state_with_caps_def)
  have "path_ok th s"
    using path_ok_run [OF _ assms(1)] by (simp add: new_path_state_def)
  then have "ps_targetTTL s \<le> 64" by (simp add: path_ok_def max_ttl_def)
  with target_ttl_history [OF assms(1) start assms(2)] show ?thesis by (simp add: reached_at_def)
qed

theorem target_ttl_is_justified_witness:
  "\<exists>s. path_run 5 [(router_reply 4 9)\<lparr>pr_Reply := ReplyEchoReply\<rparr>, router_reply 3 7]
       (new_path_state (V4 9) ''t'' 0) = Some s \<and> ps_targetTTL s = 4 \<and> ps_targetTTL s \<le> 64"
proof -
  let ?rs = "[(router_reply 4 9)\<lparr>pr_Reply := ReplyEchoReply\<rparr>, router_reply 3 7]"
  obtain s where run: "path_run 5 ?rs (new_path_state (V4 9) ''t'' 0) = Some s"
    using path_run_None [of 5 ?rs "new_path_state (V4 9) ''t'' 0"]
    by (auto simp: router_reply_def zero_probe_result_def max_ttl_def)
  have "ps_targetTTL s = 4"
    using run by (auto simp: new_path_state_def new_path_state_with_caps_def router_reply_def
        zero_probe_result_def update_target_ttl_def split: option.splits prod.splits dest!: apply_target_ttl)
  with run target_ttl_is_justified [OF run] show ?thesis by simp
qed

end
