(* ===== verification/Engine.thy ===== *)
theory Engine
  imports PathState
begin

text \<open>
  \<open>internal/probe/engine.go\<close>, \<open>discovery.go\<close> and \<open>pinger.go\<close>: the goroutines of one traced path.
  Discovery and the pinger turn the outcome of a probe into a \<open>ProbeResult\<close> and send it to the
  reducer, the only goroutine that touches the \<open>PathState\<close>; the reducer applies it and hands the
  sample and the route change to its \<open>Sink\<close>, whose operations are arguments here. The order in
  which the reducer's \<open>select\<close> takes events is a list of events.
\<close>

section \<open>From outcome to result\<close>

text \<open>What \<open>Prober.Probe\<close> returns: a result, \<open>ErrTimeout\<close>, the cancelled context, another error.\<close>

datatype probe_outcome = ProbeOk addr duration reply_type | ProbeTimeout | ProbeCanceled | ProbeError

definition result_of_outcome :: "addr \<Rightarrow> nat \<Rightarrow> instant \<Rightarrow> probe_outcome \<Rightarrow> probe_result option" where
  "result_of_outcome target ttl ts outcome =
     (let pr = \<lparr>pr_Target = target, pr_TTL = ttl, pr_Ts = ts, pr_RespIP = NoAddr, pr_RTT = 0,
                pr_Reply = ReplyNone, pr_TimedOut = False\<rparr>
      in case outcome of
           ProbeCanceled \<Rightarrow> None
         | ProbeTimeout \<Rightarrow> Some (pr\<lparr>pr_TimedOut := True\<rparr>)
         | ProbeError \<Rightarrow> Some (pr\<lparr>pr_TimedOut := True\<rparr>)
         | ProbeOk ip rtt kind \<Rightarrow> Some (pr\<lparr>pr_RespIP := ip, pr_RTT := rtt, pr_Reply := kind\<rparr>))"

section \<open>Discovery\<close>

record discovery_config =
  dc_Target :: addr
  dc_Interval :: duration
  dc_MaxHops :: nat
  dc_Timeout :: duration

datatype config_error = BadTarget | BadInterval | BadMaxHops | BadTimeout | NilProber | NilEngine
  | BadThreshold | NilSink

definition new_discovery :: "discovery_config \<Rightarrow> bool \<Rightarrow> bool \<Rightarrow> config_error + discovery_config" where
  "new_discovery cfg have_prober have_engine =
     (if \<not> addr_valid (dc_Target cfg) then Inl BadTarget
      else if dc_Interval cfg \<le> 0 then Inl BadInterval
      else if dc_MaxHops cfg = 0 \<or> dc_MaxHops cfg > max_ttl then Inl BadMaxHops
      else if dc_Timeout cfg \<le> 0 then Inl BadTimeout
      else if \<not> have_prober then Inl NilProber
      else if \<not> have_engine then Inl NilEngine
      else Inr cfg)"

definition probe_one :: "discovery_config \<Rightarrow> (nat \<Rightarrow> instant \<times> probe_outcome) \<Rightarrow> nat \<Rightarrow> probe_result" where
  "probe_one cfg world ttl =
     (case world ttl of (ts, outcome) \<Rightarrow>
        case result_of_outcome (dc_Target cfg) ttl ts outcome of
          None \<Rightarrow> zero_probe_result
        | Some pr \<Rightarrow> pr)"

text \<open>The cap of a sweep: \<open>MaxHops\<close>, or the target TTL when the engine answers and knows a smaller
  one.\<close>

definition sweep_cap :: "nat \<Rightarrow> path_snapshot option \<Rightarrow> nat" where
  "sweep_cap maxHops snap =
     (case snap of
        None \<Rightarrow> maxHops
      | Some sn \<Rightarrow> if sn_TargetTTL sn \<noteq> 0 \<and> sn_TargetTTL sn < maxHops then sn_TargetTTL sn
                   else maxHops)"

fun terminal_ttl :: "probe_result list \<Rightarrow> nat" where
  "terminal_ttl [] = 0"
| "terminal_ttl (r # rs) = (if pr_Reply r = ReplyEchoReply then pr_TTL r else terminal_ttl rs)"

definition sweep :: "discovery_config \<Rightarrow> instant \<Rightarrow> path_snapshot option
    \<Rightarrow> (nat \<Rightarrow> instant \<times> probe_outcome) \<Rightarrow> sweep_result" where
  "sweep cfg started snap world =
     (let n = sweep_cap (dc_MaxHops cfg) snap;
          results = map (\<lambda>i. probe_one cfg world (i + 1)) [0 ..< n]
      in \<lparr>sw_Target = dc_Target cfg, sw_Ts = started, sw_Results = results,
          sw_TerminalTTL = terminal_ttl results\<rparr>)"

lemma probe_one_ttl: "pr_TTL (probe_one cfg world ttl) \<in> {0, ttl}"
  by (auto simp: probe_one_def result_of_outcome_def zero_probe_result_def Let_def
      split: prod.splits option.splits probe_outcome.splits)

lemma probe_one_reply:
  "pr_Reply (probe_one cfg world ttl) = ReplyEchoReply \<longleftrightarrow>
     (\<exists>ts ip rtt. world ttl = (ts, ProbeOk ip rtt ReplyEchoReply))"
  by (cases "world ttl"; cases "snd (world ttl)")
    (auto simp: probe_one_def result_of_outcome_def zero_probe_result_def Let_def)

lemma probe_one_reply_ttl:
  "pr_Reply (probe_one cfg world ttl) = ReplyEchoReply \<Longrightarrow> pr_TTL (probe_one cfg world ttl) = ttl"
  by (cases "world ttl"; cases "snd (world ttl)")
    (auto simp: probe_one_def result_of_outcome_def zero_probe_result_def Let_def)

lemma terminal_ttl_find:
  "terminal_ttl rs = (case find (\<lambda>r. pr_Reply r = ReplyEchoReply) rs of None \<Rightarrow> 0 | Some r \<Rightarrow> pr_TTL r)"
  by (induction rs) auto

definition answered :: "(nat \<Rightarrow> instant \<times> probe_outcome) \<Rightarrow> nat \<Rightarrow> bool" where
  "answered world ttl \<longleftrightarrow> (\<exists>ts ip rtt. world ttl = (ts, ProbeOk ip rtt ReplyEchoReply))"

lemma terminal_ttl_sweep:
  "terminal_ttl (map (\<lambda>i. probe_one cfg world (i + 1)) [k ..< n]) = t \<Longrightarrow>
   (t = 0 \<and> (\<forall>i. k < i \<and> i \<le> n \<longrightarrow> \<not> answered world i))
   \<or> (k < t \<and> t \<le> n \<and> answered world t \<and> (\<forall>i. k < i \<and> i < t \<longrightarrow> \<not> answered world i))"
proof (induction "n - k" arbitrary: k)
  case 0
  then show ?case by auto
next
  case (Suc m)
  then have k: "[k ..< n] = k # [Suc k ..< n]" "k < n" by (auto simp: upt_conv_Cons)
  show ?case
  proof (cases "answered world (k + 1)")
    case True
    then have "t = k + 1"
      using Suc.prems probe_one_reply_ttl [of cfg world "k + 1"]
      by (simp add: k probe_one_reply answered_def)
    with True k show ?thesis by auto
  next
    case False
    then have "terminal_ttl (map (\<lambda>i. probe_one cfg world (i + 1)) [Suc k ..< n]) = t"
      using Suc.prems by (simp add: k probe_one_reply answered_def)
    then have "(t = 0 \<and> (\<forall>i. Suc k < i \<and> i \<le> n \<longrightarrow> \<not> answered world i))
       \<or> (Suc k < t \<and> t \<le> n \<and> answered world t \<and> (\<forall>i. Suc k < i \<and> i < t \<longrightarrow> \<not> answered world i))"
      using Suc.hyps(2) by (intro Suc.hyps(1)) auto
    moreover have "i = k + 1 \<or> Suc k < i" if "k < i" for i using that by auto
    ultimately show ?thesis using False by (metis Suc_lessD)
  qed
qed

text \<open>
  a sweep of a configuration that \<open>NewDiscovery\<close> accepts probes the TTLs 1 to \<open>n\<close> with
  \<open>n\<close> between 1 and 64, never past \<open>MaxHops\<close> nor past the target TTL the engine knows; slot \<open>i\<close>
  holds the outcome for TTL \<open>i + 1\<close>, or the zero slot when that probe was cancelled; and the
  terminal TTL is the smallest probed TTL at which the destination answered, 0 if at none.
\<close>

theorem sweep_is_correct:
  assumes cfg: "new_discovery cfg0 have_prober have_engine = Inr cfg"
    and sw: "sweep cfg started snap world = sw"
  shows "cfg = cfg0 \<and> (let n = length (sw_Results sw) in
      1 \<le> n \<and> n \<le> 64 \<and> n \<le> dc_MaxHops cfg
      \<and> (case snap of None \<Rightarrow> n = dc_MaxHops cfg
         | Some sn \<Rightarrow> if sn_TargetTTL sn = 0 then n = dc_MaxHops cfg
                      else n = min (dc_MaxHops cfg) (sn_TargetTTL sn))
      \<and> (\<forall>i < n. sw_Results sw ! i = (case result_of_outcome (dc_Target cfg) (i + 1)
             (fst (world (i + 1))) (snd (world (i + 1))) of None \<Rightarrow> zero_probe_result | Some pr \<Rightarrow> pr))
      \<and> (if \<exists>ttl \<in> {1 .. n}. answered world ttl
         then sw_TerminalTTL sw \<in> {1 .. n} \<and> answered world (sw_TerminalTTL sw)
            \<and> (\<forall>ttl \<in> {1 .. n}. answered world ttl \<longrightarrow> sw_TerminalTTL sw \<le> ttl)
         else sw_TerminalTTL sw = 0))"
proof -
  let ?n = "sweep_cap (dc_MaxHops cfg) snap"
  have c: "cfg = cfg0" "1 \<le> dc_MaxHops cfg" "dc_MaxHops cfg \<le> 64"
    using cfg by (auto simp: new_discovery_def max_ttl_def split: if_splits)
  have n: "length (sw_Results sw) = ?n" "1 \<le> ?n" "?n \<le> dc_MaxHops cfg"
    using sw c by (auto simp: sweep_def sweep_cap_def Let_def split: option.splits)
  have cap: "case snap of None \<Rightarrow> ?n = dc_MaxHops cfg
      | Some sn \<Rightarrow> if sn_TargetTTL sn = 0 then ?n = dc_MaxHops cfg
                   else ?n = min (dc_MaxHops cfg) (sn_TargetTTL sn)"
    by (auto simp: sweep_cap_def split: option.splits)
  have slots: "sw_Results sw ! i = (case result_of_outcome (dc_Target cfg) (i + 1)
      (fst (world (i + 1))) (snd (world (i + 1))) of None \<Rightarrow> zero_probe_result | Some pr \<Rightarrow> pr)"
    if "i < ?n" for i
    using that sw by (auto simp: sweep_def probe_one_def Let_def split_beta)
  have "terminal_ttl (map (\<lambda>i. probe_one cfg world (i + 1)) [0 ..< ?n]) = sw_TerminalTTL sw"
    using sw by (auto simp: sweep_def Let_def)
  note terminal = terminal_ttl_sweep [OF this]
  have last: "if \<exists>ttl \<in> {1 .. ?n}. answered world ttl
         then sw_TerminalTTL sw \<in> {1 .. ?n} \<and> answered world (sw_TerminalTTL sw)
            \<and> (\<forall>ttl \<in> {1 .. ?n}. answered world ttl \<longrightarrow> sw_TerminalTTL sw \<le> ttl)
         else sw_TerminalTTL sw = 0"
    using terminal by (auto simp: Suc_le_eq not_less [symmetric])
  show ?thesis
    unfolding Let_def n(1) using c n cap slots last by simp
qed

theorem sweep_is_correct_witness:
  "let cfg = \<lparr>dc_Target = V4 9, dc_Interval = 5, dc_MaxHops = 4, dc_Timeout = 1\<rparr>;
       sw = sweep cfg 0 None (\<lambda>ttl. (0, if ttl = 3 then ProbeOk (V4 9) 7 ReplyEchoReply else ProbeTimeout))
   in length (sw_Results sw) \<le> 64 \<and> sw_TerminalTTL sw = 3"
proof -
  let ?cfg = "\<lparr>dc_Target = V4 9, dc_Interval = 5, dc_MaxHops = 4, dc_Timeout = 1\<rparr>"
  let ?sw = "sweep ?cfg 0 None
    (\<lambda>ttl. (0, if ttl = 3 then ProbeOk (V4 9) 7 ReplyEchoReply else ProbeTimeout))"
  have ok: "new_discovery ?cfg True True = Inr ?cfg" by (simp add: new_discovery_def max_ttl_def)
  have "sw_TerminalTTL ?sw = 3" by code_simp
  then show ?thesis using sweep_is_correct [OF ok refl, of 0 None
    "\<lambda>ttl. (0, if ttl = 3 then ProbeOk (V4 9) 7 ReplyEchoReply else ProbeTimeout)"]
    by (simp add: Let_def)
qed

section \<open>The pinger\<close>

text \<open>A tick: the TTLs probed, each by a goroutine of its own.\<close>

definition pinger_tick :: "bool \<Rightarrow> path_snapshot option \<Rightarrow> nat list" where
  "pinger_tick finalHopOnly snap =
     (case snap of
        None \<Rightarrow> []
      | Some sn \<Rightarrow>
          if length (sn_Hops sn) = 0 then []
          else if finalHopOnly then (if sn_TargetTTL sn = 0 then [] else [sn_TargetTTL sn])
          else map hs_TTL (sn_Hops sn))"

text \<open>The result a ping sends to the reducer, if the context is still alive.\<close>

definition probe_and_send :: "addr \<Rightarrow> nat \<Rightarrow> instant \<times> probe_outcome \<Rightarrow> probe_result list" where
  "probe_and_send target ttl world =
     (case result_of_outcome target ttl (fst world) (snd world) of None \<Rightarrow> [] | Some pr \<Rightarrow> [pr])"

section \<open>The reducer\<close>

record engine_config =
  ec_Target :: addr
  ec_TargetID :: string
  ec_Threshold :: int

definition new_engine :: "engine_config \<Rightarrow> bool \<Rightarrow> config_error + engine_config" where
  "new_engine cfg have_sink =
     (if \<not> addr_valid (ec_Target cfg) then Inl BadTarget
      else if ec_Threshold cfg < 1 then Inl BadThreshold
      else if \<not> have_sink then Inl NilSink
      else Inr cfg)"

text \<open>\<open>applyProbe\<close>: the guard, the path state, then the sink. A write error is logged and changes
  nothing else. \<open>None\<close> is the panic of \<open>ApplyProbeResult\<close>.\<close>

definition apply_probe ::
  "(sample \<Rightarrow> 's \<Rightarrow> string option \<times> 's) \<Rightarrow> (route_change \<Rightarrow> 's \<Rightarrow> string option \<times> 's)
   \<Rightarrow> int \<Rightarrow> probe_result \<Rightarrow> path_state \<times> 's \<Rightarrow> (path_state \<times> 's) option" where
  "apply_probe write_sample write_change threshold r st =
     (case st of (s, k) \<Rightarrow>
        if pr_TTL r = 0 \<or> pr_TTL r > max_ttl then Some (s, k)
        else case apply_probe_result r threshold s of
               None \<Rightarrow> None
             | Some (s', smp, rc) \<Rightarrow>
                 let k' = snd (write_sample smp k)
                 in Some (s', case rc of None \<Rightarrow> k' | Some c \<Rightarrow> snd (write_change c k')))"

datatype engine_event = EvProbe probe_result | EvSweep sweep_result | EvQuery

text \<open>The loop over a sweep's results: zero slots are skipped.\<close>

fun apply_sweep ::
  "(probe_result \<Rightarrow> 'st \<Rightarrow> 'st option) \<Rightarrow> probe_result list \<Rightarrow> 'st \<Rightarrow> 'st option" where
  "apply_sweep ap [] st = Some st"
| "apply_sweep ap (r # rs) st =
     (if pr_TTL r = 0 then apply_sweep ap rs st
      else case ap r st of None \<Rightarrow> None | Some st' \<Rightarrow> apply_sweep ap rs st')"

definition reduce_event ::
  "(rat \<Rightarrow> rat) \<Rightarrow> (probe_result \<Rightarrow> path_state \<times> 's \<Rightarrow> (path_state \<times> 's) option) \<Rightarrow> engine_event
   \<Rightarrow> path_state \<times> 's \<Rightarrow> ((path_state \<times> 's) \<times> path_snapshot option) option" where
  "reduce_event rnd ap ev st =
     (case ev of
        EvProbe r \<Rightarrow> map_option (\<lambda>st'. (st', None)) (ap r st)
      | EvSweep sw \<Rightarrow> map_option (\<lambda>st'. (st', None)) (apply_sweep ap (sw_Results sw) st)
      | EvQuery \<Rightarrow> Some (st, Some (snapshot rnd (fst st))))"

fun reducer ::
  "(rat \<Rightarrow> rat) \<Rightarrow> (probe_result \<Rightarrow> path_state \<times> 's \<Rightarrow> (path_state \<times> 's) option) \<Rightarrow> engine_event list
   \<Rightarrow> path_state \<times> 's \<Rightarrow> ((path_state \<times> 's) \<times> path_snapshot list) option" where
  "reducer rnd ap [] st = Some (st, [])"
| "reducer rnd ap (ev # evs) st =
     (case reduce_event rnd ap ev st of
        None \<Rightarrow> None
      | Some (st', reply) \<Rightarrow>
          map_option (\<lambda>(st'', replies). (st'', (case reply of None \<Rightarrow> [] | Some sn \<Rightarrow> [sn]) @ replies))
            (reducer rnd ap evs st'))"


section \<open>What the reducer writes\<close>

definition ttl_valid :: "probe_result \<Rightarrow> bool" where
  "ttl_valid r \<longleftrightarrow> 0 < pr_TTL r \<and> pr_TTL r \<le> max_ttl"

fun event_results :: "engine_event \<Rightarrow> probe_result list" where
  "event_results (EvProbe r) = filter ttl_valid [r]"
| "event_results (EvSweep sw) = filter ttl_valid (sw_Results sw)"
| "event_results EvQuery = []"

definition results_of :: "engine_event list \<Rightarrow> probe_result list" where
  "results_of evs = concat (map event_results evs)"

text \<open>The specification: the results applied one after the other, with everything they emit.\<close>

fun path_trace :: "int \<Rightarrow> probe_result list \<Rightarrow> path_state
    \<Rightarrow> (path_state \<times> sample list \<times> route_change list) option" where
  "path_trace th [] s = Some (s, [], [])"
| "path_trace th (r # rs) s =
     (case apply_probe_result r th s of
        None \<Rightarrow> None
      | Some (s', smp, rc) \<Rightarrow>
          map_option (\<lambda>(s'', smps, rcs). (s'', smp # smps, (case rc of None \<Rightarrow> [] | Some c \<Rightarrow> [c]) @ rcs))
            (path_trace th rs s'))"

lemma path_trace_run: "path_trace th rs s = Some (s', smps, rcs) \<Longrightarrow> path_run th rs s = Some s'"
  by (induction rs arbitrary: s smps rcs) (auto split: option.splits)

lemma path_trace_length: "path_trace th rs s = Some (s', smps, rcs) \<Longrightarrow> length smps = length rs"
  by (induction rs arbitrary: s smps rcs) (auto split: option.splits)

lemma path_trace_total: "\<forall>r \<in> set rs. ttl_valid r \<Longrightarrow> \<exists>x. path_trace th rs s = Some x"
proof (induction rs arbitrary: s)
  case Nil
  then show ?case by simp
next
  case (Cons r rs)
  then obtain s' smp rc where "apply_probe_result r th s = Some (s', smp, rc)"
    using apply_probe_result_None [of r th s]
    by (cases "apply_probe_result r th s") (auto simp: ttl_valid_def)
  moreover from Cons obtain x where "path_trace th rs s' = Some x" by fastforce
  ultimately show ?case by (simp add: split_beta)
qed

lemma path_trace_append:
  "path_trace th (rs @ qs) s =
     (case path_trace th rs s of None \<Rightarrow> None
      | Some (s', smps, rcs) \<Rightarrow>
          map_option (\<lambda>(s'', smps', rcs'). (s'', smps @ smps', rcs @ rcs')) (path_trace th qs s'))"
proof (induction rs arbitrary: s)
  case Nil
  then show ?case by (cases "path_trace th qs s") auto
next
  case (Cons r rs)
  show ?case
  proof (cases "apply_probe_result r th s")
    case None
    then show ?thesis by simp
  next
    case (Some x)
    obtain s' smp rc where x: "x = (s', smp, rc)" by (cases x)
    show ?thesis
      by (cases "path_trace th rs s'")
        (auto simp: Some x Cons.IH option.map_comp comp_def split_beta intro!: option.map_cong0)
  qed
qed

lemma apply_sweep_filter:
  assumes "\<And>r st. \<not> ttl_valid r \<Longrightarrow> ap r st = Some st"
  shows "apply_sweep ap rs st = apply_sweep ap (filter ttl_valid rs) st"
proof (induction rs arbitrary: st)
  case Nil
  then show ?case by simp
next
  case (Cons r rs)
  then show ?case
    using assms [of r] by (cases "ttl_valid r"; cases "ap r st") (auto simp: ttl_valid_def)
qed

lemma apply_probe_skips: "\<not> ttl_valid r \<Longrightarrow> apply_probe ws wc th r st = Some st"
  by (cases st) (auto simp: apply_probe_def ttl_valid_def)

lemma reduce_event_sweep:
  assumes "\<And>r st. \<not> ttl_valid r \<Longrightarrow> ap r st = Some st"
  shows "reduce_event rnd ap ev st =
    map_option (\<lambda>st'. (st', if ev = EvQuery then Some (snapshot rnd (fst st')) else None))
      (apply_sweep ap (event_results ev) st)"
proof (cases ev)
  case (EvProbe r)
  show ?thesis
  proof (cases "ttl_valid r")
    case True
    with EvProbe show ?thesis
      by (cases "ap r st") (auto simp: reduce_event_def ttl_valid_def)
  qed (use EvProbe assms in \<open>simp add: reduce_event_def\<close>)
next
  case (EvSweep sw)
  then show ?thesis
    using apply_sweep_filter [of ap "sw_Results sw" st, OF assms]
    by (simp add: reduce_event_def)
qed (simp add: reduce_event_def)

lemma apply_sweep_append:
  "apply_sweep ap (rs @ qs) st =
     (case apply_sweep ap rs st of None \<Rightarrow> None | Some st' \<Rightarrow> apply_sweep ap qs st')"
  by (induction rs arbitrary: st) (auto split: option.splits)

lemma reducer_is_apply_sweep:
  assumes "\<And>r st. \<not> ttl_valid r \<Longrightarrow> ap r st = Some st"
  shows "map_option fst (reducer rnd ap evs st) = apply_sweep ap (results_of evs) st"
proof (induction evs arbitrary: st)
  case Nil
  then show ?case by (simp add: results_of_def)
next
  case (Cons ev evs)
  show ?case
  proof (cases "apply_sweep ap (event_results ev) st")
    case None
    then show ?thesis
      by (simp add: reduce_event_sweep [OF assms] results_of_def apply_sweep_append)
  next
    case (Some st')
    then show ?thesis
      using Cons [of st']
      by (simp add: reduce_event_sweep [OF assms] results_of_def apply_sweep_append
          option.map_comp comp_def split_beta)
  qed
qed

lemma results_of_valid: "\<forall>r \<in> set (results_of evs). ttl_valid r"
proof
  fix r assume "r \<in> set (results_of evs)"
  then obtain ev where "r \<in> set (event_results ev)" by (auto simp: results_of_def)
  then show "ttl_valid r" by (cases ev) (auto split: if_splits)
qed

context probe_sink
begin

abbreviation step_result :: "int \<Rightarrow> probe_result \<Rightarrow> path_state \<times> 's \<Rightarrow> (path_state \<times> 's) option" where
  "step_result th \<equiv> apply_probe write_sample write_route_change th"

lemma apply_results:
  assumes "\<forall>r \<in> set rs. ttl_valid r" and "keeps (length rs) k"
  shows "\<exists>s' k' smps rcs. apply_sweep (step_result th) rs (s, k) = Some (s', k')
    \<and> path_trace th rs s = Some (s', smps, rcs)
    \<and> samples_of k' = samples_of k @ smps \<and> changes_of k' = changes_of k @ rcs"
  using assms
proof (induction rs arbitrary: s k)
  case Nil
  then show ?case by simp
next
  case (Cons r rs)
  then obtain s1 smp rc where ap: "apply_probe_result r th s = Some (s1, smp, rc)"
    using apply_probe_result_None [of r th s]
    by (cases "apply_probe_result r th s") (auto simp: ttl_valid_def)
  define k1 where "k1 = snd (write_sample smp k)"
  define k2 where "k2 = (case rc of None \<Rightarrow> k1 | Some c \<Rightarrow> snd (write_route_change c k1))"
  have k1: "samples_of k1 = samples_of k @ [smp]" "changes_of k1 = changes_of k"
      "keeps (length rs) k1"
    using Cons.prems samples_write_sample changes_write_sample by (auto simp: k1_def)
  have k2: "samples_of k2 = samples_of k @ [smp]"
      "changes_of k2 = changes_of k @ (case rc of None \<Rightarrow> [] | Some c \<Rightarrow> [c])"
      "keeps (length rs) k2"
    using k1 by (auto simp: k2_def samples_write_change changes_write_change keeps_write_change
        split: option.splits)
  have step: "step_result th r (s, k) = Some (s1, k2)"
    using Cons.prems(1) by (auto simp: apply_probe_def ap ttl_valid_def k1_def k2_def Let_def split: option.splits)
  obtain s' k' smps rcs where "apply_sweep (step_result th) rs (s1, k2) = Some (s', k')"
      "path_trace th rs s1 = Some (s', smps, rcs)"
      "samples_of k' = samples_of k2 @ smps" "changes_of k' = changes_of k2 @ rcs"
    using Cons.IH [OF _ k2(3), of s1] Cons.prems(1) by auto
  with step k2 ap Cons.prems(1) show ?case by (auto simp: ttl_valid_def)
qed

lemma reducer_writes:
  assumes "keeps (length (results_of evs)) k"
  shows "\<exists>s' k' replies smps rcs. reducer rnd (step_result th) evs (s, k) = Some ((s', k'), replies)
    \<and> path_trace th (results_of evs) s = Some (s', smps, rcs)
    \<and> samples_of k' = samples_of k @ smps \<and> changes_of k' = changes_of k @ rcs"
proof -
  have "map_option fst (reducer rnd (step_result th) evs (s, k))
      = apply_sweep (step_result th) (results_of evs) (s, k)"
    by (rule reducer_is_apply_sweep) (rule apply_probe_skips)
  moreover obtain s' k' smps rcs where
      "apply_sweep (step_result th) (results_of evs) (s, k) = Some (s', k')"
      "path_trace th (results_of evs) s = Some (s', smps, rcs)"
      "samples_of k' = samples_of k @ smps" "changes_of k' = changes_of k @ rcs"
    using apply_results [OF results_of_valid assms] by blast
  ultimately show ?thesis by (auto simp: map_option_eq_Some)
qed

end


text \<open>
  the reducer never panics, whatever TTLs the probes and sweeps sent to it carry and whatever
  the sink does: it ends in the path state reached by exactly the results whose TTL is in range,
  in the order it took them.
\<close>

theorem reducer_never_panics:
  "\<exists>s' k' replies. reducer rnd (apply_probe ws wc th) evs (s, k) = Some ((s', k'), replies)
     \<and> path_run th (results_of evs) s = Some s'"
proof -
  have run: "\<exists>s' k'. apply_sweep (apply_probe ws wc th) rs (s, k) = Some (s', k')
      \<and> path_run th rs s = Some s'" if "\<forall>r \<in> set rs. ttl_valid r" for rs s k
    using that
  proof (induction rs arbitrary: s k)
    case Nil
    then show ?case by simp
  next
    case (Cons r rs)
    then obtain s1 smp rc where ap: "apply_probe_result r th s = Some (s1, smp, rc)"
      using apply_probe_result_None [of r th s]
      by (cases "apply_probe_result r th s") (auto simp: ttl_valid_def)
    then obtain k1 where "apply_probe ws wc th r (s, k) = Some (s1, k1)"
      using Cons.prems by (simp add: apply_probe_def ttl_valid_def Let_def)
    with Cons.IH [of s1 k1] Cons.prems ap show ?case by (auto simp: ttl_valid_def)
  qed
  have "map_option fst (reducer rnd (apply_probe ws wc th) evs (s, k))
      = apply_sweep (apply_probe ws wc th) (results_of evs) (s, k)"
    by (rule reducer_is_apply_sweep) (rule apply_probe_skips)
  moreover have "\<forall>r \<in> set (results_of evs). ttl_valid r" by (rule results_of_valid)
  ultimately obtain s' k' where
      "map_option fst (reducer rnd (apply_probe ws wc th) evs (s, k)) = Some (s', k')"
      "path_run th (results_of evs) s = Some s'" using run by metis
  then show ?thesis by (cases "reducer rnd (apply_probe ws wc th) evs (s, k)") auto
qed

section \<open>What the pinger probes\<close>

text \<open>A result built from an outcome is never both timed out and an echo reply.\<close>

definition result_sane :: "probe_result \<Rightarrow> bool" where
  "result_sane r \<longleftrightarrow> \<not> (pr_TimedOut r \<and> pr_Reply r = ReplyEchoReply)"

lemma result_of_outcome_sane: "result_of_outcome target ttl ts outcome = Some r \<Longrightarrow> result_sane r"
  by (auto simp: result_of_outcome_def result_sane_def Let_def split: probe_outcome.splits)

definition target_known_ok :: "path_state \<Rightarrow> bool" where
  "target_known_ok s \<longleftrightarrow> (ps_targetTTL s \<noteq> 0 \<longrightarrow>
     ps_hops s ! ps_targetTTL s \<noteq> None \<and> ps_targetTTL s \<le> ps_maxSeen s)"

lemma target_known_ok_apply [inv_facts]:
  assumes "path_ok th s" "target_known_ok s" "result_sane r"
    and ap: "apply_probe_result r th s = Some (s', smp, rc)"
  shows "target_known_ok s'"
proof -
  from ap obtain h where h: "pr_TTL r \<le> max_ttl"
      "s' = s\<lparr>ps_hops := (ps_hops s)[pr_TTL r := Some h],
              ps_maxSeen := update_max_seen r (ps_maxSeen s),
              ps_targetTTL := update_target_ttl r (ps_targetTTL s)\<rparr>"
    by (rule apply_cases)
  have "pr_TTL r < length (ps_hops s)" "ps_targetTTL s < length (ps_hops s)"
    using h(1) assms(1) by (auto simp: path_ok_def)
  then show ?thesis
    using assms(2,3) unfolding target_known_ok_def h(2)
    by (auto simp: nth_list_update update_max_seen_def update_target_ttl_def is_miss_def
        result_sane_def split: reply_type.splits if_splits)
qed

lemma target_known_ok_run:
  "path_run th rs s = Some s' \<Longrightarrow> path_ok th s \<Longrightarrow> target_known_ok s \<Longrightarrow>
   \<forall>r \<in> set rs. result_sane r \<Longrightarrow> target_known_ok s'"
proof (induction rs arbitrary: s)
  case Nil
  then show ?case by simp
next
  case (Cons r rs)
  then obtain s1 smp rc where "apply_probe_result r th s = Some (s1, smp, rc)"
      "path_run th rs s1 = Some s'" by (auto split: option.splits)
  with Cons show ?case by (auto dest: target_known_ok_apply path_ok_apply)
qed

definition visible_ttls :: "path_state \<Rightarrow> nat list" where
  "visible_ttls s =
     filter (\<lambda>ttl. ps_hops s ! ttl \<noteq> None)
       [1 ..< Suc (if ps_targetTTL s \<noteq> 0 \<and> ps_targetTTL s < ps_maxSeen s
                   then ps_targetTTL s else ps_maxSeen s)]"

lemma snapshot_ttls:
  assumes ok: "path_ok th s"
  shows "map hs_TTL (sn_Hops (snapshot rnd s)) = visible_ttls s"
proof -
  have filt: "map (hs_TTL \<circ> hop_snapshot_of rnd) (List.map_filter (\<lambda>ttl. ps_hops s ! ttl) is)
      = filter (\<lambda>ttl. ps_hops s ! ttl \<noteq> None) is" if "\<forall>i \<in> set is. i \<le> max_ttl" for "is"
    using that
  proof (induction "is")
    case (Cons i "is")
    then show ?case
      using ok by (cases "ps_hops s ! i")
        (auto simp: map_filter_simps path_ok_def hop_ok_def hop_snapshot_of_def Let_def split_beta)
  qed (simp add: map_filter_simps)
  have "ps_maxSeen s \<le> max_ttl" "ps_targetTTL s \<le> max_ttl" using ok by (auto simp: path_ok_def)
  then show ?thesis
    using filt [of "[1 ..< Suc (if ps_targetTTL s \<noteq> 0 \<and> ps_targetTTL s < ps_maxSeen s
                   then ps_targetTTL s else ps_maxSeen s)]"]
    by (auto simp: snapshot_def visible_ttls_def Let_def simp del: upt_Suc)
qed

lemma snapshot_target [simp]: "sn_TargetTTL (snapshot rnd s) = ps_targetTTL s"
  by (simp add: snapshot_def Let_def)

lemma snapshot_nonempty:
  assumes ok: "path_ok th s" and tk: "target_known_ok s" and t: "ps_targetTTL s \<noteq> 0"
  shows "sn_Hops (snapshot rnd s) \<noteq> []"
proof -
  have "ps_targetTTL s \<in> set (visible_ttls s)"
    using tk t by (auto simp: visible_ttls_def target_known_ok_def)
  then show ?thesis using snapshot_ttls [OF ok, of rnd] by auto
qed

text \<open>
  on a path fed by probe outcomes, a tick of the pinger probes each TTL at most once, in
  increasing order, only TTLs in 1..64 whose hop has been observed, and none beyond the target TTL
  once that is known. In final-hop mode it probes exactly the destination's TTL as soon as it is
  known, and nothing before.
\<close>

theorem pinger_probes_known_hops:
  assumes run: "path_run th rs (new_path_state target ident now) = Some s"
    and built: "\<forall>r \<in> set rs. \<exists>tgt ttl ts outcome. result_of_outcome tgt ttl ts outcome = Some r"
  shows "sorted_wrt (<) (pinger_tick False (Some (snapshot rnd s)))
    \<and> (\<forall>ttl \<in> set (pinger_tick False (Some (snapshot rnd s))).
         1 \<le> ttl \<and> ttl \<le> 64 \<and> ps_hops s ! ttl \<noteq> None \<and> (ps_targetTTL s \<noteq> 0 \<longrightarrow> ttl \<le> ps_targetTTL s))
    \<and> pinger_tick True (Some (snapshot rnd s)) = (if ps_targetTTL s = 0 then [] else [ps_targetTTL s])"
proof -
  have ok: "path_ok th s" using path_ok_run [OF _ run] by (simp add: new_path_state_def)
  have start: "target_known_ok (new_path_state target ident now)"
      "path_ok th (new_path_state target ident now)"
    by (simp_all add: target_known_ok_def new_path_state_def)
      (simp add: new_path_state_with_caps_def)
  have tk: "target_known_ok s"
    using target_known_ok_run [OF run start(2,1)] built result_of_outcome_sane by blast
  have tick: "pinger_tick False (Some (snapshot rnd s)) = visible_ttls s"
    using snapshot_ttls [OF ok, of rnd] by (auto simp: pinger_tick_def)
  have "ps_maxSeen s \<le> 64" using ok by (simp add: path_ok_def max_ttl_def)
  then have vis: "sorted_wrt (<) (visible_ttls s)" "\<forall>ttl \<in> set (visible_ttls s).
      1 \<le> ttl \<and> ttl \<le> 64 \<and> ps_hops s ! ttl \<noteq> None \<and> (ps_targetTTL s \<noteq> 0 \<longrightarrow> ttl \<le> ps_targetTTL s)"
    unfolding visible_ttls_def
    by (auto intro!: sorted_wrt_filter simp del: upt_Suc split: if_splits)
  have "pinger_tick True (Some (snapshot rnd s)) = (if ps_targetTTL s = 0 then [] else [ps_targetTTL s])"
    using snapshot_nonempty [OF ok tk, of rnd] by (auto simp: pinger_tick_def)
  with vis tick show ?thesis by simp
qed


definition demo_results :: "probe_result list" where
  "demo_results = List.map_filter (\<lambda>(ttl, o1). result_of_outcome (V4 9) ttl 5 o1)
     [(1, ProbeOk (V4 3) 6 ReplyTimeExceeded), (2, ProbeOk (V4 9) 7 ReplyEchoReply), (3, ProbeTimeout)]"

theorem pinger_probes_known_hops_witness:
  "\<exists>s. path_run 2 demo_results (new_path_state (V4 9) ''t'' 0) = Some s
     \<and> pinger_tick False (Some (snapshot id s)) = [1, 2]
     \<and> pinger_tick True (Some (snapshot id s)) = [2]"
proof -
  have "case path_run 2 demo_results (new_path_state (V4 9) ''t'' 0) of None \<Rightarrow> False
      | Some s \<Rightarrow> pinger_tick False (Some (snapshot id s)) = [1, 2] \<and> ps_targetTTL s = 2"
    by code_simp
  then obtain s where s: "path_run 2 demo_results (new_path_state (V4 9) ''t'' 0) = Some s"
      "pinger_tick False (Some (snapshot id s)) = [1, 2]" "ps_targetTTL s = 2"
    by (auto split: option.splits)
  have "\<forall>r \<in> set demo_results. \<exists>tgt ttl ts outcome. result_of_outcome tgt ttl ts outcome = Some r"
    by (auto simp: demo_results_def map_filter_def)
  from pinger_probes_known_hops [OF s(1) this, of id] s show ?thesis by auto
qed

end
