(* ===== verification/Batched.thy ===== *)
theory Batched
  imports History Engine "HOL-Library.Sublist"
begin

text \<open>
  \<open>internal/storage/sink.go\<close>: the sink of the central's own engines. Samples and route changes are
  queued in memory and written to SQLite in one transaction per flush; a failed transaction puts
  them back. SQLite itself is not modelled beyond what the code relies on: a table is the list of
  its rows in insertion order, statements inside a transaction act on a copy, and a rolled-back or
  failed commit leaves the tables as they were. Which of the calls fail is an argument.
\<close>

section \<open>Rows\<close>

record sample_row =
  sr_target :: string
  sr_ttl :: int
  sr_ts :: int
  sr_ip :: "string option"
  sr_rtt_us :: int

record change_row =
  cr_target :: string
  cr_ttl :: int
  cr_ts :: int
  cr_old :: "string option"
  cr_new :: string

record sample_tables =
  tb_samples :: "sample_row list"
  tb_changes :: "change_row list"

definition null_string :: "addr \<Rightarrow> string option" where
  "null_string a = (if addr_valid a then Some (addr_string a) else None)"

definition sample_row_of :: "sample \<Rightarrow> sample_row" where
  "sample_row_of s =
     \<lparr>sr_target = (if s_TargetID s = [] then addr_string (s_Target s) else s_TargetID s),
      sr_ttl = int (s_TTL s), sr_ts = unix_milli (s_Ts s), sr_ip = null_string (s_IP s),
      sr_rtt_us = go_quot (s_RTT s) 1000\<rparr>"

definition change_row_of :: "route_change \<Rightarrow> change_row" where
  "change_row_of c =
     \<lparr>cr_target = (if rc_TargetID c = [] then addr_string (rc_Target c) else rc_TargetID c),
      cr_ttl = int (rc_TTL c), cr_ts = unix_milli (rc_Ts c), cr_old = null_string (rc_OldIP c),
      cr_new = addr_string (rc_NewIP c)\<rparr>"

section \<open>The queue\<close>

record batched_sink =
  bs_samples :: "sample list"
  bs_changes :: "route_change list"
  bs_dropped :: nat
  bs_flushSize :: nat
  bs_bufferCap :: nat
  bs_signal :: bool

definition new_batched_sink :: "batched_sink" where
  "new_batched_sink =
     \<lparr>bs_samples = [], bs_changes = [], bs_dropped = 0, bs_flushSize = 100, bs_bufferCap = 10000,
      bs_signal = False\<rparr>"

text \<open>The non-blocking send on \<open>flushCh\<close> leaves the one-element channel full.\<close>

definition batched_write_sample :: "sample \<Rightarrow> batched_sink \<Rightarrow> string option \<times> batched_sink" where
  "batched_write_sample x k =
     (let k = (if length (bs_samples k) \<ge> bs_bufferCap k
               then k\<lparr>bs_samples := tl (bs_samples k), bs_dropped := bs_dropped k + 1\<rparr> else k);
          k = k\<lparr>bs_samples := bs_samples k @ [x]\<rparr>;
          needFlush = length (bs_samples k) \<ge> bs_flushSize k
      in (None, if needFlush then k\<lparr>bs_signal := True\<rparr> else k))"

definition batched_write_change :: "route_change \<Rightarrow> batched_sink \<Rightarrow> string option \<times> batched_sink" where
  "batched_write_change c k = (None, k\<lparr>bs_changes := bs_changes k @ [c]\<rparr>)"

definition batched_requeue :: "sample list \<Rightarrow> route_change list \<Rightarrow> batched_sink \<Rightarrow> batched_sink" where
  "batched_requeue samples changes k =
     (let k = (if length samples > 0
               then let merged = samples @ bs_samples k
                    in if length merged > bs_bufferCap k
                       then let over = length merged - bs_bufferCap k
                            in k\<lparr>bs_dropped := bs_dropped k + over, bs_samples := drop over merged\<rparr>
                       else k\<lparr>bs_samples := merged\<rparr>
               else k)
      in if length changes > 0 then k\<lparr>bs_changes := changes @ bs_changes k\<rparr> else k)"

definition log_dropped :: "batched_sink \<Rightarrow> nat \<times> batched_sink" where
  "log_dropped k = (bs_dropped k, k\<lparr>bs_dropped := 0\<rparr>)"

section \<open>A flush\<close>

record flush_faults =
  ff_begin :: bool
  ff_prepare_samples :: bool
  ff_sample :: "nat \<Rightarrow> bool"
  ff_prepare_changes :: bool
  ff_change :: "nat \<Rightarrow> bool"
  ff_commit :: bool

fun insert_rows :: "(nat \<Rightarrow> bool) \<Rightarrow> nat \<Rightarrow> ('a \<Rightarrow> 'r) \<Rightarrow> 'a list \<Rightarrow> 'r list \<Rightarrow> 'r list option" where
  "insert_rows fails i row [] tab = Some tab"
| "insert_rows fails i row (x # xs) tab =
     (if fails i then None else insert_rows fails (Suc i) row xs (tab @ [row x]))"

definition insert_samples :: "flush_faults \<Rightarrow> sample list \<Rightarrow> sample_tables \<Rightarrow> sample_tables option" where
  "insert_samples ff samples tx =
     (if samples = [] then Some tx
      else if ff_prepare_samples ff then None
      else map_option (\<lambda>t. tx\<lparr>tb_samples := t\<rparr>)
             (insert_rows (ff_sample ff) 0 sample_row_of samples (tb_samples tx)))"

definition insert_route_changes ::
  "flush_faults \<Rightarrow> route_change list \<Rightarrow> sample_tables \<Rightarrow> sample_tables option" where
  "insert_route_changes ff changes tx =
     (if changes = [] then Some tx
      else if ff_prepare_changes ff then None
      else map_option (\<lambda>t. tx\<lparr>tb_changes := t\<rparr>)
             (insert_rows (ff_change ff) 0 change_row_of changes (tb_changes tx)))"

text \<open>The drain under the mutex.\<close>

definition flush_drain :: "batched_sink \<Rightarrow> (sample list \<times> route_change list) \<times> batched_sink" where
  "flush_drain k = ((bs_samples k, bs_changes k), k\<lparr>bs_samples := [], bs_changes := []\<rparr>)"

text \<open>The rest of \<open>flush\<close>, on the drained events and the sink as it is by then: the engine keeps
  writing while the transaction runs.\<close>

definition flush_write ::
  "flush_faults \<Rightarrow> sample list \<Rightarrow> route_change list \<Rightarrow> batched_sink \<Rightarrow> sample_tables
   \<Rightarrow> bool \<times> batched_sink \<times> sample_tables" where
  "flush_write ff samples changes k db =
     (if samples = [] \<and> changes = [] then (True, k, db)
      else if ff_begin ff then (False, batched_requeue samples changes k, db)
      else case insert_samples ff samples db of
             None \<Rightarrow> (False, batched_requeue samples changes k, db)
           | Some tx \<Rightarrow>
               case insert_route_changes ff changes tx of
                 None \<Rightarrow> (False, batched_requeue samples changes k, db)
               | Some tx' \<Rightarrow>
                   if ff_commit ff then (False, batched_requeue samples changes k, db)
                   else (True, k, tx'))"

definition flush :: "flush_faults \<Rightarrow> batched_sink \<Rightarrow> sample_tables \<Rightarrow> bool \<times> batched_sink \<times> sample_tables" where
  "flush ff k db =
     (case flush_drain k of ((samples, changes), k') \<Rightarrow> flush_write ff samples changes k' db)"

section \<open>The sink as a bounded history and as the engine's sink\<close>

definition batched_ok :: "batched_sink \<Rightarrow> bool" where
  "batched_ok k \<longleftrightarrow> 0 < bs_bufferCap k \<and> length (bs_samples k) \<le> bs_bufferCap k"

lemma write_sample_simps [simp]:
  "bs_changes (snd (batched_write_sample x k)) = bs_changes k"
  "bs_bufferCap (snd (batched_write_sample x k)) = bs_bufferCap k"
  "fst (batched_write_sample x k) = None"
  by (auto simp: batched_write_sample_def Let_def)

lemma write_sample_queue:
  "bs_samples (snd (batched_write_sample x k)) =
     (if length (bs_samples k) \<ge> bs_bufferCap k then tl (bs_samples k) else bs_samples k) @ [x]"
  by (auto simp: batched_write_sample_def Let_def)

lemma write_sample_dropped:
  "bs_dropped (snd (batched_write_sample x k)) =
     bs_dropped k + (if length (bs_samples k) \<ge> bs_bufferCap k then 1 else 0)"
  by (auto simp: batched_write_sample_def Let_def)

lemma write_change_simps [simp]:
  "batched_write_change c k = (None, k\<lparr>bs_changes := bs_changes k @ [c]\<rparr>)"
  by (simp add: batched_write_change_def)

lemma rev_tl: "rev (tl xs) = butlast (rev xs)"
  by (simp add: butlast_rev)

interpretation bq: plain_history batched_ok bs_bufferCap "\<lambda>k. rev (bs_samples k)"
    "\<lambda>x k. snd (batched_write_sample x k)" "\<lambda>_ x. x"
proof unfold_locales
  fix k x
  assume ok: "batched_ok k"
  show "batched_ok (snd (batched_write_sample x k))"
    using ok by (auto simp: batched_ok_def write_sample_queue)
  show "rev (bs_samples (snd (batched_write_sample x k))) = take (bs_bufferCap k) (x # rev (bs_samples k))"
    using ok by (auto simp: batched_ok_def write_sample_queue rev_tl butlast_conv_take take_Cons')
qed (auto simp: batched_ok_def)

interpretation bsink: probe_sink batched_write_sample batched_write_change bs_samples bs_changes
    "\<lambda>n k. length (bs_samples k) + n \<le> bs_bufferCap k"
  by unfold_locales (auto simp: write_sample_queue)

section \<open>The flusher loop\<close>

text \<open>
  The engine's writes interleaved with \<open>Run\<close>: the flusher drains the queue, then writes what it
  drained while further events arrive, and logs the drop counter in between. \<open>ss_flight\<close> is the
  flusher's local copy of a drained batch, \<open>ss_logged\<close> what the log lines have reported.
\<close>

record sink_sys =
  ss_sink :: batched_sink
  ss_flight :: "(sample list \<times> route_change list) option"
  ss_db :: sample_tables
  ss_logged :: nat

datatype sink_event =
    SkSample sample
  | SkChange route_change
  | SkDrain
  | SkWrite flush_faults
  | SkLog

definition sink_step :: "sink_event \<Rightarrow> sink_sys \<Rightarrow> sink_sys" where
  "sink_step ev y =
     (case ev of
        SkSample x \<Rightarrow> y\<lparr>ss_sink := snd (batched_write_sample x (ss_sink y))\<rparr>
      | SkChange c \<Rightarrow> y\<lparr>ss_sink := snd (batched_write_change c (ss_sink y))\<rparr>
      | SkDrain \<Rightarrow>
          (case ss_flight y of
             Some _ \<Rightarrow> y
           | None \<Rightarrow> (case flush_drain (ss_sink y) of
                        (batch, k) \<Rightarrow> y\<lparr>ss_sink := k\<lparr>bs_signal := False\<rparr>, ss_flight := Some batch\<rparr>))
      | SkWrite ff \<Rightarrow>
          (case ss_flight y of
             None \<Rightarrow> y
           | Some (samples, changes) \<Rightarrow>
               (case flush_write ff samples changes (ss_sink y) (ss_db y) of
                  (_, k, db) \<Rightarrow> y\<lparr>ss_sink := k, ss_flight := None, ss_db := db\<rparr>))
      | SkLog \<Rightarrow>
          (case ss_flight y of
             Some _ \<Rightarrow> y
           | None \<Rightarrow> (case log_dropped (ss_sink y) of
                        (n, k) \<Rightarrow> y\<lparr>ss_sink := k, ss_logged := ss_logged y + n\<rparr>)))"

definition new_sink_sys :: "sample_tables \<Rightarrow> sink_sys" where
  "new_sink_sys db = \<lparr>ss_sink = new_batched_sink, ss_flight = None, ss_db = db, ss_logged = 0\<rparr>"

definition samples_in :: "sink_event list \<Rightarrow> sample list" where
  "samples_in evs = List.map_filter (\<lambda>ev. case ev of SkSample x \<Rightarrow> Some x | _ \<Rightarrow> None) evs"

definition changes_in :: "sink_event list \<Rightarrow> route_change list" where
  "changes_in evs = List.map_filter (\<lambda>ev. case ev of SkChange c \<Rightarrow> Some c | _ \<Rightarrow> None) evs"

definition flight_samples :: "sink_sys \<Rightarrow> sample list" where
  "flight_samples y = (case ss_flight y of None \<Rightarrow> [] | Some (s, _) \<Rightarrow> s)"

definition flight_changes :: "sink_sys \<Rightarrow> route_change list" where
  "flight_changes y = (case ss_flight y of None \<Rightarrow> [] | Some (_, c) \<Rightarrow> c)"

lemma insert_rows_Some: "insert_rows fails i row xs tab = Some tab' \<Longrightarrow> tab' = tab @ map row xs"
  by (induction fails i row xs tab rule: insert_rows.induct) (auto split: if_splits)

lemma insert_samples_Some:
  "insert_samples ff xs tx = Some tx' \<Longrightarrow> tx' = tx\<lparr>tb_samples := tb_samples tx @ map sample_row_of xs\<rparr>"
  by (auto simp: insert_samples_def dest!: insert_rows_Some split: if_splits)

lemma insert_changes_Some:
  "insert_route_changes ff xs tx = Some tx' \<Longrightarrow>
     tx' = tx\<lparr>tb_changes := tb_changes tx @ map change_row_of xs\<rparr>"
  by (auto simp: insert_route_changes_def dest!: insert_rows_Some split: if_splits)

text \<open>A flush either commits the whole batch or changes no table and puts the batch back.\<close>

lemma flush_write_cases:
  assumes "flush_write ff samples changes k db = (ok, k', db')"
  shows "(ok \<and> k' = k \<and> tb_samples db' = tb_samples db @ map sample_row_of samples
           \<and> tb_changes db' = tb_changes db @ map change_row_of changes)
       \<or> (\<not> ok \<and> k' = batched_requeue samples changes k \<and> db' = db)"
  using assms by (auto simp: flush_write_def dest!: insert_samples_Some insert_changes_Some
      split: if_splits option.splits)

lemma requeue_simps [simp]:
  "bs_changes (batched_requeue samples changes k) = changes @ bs_changes k"
  "bs_bufferCap (batched_requeue samples changes k) = bs_bufferCap k"
  by (auto simp: batched_requeue_def Let_def)

lemma requeue_samples:
  assumes "batched_ok k"
  shows "bs_samples (batched_requeue samples changes k)
           = drop (length samples + length (bs_samples k) - bs_bufferCap k) (samples @ bs_samples k)"
    and "bs_dropped (batched_requeue samples changes k)
           = bs_dropped k + (length samples + length (bs_samples k) - bs_bufferCap k)"
    and "batched_ok (batched_requeue samples changes k)"
  using assms by (auto simp: batched_requeue_def batched_ok_def Let_def)

lemma subseq_drop_middle: "subseq (a @ b) w \<Longrightarrow> subseq (a @ drop n b) w"
  by (meson list_emb_append_mono subseq_order.order_refl subseq_order.order_trans suffix_drop
      suffix_imp_subseq)

lemma subseq_push: "subseq (a @ b) w \<Longrightarrow> subseq (a @ drop n b @ [x]) (w @ [x])"
  using subseq_drop_middle [of a b w n] list_emb_append_mono [of "(=)" "a @ drop n b" w "[x]" "[x]"]
  by simp

definition sink_ok :: "sample_tables \<Rightarrow> sink_event list \<Rightarrow> sink_sys \<Rightarrow> bool" where
  "sink_ok db evs y \<longleftrightarrow>
     batched_ok (ss_sink y) \<and> bs_bufferCap (ss_sink y) = 10000 \<and> length (flight_samples y) \<le> 10000 \<and>
     subseq (tb_samples (ss_db y) @ map sample_row_of (flight_samples y @ bs_samples (ss_sink y)))
       (tb_samples db @ map sample_row_of (samples_in evs)) \<and>
     length (tb_samples db) + length (samples_in evs) = length (tb_samples (ss_db y))
       + length (flight_samples y) + length (bs_samples (ss_sink y)) + bs_dropped (ss_sink y)
       + ss_logged y \<and>
     tb_changes (ss_db y) @ map change_row_of (flight_changes y @ bs_changes (ss_sink y))
       = tb_changes db @ map change_row_of (changes_in evs)"

definition fault_free :: flush_faults where
  "fault_free = \<lparr>ff_begin = False, ff_prepare_samples = False, ff_sample = (\<lambda>_. False),
     ff_prepare_changes = False, ff_change = (\<lambda>_. False), ff_commit = False\<rparr>"

lemma insert_rows_ok: "insert_rows (\<lambda>_. False) i row xs tab = Some (tab @ map row xs)"
  by (induction xs arbitrary: i tab) auto

lemma fault_free_flush: "fst (flush fault_free k db)"
  by (simp add: flush_def flush_drain_def flush_write_def fault_free_def insert_samples_def
      insert_route_changes_def insert_rows_ok)

lemma in_snoc [simp]:
  "samples_in (evs @ [ev]) = samples_in evs @ (case ev of SkSample x \<Rightarrow> [x] | _ \<Rightarrow> [])"
  "changes_in (evs @ [ev]) = changes_in evs @ (case ev of SkChange x \<Rightarrow> [x] | _ \<Rightarrow> [])"
  by (induction evs) (auto simp: samples_in_def changes_in_def map_filter_simps
      split: sink_event.splits option.splits)

lemma sink_ok_sample:
  assumes ok: "sink_ok db evs y"
  shows "sink_ok db (evs @ [SkSample x]) (sink_step (SkSample x) y)"
proof -
  let ?k = "ss_sink y"
  define n where "n = (if length (bs_samples ?k) \<ge> bs_bufferCap ?k then 1 else 0 :: nat)"
  have q: "bs_samples (snd (batched_write_sample x ?k)) = drop n (bs_samples ?k) @ [x]"
    by (simp add: write_sample_queue drop_Suc n_def)
  have "subseq (tb_samples (ss_db y) @ map sample_row_of (flight_samples y @ drop n (bs_samples ?k) @ [x]))
      (tb_samples db @ map sample_row_of (samples_in evs @ [x]))"
    using ok subseq_push [of "tb_samples (ss_db y) @ map sample_row_of (flight_samples y)"
        "map sample_row_of (bs_samples ?k)" "tb_samples db @ map sample_row_of (samples_in evs)"
        n "sample_row_of x"]
    by (simp add: sink_ok_def drop_map)
  moreover have "batched_ok (snd (batched_write_sample x ?k))"
    using ok bq.inv_push by (simp add: sink_ok_def)
  ultimately show ?thesis
    using ok unfolding sink_ok_def
    by (auto simp: sink_step_def q write_sample_dropped flight_samples_def flight_changes_def
        batched_ok_def n_def)
qed

lemma sink_ok_change:
  "sink_ok db evs y \<Longrightarrow> sink_ok db (evs @ [SkChange c]) (sink_step (SkChange c) y)"
  by (simp add: sink_ok_def sink_step_def flight_samples_def flight_changes_def batched_ok_def)

lemma sink_ok_drain:
  "sink_ok db evs y \<Longrightarrow> sink_ok db (evs @ [SkDrain]) (sink_step SkDrain y)"
  by (cases "ss_flight y")
    (auto simp: sink_ok_def sink_step_def flush_drain_def flight_samples_def flight_changes_def
      batched_ok_def)

lemma sink_ok_write:
  assumes ok: "sink_ok db evs y"
  shows "sink_ok db (evs @ [SkWrite ff]) (sink_step (SkWrite ff) y)"
proof (cases "ss_flight y")
  case None
  with ok show ?thesis by (simp add: sink_ok_def sink_step_def flight_samples_def flight_changes_def)
next
  case (Some batch)
  obtain s c where batch: "batch = (s, c)" by (cases batch)
  obtain r k' db' where w: "flush_write ff s c (ss_sink y) (ss_db y) = (r, k', db')"
    by (cases "flush_write ff s c (ss_sink y) (ss_db y)") auto
  have st: "sink_step (SkWrite ff) y = y\<lparr>ss_sink := k', ss_flight := None, ss_db := db'\<rparr>"
    by (simp add: sink_step_def Some batch w)
  have bk: "batched_ok (ss_sink y)" using ok by (simp add: sink_ok_def)
  show ?thesis
  proof (cases r)
    case True
    with flush_write_cases [OF w] ok Some batch show ?thesis
      by (auto simp: st sink_ok_def flight_samples_def flight_changes_def)
  next
    case False
    let ?n = "length s + length (bs_samples (ss_sink y)) - bs_bufferCap (ss_sink y)"
    have "subseq (tb_samples (ss_db y) @ drop ?n (map sample_row_of (s @ bs_samples (ss_sink y))))
        (tb_samples db @ map sample_row_of (samples_in evs))"
      using ok by (intro subseq_drop_middle) (simp add: sink_ok_def flight_samples_def Some batch)
    then show ?thesis
      using False flush_write_cases [OF w] ok Some batch requeue_samples [OF bk, of s c]
      by (auto simp: st sink_ok_def flight_samples_def flight_changes_def drop_map)
  qed
qed

lemma sink_ok_log:
  "sink_ok db evs y \<Longrightarrow> sink_ok db (evs @ [SkLog]) (sink_step SkLog y)"
  by (cases "ss_flight y")
    (auto simp: sink_ok_def sink_step_def log_dropped_def flight_samples_def flight_changes_def
      batched_ok_def)

lemma sink_ok_step [inv_facts]: "sink_ok db evs y \<Longrightarrow> sink_ok db (evs @ [ev]) (sink_step ev y)"
  by (cases ev) (auto intro: sink_ok_sample sink_ok_change sink_ok_drain sink_ok_write sink_ok_log)

lemma sink_ok_run: "sink_ok db evs (fold sink_step evs (new_sink_sys db))"
proof (induction evs rule: rev_induct)
  case Nil
  then show ?case
    by (simp add: sink_ok_def new_sink_sys_def new_batched_sink_def batched_ok_def flight_samples_def
        flight_changes_def samples_in_def changes_in_def map_filter_simps)
next
  case (snoc ev evs)
  then show ?case by (simp add: inv_facts)
qed

text \<open>
  C7: whatever transactions fail and however writes interleave with a running flush, the rows in
  the samples table followed by the batch in flight and the queue are a subsequence, in the
  order written, of the samples the engine wrote; the samples missing from it are exactly those
  the drop counter and the log lines account for; no route change is ever lost, duplicated or
  reordered; and queue and batch hold at most 10000 samples each.
\<close>

theorem sink_loses_only_counted_samples:
  "let y = fold sink_step evs (new_sink_sys db); k = ss_sink y
   in subseq (tb_samples (ss_db y) @ map sample_row_of (flight_samples y @ bs_samples k))
        (tb_samples db @ map sample_row_of (samples_in evs))
    \<and> length (tb_samples db) + length (samples_in evs)
        = length (tb_samples (ss_db y)) + length (flight_samples y) + length (bs_samples k)
          + bs_dropped k + ss_logged y
    \<and> tb_changes (ss_db y) @ map change_row_of (flight_changes y @ bs_changes k)
        = tb_changes db @ map change_row_of (changes_in evs)
    \<and> length (flight_samples y) \<le> 10000 \<and> length (bs_samples k) \<le> 10000"
  using sink_ok_run [of db evs] by (simp add: sink_ok_def batched_ok_def Let_def)

text \<open>
  a flush that reports success has appended exactly the queued events to the tables, in
  order, and emptied the queue; a flush that reports an error has changed neither the tables nor
  the queue, at whichever statement of the transaction it failed.
\<close>

theorem flush_is_atomic:
  assumes "batched_ok k" and "flush ff k db = (ok, k', db')"
  shows "if ok then tb_samples db' = tb_samples db @ map sample_row_of (bs_samples k)
              \<and> tb_changes db' = tb_changes db @ map change_row_of (bs_changes k)
              \<and> bs_samples k' = [] \<and> bs_changes k' = []
         else db' = db \<and> bs_samples k' = bs_samples k \<and> bs_changes k' = bs_changes k
              \<and> bs_dropped k' = bs_dropped k"
proof -
  let ?k = "k\<lparr>bs_samples := [], bs_changes := []\<rparr>"
  have w: "flush_write ff (bs_samples k) (bs_changes k) ?k db = (ok, k', db')"
    using assms(2) by (simp add: flush_def flush_drain_def)
  have k: "batched_ok ?k" "length (bs_samples k) \<le> bs_bufferCap k"
    using assms(1) by (auto simp: batched_ok_def)
  show ?thesis
    using flush_write_cases [OF w] requeue_samples [OF k(1), of "bs_samples k" "bs_changes k"] k(2)
    by auto
qed

theorem flush_is_atomic_witness:
  "let k = new_batched_sink\<lparr>bs_samples := [\<lparr>s_Target = V4 9, s_TargetID = ''t'', s_TTL = 3, s_Ts = 0,
             s_IP = NoAddr, s_RTT = 0\<rparr>]\<rparr>; db = \<lparr>tb_samples = [], tb_changes = []\<rparr>
   in \<not> fst (flush (fault_free\<lparr>ff_commit := True\<rparr>) k db)
      \<and> snd (snd (flush (fault_free\<lparr>ff_commit := True\<rparr>) k db)) = db"
proof -
  let ?k = "new_batched_sink\<lparr>bs_samples := [\<lparr>s_Target = V4 9, s_TargetID = ''t'', s_TTL = 3,
     s_Ts = 0, s_IP = NoAddr, s_RTT = 0\<rparr>]\<rparr>"
  let ?db = "\<lparr>tb_samples = [], tb_changes = []\<rparr>"
  obtain ok k' db' where f: "flush (fault_free\<lparr>ff_commit := True\<rparr>) ?k ?db = (ok, k', db')"
    by (metis prod_cases3)
  then have "\<not> ok"
    by (auto simp: flush_def flush_drain_def flush_write_def fault_free_def split: option.splits)
  then show ?thesis
    using flush_is_atomic [OF _ f] f by (simp add: batched_ok_def new_batched_sink_def)
qed

text \<open>
  C16: what the probes of one path find out is what the central stores. As long as the engine gets
  no further ahead of the flusher than the queue's capacity, running the reducer on any sequence
  of probes, sweeps and queries and then flushing leaves in the tables exactly one row per result
  with a valid TTL, in the order the reducer took them, and exactly the route changes of the path;
  a flush in which no statement fails reports success.
\<close>

theorem local_pipeline_stores_every_result:
  assumes room: "length (bs_samples k) + length (results_of evs) \<le> bs_bufferCap k"
  shows "\<exists>s' k' replies smps rcs.
      reducer rnd (apply_probe batched_write_sample batched_write_change th) evs (s, k)
        = Some ((s', k'), replies)
    \<and> path_trace th (results_of evs) s = Some (s', smps, rcs)
    \<and> length smps = length (results_of evs)
    \<and> fst (flush fault_free k' db)
    \<and> (\<forall>ff k'' db'. flush ff k' db = (True, k'', db') \<longrightarrow>
         tb_samples db' = tb_samples db @ map sample_row_of (bs_samples k @ smps)
         \<and> tb_changes db' = tb_changes db @ map change_row_of (bs_changes k @ rcs))"
proof -
  obtain s' k' replies smps rcs where
    r: "reducer rnd (apply_probe batched_write_sample batched_write_change th) evs (s, k)
        = Some ((s', k'), replies)"
    and t: "path_trace th (results_of evs) s = Some (s', smps, rcs)"
    and q: "bs_samples k' = bs_samples k @ smps" "bs_changes k' = bs_changes k @ rcs"
    using bsink.reducer_writes [OF room, of rnd th s] by blast
  have "tb_samples db' = tb_samples db @ map sample_row_of (bs_samples k @ smps)
      \<and> tb_changes db' = tb_changes db @ map change_row_of (bs_changes k @ rcs)"
    if "flush ff k' db = (True, k'', db')" for ff k'' db'
  proof -
    from that have "flush_write ff (bs_samples k') (bs_changes k')
        (k'\<lparr>bs_samples := [], bs_changes := []\<rparr>) db = (True, k'', db')"
      by (simp add: flush_def flush_drain_def)
    from flush_write_cases [OF this] q show ?thesis by simp
  qed
  then show ?thesis using r t path_trace_length [OF t] fault_free_flush by blast
qed

theorem local_pipeline_stores_every_result_witness:
  "\<exists>s' k' replies smps rcs.
      reducer id (apply_probe batched_write_sample batched_write_change 1)
        [EvProbe (router_reply 2 7), EvQuery, EvProbe (router_reply 65 7)] (demo_path, new_batched_sink)
        = Some ((s', k'), replies)
    \<and> length smps = 1 \<and> path_trace 1 [router_reply 2 7] demo_path = Some (s', smps, rcs)"
proof -
  let ?evs = "[EvProbe (router_reply 2 7), EvQuery, EvProbe (router_reply 65 7)]"
  have res: "results_of ?evs = [router_reply 2 7]"
    by (simp add: results_of_def ttl_valid_def router_reply_def zero_probe_result_def max_ttl_def)
  then have room: "length (bs_samples new_batched_sink) + length (results_of ?evs)
      \<le> bs_bufferCap new_batched_sink" by (simp add: new_batched_sink_def)
  show ?thesis
    using local_pipeline_stores_every_result [OF room, of id 1 demo_path \<open>\<lparr>tb_samples = [], tb_changes = []\<rparr>\<close>]
    unfolding res length_Cons list.size(3) by (simp only: One_nat_def) blast
qed

end
