(* ===== verification/AgentSink.thy ===== *)
theory AgentSink
  imports Spill Batched
begin

text \<open>
  \<open>internal/agent/client.go\<close> and \<open>sink.go\<close>: how a remote probe hands its samples to the central.
  A flush turns the queue into one batch, posts it and spills it to the buffer when the central
  cannot take it now; a second goroutine drains the buffer with exponential backoff. What the
  network, the clock, the random generator and the buffer's statements do is an argument.
\<close>

section \<open>Outcomes of a POST\<close>

datatype outcome = OutcomeOK | OutcomeRetry | OutcomeDrop | OutcomeUnauthorized

text \<open>What \<open>http.Client.Do\<close> gives: an error, or a response with its status code.\<close>

datatype http_result = BadRequestURL | TransportError | Status nat

definition classify_response :: "http_result \<Rightarrow> outcome" where
  "classify_response res =
     (case res of
        BadRequestURL \<Rightarrow> OutcomeRetry
      | TransportError \<Rightarrow> OutcomeRetry
      | Status c \<Rightarrow>
          if c \<ge> 200 \<and> c < 300 then OutcomeOK
          else if c = 401 then OutcomeUnauthorized
          else if c \<ge> 400 \<and> c < 500 then OutcomeDrop
          else OutcomeRetry)"

section \<open>The wire format\<close>

record wire_sample =
  ws_target :: string
  ws_ttl :: int
  ws_ts :: int
  ws_ip :: "string option"
  ws_rtt_ms :: rat

record wire_change =
  wc_target :: string
  wc_ttl :: int
  wc_ts :: int
  wc_old_ip :: "string option"
  wc_new_ip :: string

record batch_payload =
  bp_probe_id :: string
  bp_batch_id :: string
  bp_samples :: "wire_sample list"
  bp_changes :: "wire_change list"

definition target_id :: "string \<Rightarrow> addr \<Rightarrow> string" where
  "target_id typed resolved = (if typed \<noteq> [] then typed else addr_string resolved)"

text \<open>\<open>float64(us) / 1000.0\<close>; \<open>rnd\<close> rounds to the nearest double.\<close>

definition wire_sample_of :: "(rat \<Rightarrow> rat) \<Rightarrow> sample \<Rightarrow> wire_sample" where
  "wire_sample_of rnd s =
     \<lparr>ws_target = target_id (s_TargetID s) (s_Target s), ws_ttl = int (s_TTL s),
      ws_ts = unix_milli (s_Ts s), ws_ip = null_string (s_IP s),
      ws_rtt_ms = rnd (rnd (of_int (go_quot (s_RTT s) 1000)) / 1000)\<rparr>"

definition wire_change_of :: "route_change \<Rightarrow> wire_change" where
  "wire_change_of c =
     \<lparr>wc_target = target_id (rc_TargetID c) (rc_Target c), wc_ttl = int (rc_TTL c),
      wc_ts = unix_milli (rc_Ts c), wc_old_ip = null_string (rc_OldIP c),
      wc_new_ip = addr_string (rc_NewIP c)\<rparr>"

definition build_payload ::
  "(rat \<Rightarrow> rat) \<Rightarrow> string \<Rightarrow> string \<Rightarrow> sample list \<Rightarrow> route_change list \<Rightarrow> batch_payload" where
  "build_payload rnd probeID batchID samples changes =
     \<lparr>bp_probe_id = probeID, bp_batch_id = batchID, bp_samples = map (wire_sample_of rnd) samples,
      bp_changes = map wire_change_of changes\<rparr>"

section \<open>The sink\<close>

record sink_config =
  sc_ProbeID :: string
  sc_IngestInterval :: duration
  sc_FlushSize :: int

record http_sink =
  hk_cfg :: sink_config
  hk_samples :: "sample list"
  hk_changes :: "route_change list"
  hk_signal :: bool
  hk_fatal :: "http_result option"

definition new_http_sink :: "bool \<Rightarrow> bool \<Rightarrow> sink_config \<Rightarrow> string + http_sink" where
  "new_http_sink have_client have_buffer cfg =
     (if \<not> have_client \<or> \<not> have_buffer then Inl ''sink needs a client and a buffer''
      else if sc_ProbeID cfg = [] then Inl ''sink needs a probe id''
      else
        let cfg = (if sc_IngestInterval cfg \<le> 0 then cfg\<lparr>sc_IngestInterval := 5 * go_second\<rparr> else cfg);
            cfg = (if sc_FlushSize cfg \<le> 0 then cfg\<lparr>sc_FlushSize := 2000\<rparr> else cfg)
        in Inr \<lparr>hk_cfg = cfg, hk_samples = [], hk_changes = [], hk_signal = False, hk_fatal = None\<rparr>)"

definition http_write_sample :: "sample \<Rightarrow> http_sink \<Rightarrow> string option \<times> http_sink" where
  "http_write_sample x k =
     (let k = k\<lparr>hk_samples := hk_samples k @ [x]\<rparr>;
          needFlush = int (length (hk_samples k)) \<ge> sc_FlushSize (hk_cfg k)
      in (None, if needFlush then k\<lparr>hk_signal := True\<rparr> else k))"

definition http_write_change :: "route_change \<Rightarrow> http_sink \<Rightarrow> string option \<times> http_sink" where
  "http_write_change c k = (None, k\<lparr>hk_changes := hk_changes k @ [c]\<rparr>)"

interpretation hsink: probe_sink http_write_sample http_write_change hk_samples hk_changes "\<lambda>_ _. True"
  by unfold_locales (auto simp: http_write_sample_def http_write_change_def Let_def)

text \<open>\<open>deliverFatal\<close>: the first error only (\<open>sync.Once\<close>).\<close>

definition deliver_fatal :: "http_result \<Rightarrow> http_sink \<Rightarrow> http_sink" where
  "deliver_fatal e k = (case hk_fatal k of None \<Rightarrow> k\<lparr>hk_fatal := Some e\<rparr> | Some _ \<Rightarrow> k)"

text \<open>
  The world of one flush: the batch id or the entropy failure, whether \<open>json.Marshal\<close> fails, the
  response, whether the context is cancelled while the POST is under way, the buffer's failures
  and the clock. A cancelled context aborts the POST and every later statement that takes it.
\<close>

record flush_env =
  fe_id :: "string option"
  fe_marshal_fails :: bool
  fe_response :: http_result
  fe_cancelled :: bool
  fe_add :: add_faults
  fe_now :: instant

datatype flush_report =
    NothingToFlush
  | IdFailed
  | MarshalFailed
  | DeliveredLive string
  | SpilledBatch string nat
  | BatchLost string
  | BatchRejected string
  | FatalUnauthorized string

definition post_json :: "bool \<Rightarrow> http_result \<Rightarrow> outcome" where
  "post_json cancelled res = classify_response (if cancelled then TransportError else res)"

definition flush_once ::
  "(rat \<Rightarrow> rat) \<Rightarrow> (batch_payload \<Rightarrow> nat) \<Rightarrow> int \<Rightarrow> flush_env \<Rightarrow> http_sink
   \<Rightarrow> batch_payload pending_batch list
   \<Rightarrow> flush_report \<times> http_sink \<times> batch_payload pending_batch list" where
  "flush_once rnd len maxBytes env k buf =
     (let samples = hk_samples k; changes = hk_changes k;
          k = k\<lparr>hk_samples := [], hk_changes := []\<rparr>
      in if samples = [] \<and> changes = [] then (NothingToFlush, k, buf)
         else case fe_id env of
           None \<Rightarrow> (IdFailed, k, buf)
         | Some batchID \<Rightarrow>
             if fe_marshal_fails env then (MarshalFailed, k, buf)
             else
               let payload = build_payload rnd (sc_ProbeID (hk_cfg k)) batchID samples changes
               in case post_json (fe_cancelled env) (fe_response env) of
                    OutcomeOK \<Rightarrow> (DeliveredLive batchID, k, buf)
                  | OutcomeRetry \<Rightarrow>
                      (case buffer_add len maxBytes
                              (if fe_cancelled env then (fe_add env)\<lparr>af_begin := True\<rparr> else fe_add env)
                              \<lparr>pb_batch_id = batchID, pb_created_at = unix_milli (fe_now env),
                               pb_payload = payload\<rparr> buf of
                         ((_, Some _), buf') \<Rightarrow> (BatchLost batchID, k, buf')
                       | ((evicted, None), buf') \<Rightarrow> (SpilledBatch batchID evicted, k, buf'))
                  | OutcomeDrop \<Rightarrow> (BatchRejected batchID, k, buf)
                  | OutcomeUnauthorized \<Rightarrow>
                      (FatalUnauthorized batchID, deliver_fatal (fe_response env) k, buf))"

section \<open>Draining the buffer\<close>

record drain_reply =
  dr_read_fails :: bool
  dr_response :: http_result
  dr_delete_fails :: bool

text \<open>The loop, with the iterations left and the number of the current one; the trace lists the
  batches posted with the outcome of each, the last component is the sink's fatal error.\<close>

fun drain_buffer ::
  "('q \<Rightarrow> (string \<times> 'p) option) \<Rightarrow> (string \<Rightarrow> 'q \<Rightarrow> 'q) \<Rightarrow> (nat \<Rightarrow> drain_reply) \<Rightarrow> nat \<Rightarrow> nat
   \<Rightarrow> http_sink \<Rightarrow> 'q \<Rightarrow> (bool \<times> ((string \<times> 'p) \<times> outcome) list \<times> http_sink \<times> 'q) option" where
  "drain_buffer oldest del world 0 i k q = None"
| "drain_buffer oldest del world (Suc fuel) i k q =
     (let w = world i
      in if dr_read_fails w then Some (False, [], k, q)
         else case oldest q of
           None \<Rightarrow> Some (True, [], k, q)
         | Some (batchID, payload) \<Rightarrow>
             let out = classify_response (dr_response w); posted = ((batchID, payload), out)
             in case out of
                  OutcomeRetry \<Rightarrow> Some (False, [posted], k, q)
                | OutcomeUnauthorized \<Rightarrow> Some (False, [posted], deliver_fatal (dr_response w) k, q)
                | _ \<Rightarrow>
                    if dr_delete_fails w then Some (False, [posted], k, q)
                    else map_option (\<lambda>(healthy, trace, k', q'). (healthy, posted # trace, k', q'))
                           (drain_buffer oldest del world fuel (i + 1) k (del batchID q)))"

definition flush_retry_base :: duration where "flush_retry_base = 5 * go_second"
definition flush_retry_max :: duration where "flush_retry_max = 60 * go_second"

definition next_flush_delay :: "bool \<Rightarrow> duration \<Rightarrow> duration" where
  "next_flush_delay healthy delay =
     (if healthy then flush_retry_base
      else let delay = delay * 2 in if delay > flush_retry_max then flush_retry_max else delay)"

context delivery_queue
begin

text \<open>What a drain starting with iteration \<open>i\<close> has done: \<open>n\<close> batches are gone, and the loop ended
  because nothing was left, because a read failed, or because the batch posted last stays.\<close>

definition drained ::
  "(nat \<Rightarrow> drain_reply) \<Rightarrow> nat \<Rightarrow> 'q \<Rightarrow> bool \<Rightarrow> ((string \<times> 'p) \<times> outcome) list \<Rightarrow> 'q \<Rightarrow> bool" where
  "drained world i q healthy trace q' \<longleftrightarrow> inv q' \<and> (\<exists>n \<le> length (pending q).
     pending q' = drop n (pending q)
     \<and> map fst trace = take (length trace) (pending q)
     \<and> (\<forall>j < n. snd (trace ! j) \<in> {OutcomeOK, OutcomeDrop})
     \<and> (if length trace = n then (if healthy then pending q' = [] else dr_read_fails (world (i + n)))
        else length trace = Suc n \<and> \<not> healthy
          \<and> (snd (trace ! n) \<in> {OutcomeRetry, OutcomeUnauthorized} \<or> dr_delete_fails (world (i + n)))))"

lemma drained_stop:
  "inv q \<Longrightarrow> (if healthy then pending q = [] else dr_read_fails (world i)) \<Longrightarrow>
   drained world i q healthy [] q"
  by (auto simp: drained_def intro!: exI [of _ 0])

lemma drained_fail:
  "inv q \<Longrightarrow> pending q = x # xs \<Longrightarrow>
   out \<in> {OutcomeRetry, OutcomeUnauthorized} \<or> dr_delete_fails (world i) \<Longrightarrow>
   drained world i q False [(x, out)] q"
  by (auto simp: drained_def intro!: exI [of _ 0])

lemma drained_step:
  assumes "pending q = (b, p) # xs" "pending (delete b q) = xs" "out \<in> {OutcomeOK, OutcomeDrop}"
    and "drained world (i + 1) (delete b q) healthy trace q'"
  shows "drained world i q healthy (((b, p), out) # trace) q'"
proof -
  from assms(2,4) obtain n where n: "inv q'" "pending q' = drop n xs" "n \<le> length xs"
      "map fst trace = take (length trace) xs"
      "\<forall>j < n. snd (trace ! j) \<in> {OutcomeOK, OutcomeDrop}"
      "if length trace = n then (if healthy then pending q' = [] else dr_read_fails (world (i + 1 + n)))
        else length trace = Suc n \<and> \<not> healthy
          \<and> (snd (trace ! n) \<in> {OutcomeRetry, OutcomeUnauthorized} \<or> dr_delete_fails (world (i + 1 + n)))"
    unfolding drained_def by auto
  have "\<forall>j < Suc n. snd ((((b, p), out) # trace) ! j) \<in> {OutcomeOK, OutcomeDrop}"
    using n(5) assms(3) by (auto simp: nth_Cons split: nat.splits)
  then show ?thesis
    using n assms(1) unfolding drained_def by (intro conjI exI [of _ "Suc n"]) (auto split: if_splits)
qed

lemma drain_correct:
  assumes "inv q" "length (pending q) < fuel"
  shows "\<exists>healthy trace k' q'. drain_buffer oldest delete world fuel i k q = Some (healthy, trace, k', q')
    \<and> drained world i q healthy trace q'
    \<and> (hk_fatal k' \<noteq> hk_fatal k \<longrightarrow> (\<exists>x. (x, OutcomeUnauthorized) \<in> set trace))"
  using assms
proof (induction fuel arbitrary: i q)
  case 0
  then show ?case by simp
next
  case (Suc fuel)
  show ?case
  proof (cases "dr_read_fails (world i) \<or> pending q = []")
    case True
    then show ?thesis
      using Suc.prems oldest_pending [of q] drained_stop [of q "\<not> dr_read_fails (world i)" world i]
      by (cases "dr_read_fails (world i)") (auto simp: Let_def)
  next
    case False
    then obtain b p xs where q: "pending q = (b, p) # xs" by (cases "pending q") auto
    have del: "pending (delete b q) = xs" using pending_delete_oldest [OF Suc.prems(1) q] .
    have old: "oldest q = Some (b, p)" using Suc.prems(1) q by (simp add: oldest_pending)
    let ?out = "classify_response (dr_response (world i))"
    show ?thesis
    proof (cases "?out \<in> {OutcomeOK, OutcomeDrop} \<and> \<not> dr_delete_fails (world i)")
      case True
      obtain healthy trace k' q' where IH:
          "drain_buffer oldest delete world fuel (i + 1) k (delete b q) = Some (healthy, trace, k', q')"
          "drained world (i + 1) (delete b q) healthy trace q'"
          "hk_fatal k' \<noteq> hk_fatal k \<longrightarrow> (\<exists>x. (x, OutcomeUnauthorized) \<in> set trace)"
        using Suc.IH [of "delete b q" "i + 1"] Suc.prems q del inv_delete by fastforce
      have "drain_buffer oldest delete world (Suc fuel) i k q
          = Some (healthy, ((b, p), ?out) # trace, k', q')"
        using IH(1) False True old by (auto simp: Let_def)
      moreover have "drained world i q healthy (((b, p), ?out) # trace) q'"
        using drained_step [OF q del _ IH(2)] True by blast
      ultimately show ?thesis using IH(3) by auto
    next
      case stop: False
      then have "drained world i q False [((b, p), ?out)] q"
        using Suc.prems(1) q by (intro drained_fail) (cases ?out; auto)+
      then show ?thesis
        using stop False old by (cases ?out) (auto simp: Let_def deliver_fatal_def split: option.splits)
    qed
  qed
qed

end



definition demo_payload :: "string \<Rightarrow> batch_payload" where
  "demo_payload i = \<lparr>bp_probe_id = ''probe-1'', bp_batch_id = i, bp_samples = [], bp_changes = []\<rparr>"

definition demo_reply :: "http_result \<Rightarrow> drain_reply" where
  "demo_reply res = \<lparr>dr_read_fails = False, dr_response = res, dr_delete_fails = False\<rparr>"

definition demo_sink :: http_sink where
  "demo_sink = \<lparr>hk_cfg = \<lparr>sc_ProbeID = ''probe-1'', sc_IngestInterval = 5 * go_second, sc_FlushSize = 2000\<rparr>,
     hk_samples = [\<lparr>s_Target = V4 9, s_TargetID = ''t'', s_TTL = 3, s_Ts = 0, s_IP = V4 7, s_RTT = 2000000\<rparr>],
     hk_changes = [], hk_signal = False, hk_fatal = None\<rparr>"


section \<open>One flush\<close>

text \<open>A flush that forms a batch: which report follows which outcome, and what the buffer holds.\<close>

lemma flush_once_batch:
  assumes keys: "keys_ok buf" and bound: "0 \<le> mx"
    and go: "\<not> (hk_samples k = [] \<and> hk_changes k = [])" "fe_id env = Some i" "\<not> fe_marshal_fails env"
    and fl: "flush_once rnd len mx env k buf = (rep, k', buf')"
  defines "row \<equiv> \<lparr>pb_batch_id = i, pb_created_at = unix_milli (fe_now env),
      pb_payload = build_payload rnd (sc_ProbeID (hk_cfg k)) i (hk_samples k) (hk_changes k)\<rparr>"
  shows "keys_ok buf' \<and> hk_samples k' = [] \<and> hk_changes k' = [] \<and> hk_cfg k' = hk_cfg k
    \<and> (case post_json (fe_cancelled env) (fe_response env) of
         OutcomeOK \<Rightarrow> rep = DeliveredLive i \<and> buf' = buf
       | OutcomeRetry \<Rightarrow> rep = BatchLost i \<and> buf' = buf
           \<or> (\<exists>n. rep = SpilledBatch i n) \<and> set buf' \<subseteq> insert row (set buf)
       | OutcomeDrop \<Rightarrow> rep = BatchRejected i \<and> buf' = buf
       | OutcomeUnauthorized \<Rightarrow> rep = FatalUnauthorized i \<and> buf' = buf)"
proof (cases "post_json (fe_cancelled env) (fe_response env)")
  case OutcomeRetry
  let ?af = "if fe_cancelled env then (fe_add env)\<lparr>af_begin := True\<rparr> else fe_add env"
  obtain n err bs where add: "buffer_add len mx ?af row buf = ((n, err), bs)" by (metis prod.collapse)
  show ?thesis
  proof (cases err)
    case None
    note r = buffer_add_ok [OF keys bound add [unfolded None]]
    have "set (queue_order bs) \<subseteq> set (queue_order (insert_or_replace row buf))"
      unfolding r(2) by (rule set_drop_subset)
    then have "set bs \<subseteq> insert row (set buf)"
      using r(1) keys_ok_insert [OF keys, of row]
      by (auto simp: set_queue_order insert_or_replace_def delete_batch_def)
    with fl go OutcomeRetry add None r(1) show ?thesis
      by (auto simp: flush_once_def Let_def row_def)
  next
    case (Some e)
    with fl go OutcomeRetry add keys buffer_add_err [OF add [unfolded Some]] show ?thesis
      by (auto simp: flush_once_def Let_def row_def)
  qed
qed (use fl go keys in \<open>auto simp: flush_once_def Let_def deliver_fatal_def split: option.splits\<close>)

text \<open>
  a flush empties the queue and every sample in it is accounted for: either the central
  answered 2xx, or the batch of exactly the queued samples and route changes is in the spill
  buffer (which evicted as many of the oldest as reported), or the report says which of the named
  reasons lost it: no entropy for the id, a marshal error, a rejection by the central, a 401
  (recorded as the fatal error), or a buffer write that failed. Nothing but the spill changes the
  buffer.
\<close>

theorem flush_accounts_for_every_sample:
  assumes keys: "keys_ok buf" and bound: "0 \<le> mx"
    and fl: "flush_once rnd len mx env k buf = (rep, k', buf')"
  shows "hk_samples k' = [] \<and> hk_changes k' = [] \<and> keys_ok buf' \<and>
    (let out = post_json (fe_cancelled env) (fe_response env) in case rep of
       NothingToFlush \<Rightarrow> hk_samples k = [] \<and> hk_changes k = [] \<and> buf' = buf
     | IdFailed \<Rightarrow> fe_id env = None \<and> buf' = buf
     | MarshalFailed \<Rightarrow> fe_marshal_fails env \<and> buf' = buf
     | DeliveredLive i \<Rightarrow> fe_id env = Some i \<and> \<not> fe_cancelled env
         \<and> (\<exists>c. fe_response env = Status c \<and> 200 \<le> c \<and> c \<le> 299) \<and> buf' = buf
     | SpilledBatch i n \<Rightarrow> fe_id env = Some i \<and> out = OutcomeRetry
         \<and> int (payload_sum len buf') \<le> mx
         \<and> queue_order buf' = drop n (queue_order (insert_or_replace
             \<lparr>pb_batch_id = i, pb_created_at = unix_milli (fe_now env),
              pb_payload = build_payload rnd (sc_ProbeID (hk_cfg k)) i (hk_samples k) (hk_changes k)\<rparr> buf))
     | BatchLost i \<Rightarrow> fe_id env = Some i \<and> out = OutcomeRetry \<and> buf' = buf
         \<and> (fe_cancelled env \<or> fe_add env \<noteq> no_add_faults
            \<or> mx < int (len (build_payload rnd (sc_ProbeID (hk_cfg k)) i (hk_samples k) (hk_changes k))))
     | BatchRejected i \<Rightarrow> fe_id env = Some i \<and> buf' = buf
         \<and> (\<exists>c. fe_response env = Status c \<and> 400 \<le> c \<and> c \<le> 499 \<and> c \<noteq> 401)
     | FatalUnauthorized i \<Rightarrow> fe_id env = Some i \<and> buf' = buf
         \<and> fe_response env = Status 401 \<and> hk_fatal k' \<noteq> None)"
proof (cases "hk_samples k = [] \<and> hk_changes k = [] \<or> fe_id env = None \<or> fe_marshal_fails env")
  case True
  with fl keys show ?thesis
    by (auto simp: flush_once_def Let_def split: if_splits option.splits)
next
  case False
  then obtain i where i: "fe_id env = Some i" and go: "\<not> (hk_samples k = [] \<and> hk_changes k = [])"
      "\<not> fe_marshal_fails env" by auto
  let ?p = "build_payload rnd (sc_ProbeID (hk_cfg k)) i (hk_samples k) (hk_changes k)"
  let ?row = "\<lparr>pb_batch_id = i, pb_created_at = unix_milli (fe_now env), pb_payload = ?p\<rparr>"
  let ?af = "if fe_cancelled env then (fe_add env)\<lparr>af_begin := True\<rparr> else fe_add env"
  let ?out = "post_json (fe_cancelled env) (fe_response env)"
  note fl' = fl [unfolded flush_once_def Let_def i]
  show ?thesis
  proof (cases "?out = OutcomeRetry")
    case retry: True
    obtain n err bs where add: "buffer_add len mx ?af ?row buf = ((n, err), bs)"
      by (metis prod.collapse)
    show ?thesis
    proof (cases err)
      case None
      with fl' go retry add have r: "rep = SpilledBatch i n" "buf' = bs" "hk_samples k' = []" "hk_changes k' = []"
        by (auto split: if_splits)
      show ?thesis
        using buffer_add_ok [OF keys bound add [unfolded None]] i retry by (simp add: r)
    next
      case (Some e)
      with fl' go retry add have r: "rep = BatchLost i" "buf' = bs" "hk_samples k' = []" "hk_changes k' = []"
        by (auto split: if_splits)
      have "bs = buf" "fe_cancelled env \<or> fe_add env \<noteq> no_add_faults \<or> mx < int (len ?p)"
        using buffer_add_err [OF add [unfolded Some]] by (auto split: if_splits)
      with i retry keys show ?thesis by (simp add: r)
    qed
  next
    case False
    with fl' go i keys show ?thesis
      by (cases "fe_response env"; cases "fe_cancelled env")
        (auto simp: post_json_def classify_response_def deliver_fatal_def split: if_splits option.splits)
  qed
qed

theorem flush_accounts_for_every_sample_witness:
  "case flush_once id (\<lambda>_. 3) 6 \<lparr>fe_id = Some ''c'', fe_marshal_fails = False, fe_response = TransportError,
        fe_cancelled = False, fe_add = no_add_faults, fe_now = 3 * go_ms\<rparr> demo_sink
        [\<lparr>pb_batch_id = ''a'', pb_created_at = 1, pb_payload = demo_payload ''a''\<rparr>] of
     (rep, k', buf') \<Rightarrow> rep = SpilledBatch ''c'' 0 \<and> hk_samples k' = [] \<and> keys_ok buf'
       \<and> payload_sum (\<lambda>_. 3) buf' \<le> 6"
proof -
  let ?env = "\<lparr>fe_id = Some ''c'', fe_marshal_fails = False, fe_response = TransportError,
    fe_cancelled = False, fe_add = no_add_faults, fe_now = 3 * go_ms\<rparr>"
  let ?buf = "[\<lparr>pb_batch_id = ''a'', pb_created_at = 1, pb_payload = demo_payload ''a''\<rparr>]"
  let ?len = "\<lambda>_ :: batch_payload. 3 :: nat"
  obtain rep k' buf' where fl: "flush_once id ?len 6 ?env demo_sink ?buf = (rep, k', buf')"
    by (metis prod_cases3)
  have "fst (flush_once id ?len 6 ?env demo_sink ?buf) = SpilledBatch ''c'' 0"
    by (simp add: flush_once_def demo_sink_def post_json_def classify_response_def buffer_add_def
        no_add_faults_def evict_loop.simps insert_or_replace_def delete_batch_def payload_sum_def older_def Let_def)
  then have rep: "rep = SpilledBatch ''c'' 0" using fl by simp
  have "keys_ok ?buf" by (simp add: keys_ok_def)
  from flush_accounts_for_every_sample [OF this _ fl] rep show ?thesis by (simp add: fl Let_def)
qed

text \<open>When the context is cancelled while a flush is posting, the spill fails with it: the batch is
  in neither place, although the shutdown is clean.\<close>

lemma cancelled_flush_loses_batch:
  assumes "hk_samples k \<noteq> []" "fe_cancelled env" "fe_id env = Some i" "\<not> fe_marshal_fails env"
  shows "flush_once rnd len mx env k buf = (BatchLost i, k\<lparr>hk_samples := [], hk_changes := []\<rparr>, buf)"
  using assms by (simp add: flush_once_def post_json_def classify_response_def buffer_add_def Let_def)

section \<open>Backoff\<close>

text \<open>
  between two drains the flush loop waits between 5 and 60 seconds, whatever the drains
  reported; after a successful drain followed by \<open>n\<close> failed ones it waits \<open>5 * 2 ^ n\<close> seconds,
  or 60 when that is more.
\<close>

theorem flush_backoff_bounded:
  "5 * go_second \<le> fold next_flush_delay hs flush_retry_base
   \<and> fold next_flush_delay hs flush_retry_base \<le> 60 * go_second
   \<and> fold next_flush_delay (hs @ True # replicate n False) flush_retry_base
       = min (5 * 2 ^ n * go_second) (60 * go_second)"
proof -
  have bound: "5 * go_second \<le> fold next_flush_delay hs d \<and> fold next_flush_delay hs d \<le> 60 * go_second"
    if "5 * go_second \<le> d" "d \<le> 60 * go_second" for d
    using that
  proof (induction hs arbitrary: d)
    case (Cons h hs)
    then show ?case
      by (auto simp: next_flush_delay_def flush_retry_base_def flush_retry_max_def Let_def go_units)
  qed simp
  have doubling: "fold next_flush_delay (replicate n False) (min (5 * 2 ^ m * go_second) (60 * go_second))
      = min (5 * 2 ^ (m + n) * go_second) (60 * go_second)" for m
  proof (induction n arbitrary: m)
    case (Suc n)
    have "next_flush_delay False (min (5 * 2 ^ m * go_second) (60 * go_second))
        = min (5 * 2 ^ Suc m * go_second) (60 * go_second)"
      by (auto simp: next_flush_delay_def flush_retry_max_def Let_def min_def go_units)
    then show ?case using Suc.IH [of "Suc m"] by simp
  qed simp
  have "fold next_flush_delay (hs @ True # replicate n False) flush_retry_base
      = fold next_flush_delay (replicate n False) (min (5 * 2 ^ 0 * go_second) (60 * go_second))"
    by (simp add: next_flush_delay_def flush_retry_base_def go_units)
  then show ?thesis
    using bound [of flush_retry_base] doubling [of 0] by (simp add: flush_retry_base_def go_units)
qed

end
