(* ===== verification/Ingest.thy ===== *)
theory Ingest
  imports AgentSink
begin

text \<open>
  \<open>internal/server/ingest.go\<close> with \<open>IngestBatch\<close> of \<open>internal/storage/probes.go\<close>: how the central
  takes a batch from a remote probe. A request is what the handler reads of it: the method, the
  authorization header, the decoded JSON body (or the failure to decode it). JSON decoding and
  constant-time comparison are those of the standard library. The tables are lists of rows; which
  statement of the transaction fails is an argument.
\<close>

section \<open>Identity\<close>

text \<open>The expression \<open>^[a-z0-9][a-z0-9-]{1,31}$\<close>.\<close>

definition lower_alnum :: "char \<Rightarrow> bool" where
  "lower_alnum c \<longleftrightarrow> (CHR ''a'' \<le> c \<and> c \<le> CHR ''z'') \<or> (CHR ''0'' \<le> c \<and> c \<le> CHR ''9'')"

definition probe_id_matches :: "string \<Rightarrow> bool" where
  "probe_id_matches s \<longleftrightarrow>
     (case s of [] \<Rightarrow> False
      | c # cs \<Rightarrow> lower_alnum c \<and> 1 \<le> length cs \<and> length cs \<le> 31
          \<and> list_all (\<lambda>d. lower_alnum d \<or> d = CHR ''-'') cs)"

definition validate_probe_id :: "string \<Rightarrow> bool" where
  "validate_probe_id s \<longleftrightarrow> probe_id_matches s \<and> s \<noteq> ''local'' \<and> s \<noteq> ''all''"

definition cut_prefix :: "string \<Rightarrow> string \<Rightarrow> string option" where
  "cut_prefix pre s = (if take (length pre) s = pre then Some (drop (length pre) s) else None)"

record token_binding =
  tk_Token :: string
  tk_Name :: string

text \<open>The HTTP answers of the handlers, by status code and reason.\<close>

datatype ingest_error =
    MethodNotAllowed405
  | TokenLookup500
  | IngestDisabled401
  | MissingToken401
  | UnknownToken401
  | BadBody400
  | BadProbeID400
  | WrongProbe403
  | BadBatchID400
  | EmptyTarget400 nat
  | BadTTL400 nat
  | NegativeRTT400 nat
  | ClockSkew400 nat
  | StoreFailed500

text \<open>\<open>authAgent\<close>: the token and the probe it is bound to, \<open>''''\<close> for a token of the yaml file.
  \<open>bindings\<close> is \<open>None\<close> when the lookup fails.\<close>

definition auth_agent :: "token_binding list option \<Rightarrow> string list \<Rightarrow> string
    \<Rightarrow> ingest_error + string \<times> string" where
  "auth_agent bindings yaml header =
     (case bindings of
        None \<Rightarrow> Inl TokenLookup500
      | Some bs \<Rightarrow>
          if length bs = 0 \<and> length yaml = 0 then Inl IngestDisabled401
          else case cut_prefix ''Bearer '' header of
            None \<Rightarrow> Inl MissingToken401
          | Some token \<Rightarrow>
              if token = [] then Inl MissingToken401
              else case find (\<lambda>b. tk_Token b = token) bs of
                Some b \<Rightarrow> Inr (token, tk_Name b)
              | None \<Rightarrow> if find (\<lambda>w. w = token) yaml \<noteq> None then Inr (token, [])
                        else Inl UnknownToken401)"

definition require_probe_binding :: "string \<Rightarrow> string \<Rightarrow> bool" where
  "require_probe_binding bound probe \<longleftrightarrow> \<not> (bound \<noteq> [] \<and> bound \<noteq> probe)"

section \<open>Checking a batch\<close>

definition clock_skew_bound :: duration where "clock_skew_bound = 24 * go_hour"

definition check_clock_skew :: "int \<Rightarrow> instant \<Rightarrow> bool" where
  "check_clock_skew tsMs now =
     (let skewMs = wrap64 (tsMs - unix_milli now); boundMs = clock_skew_bound div go_ms
      in \<not> (skewMs > boundMs \<or> skewMs < - boundMs))"

text \<open>\<open>math.Round\<close> and the conversion of a double to \<open>int64\<close>, which Go leaves to the
  implementation outside the range.\<close>

definition go_round :: "rat \<Rightarrow> int" where
  "go_round x = (if x < 0 then - \<lfloor>1/2 - x\<rfloor> else \<lfloor>x + 1/2\<rfloor>)"

definition to_int64 :: "(int \<Rightarrow> int) \<Rightarrow> int \<Rightarrow> int" where
  "to_int64 out_of_range x = (if - (2 ^ 63) \<le> x \<and> x < 2 ^ 63 then x else out_of_range x)"

record ingest_sample =
  ig_Target :: string
  ig_TTL :: int
  ig_Ts :: int
  ig_IP :: "string option"
  ig_RTTUs :: int

record ingest_change =
  ic_Target :: string
  ic_TTL :: int
  ic_Ts :: int
  ic_OldIP :: "string option"
  ic_NewIP :: string

fun convert_samples :: "(rat \<Rightarrow> rat) \<Rightarrow> (int \<Rightarrow> int) \<Rightarrow> instant \<Rightarrow> nat \<Rightarrow> wire_sample list
    \<Rightarrow> ingest_error + ingest_sample list" where
  "convert_samples rnd ovf now i [] = Inr []"
| "convert_samples rnd ovf now i (s # ss) =
     (if ws_target s = [] then Inl (EmptyTarget400 i)
      else if ws_ttl s < 1 \<or> ws_ttl s > 64 then Inl (BadTTL400 i)
      else if ws_rtt_ms s < 0 then Inl (NegativeRTT400 i)
      else if \<not> check_clock_skew (ws_ts s) now then Inl (ClockSkew400 i)
      else map_sum id
             ((#) \<lparr>ig_Target = ws_target s, ig_TTL = ws_ttl s, ig_Ts = ws_ts s, ig_IP = ws_ip s,
                   ig_RTTUs = to_int64 ovf (go_round (rnd (ws_rtt_ms s * 1000)))\<rparr>)
             (convert_samples rnd ovf now (i + 1) ss))"

fun convert_changes :: "instant \<Rightarrow> nat \<Rightarrow> wire_change list \<Rightarrow> ingest_error + ingest_change list" where
  "convert_changes now i [] = Inr []"
| "convert_changes now i (c # cs) =
     (if wc_target c = [] \<or> wc_new_ip c = [] then Inl (EmptyTarget400 i)
      else if wc_ttl c < 1 \<or> wc_ttl c > 64 then Inl (BadTTL400 i)
      else if \<not> check_clock_skew (wc_ts c) now then Inl (ClockSkew400 i)
      else map_sum id
             ((#) \<lparr>ic_Target = wc_target c, ic_TTL = wc_ttl c, ic_Ts = wc_ts c,
                   ic_OldIP = wc_old_ip c, ic_NewIP = wc_new_ip c\<rparr>)
             (convert_changes now (i + 1) cs))"

section \<open>Storing a batch\<close>

record log_row =
  lg_batch_id :: string
  lg_probe_id :: string
  lg_received_at :: int

record ingest_tables =
  it_log :: "log_row list"
  it_samples :: "(string \<times> sample_row) list"
  it_changes :: "(string \<times> change_row) list"

record ingest_faults =
  if_begin :: bool
  if_log :: bool
  if_prepare_samples :: bool
  if_sample :: "nat \<Rightarrow> bool"
  if_prepare_changes :: bool
  if_change :: "nat \<Rightarrow> bool"
  if_commit :: bool

definition remote_sample_row :: "string \<Rightarrow> ingest_sample \<Rightarrow> string \<times> sample_row" where
  "remote_sample_row probe s =
     (probe, \<lparr>sr_target = ig_Target s, sr_ttl = ig_TTL s, sr_ts = ig_Ts s, sr_ip = ig_IP s,
              sr_rtt_us = ig_RTTUs s\<rparr>)"

definition remote_change_row :: "string \<Rightarrow> ingest_change \<Rightarrow> string \<times> change_row" where
  "remote_change_row probe c =
     (probe, \<lparr>cr_target = ic_Target c, cr_ttl = ic_TTL c, cr_ts = ic_Ts c, cr_old = ic_OldIP c,
              cr_new = ic_NewIP c\<rparr>)"

text \<open>\<open>INSERT OR IGNORE\<close> on the primary key \<open>batch_id\<close>, with the number of affected rows.\<close>

definition insert_ingest_log :: "log_row \<Rightarrow> log_row list \<Rightarrow> nat \<times> log_row list" where
  "insert_ingest_log r rows =
     (if lg_batch_id r \<in> lg_batch_id ` set rows then (0, rows) else (1, rows @ [r]))"

text \<open>\<open>Inr True\<close> is a new batch, \<open>Inr False\<close> a duplicate, \<open>Inl\<close> the failed step.\<close>

definition ingest_batch ::
  "ingest_faults \<Rightarrow> string \<Rightarrow> string \<Rightarrow> instant \<Rightarrow> ingest_sample list \<Rightarrow> ingest_change list
   \<Rightarrow> ingest_tables \<Rightarrow> (string + bool) \<times> ingest_tables" where
  "ingest_batch ff probe batch receivedAt samples changes db =
     (if probe = [] then (Inl ''empty probe_id'', db)
      else if batch = [] then (Inl ''empty batch_id'', db)
      else if if_begin ff then (Inl ''begin tx'', db)
      else if if_log ff then (Inl ''record batch'', db)
      else
        let (n, log) = insert_ingest_log
              \<lparr>lg_batch_id = batch, lg_probe_id = probe, lg_received_at = unix_milli receivedAt\<rparr> (it_log db)
        in if n = 0 then (Inr False, db)
           else if samples \<noteq> [] \<and> if_prepare_samples ff then (Inl ''prepare samples'', db)
           else case insert_rows (if_sample ff) 0 (remote_sample_row probe) samples (it_samples db) of
             None \<Rightarrow> (Inl ''insert sample'', db)
           | Some ts \<Rightarrow>
               if changes \<noteq> [] \<and> if_prepare_changes ff then (Inl ''prepare route_changes'', db)
               else case insert_rows (if_change ff) 0 (remote_change_row probe) changes (it_changes db) of
                 None \<Rightarrow> (Inl ''insert route_change'', db)
               | Some tc \<Rightarrow>
                   if if_commit ff then (Inl ''commit'', db)
                   else (Inr True, \<lparr>it_log = log, it_samples = ts, it_changes = tc\<rparr>))"

section \<open>The handler\<close>

record ingest_request =
  rq_is_post :: bool
  rq_authorization :: string
  rq_body :: "batch_payload option"

record ingest_env =
  ie_bindings :: "token_binding list option"
  ie_yaml_tokens :: "string list"
  ie_now :: instant
  ie_faults :: ingest_faults

text \<open>The checks in the order of the handler, up to the call of \<open>IngestBatch\<close>.\<close>

definition check_request ::
  "(rat \<Rightarrow> rat) \<Rightarrow> (int \<Rightarrow> int) \<Rightarrow> ingest_env \<Rightarrow> ingest_request
   \<Rightarrow> ingest_error + batch_payload \<times> ingest_sample list \<times> ingest_change list" where
  "check_request rnd ovf env rq =
     (if \<not> rq_is_post rq then Inl MethodNotAllowed405
      else case auth_agent (ie_bindings env) (ie_yaml_tokens env) (rq_authorization rq) of
        Inl e \<Rightarrow> Inl e
      | Inr (token, bound) \<Rightarrow>
        (case rq_body rq of
           None \<Rightarrow> Inl BadBody400
         | Some req \<Rightarrow>
            if \<not> validate_probe_id (bp_probe_id req) then Inl BadProbeID400
            else if \<not> require_probe_binding bound (bp_probe_id req) then Inl WrongProbe403
            else if bp_batch_id req = [] \<or> length (bp_batch_id req) > 128 then Inl BadBatchID400
            else case convert_samples rnd ovf (ie_now env) 0 (bp_samples req) of
              Inl e \<Rightarrow> Inl e
            | Inr samples \<Rightarrow>
              (case convert_changes (ie_now env) 0 (bp_changes req) of
                 Inl e \<Rightarrow> Inl e
               | Inr changes \<Rightarrow> Inr (req, samples, changes))))"

definition handle_ingest_samples ::
  "(rat \<Rightarrow> rat) \<Rightarrow> (int \<Rightarrow> int) \<Rightarrow> ingest_env \<Rightarrow> ingest_request \<Rightarrow> ingest_tables
   \<Rightarrow> (ingest_error + bool) \<times> ingest_tables" where
  "handle_ingest_samples rnd ovf env rq db =
     (case check_request rnd ovf env rq of
        Inl e \<Rightarrow> (Inl e, db)
      | Inr (req, samples, changes) \<Rightarrow>
          (case ingest_batch (ie_faults env) (bp_probe_id req) (bp_batch_id req) (ie_now env)
                  samples changes db of
             (Inl _, db') \<Rightarrow> (Inl StoreFailed500, db')
           | (Inr fresh, db') \<Rightarrow> (Inr fresh, db')))"

definition status_code :: "ingest_error + bool \<Rightarrow> nat" where
  "status_code r =
     (case r of
        Inr _ \<Rightarrow> 200
      | Inl e \<Rightarrow>
          (case e of MethodNotAllowed405 \<Rightarrow> 405 | TokenLookup500 \<Rightarrow> 500 | IngestDisabled401 \<Rightarrow> 401
           | MissingToken401 \<Rightarrow> 401 | UnknownToken401 \<Rightarrow> 401 | WrongProbe403 \<Rightarrow> 403
           | StoreFailed500 \<Rightarrow> 500 | _ \<Rightarrow> 400))"

section \<open>What the steps do\<close>

definition sample_acceptable :: "instant \<Rightarrow> wire_sample \<Rightarrow> bool" where
  "sample_acceptable now s \<longleftrightarrow> ws_target s \<noteq> [] \<and> 1 \<le> ws_ttl s \<and> ws_ttl s \<le> 64 \<and> 0 \<le> ws_rtt_ms s
     \<and> check_clock_skew (ws_ts s) now"

definition change_acceptable :: "instant \<Rightarrow> wire_change \<Rightarrow> bool" where
  "change_acceptable now c \<longleftrightarrow> wc_target c \<noteq> [] \<and> wc_new_ip c \<noteq> [] \<and> 1 \<le> wc_ttl c \<and> wc_ttl c \<le> 64
     \<and> check_clock_skew (wc_ts c) now"

definition stored_sample :: "(rat \<Rightarrow> rat) \<Rightarrow> (int \<Rightarrow> int) \<Rightarrow> string \<Rightarrow> wire_sample \<Rightarrow> string \<times> sample_row" where
  "stored_sample rnd ovf probe s =
     (probe, \<lparr>sr_target = ws_target s, sr_ttl = ws_ttl s, sr_ts = ws_ts s, sr_ip = ws_ip s,
              sr_rtt_us = to_int64 ovf (go_round (rnd (ws_rtt_ms s * 1000)))\<rparr>)"

definition stored_change :: "string \<Rightarrow> wire_change \<Rightarrow> string \<times> change_row" where
  "stored_change probe c =
     (probe, \<lparr>cr_target = wc_target c, cr_ttl = wc_ttl c, cr_ts = wc_ts c, cr_old = wc_old_ip c,
              cr_new = wc_new_ip c\<rparr>)"

lemma map_sum_Inr: "map_sum id f x = Inr y \<longleftrightarrow> (\<exists>z. x = Inr z \<and> y = f z)"
  by (cases x) auto

lemma convert_samples_Inr:
  "convert_samples rnd ovf now i ss = Inr out \<Longrightarrow>
     (\<forall>s \<in> set ss. sample_acceptable now s)
     \<and> map (remote_sample_row probe) out = map (stored_sample rnd ovf probe) ss"
  by (induction ss arbitrary: i out)
    (auto simp: map_sum_Inr sample_acceptable_def remote_sample_row_def stored_sample_def split: if_splits)

lemma convert_samples_ok:
  "\<forall>s \<in> set ss. sample_acceptable now s \<Longrightarrow> \<exists>out. convert_samples rnd ovf now i ss = Inr out"
  by (induction ss arbitrary: i) (auto simp: map_sum_Inr sample_acceptable_def)

lemma convert_changes_Inr:
  "convert_changes now i cs = Inr out \<Longrightarrow>
     (\<forall>c \<in> set cs. change_acceptable now c)
     \<and> map (remote_change_row probe) out = map (stored_change probe) cs"
  by (induction cs arbitrary: i out)
    (auto simp: map_sum_Inr change_acceptable_def remote_change_row_def stored_change_def split: if_splits)

lemma convert_changes_ok:
  "\<forall>c \<in> set cs. change_acceptable now c \<Longrightarrow> \<exists>out. convert_changes now i cs = Inr out"
  by (induction cs arbitrary: i) (auto simp: map_sum_Inr change_acceptable_def)

definition logged_ids :: "ingest_tables \<Rightarrow> string set" where
  "logged_ids db = lg_batch_id ` set (it_log db)"

text \<open>The tables after storing one batch.\<close>

definition with_batch ::
  "string \<Rightarrow> string \<Rightarrow> instant \<Rightarrow> (string \<times> sample_row) list \<Rightarrow> (string \<times> change_row) list
   \<Rightarrow> ingest_tables \<Rightarrow> ingest_tables" where
  "with_batch probe batch now rows changes db =
     \<lparr>it_log = it_log db @ [\<lparr>lg_batch_id = batch, lg_probe_id = probe, lg_received_at = unix_milli now\<rparr>],
      it_samples = it_samples db @ rows, it_changes = it_changes db @ changes\<rparr>"

lemma ingest_batch_result:
  assumes ib: "ingest_batch ff probe batch now samples changes db = (r, db')"
  shows "case r of Inl e \<Rightarrow> db' = db
    | Inr fresh \<Rightarrow> if fresh then batch \<notin> logged_ids db \<and>
          db' = with_batch probe batch now (map (remote_sample_row probe) samples)
                 (map (remote_change_row probe) changes) db
        else db' = db \<and> batch \<in> logged_ids db"
proof (cases "probe = [] \<or> batch = [] \<or> if_begin ff \<or> if_log ff")
  case True
  then have "\<exists>e. ingest_batch ff probe batch now samples changes db = (Inl e, db)"
    unfolding ingest_batch_def by (elim disjE) simp_all
  with ib show ?thesis by auto
next
  case go: False
  show ?thesis
  proof (cases "batch \<in> logged_ids db")
    case True
    with ib go show ?thesis
      by (auto simp: ingest_batch_def insert_ingest_log_def logged_ids_def)
  next
    case new: False
    note ib' = ib [unfolded ingest_batch_def insert_ingest_log_def]
    show ?thesis
    proof (cases "insert_rows (if_sample ff) 0 (remote_sample_row probe) samples (it_samples db)")
      case None
      with ib' go new show ?thesis by (auto simp: logged_ids_def split: if_splits)
    next
      case ts: (Some ts)
      show ?thesis
      proof (cases "insert_rows (if_change ff) 0 (remote_change_row probe) changes (it_changes db)")
        case None
        with ib' go new ts show ?thesis by (auto simp: logged_ids_def split: if_splits)
      next
        case (Some tc)
        with ib' go new ts insert_rows_Some [OF ts] insert_rows_Some [OF Some] show ?thesis
          by (auto simp: logged_ids_def with_batch_def split: if_splits)
      qed
    qed
  qed
qed

lemma logged_ids_with_batch [simp]:
  "logged_ids (with_batch probe batch now rows changes db) = insert batch (logged_ids db)"
  by (auto simp: logged_ids_def with_batch_def)

definition no_ingest_faults :: ingest_faults where
  "no_ingest_faults = \<lparr>if_begin = False, if_log = False, if_prepare_samples = False,
     if_sample = (\<lambda>_. False), if_prepare_changes = False, if_change = (\<lambda>_. False), if_commit = False\<rparr>"

lemma ingest_batch_ok:
  assumes "probe \<noteq> []" "batch \<noteq> []"
  shows "\<exists>fresh db'. ingest_batch no_ingest_faults probe batch now samples changes db = (Inr fresh, db')"
  using assms by (auto simp: ingest_batch_def no_ingest_faults_def insert_ingest_log_def insert_rows_ok)

text \<open>Everything the handler has checked when it reaches the store.\<close>

definition request_ok :: "ingest_env \<Rightarrow> ingest_request \<Rightarrow> batch_payload \<Rightarrow> bool" where
  "request_ok env rq req \<longleftrightarrow> rq_is_post rq \<and> rq_body rq = Some req
     \<and> (\<exists>token bound. auth_agent (ie_bindings env) (ie_yaml_tokens env) (rq_authorization rq) = Inr (token, bound)
          \<and> require_probe_binding bound (bp_probe_id req))
     \<and> validate_probe_id (bp_probe_id req)
     \<and> bp_batch_id req \<noteq> [] \<and> length (bp_batch_id req) \<le> 128
     \<and> (\<forall>s \<in> set (bp_samples req). sample_acceptable (ie_now env) s)
     \<and> (\<forall>c \<in> set (bp_changes req). change_acceptable (ie_now env) c)"

lemma check_request_Inr:
  assumes "check_request rnd ovf env rq = Inr (req, samples, changes)"
  shows "request_ok env rq req
    \<and> map (remote_sample_row probe) samples = map (stored_sample rnd ovf probe) (bp_samples req)
    \<and> map (remote_change_row probe) changes = map (stored_change probe) (bp_changes req)"
proof -
  note c = assms [unfolded check_request_def]
  from c have post: "rq_is_post rq" by (simp split: if_splits)
  from c post obtain token bound where
    auth: "auth_agent (ie_bindings env) (ie_yaml_tokens env) (rq_authorization rq) = Inr (token, bound)"
    by (auto split: sum.splits)
  from c post auth obtain rq' where body: "rq_body rq = Some rq'" by (auto split: option.splits)
  from c post auth body have ids: "validate_probe_id (bp_probe_id rq')"
      "require_probe_binding bound (bp_probe_id rq')" "bp_batch_id rq' \<noteq> []"
      "length (bp_batch_id rq') \<le> 128"
    by (simp_all split: if_splits)
  from c post auth body ids have s: "convert_samples rnd ovf (ie_now env) 0 (bp_samples rq') = Inr samples"
      "convert_changes (ie_now env) 0 (bp_changes rq') = Inr changes" "rq' = req"
    by (simp_all split: sum.splits)
  show ?thesis
    using post auth body ids s convert_samples_Inr [OF s(1)] convert_changes_Inr [OF s(2)]
    by (auto simp: request_ok_def)
qed

lemma handle_cases:
  assumes "handle_ingest_samples rnd ovf env rq db = (r, db')"
  obtains (error) e where "r = Inl e" "db' = db"
    | (duplicate) req where "request_ok env rq req" "r = Inr False" "db' = db"
        "bp_batch_id req \<in> logged_ids db"
    | (fresh) req where "request_ok env rq req" "r = Inr True" "bp_batch_id req \<notin> logged_ids db"
        "db' = with_batch (bp_probe_id req) (bp_batch_id req) (ie_now env)
           (map (stored_sample rnd ovf (bp_probe_id req)) (bp_samples req))
           (map (stored_change (bp_probe_id req)) (bp_changes req)) db"
proof (cases "check_request rnd ovf env rq")
  case (Inl e)
  with assms show ?thesis by (intro error) (auto simp: handle_ingest_samples_def)
next
  case (Inr x)
  obtain req samples changes where x: "x = (req, samples, changes)" by (cases x)
  note chk = check_request_Inr [OF Inr [unfolded x]]
  obtain br db1 where b: "ingest_batch (ie_faults env) (bp_probe_id req) (bp_batch_id req) (ie_now env)
      samples changes db = (br, db1)" by fastforce
  have r: "db' = db1" "r = (case br of Inl _ \<Rightarrow> Inl StoreFailed500 | Inr f \<Rightarrow> Inr f)"
    using assms by (auto simp: handle_ingest_samples_def Inr x b split: sum.splits)
  note res = ingest_batch_result [OF b]
  show ?thesis
  proof (cases br)
    case (Inl e)
    with r res show ?thesis by (intro that(1)) auto
  next
    case (Inr f)
    show ?thesis
    proof (cases f)
      case True
      with r res chk Inr show ?thesis by (intro that(3) [of req]) auto
    next
      case False
      with r res chk Inr show ?thesis by (intro that(2) [of req]) auto
    qed
  qed
qed

section \<open>Properties of the handler\<close>

text \<open>
  C3: posting a batch changes the tables in exactly one case: the answer is 200, the batch id was
  not in the log, and the whole batch is appended together with its log row, each wire sample and
  route change as one row tagged with the probe; every one of them has a target, a TTL in 1..64, a
  non-negative round-trip time and a timestamp within the skew bound. On every other answer (an
  error, or 200 for a duplicate) the tables are untouched.
\<close>

theorem ingest_is_all_or_nothing:
  assumes "handle_ingest_samples rnd ovf env rq db = (r, db')"
  shows "if r = Inr True
    then \<exists>req. rq_body rq = Some req \<and> bp_batch_id req \<notin> logged_ids db
      \<and> it_log db' = it_log db @ [\<lparr>lg_batch_id = bp_batch_id req, lg_probe_id = bp_probe_id req,
            lg_received_at = unix_milli (ie_now env)\<rparr>]
      \<and> it_samples db' = it_samples db @ map (stored_sample rnd ovf (bp_probe_id req)) (bp_samples req)
      \<and> it_changes db' = it_changes db @ map (stored_change (bp_probe_id req)) (bp_changes req)
      \<and> (\<forall>s \<in> set (bp_samples req). sample_acceptable (ie_now env) s)
      \<and> (\<forall>c \<in> set (bp_changes req). change_acceptable (ie_now env) c)
    else db' = db \<and> (r = Inr False \<longrightarrow> (\<exists>req. rq_body rq = Some req \<and> bp_batch_id req \<in> logged_ids db))"
  using assms
proof (cases rule: handle_cases)
  case (error e)
  then show ?thesis by simp
next
  case (duplicate req)
  then show ?thesis by (auto simp: request_ok_def)
next
  case (fresh req)
  then show ?thesis by (auto simp: request_ok_def with_batch_def)
qed

lemma cut_prefix_Some: "cut_prefix pre s = Some rest \<Longrightarrow> s = pre @ rest"
  by (auto simp: cut_prefix_def split: if_splits) (metis append_take_drop_id)

lemma find_Some_mem: "find P xs = Some x \<Longrightarrow> x \<in> set xs \<and> P x"
  by (induction xs) (auto split: if_splits)

lemma auth_agent_Inr:
  assumes "auth_agent bindings yaml header = Inr (token, bound)"
  shows "header = ''Bearer '' @ token \<and> token \<noteq> []
     \<and> (token \<in> set yaml \<and> bound = []
        \<or> (\<exists>bs b. bindings = Some bs \<and> b \<in> set bs \<and> tk_Token b = token \<and> tk_Name b = bound))"
proof -
  note a = assms [unfolded auth_agent_def]
  from a obtain bs where bs: "bindings = Some bs" by (auto split: option.splits)
  from a bs obtain t where t: "cut_prefix ''Bearer '' header = Some t" "t \<noteq> []"
    by (auto split: option.splits if_splits)
  show ?thesis
  proof (cases "find (\<lambda>b. tk_Token b = t) bs")
    case None
    with a bs t have "find (\<lambda>w. w = t) yaml \<noteq> None" "token = t" "bound = []"
      by (auto split: if_splits)
    then show ?thesis using cut_prefix_Some [OF t(1)] t(2) find_Some_mem by fastforce
  next
    case (Some b)
    with a bs t have "token = t" "bound = tk_Name b" by (auto split: if_splits)
    then show ?thesis using cut_prefix_Some [OF t(1)] t(2) find_Some_mem [OF Some] bs by auto
  qed
qed

lemma validate_probe_id_iff:
  "validate_probe_id s \<longleftrightarrow> 2 \<le> length s \<and> length s \<le> 32 \<and> lower_alnum (hd s)
     \<and> (\<forall>c \<in> set s. lower_alnum c \<or> c = CHR ''-'') \<and> s \<noteq> ''local'' \<and> s \<noteq> ''all''"
  by (cases s) (auto simp: validate_probe_id_def probe_id_matches_def list_all_iff)

text \<open>
  C4: a batch is answered with 200 only when the request carries a bearer token that is in the
  token table or in the configuration file, and a token of the table that has a name lets its
  bearer write only as the probe of that name; and the probe id has 2 to 32 characters, lower-case
  letters, digits and dashes, starts with no dash, and is neither of the reserved names.
\<close>

theorem ingest_is_authorized:
  assumes "handle_ingest_samples rnd ovf env rq db = (Inr fresh, db')"
  shows "\<exists>req token. rq_body rq = Some req \<and> rq_authorization rq = ''Bearer '' @ token \<and> token \<noteq> []
    \<and> (token \<in> set (ie_yaml_tokens env)
       \<or> (\<exists>bs b. ie_bindings env = Some bs \<and> b \<in> set bs \<and> tk_Token b = token
            \<and> (tk_Name b = [] \<or> tk_Name b = bp_probe_id req)))
    \<and> (let p = bp_probe_id req in 2 \<le> length p \<and> length p \<le> 32 \<and> lower_alnum (hd p)
         \<and> (\<forall>c \<in> set p. lower_alnum c \<or> c = CHR ''-'') \<and> p \<noteq> ''local'' \<and> p \<noteq> ''all'')"
proof -
  obtain req where "request_ok env rq req"
    using assms by (cases rule: handle_cases) auto
  then obtain token bound where
    a: "auth_agent (ie_bindings env) (ie_yaml_tokens env) (rq_authorization rq) = Inr (token, bound)"
    and r: "require_probe_binding bound (bp_probe_id req)" "validate_probe_id (bp_probe_id req)"
      "rq_body rq = Some req"
    unfolding request_ok_def by blast
  have p: "let p = bp_probe_id req in 2 \<le> length p \<and> length p \<le> 32 \<and> lower_alnum (hd p)
      \<and> (\<forall>c \<in> set p. lower_alnum c \<or> c = CHR ''-'') \<and> p \<noteq> ''local'' \<and> p \<noteq> ''all''"
    unfolding Let_def using r(2) [unfolded validate_probe_id_iff] .
  have "token \<in> set (ie_yaml_tokens env)
       \<or> (\<exists>bs b. ie_bindings env = Some bs \<and> b \<in> set bs \<and> tk_Token b = token
            \<and> (tk_Name b = [] \<or> tk_Name b = bp_probe_id req))"
    using auth_agent_Inr [OF a] r(1) by (auto simp: require_probe_binding_def)
  then show ?thesis using auth_agent_Inr [OF a] p r(3) by blast
qed

text \<open>
  the clock-skew check is exact for every \<open>int64\<close> an agent can send, although the subtraction
  wraps: a timestamp passes exactly when it lies within 24 hours of the central's clock.
\<close>

theorem clock_skew_exact:
  assumes "- (2 ^ 63) \<le> ts" "ts < 2 ^ 63" "0 \<le> unix_milli now" "unix_milli now < 2 ^ 62"
  shows "check_clock_skew ts now \<longleftrightarrow> \<bar>ts - unix_milli now\<bar> \<le> 24 * 60 * 60 * 1000"
proof -
  let ?d = "ts - unix_milli now"
  have b: "clock_skew_bound div go_ms = 86400000" by (simp add: clock_skew_bound_def go_units)
  show ?thesis
  proof (cases "- (2 ^ 63) \<le> ?d")
    case True
    then have "wrap64 ?d = ?d" using assms by (intro wrap64_id) auto
    then show ?thesis by (auto simp: check_clock_skew_def b Let_def)
  next
    case False
    have "(?d + 2 ^ 63) mod 2 ^ 64 = (?d + 2 ^ 63 + 2 ^ 64) mod 2 ^ 64"
      by (simp only: mod_add_self2)
    also have "\<dots> = ?d + 2 ^ 63 + 2 ^ 64"
      using False assms by (intro mod_pos_pos_trivial) auto
    finally have "wrap64 ?d = ?d + 2 ^ 64" by (simp add: wrap64_def)
    with False assms show ?thesis by (auto simp: check_clock_skew_def b Let_def)
  qed
qed

lemma check_request_ok:
  assumes "request_ok env rq req"
  shows "\<exists>samples changes. check_request rnd ovf env rq = Inr (req, samples, changes)"
proof -
  from assms obtain token bound samples changes where
    "auth_agent (ie_bindings env) (ie_yaml_tokens env) (rq_authorization rq) = Inr (token, bound)"
    "require_probe_binding bound (bp_probe_id req)"
    "convert_samples rnd ovf (ie_now env) 0 (bp_samples req) = Inr samples"
    "convert_changes (ie_now env) 0 (bp_changes req) = Inr changes"
    using convert_samples_ok convert_changes_ok unfolding request_ok_def by metis
  with assms show ?thesis by (simp add: check_request_def request_ok_def)
qed

lemma handle_ok:
  assumes ok: "request_ok env rq req" and "ie_faults env = no_ingest_faults"
  shows "\<exists>fresh db'. handle_ingest_samples rnd ovf env rq db = (Inr fresh, db')"
proof -
  obtain samples changes where c: "check_request rnd ovf env rq = Inr (req, samples, changes)"
    using check_request_ok [OF ok] by blast
  have "bp_probe_id req \<noteq> []" "bp_batch_id req \<noteq> []"
    using ok by (auto simp: request_ok_def validate_probe_id_def probe_id_matches_def)
  then obtain fresh db' where "ingest_batch no_ingest_faults (bp_probe_id req) (bp_batch_id req)
      (ie_now env) samples changes db = (Inr fresh, db')"
    using ingest_batch_ok by blast
  then show ?thesis using assms(2) by (simp add: handle_ingest_samples_def c)
qed

text \<open>
  once a batch has been acknowledged, delivering a batch with the same id again, at any later
  time and whatever it contains, changes nothing as long as the log still has the row: the answer
  is never "new", and posting an acceptable request again is acknowledged when no statement fails.
\<close>

theorem redelivery_changes_nothing:
  assumes first: "handle_ingest_samples rnd ovf env rq db = (Inr fresh, db1)"
    and body: "rq_body rq = Some req" "rq_body rq2 = Some req2" "bp_batch_id req2 = bp_batch_id req"
    and logged: "logged_ids db1 \<subseteq> logged_ids db2"
    and second: "handle_ingest_samples rnd ovf env2 rq2 db2 = (r2, db3)"
  shows "db3 = db2 \<and> r2 \<noteq> Inr True \<and> bp_batch_id req \<in> logged_ids db2
    \<and> (request_ok env2 rq2 req2 \<and> ie_faults env2 = no_ingest_faults \<longrightarrow> r2 = Inr False)"
proof -
  have "bp_batch_id req \<in> logged_ids db1"
    using first
  proof (cases rule: handle_cases)
    case (error e)
    then show ?thesis by simp
  next
    case (duplicate q)
    with body(1) show ?thesis by (auto simp: request_ok_def)
  next
    case (fresh q)
    with body(1) show ?thesis by (auto simp: request_ok_def)
  qed
  then have l: "bp_batch_id req \<in> logged_ids db2" using logged by blast
  have "db3 = db2 \<and> r2 \<noteq> Inr True"
    using second
  proof (cases rule: handle_cases)
    case (error e)
    then show ?thesis by simp
  next
    case (duplicate q)
    then show ?thesis by simp
  next
    case (fresh q)
    then show ?thesis using body(2,3) l by (auto simp: request_ok_def)
  qed
  moreover have "r2 = Inr False" if "request_ok env2 rq2 req2" "ie_faults env2 = no_ingest_faults"
  proof -
    note again = handle_ok [OF that, of rnd ovf db2]
    obtain f where "r2 = Inr f" using again second by auto
    with calculation show ?thesis by (cases f) auto
  qed
  ultimately show ?thesis using l by blast
qed

definition demo_tables :: ingest_tables where
  "demo_tables = \<lparr>it_log = [], it_samples = [], it_changes = []\<rparr>"

definition demo_ingest_env :: ingest_env where
  "demo_ingest_env = \<lparr>ie_bindings = Some [\<lparr>tk_Token = ''tok'', tk_Name = ''probe-1''\<rparr>],
     ie_yaml_tokens = [], ie_now = 1000 * go_second, ie_faults = no_ingest_faults\<rparr>"

definition demo_body :: batch_payload where
  "demo_body = \<lparr>bp_probe_id = ''probe-1'', bp_batch_id = ''b1'',
     bp_samples = [\<lparr>ws_target = ''t'', ws_ttl = 3, ws_ts = 999000, ws_ip = None, ws_rtt_ms = 2\<rparr>],
     bp_changes = []\<rparr>"

definition demo_ingest_request :: ingest_request where
  "demo_ingest_request = \<lparr>rq_is_post = True, rq_authorization = ''Bearer tok'', rq_body = Some demo_body\<rparr>"

lemma demo_request_ok: "request_ok demo_ingest_env demo_ingest_request demo_body"
proof -
  have "auth_agent (ie_bindings demo_ingest_env) (ie_yaml_tokens demo_ingest_env)
      (rq_authorization demo_ingest_request) = Inr (''tok'', ''probe-1'')"
    by code_simp
  moreover have "require_probe_binding ''probe-1'' (bp_probe_id demo_body)"
      "validate_probe_id (bp_probe_id demo_body)" by code_simp+
  moreover have "check_clock_skew 999000 (1000 * go_second)" by code_simp
  ultimately show ?thesis
    unfolding request_ok_def
    by (auto simp: demo_ingest_request_def demo_body_def demo_ingest_env_def sample_acceptable_def)
qed

lemma demo_handled:
  "\<exists>db'. handle_ingest_samples id id demo_ingest_env demo_ingest_request demo_tables = (Inr True, db')"
proof -
  obtain f db' where h: "handle_ingest_samples id id demo_ingest_env demo_ingest_request demo_tables = (Inr f, db')"
    using handle_ok [OF demo_request_ok, of id id demo_tables] by (auto simp: demo_ingest_env_def)
  from h have "f"
    by (cases rule: handle_cases) (auto simp: logged_ids_def demo_tables_def)
  with h show ?thesis by auto
qed

theorem ingest_is_all_or_nothing_witness:
  "\<exists>db'. handle_ingest_samples id id demo_ingest_env demo_ingest_request demo_tables = (Inr True, db')
     \<and> length (it_samples db') = 1"
proof -
  obtain db' where h: "handle_ingest_samples id id demo_ingest_env demo_ingest_request demo_tables = (Inr True, db')"
    using demo_handled by blast
  have "length (it_samples db') = 1"
    using ingest_is_all_or_nothing [OF h]
    by (auto simp: demo_ingest_request_def demo_body_def demo_tables_def)
  with h show ?thesis by blast
qed

theorem ingest_is_authorized_witness:
  "\<exists>db' token. handle_ingest_samples id id demo_ingest_env demo_ingest_request demo_tables = (Inr True, db')
     \<and> rq_authorization demo_ingest_request = ''Bearer '' @ token"
proof -
  obtain db' where h: "handle_ingest_samples id id demo_ingest_env demo_ingest_request demo_tables = (Inr True, db')"
    using demo_handled by blast
  from ingest_is_authorized [OF h] h show ?thesis by blast
qed

theorem clock_skew_exact_witness:
  "\<not> check_clock_skew (- (2 ^ 63)) (1000 * go_second) \<and> check_clock_skew 87400000 (1000 * go_second)"
  using clock_skew_exact [of "- (2 ^ 63)" "1000 * go_second"] clock_skew_exact [of 87400000 "1000 * go_second"]
  by (simp add: unix_milli_def go_units)

theorem redelivery_changes_nothing_witness:
  "\<exists>db1 db3. handle_ingest_samples id id demo_ingest_env demo_ingest_request demo_tables = (Inr True, db1)
     \<and> handle_ingest_samples id id demo_ingest_env demo_ingest_request db1 = (Inr False, db3) \<and> db3 = db1"
proof -
  obtain db1 where h: "handle_ingest_samples id id demo_ingest_env demo_ingest_request demo_tables = (Inr True, db1)"
    using demo_handled by blast
  obtain r2 db3 where h2: "handle_ingest_samples id id demo_ingest_env demo_ingest_request db1 = (r2, db3)"
    by fastforce
  have b: "rq_body demo_ingest_request = Some demo_body" by (simp add: demo_ingest_request_def)
  from redelivery_changes_nothing [OF h b b refl subset_refl h2] h h2 demo_request_ok
  show ?thesis by (auto simp: demo_ingest_env_def)
qed

section \<open>From a probe's sample to the central's row\<close>

lemma addr_string_not_Nil [simp]: "addr_string a \<noteq> []"
  by (cases a) auto

lemma target_id_not_Nil [simp]: "target_id t a \<noteq> []"
  by (simp add: target_id_def)

text \<open>What the model assumes of \<open>float64\<close>: integers up to \<open>2 ^ 53\<close> are exact and every rounding is
  within one part in \<open>2 ^ 53\<close>.\<close>

definition double_rounding :: "(rat \<Rightarrow> rat) \<Rightarrow> bool" where
  "double_rounding rnd \<longleftrightarrow> (\<forall>n :: int. \<bar>n\<bar> \<le> 2 ^ 53 \<longrightarrow> rnd (of_int n) = of_int n)
     \<and> (\<forall>x. \<bar>rnd x - x\<bar> \<le> \<bar>x\<bar> / 2 ^ 53)"

lemma rtt_survives_the_wire:
  assumes rnd: "double_rounding rnd" and us: "0 \<le> us" "us \<le> 2 ^ 40"
  shows "0 \<le> rnd (rnd (of_int us) / 1000)"
    and "go_round (rnd (rnd (rnd (of_int us) / 1000) * 1000)) = us"
proof -
  let ?u = "of_int us :: rat"
  define ms where "ms = rnd (rnd ?u / 1000)"
  have "(2 :: int) ^ 40 \<le> 2 ^ 53" by simp
  then have "rnd ?u = ?u" using rnd us by (simp add: double_rounding_def)
  then have e1: "\<bar>ms - ?u / 1000\<bar> \<le> ?u / 1000 / 2 ^ 53"
    using rnd us by (auto simp: double_rounding_def ms_def dest!: spec [of _ "?u / 1000"])
  have u: "0 \<le> ?u" "?u \<le> 2 ^ 40" using us by (simp_all flip: of_int_power)
  have "?u / 1000 / 2 ^ 53 \<le> ?u / 1000" using u by (simp add: field_simps)
  with e1 have ms: "0 \<le> ms" unfolding abs_le_iff by linarith
  then show "0 \<le> rnd (rnd ?u / 1000)" by (simp add: ms_def)
  have e2: "\<bar>rnd (ms * 1000) - ms * 1000\<bar> \<le> ms * 1000 / 2 ^ 53"
    using rnd ms by (auto simp: double_rounding_def dest!: spec [of _ "ms * 1000"])
  have m: "\<bar>ms * 1000 - ?u\<bar> \<le> ?u / 2 ^ 53" using e1 by (auto simp: abs_le_iff field_simps)
  have small: "?u / 2 ^ 53 \<le> 1 / 8192" using u by (simp add: field_simps)
  have "(2 :: rat) ^ 40 + 1 / 8192 \<le> 2 ^ 41" by simp
  with m small u have "ms * 1000 \<le> 2 ^ 41" unfolding abs_le_iff by linarith
  then have "ms * 1000 / 2 ^ 53 \<le> 1 / 4096" by (simp add: field_simps)
  then have "\<bar>rnd (ms * 1000) - ?u\<bar> \<le> 1 / 4096 + 1 / 8192"
    using e2 m small unfolding abs_le_iff by linarith
  then have close: "\<bar>rnd (ms * 1000) - ?u\<bar> < 1 / 2" by linarith
  have "go_round (rnd (ms * 1000)) = us"
  proof (cases "rnd (ms * 1000) < 0")
    case True
    then have "us = 0" using close us by (simp add: abs_less_iff)
    moreover have "\<lfloor>1/2 - rnd (ms * 1000)\<rfloor> = 0"
      using True close calculation by (simp add: floor_eq_iff abs_less_iff)
    ultimately show ?thesis using True by (simp add: go_round_def)
  next
    case False
    have "\<lfloor>rnd (ms * 1000) + 1 / 2\<rfloor> = us"
      unfolding floor_eq_iff using close unfolding abs_less_iff by (intro conjI; linarith)
    with False show ?thesis by (simp add: go_round_def)
  qed
  then show "go_round (rnd (rnd (rnd ?u / 1000) * 1000)) = us" by (simp add: ms_def)
qed


text \<open>
  C2: what a remote probe measures is what the central stores, exactly as if the central had
  measured it itself: a batch the agent builds from samples with a TTL in range, a round-trip time
  of at most 12 days and a clock within 24 hours of the central's is accepted, and its rows are the rows
  the central's own sink would have written, tagged with the probe, with the round-trip time exact
  to the microsecond although it travels as a double of milliseconds.
\<close>

theorem remote_rows_equal_local_rows:
  assumes rnd: "double_rounding rnd"
    and auth: "auth_agent (ie_bindings env) (ie_yaml_tokens env) (rq_authorization rq) = Inr (token, bound)"
      "require_probe_binding bound probe" "validate_probe_id probe" "rq_is_post rq"
    and batch: "batch \<noteq> []" "length batch \<le> 128" "batch \<notin> logged_ids db"
    and body: "rq_body rq = Some (build_payload rnd probe batch samples changes)"
    and faults: "ie_faults env = no_ingest_faults"
    and samples: "\<forall>s \<in> set samples. 1 \<le> s_TTL s \<and> s_TTL s \<le> 64 \<and> 0 \<le> s_RTT s
      \<and> s_RTT s < 2 ^ 40 * 1000 \<and> check_clock_skew (unix_milli (s_Ts s)) (ie_now env)"
    and changes: "\<forall>c \<in> set changes. 1 \<le> rc_TTL c \<and> rc_TTL c \<le> 64
      \<and> check_clock_skew (unix_milli (rc_Ts c)) (ie_now env)"
  shows "\<exists>db'. handle_ingest_samples rnd ovf env rq db = (Inr True, db')
    \<and> it_samples db' = it_samples db @ map (\<lambda>s. (probe, sample_row_of s)) samples
    \<and> it_changes db' = it_changes db @ map (\<lambda>c. (probe, change_row_of c)) changes"
proof -
  let ?req = "build_payload rnd probe batch samples changes"
  have us: "0 \<le> go_quot (s_RTT s) 1000 \<and> go_quot (s_RTT s) 1000 \<le> 2 ^ 40" if "s \<in> set samples" for s
    using samples that by (auto simp: go_quot_def sgn_if)
  have rtt: "0 \<le> ws_rtt_ms (wire_sample_of rnd s)"
      "stored_sample rnd ovf probe (wire_sample_of rnd s) = (probe, sample_row_of s)" if "s \<in> set samples" for s
    using rtt_survives_the_wire [OF rnd] us [OF that]
    by (auto simp: wire_sample_of_def stored_sample_def sample_row_of_def target_id_def to_int64_def)
  have chg: "stored_change probe (wire_change_of c) = (probe, change_row_of c)" for c
    by (simp add: wire_change_of_def stored_change_def change_row_of_def target_id_def)
  have ok: "request_ok env rq ?req"
    using auth batch body samples changes rtt(1) unfolding request_ok_def
    by (auto simp: build_payload_def sample_acceptable_def change_acceptable_def wire_sample_of_def
        wire_change_of_def)
  obtain f db' where h: "handle_ingest_samples rnd ovf env rq db = (Inr f, db')"
    using handle_ok [OF ok faults] by blast
  from h show ?thesis
  proof (cases rule: handle_cases)
    case (duplicate req)
    with body batch show ?thesis by (auto simp: request_ok_def build_payload_def)
  next
    case (fresh req)
    then have "req = ?req" using body by (simp add: request_ok_def)
    with fresh h rtt(2) chg show ?thesis by (auto simp: with_batch_def build_payload_def)
  qed simp
qed

text \<open>The exact real-valued \<open>rnd\<close> satisfies the assumptions on rounding.\<close>

theorem remote_rows_equal_local_rows_witness:
  "let s = \<lparr>s_Target = V4 9, s_TargetID = ''t'', s_TTL = 3, s_Ts = 999 * go_second, s_IP = V4 7,
            s_RTT = 1234567\<rparr>
   in \<exists>db'. handle_ingest_samples id id demo_ingest_env
        (demo_ingest_request\<lparr>rq_body := Some (build_payload id ''probe-1'' ''b2'' [s] [])\<rparr>) demo_tables
        = (Inr True, db') \<and> it_samples db' = [(''probe-1'', sample_row_of s)]"
proof -
  let ?s = "\<lparr>s_Target = V4 9, s_TargetID = ''t'', s_TTL = 3, s_Ts = 999 * go_second, s_IP = V4 7,
            s_RTT = 1234567\<rparr>"
  have a: "auth_agent (ie_bindings demo_ingest_env) (ie_yaml_tokens demo_ingest_env)
      ''Bearer tok'' = Inr (''tok'', ''probe-1'')"
      "require_probe_binding ''probe-1'' ''probe-1''" "validate_probe_id ''probe-1''" by code_simp+
  have c: "check_clock_skew (unix_milli (999 * go_second)) (1000 * go_second)" by code_simp
  have r: "double_rounding id" by (simp add: double_rounding_def)
  show ?thesis
    using remote_rows_equal_local_rows [OF r, of demo_ingest_env
        "demo_ingest_request\<lparr>rq_body := Some (build_payload id ''probe-1'' ''b2'' [?s] [])\<rparr>"
        "''tok''" "''probe-1''" "''probe-1''" "''b2''" demo_tables "[?s]" "[]" id] a c
    by (auto simp: demo_ingest_request_def demo_tables_def logged_ids_def demo_ingest_env_def Let_def)
qed

text \<open>The handler does not bound \<open>rtt_ms\<close> from above: a value of \<open>10 ^ 300\<close> is accepted and what is
  stored is whatever the platform makes of the out-of-range conversion.\<close>

lemma go_round_int: "go_round (of_int n) = n"
  by (auto simp: go_round_def floor_eq_iff)

lemma huge_rtt_accepted:
  assumes "ws_target s \<noteq> []" "ws_ttl s = 1" "check_clock_skew (ws_ts s) now" "ws_rtt_ms s = 10 ^ 300"
  shows "\<exists>out. convert_samples id ovf now 0 [s] = Inr [out] \<and> ig_RTTUs out = ovf (10 ^ 303)"
proof -
  have "ws_rtt_ms s * 1000 = of_int (10 ^ 303)" using assms(4) by simp
  then have "go_round (ws_rtt_ms s * 1000) = 10 ^ 303" by (simp only: go_round_int)
  then show ?thesis using assms(1-3) by (simp add: to_int64_def assms(4) [symmetric]) (simp add: assms(4))
qed

end
