(* ===== verification/Delivery.thy ===== *)
theory Delivery
  imports Ingest
begin

text \<open>
  A remote probe and its central together: the agent's two goroutines (\<open>Run\<close> and \<open>RunFlushLoop\<close> of
  \<open>internal/agent/sink.go\<close>), the network between them and the central's handler and log retention
  (\<open>internal/server/ingest.go\<close>, \<open>internal/storage/probes.go\<close>). A request may never arrive, or
  arrive and be answered, or be processed while its answer is lost. Four histories are kept beside
  the program's state, which no step reads: every batch a flush formed, every batch the central
  stored (with the time), and the batches the agent gave up with its log line.

  The JSON codec between the two ends is taken to be lossless. The clock of the probe is not ahead
  of the central's: a sample is stamped with a time the central's clock has reached.
\<close>

section \<open>The log's retention\<close>

definition delete_ingest_log_older_than :: "instant \<Rightarrow> ingest_tables \<Rightarrow> ingest_tables" where
  "delete_ingest_log_older_than cutoff db =
     db\<lparr>it_log := filter (\<lambda>r. \<not> lg_received_at r < unix_milli cutoff) (it_log db)\<rparr>"

section \<open>The network\<close>

datatype network = NotReached | Answered ingest_env | AnswerLost ingest_env

definition agent_request :: "string \<Rightarrow> batch_payload \<Rightarrow> ingest_request" where
  "agent_request token p = \<lparr>rq_is_post = True, rq_authorization = ''Bearer '' @ token, rq_body = Some p\<rparr>"

text \<open>One POST: the answer the agent sees, whether the central stored the batch, and its tables.\<close>

definition exchange ::
  "(rat \<Rightarrow> rat) \<Rightarrow> (int \<Rightarrow> int) \<Rightarrow> string \<Rightarrow> instant \<Rightarrow> network \<Rightarrow> batch_payload \<Rightarrow> ingest_tables
   \<Rightarrow> http_result \<times> bool \<times> ingest_tables" where
  "exchange rnd ovf token now net p db =
     (case net of
        NotReached \<Rightarrow> (TransportError, False, db)
      | Answered env \<Rightarrow>
          (case handle_ingest_samples rnd ovf (env\<lparr>ie_now := now\<rparr>) (agent_request token p) db of
             (r, db') \<Rightarrow> (Status (status_code r), r = Inr True, db'))
      | AnswerLost env \<Rightarrow>
          (case handle_ingest_samples rnd ovf (env\<lparr>ie_now := now\<rparr>) (agent_request token p) db of
             (r, db') \<Rightarrow> (TransportError, r = Inr True, db')))"

section \<open>The system\<close>

record site =
  st_sink :: http_sink
  st_buf :: "batch_payload pending_batch list"
  st_drain :: "(string \<times> http_result) option"
  st_db :: ingest_tables
  st_now :: instant
  st_formed :: "batch_payload list"
  st_stored :: "(batch_payload \<times> int) list"
  st_given_up :: "batch_payload list"

record site_params =
  sp_rnd :: "rat \<Rightarrow> rat"
  sp_ovf :: "int \<Rightarrow> int"
  sp_len :: "batch_payload \<Rightarrow> nat"
  sp_max :: int
  sp_token :: string

definition new_site :: "http_sink \<Rightarrow> instant \<Rightarrow> site" where
  "new_site k now =
     \<lparr>st_sink = k, st_buf = [], st_drain = None,
      st_db = \<lparr>it_log = [], it_samples = [], it_changes = []\<rparr>, st_now = now,
      st_formed = [], st_stored = [], st_given_up = []\<rparr>"

text \<open>The batch a flush forms, and the batches that leave the agent without being delivered.\<close>

definition formed_batch :: "site_params \<Rightarrow> http_sink \<Rightarrow> string \<Rightarrow> batch_payload" where
  "formed_batch P k i = build_payload (sp_rnd P) (sc_ProbeID (hk_cfg k)) i (hk_samples k) (hk_changes k)"

definition dropped_payloads ::
  "batch_payload pending_batch list \<Rightarrow> batch_payload pending_batch list \<Rightarrow> batch_payload list" where
  "dropped_payloads before after =
     map pb_payload (filter (\<lambda>b. b \<notin> set after) before)"

inductive site_step :: "site_params \<Rightarrow> site \<Rightarrow> site \<Rightarrow> bool" for P :: site_params where
  write_sample:
    "0 \<le> s_Ts x \<Longrightarrow> s_Ts x \<le> st_now y \<Longrightarrow>
     site_step P y (y\<lparr>st_sink := snd (http_write_sample x (st_sink y))\<rparr>)"
| write_change:
    "0 \<le> rc_Ts c \<Longrightarrow> rc_Ts c \<le> st_now y \<Longrightarrow>
     site_step P y (y\<lparr>st_sink := snd (http_write_change c (st_sink y))\<rparr>)"
| flush_idle:
    "hk_samples (st_sink y) = [] \<and> hk_changes (st_sink y) = [] \<or> fe_id env = None \<or> fe_marshal_fails env \<Longrightarrow>
     flush_once (sp_rnd P) (sp_len P) (sp_max P) env (st_sink y) (st_buf y) = (rep, k', buf') \<Longrightarrow>
     site_step P y (y\<lparr>st_sink := k', st_buf := buf'\<rparr>)"
| flush_batch:
    "\<not> (hk_samples (st_sink y) = [] \<and> hk_changes (st_sink y) = []) \<Longrightarrow> fe_id env = Some i \<Longrightarrow>
     \<not> fe_marshal_fails env \<Longrightarrow> i \<notin> bp_batch_id ` set (st_formed y) \<Longrightarrow>
     p = formed_batch P (st_sink y) i \<Longrightarrow>
     exchange (sp_rnd P) (sp_ovf P) (sp_token P) (st_now y) net p (st_db y) = (res, stored, db') \<Longrightarrow>
     flush_once (sp_rnd P) (sp_len P) (sp_max P) (env\<lparr>fe_response := res\<rparr>) (st_sink y) (st_buf y)
       = (rep, k', buf') \<Longrightarrow>
     site_step P y
       (y\<lparr>st_sink := k', st_buf := buf', st_db := db', st_formed := st_formed y @ [p],
          st_stored := st_stored y @ (if stored then [(p, unix_milli (st_now y))] else []),
          st_given_up := st_given_up y @ dropped_payloads (st_buf y) buf'
            @ (case rep of DeliveredLive _ \<Rightarrow> [] | SpilledBatch _ _ \<Rightarrow> dropped_payloads
                  [\<lparr>pb_batch_id = i, pb_created_at = unix_milli (fe_now env), pb_payload = p\<rparr>] buf'
               | _ \<Rightarrow> [p])\<rparr>)"
| drain_post:
    "st_drain y = None \<Longrightarrow> buffer_oldest (st_buf y) = Some (i, p) \<Longrightarrow>
     exchange (sp_rnd P) (sp_ovf P) (sp_token P) (st_now y) net p (st_db y) = (res, stored, db') \<Longrightarrow>
     site_step P y
       (y\<lparr>st_drain := (if classify_response res \<in> {OutcomeOK, OutcomeDrop} then Some (i, res) else None),
          st_sink := (if classify_response res = OutcomeUnauthorized then deliver_fatal res (st_sink y)
                      else st_sink y),
          st_db := db',
          st_stored := st_stored y @ (if stored then [(p, unix_milli (st_now y))] else [])\<rparr>)"
| drain_delete:
    "st_drain y = Some (i, res) \<Longrightarrow>
     site_step P y
       (y\<lparr>st_drain := None, st_buf := (if fails then st_buf y else delete_batch i (st_buf y)),
          st_given_up := st_given_up y @ (if \<not> fails \<and> classify_response res = OutcomeDrop
             then dropped_payloads (st_buf y) (delete_batch i (st_buf y)) else [])\<rparr>)"
| tick:
    "st_now y \<le> t \<Longrightarrow> unix_milli t < 2 ^ 62 \<Longrightarrow> site_step P y (y\<lparr>st_now := t\<rparr>)"
| prune:
    "site_step P y (y\<lparr>st_db := delete_ingest_log_older_than (st_now y - 24 * go_hour) (st_db y)\<rparr>)"

inductive site_run :: "site_params \<Rightarrow> site \<Rightarrow> site \<Rightarrow> bool" for P :: site_params and y0 :: site where
  site_start: "site_run P y0 y0"
| site_next: "site_run P y0 y \<Longrightarrow> site_step P y y' \<Longrightarrow> site_run P y0 y'"

section \<open>One exchange\<close>

lemma status_code_Inl: "status_code (Inl e) \<in> {400, 401, 403, 405, 500}"
  by (cases e) (auto simp: status_code_def)

lemma classify_status: "classify_response (Status (status_code r)) = OutcomeOK \<longleftrightarrow> (\<exists>b. r = Inr b)"
proof (cases r)
  case (Inl e)
  then show ?thesis using status_code_Inl [of e] by (auto simp: classify_response_def)
next
  case (Inr b)
  then show ?thesis by (simp add: status_code_def classify_response_def)
qed

definition batch_acceptable :: "instant \<Rightarrow> batch_payload \<Rightarrow> bool" where
  "batch_acceptable now p \<longleftrightarrow> (\<forall>s \<in> set (bp_samples p). sample_acceptable now s)
     \<and> (\<forall>c \<in> set (bp_changes p). change_acceptable now c)"

lemma exchange_cases:
  assumes "exchange rnd ovf token now net p db = (res, stored, db')"
  shows "if stored then bp_batch_id p \<notin> logged_ids db \<and> batch_acceptable now p
      \<and> db' = with_batch (bp_probe_id p) (bp_batch_id p) now
           (map (stored_sample rnd ovf (bp_probe_id p)) (bp_samples p))
           (map (stored_change (bp_probe_id p)) (bp_changes p)) db
    else db' = db \<and> (classify_response res = OutcomeOK \<longrightarrow> bp_batch_id p \<in> logged_ids db)"
proof -
  have main: "if r = Inr True then bp_batch_id p \<notin> logged_ids db \<and> batch_acceptable now p
      \<and> d = with_batch (bp_probe_id p) (bp_batch_id p) now
           (map (stored_sample rnd ovf (bp_probe_id p)) (bp_samples p))
           (map (stored_change (bp_probe_id p)) (bp_changes p)) db
    else d = db \<and> (r = Inr False \<longrightarrow> bp_batch_id p \<in> logged_ids db)"
    if h: "handle_ingest_samples rnd ovf (env\<lparr>ie_now := now\<rparr>) (agent_request token p) db = (r, d)" for env r d
    using h
  proof (cases rule: handle_cases)
    case (error e)
    then show ?thesis by simp
  next
    case (duplicate q)
    then show ?thesis by (auto simp: request_ok_def agent_request_def)
  next
    case (fresh q)
    then have "q = p" by (simp add: request_ok_def agent_request_def)
    with fresh show ?thesis by (auto simp: request_ok_def batch_acceptable_def)
  qed
  show ?thesis
  proof (cases net)
    case NotReached
    with assms show ?thesis by (simp add: exchange_def classify_response_def)
  next
    case (Answered env)
    obtain r d where h: "handle_ingest_samples rnd ovf (env\<lparr>ie_now := now\<rparr>) (agent_request token p) db = (r, d)"
      by fastforce
    have o: "res = Status (status_code r)" "stored = (r = Inr True)" "db' = d"
      using assms by (auto simp: exchange_def Answered h)
    show ?thesis
      using main [OF h] classify_status [of r] unfolding o by (auto split: if_splits)
  next
    case (AnswerLost env)
    obtain r d where h: "handle_ingest_samples rnd ovf (env\<lparr>ie_now := now\<rparr>) (agent_request token p) db = (r, d)"
      by fastforce
    have o: "res = TransportError" "stored = (r = Inr True)" "db' = d"
      using assms by (auto simp: exchange_def AnswerLost h)
    show ?thesis
      using main [OF h] unfolding o by (auto simp: classify_response_def split: if_splits)
  qed
qed

text \<open>A timestamp older than the skew bound is refused.\<close>

lemma skew_refuses_old:
  assumes "check_clock_skew ts now" "0 \<le> ts" "ts \<le> unix_milli now" "unix_milli now < 2 ^ 62"
  shows "unix_milli now - 86400000 \<le> ts"
proof -
  have "wrap64 (ts - unix_milli now) = ts - unix_milli now" using assms by (intro wrap64_id) auto
  moreover have "clock_skew_bound div go_ms = 86400000" by (simp add: clock_skew_bound_def go_units)
  ultimately show ?thesis using assms(1) by (simp add: check_clock_skew_def Let_def)
qed

section \<open>The invariant\<close>

definition payload_past :: "batch_payload \<Rightarrow> int \<Rightarrow> bool" where
  "payload_past p ms \<longleftrightarrow> (bp_samples p \<noteq> [] \<or> bp_changes p \<noteq> [])
     \<and> (\<forall>s \<in> set (bp_samples p). 0 \<le> ws_ts s \<and> ws_ts s \<le> ms)
     \<and> (\<forall>c \<in> set (bp_changes p). 0 \<le> wc_ts c \<and> wc_ts c \<le> ms)"

lemma payload_past_mono: "payload_past p a \<Longrightarrow> a \<le> b \<Longrightarrow> payload_past p b"
  unfolding payload_past_def by (meson order_trans)

lemma old_batch_refused:
  assumes "payload_past p r" "r < unix_milli now - 86400000" "unix_milli now < 2 ^ 62"
  shows "\<not> batch_acceptable now p"
proof
  assume acc: "batch_acceptable now p"
  have no: False if "check_clock_skew ts now" "0 \<le> ts" "ts \<le> r" for ts
    using skew_refuses_old [OF that(1,2)] that(3) assms(2,3) by simp
  show False
  proof (cases "bp_samples p")
    case Nil
    then obtain c cs where "bp_changes p = c # cs" using assms(1) by (cases "bp_changes p") (auto simp: payload_past_def)
    then show False using no [of "wc_ts c"] acc assms(1)
      by (simp add: batch_acceptable_def change_acceptable_def payload_past_def)
  next
    case (Cons s ss)
    then show False using no [of "ws_ts s"] acc assms(1)
      by (simp add: batch_acceptable_def sample_acceptable_def payload_past_def)
  qed
qed

definition queue_past :: "site \<Rightarrow> bool" where
  "queue_past y \<longleftrightarrow> (\<forall>s \<in> set (hk_samples (st_sink y)). 0 \<le> s_Ts s \<and> s_Ts s \<le> st_now y)
     \<and> (\<forall>c \<in> set (hk_changes (st_sink y)). 0 \<le> rc_Ts c \<and> rc_Ts c \<le> st_now y)"

definition formed_ok :: "site \<Rightarrow> bool" where
  "formed_ok y \<longleftrightarrow> distinct (map bp_batch_id (st_formed y))
     \<and> (\<forall>p \<in> set (st_formed y). payload_past p (unix_milli (st_now y)))
     \<and> unix_milli (st_now y) < 2 ^ 62"

definition buf_ok :: "site \<Rightarrow> bool" where
  "buf_ok y \<longleftrightarrow> keys_ok (st_buf y)
     \<and> (\<forall>b \<in> set (st_buf y). pb_batch_id b = bp_batch_id (pb_payload b) \<and> pb_payload b \<in> set (st_formed y))"

definition still_logged :: "site \<Rightarrow> batch_payload \<Rightarrow> int \<Rightarrow> bool" where
  "still_logged y p r \<longleftrightarrow> bp_batch_id p \<in> logged_ids (st_db y) \<or> r < unix_milli (st_now y) - 86400000"

definition stored_ok :: "site \<Rightarrow> bool" where
  "stored_ok y \<longleftrightarrow> fst ` set (st_stored y) \<subseteq> set (st_formed y)
     \<and> distinct (map fst (st_stored y))
     \<and> (\<forall>(p, r) \<in> set (st_stored y). payload_past p r \<and> r \<le> unix_milli (st_now y) \<and> still_logged y p r)
     \<and> logged_ids (st_db y) \<subseteq> bp_batch_id ` fst ` set (st_stored y)
     \<and> (\<forall>l \<in> set (it_log (st_db y)). \<exists>p r. (p, r) \<in> set (st_stored y)
          \<and> lg_batch_id l = bp_batch_id p \<and> lg_received_at l = r)"

definition rows_ok :: "site_params \<Rightarrow> site \<Rightarrow> bool" where
  "rows_ok P y \<longleftrightarrow>
     it_samples (st_db y) = concat (map (\<lambda>p. map (stored_sample (sp_rnd P) (sp_ovf P) (bp_probe_id p))
        (bp_samples p)) (map fst (st_stored y)))
     \<and> it_changes (st_db y)
        = concat (map (\<lambda>p. map (stored_change (bp_probe_id p)) (bp_changes p)) (map fst (st_stored y)))"

definition loss_ok :: "site \<Rightarrow> bool" where
  "loss_ok y \<longleftrightarrow> set (st_formed y) \<subseteq>
     fst ` set (st_stored y) \<union> pb_payload ` set (st_buf y) \<union> set (st_given_up y)"

definition drain_ok :: "site \<Rightarrow> bool" where
  "drain_ok y \<longleftrightarrow> (\<forall>i res. st_drain y = Some (i, res) \<longrightarrow> classify_response res \<in> {OutcomeOK, OutcomeDrop}
     \<and> (classify_response res = OutcomeOK \<longrightarrow> (\<exists>p \<in> fst ` set (st_stored y). bp_batch_id p = i)))"

definition site_ok :: "site_params \<Rightarrow> site \<Rightarrow> bool" where
  "site_ok P y \<longleftrightarrow> queue_past y \<and> formed_ok y \<and> buf_ok y \<and> stored_ok y \<and> rows_ok P y \<and> loss_ok y \<and> drain_ok y"

lemmas site_defs = queue_past_def formed_ok_def buf_ok_def stored_ok_def rows_ok_def loss_ok_def drain_ok_def
  still_logged_def


text \<open>What one exchange does to the store's part of the invariant, whichever goroutine posts.\<close>

lemma stored_same_id:
  assumes "distinct (map bp_batch_id (st_formed y))" "p \<in> set (st_formed y)" "q \<in> set (st_formed y)"
    "bp_batch_id p = bp_batch_id q"
  shows "p = q"
  using assms by (metis distinct_map inj_onD)

lemma exchange_stored_ok:
  assumes fo: "formed_ok y" and so: "stored_ok y" and ro: "rows_ok P y" and p: "p \<in> set (st_formed y)"
    and ex: "exchange (sp_rnd P) (sp_ovf P) token (st_now y) net p (st_db y) = (res, stored, db')"
  defines "y' \<equiv> y\<lparr>st_db := db', st_stored := st_stored y @ (if stored then [(p, unix_milli (st_now y))] else [])\<rparr>"
  shows "stored_ok y' \<and> rows_ok P y' \<and> (classify_response res = OutcomeOK \<longrightarrow> p \<in> fst ` set (st_stored y'))"
proof (cases stored)
  case False
  have db: "db' = db'" "st_db y' = st_db y" "st_stored y' = st_stored y"
    using exchange_cases [OF ex] False by (auto simp: y'_def)
  have "p \<in> fst ` set (st_stored y)" if "classify_response res = OutcomeOK"
  proof -
    have "bp_batch_id p \<in> logged_ids (st_db y)" using exchange_cases [OF ex] False that by simp
    then obtain q where "q \<in> fst ` set (st_stored y)" "bp_batch_id q = bp_batch_id p"
      using so unfolding stored_ok_def by (metis (no_types, lifting) imageE subsetD)
    moreover from this have "q \<in> set (st_formed y)" using so unfolding stored_ok_def by blast
    ultimately show ?thesis using stored_same_id [of y q p] fo p by (auto simp: formed_ok_def)
  qed
  then show ?thesis
    using so ro db by (simp add: stored_ok_def rows_ok_def still_logged_def y'_def)
next
  case True
  note e = exchange_cases [OF ex, unfolded if_P [OF True]]
  let ?ms = "unix_milli (st_now y)"
  have past: "payload_past p ?ms" and hi: "?ms < 2 ^ 62" using fo p by (auto simp: formed_ok_def)
  have new: "p \<notin> fst ` set (st_stored y)"
  proof
    assume "p \<in> fst ` set (st_stored y)"
    then obtain r where r: "(p, r) \<in> set (st_stored y)" by auto
    then have "payload_past p r" "bp_batch_id p \<in> logged_ids (st_db y) \<or> r < ?ms - 86400000"
      using so by (auto simp: stored_ok_def still_logged_def)
    with old_batch_refused hi e show False by blast
  qed
  have st: "st_stored y' = st_stored y @ [(p, ?ms)]" "st_db y' = db'" "st_now y' = st_now y"
      "st_formed y' = st_formed y" using True by (auto simp: y'_def)
  have log: "logged_ids db' = insert (bp_batch_id p) (logged_ids (st_db y))"
      "it_log db' = it_log (st_db y) @ [\<lparr>lg_batch_id = bp_batch_id p, lg_probe_id = bp_probe_id p,
         lg_received_at = ?ms\<rparr>]"
    using e by (simp, simp add: with_batch_def)
  have "stored_ok y'"
    unfolding stored_ok_def st
  proof (intro conjI)
    show "fst ` set (st_stored y @ [(p, ?ms)]) \<subseteq> set (st_formed y)" using so p by (auto simp: stored_ok_def)
    show "distinct (map fst (st_stored y @ [(p, ?ms)]))" using so new by (auto simp: stored_ok_def)
    show "\<forall>(q, r) \<in> set (st_stored y @ [(p, ?ms)]). payload_past q r \<and> r \<le> ?ms \<and> still_logged y' q r"
      using so past by (auto simp: stored_ok_def still_logged_def st log)
    show "logged_ids db' \<subseteq> bp_batch_id ` fst ` set (st_stored y @ [(p, ?ms)])"
      using so by (auto simp: stored_ok_def log)
    show "\<forall>l \<in> set (it_log db'). \<exists>q r. (q, r) \<in> set (st_stored y @ [(p, ?ms)])
        \<and> lg_batch_id l = bp_batch_id q \<and> lg_received_at l = r"
      using so by (fastforce simp: stored_ok_def log)
  qed
  moreover have "rows_ok P y'" using ro e by (simp add: rows_ok_def st with_batch_def)
  ultimately show ?thesis by (simp add: st)
qed


lemma site_indep [simp]:
  "queue_past (y\<lparr>st_buf := b\<rparr>) = queue_past y" "queue_past (y\<lparr>st_drain := d\<rparr>) = queue_past y"
  "queue_past (y\<lparr>st_db := db\<rparr>) = queue_past y" "queue_past (y\<lparr>st_formed := fs\<rparr>) = queue_past y"
  "queue_past (y\<lparr>st_stored := s\<rparr>) = queue_past y" "queue_past (y\<lparr>st_given_up := g\<rparr>) = queue_past y"
  "formed_ok (y\<lparr>st_buf := b\<rparr>) = formed_ok y" "formed_ok (y\<lparr>st_drain := d\<rparr>) = formed_ok y"
  "formed_ok (y\<lparr>st_db := db\<rparr>) = formed_ok y" "formed_ok (y\<lparr>st_sink := k\<rparr>) = formed_ok y"
  "formed_ok (y\<lparr>st_stored := s\<rparr>) = formed_ok y" "formed_ok (y\<lparr>st_given_up := g\<rparr>) = formed_ok y"
  "buf_ok (y\<lparr>st_sink := k\<rparr>) = buf_ok y" "buf_ok (y\<lparr>st_drain := d\<rparr>) = buf_ok y"
  "buf_ok (y\<lparr>st_db := db\<rparr>) = buf_ok y" "buf_ok (y\<lparr>st_now := n\<rparr>) = buf_ok y"
  "buf_ok (y\<lparr>st_stored := s\<rparr>) = buf_ok y" "buf_ok (y\<lparr>st_given_up := g\<rparr>) = buf_ok y"
  "stored_ok (y\<lparr>st_sink := k\<rparr>) = stored_ok y" "stored_ok (y\<lparr>st_drain := d\<rparr>) = stored_ok y"
  "stored_ok (y\<lparr>st_buf := b\<rparr>) = stored_ok y" "stored_ok (y\<lparr>st_given_up := g\<rparr>) = stored_ok y"
  "rows_ok P (y\<lparr>st_sink := k\<rparr>) = rows_ok P y" "rows_ok P (y\<lparr>st_drain := d\<rparr>) = rows_ok P y"
  "rows_ok P (y\<lparr>st_buf := b\<rparr>) = rows_ok P y" "rows_ok P (y\<lparr>st_given_up := g\<rparr>) = rows_ok P y"
  "rows_ok P (y\<lparr>st_now := n\<rparr>) = rows_ok P y" "rows_ok P (y\<lparr>st_formed := fs\<rparr>) = rows_ok P y"
  "loss_ok (y\<lparr>st_sink := k\<rparr>) = loss_ok y" "loss_ok (y\<lparr>st_drain := d\<rparr>) = loss_ok y"
  "loss_ok (y\<lparr>st_db := db\<rparr>) = loss_ok y" "loss_ok (y\<lparr>st_now := n\<rparr>) = loss_ok y"
  "drain_ok (y\<lparr>st_sink := k\<rparr>) = drain_ok y" "drain_ok (y\<lparr>st_buf := b\<rparr>) = drain_ok y"
  "drain_ok (y\<lparr>st_db := db\<rparr>) = drain_ok y" "drain_ok (y\<lparr>st_now := n\<rparr>) = drain_ok y"
  "drain_ok (y\<lparr>st_formed := fs\<rparr>) = drain_ok y" "drain_ok (y\<lparr>st_given_up := g\<rparr>) = drain_ok y"
  by (simp_all add: site_defs)

lemma site_ok_write_sample:
  "site_ok P y \<Longrightarrow> 0 \<le> s_Ts x \<Longrightarrow> s_Ts x \<le> st_now y \<Longrightarrow>
   site_ok P (y\<lparr>st_sink := snd (http_write_sample x (st_sink y))\<rparr>)"
  by (auto simp: site_ok_def queue_past_def http_write_sample_def Let_def)

lemma site_ok_write_change:
  "site_ok P y \<Longrightarrow> 0 \<le> rc_Ts c \<Longrightarrow> rc_Ts c \<le> st_now y \<Longrightarrow>
   site_ok P (y\<lparr>st_sink := snd (http_write_change c (st_sink y))\<rparr>)"
  by (auto simp: site_ok_def queue_past_def http_write_change_def)

lemma site_ok_tick:
  assumes ok: "site_ok P y" and t: "st_now y \<le> t" "unix_milli t < 2 ^ 62"
  shows "site_ok P (y\<lparr>st_now := t\<rparr>)"
proof -
  have ms: "unix_milli (st_now y) \<le> unix_milli t" using t(1) by (rule unix_milli_mono)
  have "queue_past (y\<lparr>st_now := t\<rparr>)" using ok t(1) unfolding site_ok_def queue_past_def by fastforce
  moreover have "formed_ok (y\<lparr>st_now := t\<rparr>)"
    using ok t(2) payload_past_mono [OF _ ms] by (auto simp: site_ok_def formed_ok_def)
  moreover have "stored_ok (y\<lparr>st_now := t\<rparr>)"
    using ok ms unfolding site_ok_def stored_ok_def still_logged_def by fastforce
  ultimately show ?thesis using ok by (simp add: site_ok_def)
qed

lemma site_ok_prune:
  assumes ok: "site_ok P y"
  shows "site_ok P (y\<lparr>st_db := delete_ingest_log_older_than (st_now y - 24 * go_hour) (st_db y)\<rparr>)"
proof -
  let ?db = "delete_ingest_log_older_than (st_now y - 24 * go_hour) (st_db y)"
  have cut: "unix_milli (st_now y - 24 * go_hour) = unix_milli (st_now y) - 86400000"
  proof -
    have "st_now y - 24 * go_hour = st_now y + (- 86400000) * go_ms" by (simp add: go_units)
    then show ?thesis unfolding unix_milli_def by (simp only: div_mult_self1) (simp add: go_ms_def)
  qed
  have logged: "still_logged (y\<lparr>st_db := ?db\<rparr>) p r"
    if pr: "(p, r) \<in> set (st_stored y)" and sl: "still_logged y p r" for p r
  proof (cases "r < unix_milli (st_now y) - 86400000")
    case False
    with sl obtain l where l: "l \<in> set (it_log (st_db y))" "lg_batch_id l = bp_batch_id p"
      by (auto simp: still_logged_def logged_ids_def)
    then obtain q where q: "(q, lg_received_at l) \<in> set (st_stored y)" "bp_batch_id q = bp_batch_id p"
      using ok unfolding site_ok_def stored_ok_def by metis
    have "q \<in> set (st_formed y)" "p \<in> set (st_formed y)"
      using q pr ok by (force simp: site_ok_def stored_ok_def)+
    then have "q = p" using stored_same_id q ok unfolding site_ok_def formed_ok_def by blast
    moreover have "distinct (map fst (st_stored y))" using ok by (simp add: site_ok_def stored_ok_def)
    ultimately have "lg_received_at l = r"
      using q(1) pr by (metis eq_key_imp_eq_value)
    with False l have "l \<in> set (it_log ?db)"
      by (simp add: delete_ingest_log_older_than_def cut)
    with l(2) show ?thesis by (force simp: still_logged_def logged_ids_def)
  qed (simp add: still_logged_def)
  have "logged_ids ?db \<subseteq> logged_ids (st_db y)"
    by (auto simp: logged_ids_def delete_ingest_log_older_than_def)
  then have "stored_ok (y\<lparr>st_db := ?db\<rparr>)"
    using ok logged unfolding site_ok_def stored_ok_def
    by (auto simp: delete_ingest_log_older_than_def)
  moreover have "rows_ok P (y\<lparr>st_db := ?db\<rparr>)"
    using ok by (simp add: site_ok_def rows_ok_def delete_ingest_log_older_than_def)
  ultimately show ?thesis using ok by (simp add: site_ok_def)
qed


lemma cover_mono:
  "F \<subseteq> S \<union> B \<union> G \<Longrightarrow> S \<subseteq> S' \<Longrightarrow> (\<And>q. q \<in> B \<Longrightarrow> q \<in> S' \<union> B' \<union> G') \<Longrightarrow> G \<subseteq> G' \<Longrightarrow>
   F \<subseteq> S' \<union> B' \<union> G'"
  by blast

lemma buffer_oldest_mem:
  "buffer_oldest bs = Some (i, p) \<Longrightarrow> \<exists>b \<in> set bs. pb_batch_id b = i \<and> pb_payload b = p"
  by (auto simp: buffer_oldest_def dest!: oldest_row_mem)

lemma site_ok_drain_post:
  assumes ok: "site_ok P y" and old: "buffer_oldest (st_buf y) = Some (i, p)"
    and ex: "exchange (sp_rnd P) (sp_ovf P) (sp_token P) (st_now y) net p (st_db y) = (res, stored, db')"
  shows "site_ok P
       (y\<lparr>st_drain := (if classify_response res \<in> {OutcomeOK, OutcomeDrop} then Some (i, res) else None),
          st_sink := (if classify_response res = OutcomeUnauthorized then deliver_fatal res (st_sink y)
                      else st_sink y),
          st_db := db',
          st_stored := st_stored y @ (if stored then [(p, unix_milli (st_now y))] else [])\<rparr>)"
    (is "site_ok P ?y")
proof -
  obtain b where b: "b \<in> set (st_buf y)" "pb_batch_id b = i" "pb_payload b = p"
    using buffer_oldest_mem [OF old] by blast
  then have p: "p \<in> set (st_formed y)" "bp_batch_id p = i"
    using ok by (auto simp: site_ok_def buf_ok_def)
  have "stored_ok ?y \<and> rows_ok P ?y \<and> (classify_response res = OutcomeOK \<longrightarrow> p \<in> fst ` set (st_stored ?y))"
    using exchange_stored_ok [OF _ _ _ p(1) ex] ok
    by (simp add: site_ok_def stored_ok_def rows_ok_def still_logged_def)
  moreover have "queue_past ?y"
    using ok by (simp add: site_ok_def queue_past_def deliver_fatal_def split: option.splits)
  moreover have "loss_ok ?y" using ok by (auto simp: site_ok_def loss_ok_def)
  moreover have "drain_ok ?y"
    using calculation(1) p(2) by (auto simp: drain_ok_def)
  moreover have "formed_ok ?y" "buf_ok ?y" using ok by (simp_all add: site_ok_def formed_ok_def buf_ok_def)
  ultimately show ?thesis by (simp add: site_ok_def)
qed

lemma site_ok_drain_delete:
  assumes ok: "site_ok P y" and d: "st_drain y = Some (i, res)"
  shows "site_ok P
       (y\<lparr>st_drain := None, st_buf := (if fails then st_buf y else delete_batch i (st_buf y)),
          st_given_up := st_given_up y @ (if \<not> fails \<and> classify_response res = OutcomeDrop
             then dropped_payloads (st_buf y) (delete_batch i (st_buf y)) else [])\<rparr>)"
    (is "site_ok P ?y")
proof -
  have out: "classify_response res \<in> {OutcomeOK, OutcomeDrop}"
      "classify_response res = OutcomeOK \<Longrightarrow> \<exists>p \<in> fst ` set (st_stored y). bp_batch_id p = i"
    using ok d by (auto simp: site_ok_def drain_ok_def)
  have buf: "buf_ok ?y"
    using ok keys_ok_delete [of "st_buf y" i] by (auto simp: site_ok_def buf_ok_def delete_batch_def)
  have stored_there: "pb_payload b \<in> fst ` set (st_stored y)"
    if good: "classify_response res = OutcomeOK" and "b \<in> set (st_buf y)" "pb_batch_id b = i" for b
  proof -
    obtain q where q: "q \<in> fst ` set (st_stored y)" "bp_batch_id q = i" using out(2) [OF good] by blast
    moreover have "fst ` set (st_stored y) \<subseteq> set (st_formed y)"
      using ok by (simp add: site_ok_def stored_ok_def)
    ultimately have "q \<in> set (st_formed y)" by blast
    moreover have "pb_payload b \<in> set (st_formed y)" "bp_batch_id (pb_payload b) = i"
      using ok that by (auto simp: site_ok_def buf_ok_def)
    ultimately have "q = pb_payload b"
      using stored_same_id [of y q "pb_payload b"] q ok by (auto simp: site_ok_def formed_ok_def)
    with q show ?thesis by simp
  qed
  have gone: "pb_payload b \<in> fst ` set (st_stored y) \<union> set (st_given_up ?y)"
    if "\<not> fails" "b \<in> set (st_buf y)" "pb_batch_id b = i" for b
  proof (cases "classify_response res = OutcomeOK")
    case True
    with stored_there that show ?thesis by blast
  next
    case False
    with out(1) have "classify_response res = OutcomeDrop" by blast
    moreover have "pb_payload b \<in> set (dropped_payloads (st_buf y) (delete_batch i (st_buf y)))"
      using that by (auto simp: dropped_payloads_def delete_batch_def)
    ultimately show ?thesis using that(1) by simp
  qed
  have given: "set (st_given_up y) \<subseteq> set (st_given_up ?y)" by auto
  have moved: "p \<in> fst ` set (st_stored y) \<union> pb_payload ` set (st_buf ?y) \<union> set (st_given_up ?y)"
    if mem: "p \<in> pb_payload ` set (st_buf y)" for p
  proof -
    from mem obtain b where b: "b \<in> set (st_buf y)" "p = pb_payload b" by auto
    show ?thesis
    proof (cases "fails \<or> pb_batch_id b \<noteq> i")
      case True
      then have "b \<in> set (st_buf ?y)" using b by (auto simp: delete_batch_def)
      then have "p \<in> pb_payload ` set (st_buf ?y)" using b(2) by (intro image_eqI)
      then show ?thesis by (rule UnI1 [OF UnI2])
    next
      case False
      then show ?thesis using gone [OF _ b(1)] b(2) by fast
    qed
  qed
  have before: "set (st_formed y) \<subseteq> fst ` set (st_stored y) \<union> pb_payload ` set (st_buf y) \<union> set (st_given_up y)"
    using ok by (simp add: site_ok_def loss_ok_def)
  have "set (st_formed y) \<subseteq> fst ` set (st_stored y) \<union> pb_payload ` set (st_buf ?y) \<union> set (st_given_up ?y)"
    by (rule cover_mono [OF before order_refl moved given])
  then have "loss_ok ?y" by (simp add: loss_ok_def)
  then show ?thesis using ok buf by (simp add: site_ok_def drain_ok_def queue_past_def formed_ok_def)
qed


lemma http_sink_flushed: "queue_past (y\<lparr>st_sink := k\<rparr>)" if "hk_samples k = []" "hk_changes k = []"
  using that by (simp add: queue_past_def)

lemma site_ok_flush_idle:
  assumes ok: "site_ok P y" and bound: "0 \<le> sp_max P"
    and idle: "hk_samples (st_sink y) = [] \<and> hk_changes (st_sink y) = [] \<or> fe_id env = None \<or> fe_marshal_fails env"
    and fl: "flush_once (sp_rnd P) (sp_len P) (sp_max P) env (st_sink y) (st_buf y) = (rep, k', buf')"
  shows "site_ok P (y\<lparr>st_sink := k', st_buf := buf'\<rparr>)"
proof -
  have "hk_samples k' = [] \<and> hk_changes k' = [] \<and> buf' = st_buf y"
    using fl idle by (auto simp: flush_once_def Let_def split: option.splits if_splits)
  then show ?thesis using ok http_sink_flushed [of k' y] by (simp add: site_ok_def)
qed

lemma formed_batch_past:
  assumes "queue_past y" "\<not> (hk_samples (st_sink y) = [] \<and> hk_changes (st_sink y) = [])"
  shows "payload_past (formed_batch P (st_sink y) i) (unix_milli (st_now y))"
    and "bp_batch_id (formed_batch P (st_sink y) i) = i"
  using assms unix_milli_mono [of 0] unix_milli_mono [of _ "st_now y"]
  by (auto simp: payload_past_def formed_batch_def build_payload_def wire_sample_of_def
      wire_change_of_def queue_past_def unix_milli_def [of 0])

lemma site_ok_flush_batch:
  assumes ok: "site_ok P y" and bound: "0 \<le> sp_max P"
    and go: "\<not> (hk_samples (st_sink y) = [] \<and> hk_changes (st_sink y) = [])" "fe_id env = Some i"
      "\<not> fe_marshal_fails env" and fresh: "i \<notin> bp_batch_id ` set (st_formed y)"
    and p: "p = formed_batch P (st_sink y) i"
    and ex: "exchange (sp_rnd P) (sp_ovf P) (sp_token P) (st_now y) net p (st_db y) = (res, stored, db')"
    and fl: "flush_once (sp_rnd P) (sp_len P) (sp_max P) (env\<lparr>fe_response := res\<rparr>) (st_sink y) (st_buf y)
       = (rep, k', buf')"
  shows "site_ok P
       (y\<lparr>st_sink := k', st_buf := buf', st_db := db', st_formed := st_formed y @ [p],
          st_stored := st_stored y @ (if stored then [(p, unix_milli (st_now y))] else []),
          st_given_up := st_given_up y @ dropped_payloads (st_buf y) buf'
            @ (case rep of DeliveredLive _ \<Rightarrow> [] | SpilledBatch _ _ \<Rightarrow> dropped_payloads
                  [\<lparr>pb_batch_id = i, pb_created_at = unix_milli (fe_now env), pb_payload = p\<rparr>] buf'
               | _ \<Rightarrow> [p])\<rparr>)"
    (is "site_ok P ?y")
proof -
  let ?row = "\<lparr>pb_batch_id = i, pb_created_at = unix_milli (fe_now env), pb_payload = p\<rparr>"
  let ?y1 = "y\<lparr>st_formed := st_formed y @ [p]\<rparr>"
  have past: "payload_past p (unix_milli (st_now y))" "bp_batch_id p = i"
    using formed_batch_past [of y P i] ok go(1) p by (auto simp: site_ok_def)
  have f1: "formed_ok ?y1"
    using ok fresh past by (simp add: site_ok_def formed_ok_def)
  have s1: "stored_ok ?y1" "rows_ok P ?y1"
    using ok by (auto simp: site_ok_def stored_ok_def still_logged_def)
  have "stored_ok ?y \<and> rows_ok P ?y \<and> (classify_response res = OutcomeOK \<longrightarrow> p \<in> fst ` set (st_stored ?y))"
    using exchange_stored_ok [OF f1 s1, of p "sp_token P" net res stored db'] ex
    by (simp add: stored_ok_def rows_ok_def still_logged_def)
  then have st: "stored_ok ?y" "rows_ok P ?y"
      "classify_response res = OutcomeOK \<Longrightarrow> p \<in> fst ` set (st_stored ?y)" by blast+
  have keys: "keys_ok (st_buf y)" using ok by (simp add: site_ok_def buf_ok_def)
  have fb: "keys_ok buf' \<and> hk_samples k' = [] \<and> hk_changes k' = []
    \<and> (case post_json (fe_cancelled env) res of
         OutcomeOK \<Rightarrow> rep = DeliveredLive i \<and> buf' = st_buf y
       | OutcomeRetry \<Rightarrow> rep = BatchLost i \<and> buf' = st_buf y
           \<or> (\<exists>n. rep = SpilledBatch i n) \<and> set buf' \<subseteq> insert ?row (set (st_buf y))
       | OutcomeDrop \<Rightarrow> rep = BatchRejected i \<and> buf' = st_buf y
       | OutcomeUnauthorized \<Rightarrow> rep = FatalUnauthorized i \<and> buf' = st_buf y)"
    using flush_once_batch [OF keys bound go(1) _ _ fl] go(2,3)
    by (simp add: p formed_batch_def cong: outcome.case_cong)
  have sub: "set buf' \<subseteq> insert ?row (set (st_buf y))"
    using fb by (auto split: outcome.splits)
  have buf: "buf_ok ?y"
    using fb sub ok past(2) by (auto simp: site_ok_def buf_ok_def)
  have evicted: "q \<in> pb_payload ` set buf' \<union> set (st_given_up ?y)" if "q \<in> pb_payload ` set (st_buf y)" for q
    using that by (auto simp: dropped_payloads_def)
  have new: "p \<in> fst ` set (st_stored ?y) \<union> pb_payload ` set buf' \<union> set (st_given_up ?y)"
  proof (cases "post_json (fe_cancelled env) res")
    case OutcomeOK
    then have "classify_response res = OutcomeOK"
      by (auto simp: post_json_def classify_response_def split: if_splits)
    with st(3) show ?thesis by blast
  next
    case OutcomeRetry
    show ?thesis
    proof (cases "rep = BatchLost i")
      case False
      with fb OutcomeRetry obtain n where "rep = SpilledBatch i n" by auto
      then show ?thesis by (cases "?row \<in> set buf'") (force simp: dropped_payloads_def)+
    qed simp
  qed (use fb in simp_all)
  have before: "set (st_formed y) \<subseteq> fst ` set (st_stored y) \<union> pb_payload ` set (st_buf y) \<union> set (st_given_up y)"
    using ok by (simp add: site_ok_def loss_ok_def)
  have "set (st_formed y) \<subseteq> fst ` set (st_stored ?y) \<union> pb_payload ` set buf' \<union> set (st_given_up ?y)"
  proof (rule cover_mono [OF before])
    show "fst ` set (st_stored y) \<subseteq> fst ` set (st_stored ?y)" by auto
    show "set (st_given_up y) \<subseteq> set (st_given_up ?y)" by auto
    show "q \<in> fst ` set (st_stored ?y) \<union> pb_payload ` set buf' \<union> set (st_given_up ?y)"
      if "q \<in> pb_payload ` set (st_buf y)" for q
      using evicted [OF that] by (elim UnE) (rule UnI1 [OF UnI2], assumption, rule UnI2)
  qed
  with new have "loss_ok ?y" by (simp add: loss_ok_def)
  moreover have "queue_past ?y" "drain_ok ?y" "formed_ok ?y"
    using fb ok f1 by (auto simp: site_ok_def queue_past_def drain_ok_def formed_ok_def)
  ultimately show ?thesis using st buf by (simp add: site_ok_def)
qed


lemma site_ok_step [inv_facts]:
  assumes "0 \<le> sp_max P" "site_ok P y" "site_step P y y'"
  shows "site_ok P y'"
  using assms(3)
proof (cases rule: site_step.cases)
  case write_sample
  then show ?thesis using assms(2) by (auto intro: site_ok_write_sample)
next
  case write_change
  then show ?thesis using assms(2) by (auto intro: site_ok_write_change)
next
  case flush_idle
  then show ?thesis using assms(1,2) by (auto intro!: site_ok_flush_idle)
next
  case (flush_batch env i p net res stored db' rep k' buf')
  show ?thesis unfolding flush_batch(1)
    by (rule site_ok_flush_batch [OF assms(2,1) flush_batch(2-8)])
next
  case (drain_post i p net res stored db')
  show ?thesis unfolding drain_post(1) by (rule site_ok_drain_post [OF assms(2) drain_post(3,4)])
next
  case (drain_delete i res fails)
  show ?thesis unfolding drain_delete(1) by (rule site_ok_drain_delete [OF assms(2) drain_delete(2)])
next
  case tick
  then show ?thesis using assms(2) by (auto intro: site_ok_tick)
next
  case prune
  then show ?thesis using assms(2) by (auto intro: site_ok_prune)
qed

lemma site_ok_new:
  assumes "hk_samples k = []" "hk_changes k = []" "unix_milli now < 2 ^ 62"
  shows "site_ok P (new_site k now)"
  using assms by (simp add: site_ok_def site_defs new_site_def logged_ids_def)

lemma site_ok_run:
  assumes "site_run P y0 y" "0 \<le> sp_max P" "site_ok P y0"
  shows "site_ok P y"
  using assms by (induction rule: site_run.induct) (auto intro: site_ok_step)



definition demo_params :: site_params where
  "demo_params = \<lparr>sp_rnd = id, sp_ovf = id, sp_len = (\<lambda>_. 3), sp_max = 6, sp_token = ''tok''\<rparr>"

definition demo_site :: site where
  "demo_site = new_site (demo_sink\<lparr>hk_samples := []\<rparr>) (1000 * go_second)"

definition demo_measured :: sample where
  "demo_measured = \<lparr>s_Target = V4 9, s_TargetID = ''t'', s_TTL = 3, s_Ts = 999 * go_second, s_IP = NoAddr,
     s_RTT = 2000000\<rparr>"

definition demo_flush_env :: flush_env where
  "demo_flush_env = \<lparr>fe_id = Some ''b1'', fe_marshal_fails = False, fe_response = TransportError,
     fe_cancelled = False, fe_add = no_add_faults, fe_now = 1000 * go_second\<rparr>"


end
