(* ===== verification/Retention.thy ===== *)
theory Retention
  imports Delivery AlertStore
begin

text \<open>
  \<open>internal/retention/worker.go\<close> with \<open>internal/storage/retention.go\<close>, \<open>dbsize.go\<close> and the pruning
  statements of \<open>probes.go\<close> and \<open>alerts.go\<close>: the hourly sweep that enforces the retention policy.
  Samples go in bounded batches, a loop that ends because each full batch deletes rows; the other
  tables go in one statement each, and a failure of one does not keep the others from being pruned.
  The cutoff is computed in Go's 64-bit nanosecond durations, wrap-around included.
\<close>

section \<open>State\<close>

record size_sample =
  sz_ts :: int
  sz_bytes :: int

record retention_store =
  rs_tables :: ingest_tables
  rs_alerts :: alerting
  rs_config :: kv
  rs_sizes :: "size_sample list"
  rs_checkpoints :: "(nat \<times> bool) list"
  rs_faults :: "bool list"

record retention_config =
  rc_days :: int
  rc_db_path :: string

definition next_fault :: "retention_store \<Rightarrow> bool \<times> retention_store" where
  "next_fault w = (case rs_faults w of [] \<Rightarrow> (False, w) | b # bs \<Rightarrow> (b, w\<lparr>rs_faults := bs\<rparr>))"

section \<open>Deleting samples in batches\<close>

text \<open>\<open>DELETE ... WHERE rowid IN (SELECT rowid ... LIMIT n)\<close>: the first \<open>n\<close> matching rows.\<close>

fun delete_limited :: "nat \<Rightarrow> ('a \<Rightarrow> bool) \<Rightarrow> 'a list \<Rightarrow> 'a list" where
  "delete_limited 0 P xs = xs"
| "delete_limited (Suc n) P [] = []"
| "delete_limited (Suc n) P (x # xs) = (if P x then delete_limited n P xs else x # delete_limited (Suc n) P xs)"

lemma delete_limited_length:
  "length (delete_limited n P xs) = length xs - min n (length (filter P xs))"
proof (induction n P xs rule: delete_limited.induct)
  case (3 n P x xs)
  have "Suc n \<le> length (filter P xs) \<Longrightarrow> Suc (length xs - Suc n) = length xs - n"
    using length_filter_le [of P xs] by linarith
  then show ?case using 3 by (auto simp: min_def Suc_diff_le)
qed simp_all

lemma delete_limited_full:
  "length (filter P xs) \<le> n \<Longrightarrow> delete_limited n P xs = filter (\<lambda>x. \<not> P x) xs"
  by (induction n P xs rule: delete_limited.induct) (auto simp: filter_empty_conv intro!: filter_True [symmetric])

lemma delete_limited_keeps: "filter (\<lambda>x. \<not> P x) (delete_limited n P xs) = filter (\<lambda>x. \<not> P x) xs"
  by (induction n P xs rule: delete_limited.induct) auto

lemma delete_limited_subset: "set (delete_limited n P xs) \<subseteq> set xs"
  by (induction n P xs rule: delete_limited.induct) auto

definition old_sample :: "int \<Rightarrow> string \<times> sample_row \<Rightarrow> bool" where
  "old_sample cutoff r \<longleftrightarrow> sr_ts (snd r) < cutoff"

definition set_samples :: "(string \<times> sample_row) list \<Rightarrow> retention_store \<Rightarrow> retention_store" where
  "set_samples rows w = w\<lparr>rs_tables := (rs_tables w)\<lparr>it_samples := rows\<rparr>\<rparr>"

text \<open>The loop of \<open>DeleteSamplesOlderThan\<close> with batches of \<open>b + 1\<close> rows: whether it succeeded, and the
  number of rows it deleted.\<close>

function delete_samples_loop :: "nat \<Rightarrow> int \<Rightarrow> nat \<Rightarrow> retention_store \<Rightarrow> (bool \<times> nat) \<times> retention_store" where
  "delete_samples_loop b cutoff acc w =
     (if fst (next_fault w) then ((False, acc), snd (next_fault w))
      else let rows = it_samples (rs_tables w);
               rows' = delete_limited (Suc b) (old_sample cutoff) rows;
               n = length rows - length rows';
               w' = set_samples rows' (snd (next_fault w))
           in if n < Suc b then ((True, acc + n), w')
              else delete_samples_loop b cutoff (acc + n) w')"
  by pat_completeness auto
termination
  by (relation "measure (\<lambda>(b, cutoff, acc, w). length (it_samples (rs_tables w)))")
     (auto simp: set_samples_def)

declare delete_samples_loop.simps [simp del]

definition delete_batch_rows :: nat where "delete_batch_rows = 50000"

definition delete_samples_older_than :: "instant \<Rightarrow> retention_store \<Rightarrow> (bool \<times> nat) \<times> retention_store" where
  "delete_samples_older_than cutoff w = delete_samples_loop (delete_batch_rows - 1) (unix_milli cutoff) 0 w"

section \<open>The other tables\<close>

definition delete_route_changes_older_than :: "instant \<Rightarrow> retention_store \<Rightarrow> (bool \<times> nat) \<times> retention_store" where
  "delete_route_changes_older_than cutoff w = (case next_fault w of
     (True, w') \<Rightarrow> ((False, 0), w')
   | (False, w') \<Rightarrow>
       (let rows = it_changes (rs_tables w');
            rows' = filter (\<lambda>r. \<not> cr_ts (snd r) < unix_milli cutoff) rows
        in ((True, length rows - length rows'), w'\<lparr>rs_tables := (rs_tables w')\<lparr>it_changes := rows'\<rparr>\<rparr>)))"

definition prune_ingest_log :: "instant \<Rightarrow> retention_store \<Rightarrow> retention_store" where
  "prune_ingest_log cutoff w = (case next_fault w of
     (True, w') \<Rightarrow> w'
   | (False, w') \<Rightarrow> w'\<lparr>rs_tables := delete_ingest_log_older_than cutoff (rs_tables w')\<rparr>)"

definition append_db_size_sample :: "int \<Rightarrow> int \<Rightarrow> retention_store \<Rightarrow> retention_store" where
  "append_db_size_sample ts bytes w = (case next_fault w of
     (True, w') \<Rightarrow> w' | (False, w') \<Rightarrow> w'\<lparr>rs_sizes := rs_sizes w' @ [\<lparr>sz_ts = ts, sz_bytes = bytes\<rparr>]\<rparr>)"

definition delete_db_size_samples_older_than :: "int \<Rightarrow> retention_store \<Rightarrow> retention_store" where
  "delete_db_size_samples_older_than cutoff w = (case next_fault w of
     (True, w') \<Rightarrow> w' | (False, w') \<Rightarrow> w'\<lparr>rs_sizes := filter (\<lambda>s. \<not> sz_ts s < cutoff) (rs_sizes w')\<rparr>)"

text \<open>\<open>DBSizeSamples\<close>, read by the capacity monitor.\<close>

definition db_size_samples :: "int \<Rightarrow> size_sample list \<Rightarrow> size_sample list" where
  "db_size_samples since rows = sort_key sz_ts (filter (\<lambda>s. sz_ts s \<ge> since) rows)"

section \<open>The checkpoint with retries\<close>

text \<open>\<open>run k\<close> is the outcome of attempt \<open>k\<close> (frames, or failure) and \<open>ctx_err k\<close> whether the context had
  ended by then. The result: the last frames, the number of attempts, and success.\<close>

function checkpoint_from :: "nat \<Rightarrow> nat \<Rightarrow> (nat \<Rightarrow> nat option) \<Rightarrow> (nat \<Rightarrow> bool) \<Rightarrow> nat option \<times> nat" where
  "checkpoint_from maxa k run ctx_err =
     (if run k \<noteq> None \<or> k \<ge> maxa \<or> ctx_err k then (run k, k)
      else checkpoint_from maxa (k + 1) run ctx_err)"
  by pat_completeness auto
termination by (relation "measure (\<lambda>(maxa, k, run, ctx_err). maxa - k)") auto

declare checkpoint_from.simps [simp del]

definition checkpoint_with_retry :: "nat \<Rightarrow> (nat \<Rightarrow> nat option) \<Rightarrow> (nat \<Rightarrow> bool) \<Rightarrow> nat option \<times> nat" where
  "checkpoint_with_retry maxa run ctx_err = checkpoint_from maxa 1 run ctx_err"

definition retention_checkpoint :: "(nat \<Rightarrow> nat option) \<Rightarrow> (nat \<Rightarrow> bool) \<Rightarrow> retention_store \<Rightarrow> retention_store" where
  "retention_checkpoint run ctx_err w = (case checkpoint_with_retry 5 run ctx_err of
     (frames, attempts) \<Rightarrow> w\<lparr>rs_checkpoints := rs_checkpoints w @ [(attempts, frames \<noteq> None)]\<rparr>)"

section \<open>The sweep\<close>

definition effective_days :: "bool \<Rightarrow> kv \<Rightarrow> int \<Rightarrow> int" where
  "effective_days fault kv fallback = (case get_config fault ''retention.days'' kv of
     Inr (Some v) \<Rightarrow> (case go_atoi v of
         Some n \<Rightarrow> if n \<ge> 1 \<and> n \<le> 3650 then n else fallback
       | None \<Rightarrow> fallback)
   | _ \<Rightarrow> fallback)"

text \<open>\<open>now.Add(-time.Duration(days) * 24 * time.Hour)\<close>: the products wrap at 64 bits.\<close>

definition retention_cutoff :: "instant \<Rightarrow> int \<Rightarrow> instant" where
  "retention_cutoff now days = now + wrap64 (wrap64 (wrap64 (- days) * 24) * go_hour)"

definition db_size_window :: duration where "db_size_window = 14 * 24 * go_hour"

record sweep_input =
  sw_now :: instant
  sw_checkpoint :: "nat \<Rightarrow> nat option"
  sw_ctx_err :: "nat \<Rightarrow> bool"
  sw_file_size :: "int option"

definition record_db_size :: "retention_config \<Rightarrow> sweep_input \<Rightarrow> retention_store \<Rightarrow> retention_store" where
  "record_db_size cfg inp w =
     (if rc_db_path cfg = [] then w
      else (let w1 = (case sw_file_size inp of None \<Rightarrow> w
                | Some n \<Rightarrow> append_db_size_sample (unix_milli (sw_now inp)) n w)
            in delete_db_size_samples_older_than (unix_milli (sw_now inp - db_size_window)) w1))"

definition prune_alert_history :: "instant \<Rightarrow> retention_store \<Rightarrow> retention_store" where
  "prune_alert_history cutoff w =
     w\<lparr>rs_alerts := snd (delete_alert_history_older_than cutoff (rs_alerts w))\<rparr>"

definition sweep_tables :: "retention_config \<Rightarrow> sweep_input \<Rightarrow> retention_store \<Rightarrow> retention_store" where
  "sweep_tables cfg inp w =
     (let now = sw_now inp;
          (fault, w0) = next_fault w;
          cutoff = retention_cutoff now (effective_days fault (rs_config w0) (rc_days cfg));
          w1 = snd (delete_samples_older_than cutoff w0);
          w2 = snd (delete_route_changes_older_than cutoff w1);
          w3 = prune_alert_history (now - 90 * 24 * go_hour) w2
      in prune_ingest_log (now - 24 * go_hour) w3)"

definition retention_run_once :: "retention_config \<Rightarrow> sweep_input \<Rightarrow> retention_store \<Rightarrow> retention_store" where
  "retention_run_once cfg inp w =
     record_db_size cfg inp (retention_checkpoint (sw_checkpoint inp) (sw_ctx_err inp) (sweep_tables cfg inp w))"

datatype retention_event = SweepTick sweep_input | CheckpointTick "nat \<Rightarrow> nat option" "nat \<Rightarrow> bool"

text \<open>\<open>Run\<close>: one sweep at once, then whatever the two tickers bring.\<close>

fun retention_event_step :: "retention_config \<Rightarrow> retention_event \<Rightarrow> retention_store \<Rightarrow> retention_store" where
  "retention_event_step cfg (SweepTick inp) w = retention_run_once cfg inp w"
| "retention_event_step cfg (CheckpointTick run ctx_err) w = retention_checkpoint run ctx_err w"

definition retention_run :: "retention_config \<Rightarrow> sweep_input \<Rightarrow> retention_event list \<Rightarrow> retention_store \<Rightarrow> retention_store" where
  "retention_run cfg first evs w = fold (retention_event_step cfg) evs (retention_run_once cfg first w)"

section \<open>The loop computes one DELETE\<close>

lemma next_fault_frame [simp]:
  "rs_tables (snd (next_fault w)) = rs_tables w" "rs_alerts (snd (next_fault w)) = rs_alerts w"
  "rs_config (snd (next_fault w)) = rs_config w" "rs_sizes (snd (next_fault w)) = rs_sizes w"
  by (simp_all add: next_fault_def split: list.split)

lemma next_fault_dest:
  "next_fault w = (b, w') \<Longrightarrow> rs_tables w' = rs_tables w \<and> rs_alerts w' = rs_alerts w \<and> rs_config w' = rs_config w"
  using next_fault_frame [of w] by simp

lemma next_fault_none [simp]: "rs_faults w = [] \<Longrightarrow> next_fault w = (False, w)"
  by (simp add: next_fault_def)

lemma delete_samples_loop_ok:
  assumes "rs_faults w = []"
  shows "delete_samples_loop b cutoff acc w =
    ((True, acc + length (filter (old_sample cutoff) (it_samples (rs_tables w)))),
     set_samples (filter (\<lambda>r. \<not> old_sample cutoff r) (it_samples (rs_tables w))) w)"
  using assms
proof (induction b cutoff acc w rule: delete_samples_loop.induct)
  case (1 b cutoff acc w)
  let ?P = "old_sample cutoff"
  let ?rows = "it_samples (rs_tables w)"
  let ?rows' = "delete_limited (Suc b) ?P ?rows"
  have n: "length ?rows - length ?rows' = min (Suc b) (length (filter ?P ?rows))"
  proof -
    have "min (Suc b) (length (filter ?P ?rows)) \<le> length ?rows"
      by (rule le_trans [OF min.cobounded2 length_filter_le])
    then show ?thesis by (simp add: delete_limited_length)
  qed
  show ?case
  proof (cases "length ?rows - length ?rows' < Suc b")
    case True
    then have le: "length (filter ?P ?rows) \<le> Suc b" using n by linarith
    have lt: "length (filter ?P ?rows) < Suc b" using True n by linarith
    have "min (Suc b) (length (filter ?P ?rows)) = length (filter ?P ?rows)" using le by simp
    then show ?thesis
      using lt 1(2) n delete_limited_full [OF le]
      by (subst delete_samples_loop.simps) (simp add: Let_def)
  next
    case False
    then have full: "length (filter ?P ?rows) \<ge> Suc b" using n by linarith
    define w' where "w' = set_samples ?rows' w"
    have w': "rs_faults w' = []" "it_samples (rs_tables w') = ?rows'" using 1(2) by (simp_all add: w'_def set_samples_def)
    have kept: "filter (\<lambda>r. \<not> ?P r) ?rows' = filter (\<lambda>r. \<not> ?P r) ?rows" by (rule delete_limited_keeps)
    have "length ?rows' = length (filter ?P ?rows') + length (filter (\<lambda>r. \<not> ?P r) ?rows')"
      "length ?rows = length (filter ?P ?rows) + length (filter (\<lambda>r. \<not> ?P r) ?rows)"
      by (rule sum_length_filter_compl [symmetric])+
    then have cnt: "acc + (length ?rows - length ?rows') + length (filter ?P ?rows') = acc + length (filter ?P ?rows)"
      using kept n full by simp
    have step: "delete_samples_loop b cutoff acc w
        = delete_samples_loop b cutoff (acc + (length ?rows - length ?rows')) w'"
      using False 1(2) by (subst delete_samples_loop.simps) (simp add: Let_def w'_def)
    have "delete_samples_loop b cutoff (acc + (length ?rows - length ?rows')) w' =
      ((True, acc + (length ?rows - length ?rows') + length (filter ?P ?rows')),
       set_samples (filter (\<lambda>r. \<not> ?P r) ?rows') w')"
      using 1(1) [OF _ refl refl refl refl] False 1(2) w' by (simp add: w'_def)
    then show ?thesis using step cnt kept by (simp add: w'_def set_samples_def)
  qed
qed

text \<open>Whatever fails, a row at or after the cutoff stays, in its place, and none appears.\<close>

lemma delete_samples_loop_safe:
  "filter (\<lambda>r. \<not> old_sample cutoff r) (it_samples (rs_tables (snd (delete_samples_loop b cutoff acc w))))
     = filter (\<lambda>r. \<not> old_sample cutoff r) (it_samples (rs_tables w))
   \<and> set (it_samples (rs_tables (snd (delete_samples_loop b cutoff acc w)))) \<subseteq> set (it_samples (rs_tables w))
   \<and> it_changes (rs_tables (snd (delete_samples_loop b cutoff acc w))) = it_changes (rs_tables w)
   \<and> it_log (rs_tables (snd (delete_samples_loop b cutoff acc w))) = it_log (rs_tables w)
   \<and> rs_config (snd (delete_samples_loop b cutoff acc w)) = rs_config w"
proof (induction b cutoff acc w rule: delete_samples_loop.induct)
  case (1 b cutoff acc w)
  let ?rows = "it_samples (rs_tables w)"
  let ?rows' = "delete_limited (Suc b) (old_sample cutoff) ?rows"
  show ?case
  proof (cases "fst (next_fault w)")
    case True
    then show ?thesis by (subst (1 2 3 4 5) delete_samples_loop.simps) simp
  next
    case ok: False
    show ?thesis
    proof (cases "length ?rows - length ?rows' < Suc b")
      case True
      then show ?thesis using ok delete_limited_keeps [of "old_sample cutoff" "Suc b" ?rows]
          delete_limited_subset [of "Suc b" "old_sample cutoff" ?rows]
        by (subst (1 2 3 4 5) delete_samples_loop.simps) (auto simp: Let_def set_samples_def)
    next
      case False
      have step: "delete_samples_loop b cutoff acc w = delete_samples_loop b cutoff
          (acc + (length ?rows - length ?rows')) (set_samples ?rows' (snd (next_fault w)))"
        using ok False by (subst delete_samples_loop.simps) (simp add: Let_def)
      show ?thesis
        unfolding step
        using 1 [OF ok refl refl refl refl False] delete_limited_keeps [of "old_sample cutoff" "Suc b" ?rows]
          delete_limited_subset [of "Suc b" "old_sample cutoff" ?rows]
        by (auto simp: set_samples_def)
    qed
  qed
qed

section \<open>The cutoff\<close>

text \<open>The largest number of days whose nanoseconds fit an \<open>int64\<close>.\<close>

definition max_exact_days :: int where "max_exact_days = 106751"

lemma retention_cutoff_exact:
  assumes "1 \<le> days" "days \<le> max_exact_days"
  shows "retention_cutoff now days = now - days * 24 * go_hour"
proof -
  have "wrap64 (- days) = - days" "wrap64 (- days * 24) = - days * 24"
    "wrap64 (- days * 24 * go_hour) = - days * 24 * go_hour"
    using assms by (simp_all add: wrap64_id max_exact_days_def go_units)
  then show ?thesis by (simp add: retention_cutoff_def)
qed

lemma retention_cutoff_overflows: "retention_cutoff now 999999 = now + 5833806768547758080"
  by (simp add: retention_cutoff_def wrap64_def go_units)

section \<open>What a sweep leaves\<close>

text \<open>The rows a sweep must keep: samples and route changes inside the policy window, alert history of 90
  days, ingest log of 24 hours.\<close>

definition young_sample :: "instant \<Rightarrow> string \<times> sample_row \<Rightarrow> bool" where
  "young_sample cutoff r \<longleftrightarrow> unix_milli cutoff \<le> sr_ts (snd r)"

definition young_change :: "instant \<Rightarrow> string \<times> change_row \<Rightarrow> bool" where
  "young_change cutoff r \<longleftrightarrow> unix_milli cutoff \<le> cr_ts (snd r)"

lemma samples_step_ok:
  "rs_faults w = [] \<Longrightarrow> snd (delete_samples_older_than cutoff w)
     = set_samples (filter (young_sample cutoff) (it_samples (rs_tables w))) w"
  by (simp add: delete_samples_older_than_def delete_samples_loop_ok old_sample_def young_sample_def [abs_def] not_less)

lemma changes_step_ok:
  "rs_faults w = [] \<Longrightarrow> snd (delete_route_changes_older_than cutoff w)
     = w\<lparr>rs_tables := (rs_tables w)\<lparr>it_changes := filter (young_change cutoff) (it_changes (rs_tables w))\<rparr>\<rparr>"
  by (simp add: delete_route_changes_older_than_def Let_def young_change_def [abs_def] not_less)

lemma record_db_size_frame [simp]:
  "rs_tables (record_db_size cfg inp w) = rs_tables w" "rs_alerts (record_db_size cfg inp w) = rs_alerts w"
  by (simp_all add: record_db_size_def append_db_size_sample_def delete_db_size_samples_older_than_def
      Let_def next_fault_def split: option.split list.split bool.split)

lemma retention_checkpoint_frame [simp]:
  "rs_tables (retention_checkpoint run ctx_err w) = rs_tables w"
  "rs_alerts (retention_checkpoint run ctx_err w) = rs_alerts w"
  by (simp_all add: retention_checkpoint_def split: prod.split)


definition demo_rows :: "(string \<times> sample_row) list" where
  "demo_rows = [(''local'', \<lparr>sr_target = ''t'', sr_ttl = 1, sr_ts = 0, sr_ip = None, sr_rtt_us = 0\<rparr>),
     (''local'', \<lparr>sr_target = ''t'', sr_ttl = 1, sr_ts = 864000000, sr_ip = None, sr_rtt_us = 0\<rparr>)]"

definition demo_retention :: retention_store where
  "demo_retention = \<lparr>rs_tables = \<lparr>it_log = [], it_samples = demo_rows, it_changes = []\<rparr>, rs_alerts =
     \<lparr>al_cfg = default_alert_config, al_last = Map.empty, al_sent = [], al_states = [], al_queue = [],
      al_queue_seq = 0, al_history = [], al_history_seq = 0, al_summary = NoRow, al_faults = []\<rparr>,
     rs_config = Map.empty, rs_sizes = [], rs_checkpoints = [], rs_faults = []\<rparr>"

definition demo_sweep :: sweep_input where
  "demo_sweep = \<lparr>sw_now = 10 * 24 * go_hour, sw_checkpoint = (\<lambda>_. Some 0), sw_ctx_err = (\<lambda>_. False),
     sw_file_size = Some 4096\<rparr>"


text \<open>Failures delete less, never more: what a failed sweep must keep it keeps, in order.\<close>

lemma sweep_tables_safe:
  assumes "days = effective_days (fst (next_fault w)) (rs_config w) (rc_days cfg)"
    and "cutoff = retention_cutoff (sw_now inp) days"
  shows "filter (young_sample cutoff) (it_samples (rs_tables (sweep_tables cfg inp w)))
      = filter (young_sample cutoff) (it_samples (rs_tables w))"
    and "filter (young_change cutoff) (it_changes (rs_tables (sweep_tables cfg inp w)))
      = filter (young_change cutoff) (it_changes (rs_tables w))"
proof -
  obtain fault w0 where f: "next_fault w = (fault, w0)" by (cases "next_fault w")
  have w0: "rs_tables w0 = rs_tables w" "rs_config w0 = rs_config w"
    using next_fault_frame [of w] by (simp_all add: f)
  define w1 where "w1 = snd (delete_samples_older_than cutoff w0)"
  define w2 where "w2 = snd (delete_route_changes_older_than cutoff w1)"
  have s1: "filter (young_sample cutoff) (it_samples (rs_tables w1)) = filter (young_sample cutoff) (it_samples (rs_tables w))"
    "it_changes (rs_tables w1) = it_changes (rs_tables w)"
    using delete_samples_loop_safe [of "unix_milli cutoff" "delete_batch_rows - 1" 0 w0]
    by (simp_all add: w1_def delete_samples_older_than_def old_sample_def young_sample_def [abs_def] not_less w0)
  have s2: "it_samples (rs_tables w2) = it_samples (rs_tables w1)"
    "filter (young_change cutoff) (it_changes (rs_tables w2)) = filter (young_change cutoff) (it_changes (rs_tables w1))"
    by (auto simp: w2_def delete_route_changes_older_than_def Let_def young_change_def [abs_def] not_less
        split: prod.split bool.split dest!: next_fault_dest)
  have p: "it_samples (rs_tables (prune_ingest_log c v)) = it_samples (rs_tables v)"
    "it_changes (rs_tables (prune_ingest_log c v)) = it_changes (rs_tables v)" for c v
    by (auto simp: prune_ingest_log_def delete_ingest_log_older_than_def split: prod.split bool.split
        dest!: next_fault_dest)
  have "rs_tables (sweep_tables cfg inp w)
      = rs_tables (prune_ingest_log (sw_now inp - 24 * go_hour) (prune_alert_history (sw_now inp - 90 * 24 * go_hour) w2))"
    using assms f w0 by (simp add: sweep_tables_def Let_def w1_def w2_def)
  then show "filter (young_sample cutoff) (it_samples (rs_tables (sweep_tables cfg inp w)))
      = filter (young_sample cutoff) (it_samples (rs_tables w))"
    and "filter (young_change cutoff) (it_changes (rs_tables (sweep_tables cfg inp w)))
      = filter (young_change cutoff) (it_changes (rs_tables w))"
    using s1 s2 by (simp_all add: p prune_alert_history_def)
qed

text \<open> A sweep never deletes a row inside the policy window, whichever of its statements fail: the samples
  and route changes not older than the cutoff are all there afterwards, in their order, for every
  policy of at most 106751 days.\<close>

theorem sweep_keeps_the_window:
  assumes "days = effective_days (fst (next_fault w)) (rs_config w) (rc_days cfg)" "1 \<le> days" "days \<le> max_exact_days"
    and "cutoff = sw_now inp - days * 24 * go_hour"
  shows "filter (young_sample cutoff) (it_samples (rs_tables (retention_run_once cfg inp w)))
       = filter (young_sample cutoff) (it_samples (rs_tables w))
     \<and> filter (young_change cutoff) (it_changes (rs_tables (retention_run_once cfg inp w)))
       = filter (young_change cutoff) (it_changes (rs_tables w))"
  using sweep_tables_safe [OF assms(1) refl, of inp] retention_cutoff_exact [OF assms(2,3)] assms(4)
  by (simp add: retention_run_once_def)

lemma sweep_keeps_the_window_witness:
  "filter (young_sample (3 * 24 * go_hour)) (it_samples (rs_tables (retention_run_once
      \<lparr>rc_days = 7, rc_db_path = ''db''\<rparr> demo_sweep (demo_retention\<lparr>rs_faults := [False, True, True]\<rparr>))))
   = [demo_rows ! 1]"
proof -
  have "filter (young_sample (3 * 24 * go_hour)) (it_samples (rs_tables (retention_run_once
      \<lparr>rc_days = 7, rc_db_path = ''db''\<rparr> demo_sweep (demo_retention\<lparr>rs_faults := [False, True, True]\<rparr>))))
    = filter (young_sample (3 * 24 * go_hour)) (it_samples (rs_tables (demo_retention\<lparr>rs_faults := [False, True, True]\<rparr>)))"
    by (rule sweep_keeps_the_window [where days = 7, THEN conjunct1])
       (simp_all add: demo_retention_def effective_days_def get_config_def max_exact_days_def demo_sweep_def next_fault_def go_units)
  then show ?thesis
    by (simp add: demo_retention_def demo_rows_def young_sample_def unix_milli_def go_units)
qed

text \<open> Above 106751 days the duration overflows: a policy of 999999 days (which the configuration file
  admits) puts the cutoff 184 years into the future, and the first sweep deletes every sample that
  is not from beyond it.\<close>

theorem huge_retention_deletes_everything:
  assumes "rs_faults w = []" "rs_config w = Map.empty" "rc_days cfg = 999999"
    and "\<And>r. r \<in> set (it_samples (rs_tables w)) \<Longrightarrow> sr_ts (snd r) \<le> unix_milli (sw_now inp)"
  shows "it_samples (rs_tables (retention_run_once cfg inp w)) = []"
proof -
  have "unix_milli (sw_now inp) < unix_milli (sw_now inp + 5833806768547758080)"
  proof -
    have "unix_milli (sw_now inp) + 1 \<le> unix_milli (sw_now inp + 5833806768547758080)"
      using unix_milli_mono [of "sw_now inp + 1 * go_ms" "sw_now inp + 5833806768547758080"]
      by (simp add: unix_milli_def go_ms_def)
    then show ?thesis by simp
  qed
  then have none: "filter (young_sample (retention_cutoff (sw_now inp) 999999)) (it_samples (rs_tables w)) = []"
    using assms(4) by (force simp: filter_empty_conv young_sample_def retention_cutoff_overflows)
  have "it_samples (rs_tables (sweep_tables cfg inp w))
      = filter (young_sample (retention_cutoff (sw_now inp) 999999)) (it_samples (rs_tables w))"
    using assms(1-3) by (simp add: sweep_tables_def Let_def effective_days_def get_config_def samples_step_ok
        changes_step_ok set_samples_def prune_ingest_log_def delete_ingest_log_older_than_def prune_alert_history_def)
  then show ?thesis using none by (simp add: retention_run_once_def)
qed

lemma huge_retention_deletes_everything_witness:
  "it_samples (rs_tables (retention_run_once \<lparr>rc_days = 999999, rc_db_path = []\<rparr> demo_sweep demo_retention)) = []"
  by (rule huge_retention_deletes_everything)
     (auto simp: demo_retention_def demo_rows_def demo_sweep_def unix_milli_def go_units)

section \<open>The checkpoint\<close>

lemma checkpoint_from_spec:
  assumes "k \<le> maxa"
  shows "\<exists>n. checkpoint_from maxa k run ctx_err = (run n, n) \<and> k \<le> n \<and> n \<le> maxa
    \<and> (\<forall>i. k \<le> i \<and> i < n \<longrightarrow> run i = None \<and> \<not> ctx_err i)
    \<and> (run n \<noteq> None \<or> n = maxa \<or> ctx_err n)"
  using assms
proof (induction maxa k run ctx_err rule: checkpoint_from.induct)
  case (1 maxa k run ctx_err)
  show ?case
  proof (cases "run k \<noteq> None \<or> k \<ge> maxa \<or> ctx_err k")
    case True
    then show ?thesis using 1(2) by (subst checkpoint_from.simps) auto
  next
    case False
    then obtain n where "checkpoint_from maxa (k + 1) run ctx_err = (run n, n)" "k + 1 \<le> n" "n \<le> maxa"
      "\<forall>i. k + 1 \<le> i \<and> i < n \<longrightarrow> run i = None \<and> \<not> ctx_err i" "run n \<noteq> None \<or> n = maxa \<or> ctx_err n"
      using 1(1) [OF False] by auto
    then show ?thesis using False
      by (intro exI [of _ n]) (subst checkpoint_from.simps, auto simp: le_Suc_eq Suc_le_eq nat_less_le)
  qed
qed

text \<open> The checkpoint is tried at most \<open>maxAttempts\<close> times and stops at the first success: it makes \<open>n\<close>
  attempts where every one before the last failed with the context alive, and the last succeeded,
  or was the last allowed, or found the context ended.\<close>

theorem checkpoint_retries_bounded:
  assumes "1 \<le> maxa"
  shows "\<exists>n. checkpoint_with_retry maxa run ctx_err = (run n, n) \<and> 1 \<le> n \<and> n \<le> maxa
    \<and> (\<forall>i. 1 \<le> i \<and> i < n \<longrightarrow> run i = None \<and> \<not> ctx_err i)
    \<and> (run n \<noteq> None \<or> n = maxa \<or> ctx_err n)"
  using checkpoint_from_spec [OF assms] by (simp add: checkpoint_with_retry_def)

lemma checkpoint_retries_bounded_witness:
  "\<exists>n. checkpoint_with_retry 5 (\<lambda>k. if k < 3 then None else Some 7) (\<lambda>_. False) = (Some 7, n) \<and> n \<le> 5"
proof -
  have one_le: "(1::nat) \<le> 5" by simp
  let ?f = "\<lambda>k::nat. if k < 3 then None else Some (7::nat)"
  obtain n where n: "checkpoint_with_retry 5 ?f (\<lambda>_. False) = (?f n, n)" "n \<le> 5" "?f n \<noteq> None \<or> n = 5 \<or> False"
    using checkpoint_retries_bounded [where maxa = 5 and run = ?f and ctx_err = "\<lambda>_. False", OF one_le]
    by blast
  then have "\<not> n < 3" by (auto split: if_splits)
  then show ?thesis using n by auto
qed

end
