(* ===== verification/Capacity.thy ===== *)
theory Capacity
  imports Retention AlertEngine
begin

text \<open>
  \<open>internal/capacity/capacity.go\<close>: the disk and growth measurement, its evaluation against the
  thresholds with hysteresis, and the providers \<open>cmd/hoptrail/main.go\<close> builds from it and from
  \<open>TargetWindowStats\<close> of \<open>internal/storage/alerts.go\<close> for the alert engine. Floating-point values are
  rational numbers; what the system calls answer (file sizes, \<open>statfs\<close>) is input.
\<close>

section \<open>Measuring\<close>

definition mib :: int where "mib = 2 ^ 20"
definition growth_window :: duration where "growth_window = 14 * 24 * go_hour"
definition min_growth_span :: duration where "min_growth_span = 2 * go_hour"
definition recover_hysteresis :: rat where "recover_hysteresis = 110 / 100"

text \<open>Conversion of a float to an integer truncates towards zero.\<close>

definition go_trunc :: "rat \<Rightarrow> int" where
  "go_trunc x = (if x < 0 then \<lceil>x\<rceil> else \<lfloor>x\<rfloor>)"

record metrics =
  me_free :: int
  me_total :: int
  me_db :: int
  me_wal :: int
  me_retention_days :: int
  me_has_growth :: bool
  me_mb_per_day :: rat
  me_days_of_data :: rat
  me_projected :: int
  me_headroom :: rat

record capacity_thresholds =
  ct_free_floor_mb :: int
  ct_free_pct_floor :: rat
  ct_headroom_min :: rat

record measure_input =
  mi_db_path :: string
  mi_db_size :: "int option"
  mi_wal_size :: "int option"
  mi_disk :: "(int \<times> int) option"
  mi_samples :: "size_sample list option"

definition span_days :: "int \<Rightarrow> rat" where
  "span_days ms = of_int ms / (1000 * 60 * 60 * 24)"

definition with_growth :: "size_sample list \<Rightarrow> metrics \<Rightarrow> metrics" where
  "with_growth samples m =
     (if length samples < 2 then m
      else (let a = hd samples; z = last samples; span = sz_ts z - sz_ts a
            in if span * go_ms < min_growth_span then m
               else (let per_day = of_int (sz_bytes z - sz_bytes a) / span_days span;
                         m1 = m\<lparr>me_has_growth := True, me_days_of_data := span_days span,
                                me_mb_per_day := per_day / of_int mib\<rparr>
                     in if per_day > 0 \<and> me_retention_days m > 0
                        then (let proj = go_trunc (per_day * of_int (me_retention_days m))
                              in m1\<lparr>me_projected := proj,
                                    me_headroom := of_int (me_free m + me_db m) / of_int proj\<rparr>)
                        else m1)))"

definition measure_capacity :: "measure_input \<Rightarrow> int \<Rightarrow> metrics option" where
  "measure_capacity inp days =
     (let size = (\<lambda>s. case s of None \<Rightarrow> 0 | Some n \<Rightarrow> n);
          m0 = \<lparr>me_free = 0, me_total = 0, me_db = 0, me_wal = 0, me_retention_days = days,
                me_has_growth = False, me_mb_per_day = 0, me_days_of_data = 0, me_projected = 0, me_headroom = 0\<rparr>
      in if mi_db_path inp \<noteq> [] \<and> mi_disk inp = None then None
         else (let m1 = (if mi_db_path inp = [] then m0
                 else (case mi_disk inp of None \<Rightarrow> m0 | Some (free, tot) \<Rightarrow>
                   m0\<lparr>me_db := size (mi_db_size inp), me_wal := size (mi_wal_size inp),
                      me_free := free, me_total := tot\<rparr>))
               in case mi_samples inp of None \<Rightarrow> None | Some samples \<Rightarrow> Some (with_growth samples m1)))"

section \<open>Evaluating\<close>

definition free_floor :: "capacity_thresholds \<Rightarrow> metrics \<Rightarrow> int" where
  "free_floor t m = (let mb = ct_free_floor_mb t * mib; pct = go_trunc (ct_free_pct_floor t * of_int (me_total m))
     in if pct > mb then pct else mb)"

datatype health = HealthOk | HealthWarn | HealthCritical | HealthUnknown

datatype capacity_reason = NoReason | ReasonFreeAndHeadroom int int | ReasonFree int int int | ReasonHeadroom

record verdict =
  vd_health :: health
  vd_tripped :: bool
  vd_reason :: capacity_reason

definition projects :: "metrics \<Rightarrow> bool" where
  "projects m \<longleftrightarrow> me_has_growth m \<and> me_projected m > 0"

definition evaluate_capacity :: "capacity_thresholds \<Rightarrow> bool \<Rightarrow> metrics \<Rightarrow> verdict" where
  "evaluate_capacity t active m =
     (if me_total m = 0 then \<lparr>vd_health = HealthUnknown, vd_tripped = False, vd_reason = NoReason\<rparr>
      else (let flr = free_floor t m;
                hyst = (if active then recover_hysteresis else 1);
                free_low = me_free m < go_trunc (of_int flr * hyst);
                headroom_low = (projects m \<and> me_headroom m < ct_headroom_min t * hyst)
            in \<lparr>vd_health =
                  (if me_free m < flr \<or> projects m \<and> me_headroom m < 1 then HealthCritical
                   else if projects m \<and> me_headroom m < ct_headroom_min t \<or> me_free m < flr * 2 then HealthWarn
                   else HealthOk),
                vd_tripped = (free_low \<or> headroom_low),
                vd_reason =
                  (if free_low \<and> headroom_low then ReasonFreeAndHeadroom (me_free m) flr
                   else if free_low then ReasonFree (me_free m) (me_total m) flr
                   else if headroom_low then ReasonHeadroom
                   else NoReason)\<rparr>))"

text \<open>\<open>EffectiveRetentionDays\<close>, the copy of the worker's rule the projection uses.\<close>

definition effective_retention_days :: "bool \<Rightarrow> kv \<Rightarrow> int \<Rightarrow> int" where
  "effective_retention_days fault kv fallback = (case get_config fault ''retention.days'' kv of
     Inl _ \<Rightarrow> fallback
   | Inr None \<Rightarrow> fallback
   | Inr (Some v) \<Rightarrow> (case go_atoi v of
         None \<Rightarrow> fallback
       | Some n \<Rightarrow> if 1 \<le> n \<and> n \<le> 3650 then n else fallback))"

section \<open>Providers of the alert engine\<close>

text \<open>The capacity closure: a failed load of the configuration or a failed measurement is an error.\<close>

definition capacity_provider ::
  "(string \<Rightarrow> rat option) \<Rightarrow> (alert_field \<Rightarrow> bool) \<Rightarrow> alert_field list \<Rightarrow> bool \<Rightarrow> kv \<Rightarrow> int \<Rightarrow> measure_input
   \<Rightarrow> (capacity_reason \<Rightarrow> metrics \<Rightarrow> string) \<Rightarrow> (metrics \<Rightarrow> string) \<Rightarrow> bool \<Rightarrow> capacity_verdict option" where
  "capacity_provider prs failing order days_fault kv yaml_days inp alert_msg recover_msg active =
     (case load_alert_config prs failing order kv of
        (Some _, _) \<Rightarrow> None
      | (None, acfg, _) \<Rightarrow>
          (case measure_capacity inp (effective_retention_days days_fault kv yaml_days) of
             None \<Rightarrow> None
           | Some m \<Rightarrow>
               (let v = evaluate_capacity \<lparr>ct_free_floor_mb = ac_disk_free_floor_mb acfg,
                          ct_free_pct_floor = ac_disk_free_pct_floor acfg,
                          ct_headroom_min = ac_headroom_threshold acfg\<rparr> active m
                in Some \<lparr>cv_valid = (vd_health v \<noteq> HealthUnknown), cv_tripped = vd_tripped v,
                         cv_alert_msg = alert_msg (vd_reason v) m, cv_recover_msg = recover_msg m\<rparr>)))"

text \<open>\<open>TargetWindowStats\<close>: the rows of the deepest TTL in the window.\<close>

definition in_window :: "string \<Rightarrow> string \<Rightarrow> instant \<Rightarrow> instant \<Rightarrow> string \<times> sample_row \<Rightarrow> bool" where
  "in_window probe target since till r \<longleftrightarrow> fst r = probe \<and> sr_target (snd r) = target
     \<and> unix_milli since \<le> sr_ts (snd r) \<and> sr_ts (snd r) \<le> unix_milli till"

definition deepest_rows :: "(string \<times> sample_row) list \<Rightarrow> sample_row list" where
  "deepest_rows rows = map snd (filter (\<lambda>r. \<forall>q \<in> set rows. sr_ttl (snd q) \<le> sr_ttl (snd r)) rows)"

definition target_window_stats :: "(string \<times> sample_row) list \<Rightarrow> string \<Rightarrow> string \<Rightarrow> instant \<Rightarrow> instant \<Rightarrow> window_stats" where
  "target_window_stats rows probe target since till =
     (let rs = deepest_rows (filter (in_window probe target since till) rows);
          answered = filter (\<lambda>r. sr_ip r \<noteq> None) rs
      in \<lparr>ws_sent = int (length rs), ws_received = int (length answered),
          ws_avg_rtt_us = (if answered = [] then 0
            else go_trunc (of_int (sum_list (map sr_rtt_us answered)) / of_int (int (length answered))))\<rparr>)"

definition window_provider :: "(string \<times> sample_row) list \<Rightarrow> bool \<Rightarrow> string \<Rightarrow> instant \<Rightarrow> instant \<Rightarrow> window_stats option" where
  "window_provider rows fault target since till =
     (if fault then None else Some (target_window_stats rows ''local'' target since till))"

section \<open>Hysteresis\<close>

lemma go_trunc_of_int [simp]: "go_trunc (of_int n) = n"
  by (simp add: go_trunc_def)

lemma go_trunc_mono: "x \<le> y \<Longrightarrow> go_trunc x \<le> go_trunc y"
  by (auto simp: go_trunc_def floor_mono ceiling_mono) (meson ceiling_le_zero floor_less_zero le_less_trans not_le order_trans less_imp_le zero_le_floor)

lemma free_floor_nonneg: "0 \<le> ct_free_floor_mb t \<Longrightarrow> 0 \<le> free_floor t m"
  by (simp add: free_floor_def Let_def mib_def)

lemma wider_floor: "0 \<le> n \<Longrightarrow> n \<le> go_trunc (of_int n * recover_hysteresis)"
proof -
  assume "0 \<le> n"
  then have "(of_int n :: rat) \<le> of_int n * recover_hysteresis" by (simp add: recover_hysteresis_def)
  from go_trunc_mono [OF this] show ?thesis by simp
qed

text \<open> C11: The capacity alert does not flap: with validated thresholds a measurement that raises the alert also
  keeps it raised, the alert clears only when free space is at least the widened floor and the
  headroom at least the widened minimum, a critical standing always trips it and an ok standing
  never raises it.\<close>

theorem capacity_hysteresis:
  assumes "0 \<le> ct_free_floor_mb t" "1 \<le> ct_headroom_min t" "me_total m \<noteq> 0"
  shows "(vd_tripped (evaluate_capacity t False m) \<longrightarrow> vd_tripped (evaluate_capacity t True m))
    \<and> (\<not> vd_tripped (evaluate_capacity t True m) \<longleftrightarrow>
         go_trunc (of_int (free_floor t m) * recover_hysteresis) \<le> me_free m
         \<and> (projects m \<longrightarrow> ct_headroom_min t * recover_hysteresis \<le> me_headroom m))
    \<and> (vd_health (evaluate_capacity t a m) = HealthCritical \<longrightarrow> vd_tripped (evaluate_capacity t a m))
    \<and> (vd_health (evaluate_capacity t a m) = HealthOk \<longrightarrow> \<not> vd_tripped (evaluate_capacity t False m))"
proof -
  define f where "f = free_floor t m"
  have f: "0 \<le> f" "f \<le> go_trunc (of_int f * recover_hysteresis)"
    using free_floor_nonneg [OF assms(1)] wider_floor by (simp_all add: f_def)
  have h: "ct_headroom_min t \<le> ct_headroom_min t * recover_hysteresis"
    using assms(2) by (simp add: recover_hysteresis_def)
  have trip: "vd_tripped (evaluate_capacity t a m) \<longleftrightarrow>
      me_free m < (if a then go_trunc (of_int f * recover_hysteresis) else f)
      \<or> projects m \<and> me_headroom m < (if a then ct_headroom_min t * recover_hysteresis else ct_headroom_min t)" for a
    using assms(3) by (simp add: evaluate_capacity_def Let_def f_def)
  have health: "vd_health (evaluate_capacity t a m) =
      (if me_free m < f \<or> projects m \<and> me_headroom m < 1 then HealthCritical
       else if projects m \<and> me_headroom m < ct_headroom_min t \<or> me_free m < f * 2 then HealthWarn else HealthOk)" for a
    using assms(3) by (simp add: evaluate_capacity_def Let_def f_def)
  define w wh where "w = go_trunc (of_int f * recover_hysteresis)"
    and "wh = ct_headroom_min t * recover_hysteresis"
  have wide: "0 \<le> f" "f \<le> w" "1 \<le> ct_headroom_min t" "ct_headroom_min t \<le> wh"
    using f h assms(2) by (simp_all add: w_def wh_def)
  show ?thesis
    unfolding trip health f_def [symmetric] w_def [symmetric] wh_def [symmetric] using wide by auto
qed

definition demo_metrics :: metrics where
  "demo_metrics = \<lparr>me_free = 1100 * mib, me_total = 16384 * mib, me_db = 100 * mib, me_wal = 0,
     me_retention_days = 30, me_has_growth = False, me_mb_per_day = 0, me_days_of_data = 0,
     me_projected = 0, me_headroom = 0\<rparr>"

definition demo_thresholds :: capacity_thresholds where
  "demo_thresholds = \<lparr>ct_free_floor_mb = 1024, ct_free_pct_floor = 5 / 100, ct_headroom_min = 12 / 10\<rparr>"

lemma capacity_hysteresis_witness:
  "\<not> vd_tripped (evaluate_capacity demo_thresholds False demo_metrics)
   \<and> vd_tripped (evaluate_capacity demo_thresholds True demo_metrics)"
proof -
  have flr: "free_floor demo_thresholds demo_metrics = 1024 * 2 ^ 20"
    by (simp add: free_floor_def demo_thresholds_def demo_metrics_def mib_def go_trunc_def)
  have "\<lfloor>5905580032 / 5 :: rat\<rfloor> = 1181116006" by (rule floor_unique) simp_all
  then have t: "go_trunc (of_int (1024 * 2 ^ 20) * recover_hysteresis) = 1181116006"
    by (simp add: go_trunc_def recover_hysteresis_def)
  have "\<not> vd_tripped (evaluate_capacity demo_thresholds True demo_metrics) \<longleftrightarrow>
         go_trunc (of_int (free_floor demo_thresholds demo_metrics) * recover_hysteresis) \<le> me_free demo_metrics
         \<and> (projects demo_metrics \<longrightarrow> ct_headroom_min demo_thresholds * recover_hysteresis \<le> me_headroom demo_metrics)"
    using capacity_hysteresis [of demo_thresholds demo_metrics False]
    by (simp add: demo_thresholds_def demo_metrics_def mib_def)
  then have "vd_tripped (evaluate_capacity demo_thresholds True demo_metrics)"
    unfolding flr t by (simp add: demo_metrics_def mib_def)
  moreover have "\<not> vd_tripped (evaluate_capacity demo_thresholds False demo_metrics)"
    using flr by (simp add: evaluate_capacity_def Let_def demo_metrics_def mib_def projects_def)
  ultimately show ?thesis by simp
qed

lemma effective_days_agree: "effective_retention_days fault kv n = effective_days fault kv n"
  by (simp add: effective_retention_days_def effective_days_def split: sum.split option.split)

section \<open>Window statistics\<close>

lemma sum_list_bounds:
  assumes "xs \<noteq> []" "\<And>x. x \<in> set xs \<Longrightarrow> a \<le> x \<and> x \<le> (b::int)"
  shows "a * int (length xs) \<le> sum_list xs \<and> sum_list xs \<le> b * int (length xs)"
  using assms(2) by (induction xs) (auto simp: algebra_simps, fastforce+)

lemma trunc_mean_bounds:
  assumes "ans \<noteq> []" "\<And>r. r \<in> set ans \<Longrightarrow> lo \<le> g r \<and> g r \<le> hi"
  shows "lo \<le> go_trunc (of_int (sum_list (map g ans)) / of_int (int (length ans)))
    \<and> go_trunc (of_int (sum_list (map g ans)) / of_int (int (length ans))) \<le> hi"
proof -
  define s n where "s = sum_list (map g ans)" and "n = int (length ans)"
  have b: "lo * n \<le> s" "s \<le> hi * n"
    using sum_list_bounds [of "map g ans" lo hi] assms by (auto simp: s_def n_def)
  have pos: "(0::rat) < of_int n" using assms(1) by (simp add: n_def)
  have lo: "(of_int lo :: rat) \<le> of_int s / of_int n"
    unfolding pos_le_divide_eq [OF pos] of_int_mult [symmetric] of_int_le_iff by (rule b(1))
  have hi: "of_int s / of_int n \<le> (of_int hi :: rat)"
    unfolding pos_divide_le_eq [OF pos] of_int_mult [symmetric] of_int_le_iff by (rule b(2))
  show ?thesis
    using go_trunc_mono [OF lo] go_trunc_mono [OF hi] by (simp add: s_def n_def)
qed

text \<open> The window statistics the loss and latency rules read are consistent: received never exceeds sent, so
  the loss is a percentage between 0 and 100; every counted row is of the asked probe, target and
  window; and the average lies between any bounds on the answered round-trip times.\<close>

theorem window_stats_consistent:
  assumes "\<And>r. r \<in> set rows \<Longrightarrow> in_window probe target since till r \<Longrightarrow> sr_ip (snd r) \<noteq> None
      \<Longrightarrow> lo \<le> sr_rtt_us (snd r) \<and> sr_rtt_us (snd r) \<le> hi"
  shows "let st = target_window_stats rows probe target since till in
    0 \<le> ws_received st \<and> ws_received st \<le> ws_sent st
    \<and> (ws_sent st > 0 \<longrightarrow> 0 \<le> (100 * of_int (ws_sent st - ws_received st) / of_int (ws_sent st) :: rat)
         \<and> (100 * of_int (ws_sent st - ws_received st) / of_int (ws_sent st) :: rat) \<le> 100)
    \<and> (ws_received st > 0 \<longrightarrow> lo \<le> ws_avg_rtt_us st \<and> ws_avg_rtt_us st \<le> hi)"
proof -
  define rs where "rs = deepest_rows (filter (in_window probe target since till) rows)"
  define ans where "ans = filter (\<lambda>r. sr_ip r \<noteq> None) rs"
  define st where "st = target_window_stats rows probe target since till"
  have st: "ws_sent st = int (length rs)" "ws_received st = int (length ans)"
    "ws_avg_rtt_us st = (if ans = [] then 0
       else go_trunc (of_int (sum_list (map sr_rtt_us ans)) / of_int (int (length ans))))"
    by (simp_all add: st_def target_window_stats_def Let_def rs_def ans_def)
  have le: "length ans \<le> length rs" by (simp add: ans_def)
  have rtt: "lo \<le> sr_rtt_us r \<and> sr_rtt_us r \<le> hi" if "r \<in> set ans" for r
    using assms that by (auto simp: ans_def rs_def deepest_rows_def)
  have avg: "lo \<le> ws_avg_rtt_us st \<and> ws_avg_rtt_us st \<le> hi" if "ans \<noteq> []"
    using trunc_mean_bounds [OF that rtt] that by (simp only: st(3) if_False)
  have loss: "0 \<le> (100 * of_int (ws_sent st - ws_received st) / of_int (ws_sent st) :: rat)
      \<and> (100 * of_int (ws_sent st - ws_received st) / of_int (ws_sent st) :: rat) \<le> 100" if "ws_sent st > 0"
    using le that by (simp add: st field_simps)
  show ?thesis
    unfolding Let_def st_def [symmetric] using le avg loss by (auto simp: st)
qed

lemma window_stats_consistent_witness:
  "0 \<le> ws_received (target_window_stats demo_rows ''local'' ''t'' 0 go_second)"
proof -
  have "0 \<le> sr_rtt_us (snd r) \<and> sr_rtt_us (snd r) \<le> 0" if "r \<in> set demo_rows" "sr_ip (snd r) \<noteq> None" for r
    using that by (auto simp: demo_rows_def)
  then show ?thesis
    using window_stats_consistent [of demo_rows "''local''" "''t''" 0 go_second 0 0, unfolded Let_def] by blast
qed

end
