(* ===== verification/TargetStore.thy ===== *)
theory TargetStore
  imports Ingest
begin

text \<open>
  The tables of \<open>internal/storage/storage.go\<close> behind the tab bar: \<open>active_targets\<close> (what the
  supervisor monitors), \<open>target_history\<close>, \<open>tabs\<close> with its foreign key into \<open>active_targets\<close>,
  \<open>bundles\<close> and \<open>annotations\<close>, with every operation of the store on them, and the per-target wipes of
  the measurement tables (\<open>retention.go\<close>). A table is the list of its rows in insertion order. Each
  statement may fail and then changes nothing: the list \<open>td_faults\<close> says which ones do.
\<close>

section \<open>Rows\<close>

record active_row =
  at_target :: string
  at_added :: int
  at_interval :: "int option"
  at_warning :: "int option"
  at_critical :: "int option"
  at_final_hop :: int

record active_target =
  av_target :: string
  av_interval :: "int option"
  av_warning :: "int option"
  av_critical :: "int option"
  av_final_hop :: bool

record tab_row =
  tb_id :: int
  tb_target :: string
  tb_label :: "string option"
  tb_warning :: "int option"
  tb_critical :: "int option"
  tb_position :: int
  tb_created :: int
  tb_probe :: string
  tb_show :: bool

record bundle_tab =
  bt_target :: string
  bt_label :: "string option"
  bt_warning :: "int option"
  bt_critical :: "int option"
  bt_probe :: string

record bundle_view =
  bd_name :: string
  bd_created :: int
  bd_targets :: "string list"
  bd_tabs :: "bundle_tab list"

text \<open>A stored bundle: the \<open>tabs\<close> column is NULL in rows older than it.\<close>

record bundle_row =
  br_name :: string
  br_created :: int
  br_targets :: "string list"
  br_tabs :: "bundle_tab list option"

record annotation =
  an_id :: int
  an_target :: string
  an_ts :: int
  an_text :: string
  an_created :: int

record target_db =
  td_active :: "active_row list"
  td_history :: "(string \<times> int) list"
  td_tabs :: "tab_row list"
  td_tab_seq :: int
  td_bundles :: "bundle_row list"
  td_notes :: "annotation list"
  td_note_seq :: int
  td_data :: ingest_tables
  td_faults :: "bool list"

datatype store_error = StoreFailed | EmptyTarget | NotActive | TabNotFound | ForeignKey
  | EmptyBundleName | EmptyText

definition td_fault :: "target_db \<Rightarrow> bool \<times> target_db" where
  "td_fault w = (case td_faults w of [] \<Rightarrow> (False, w) | b # bs \<Rightarrow> (b, w\<lparr>td_faults := bs\<rparr>))"

text \<open>A statement that reads or writes, unless it fails.\<close>

definition td_exec :: "(target_db \<Rightarrow> (store_error + 'a) \<times> target_db) \<Rightarrow> target_db \<Rightarrow> (store_error + 'a) \<times> target_db" where
  "td_exec f w = (case td_fault w of (True, w') \<Rightarrow> (Inl StoreFailed, w') | (False, w') \<Rightarrow> f w')"

text \<open>A transaction of \<open>n\<close> statements after which the effect becomes visible, or none does.\<close>

fun td_execs :: "nat \<Rightarrow> (target_db \<Rightarrow> (store_error + 'a) \<times> target_db) \<Rightarrow> target_db \<Rightarrow> (store_error + 'a) \<times> target_db" where
  "td_execs 0 f = f"
| "td_execs (Suc n) f = td_exec (td_execs n f)"

section \<open>Target history\<close>

fun upsert_history :: "string \<Rightarrow> int \<Rightarrow> (string \<times> int) list \<Rightarrow> (string \<times> int) list" where
  "upsert_history t ts [] = [(t, ts)]"
| "upsert_history t ts (r # rs) = (if fst r = t then (t, ts) # rs else r # upsert_history t ts rs)"

definition remember_target :: "string \<Rightarrow> instant \<Rightarrow> target_db \<Rightarrow> (store_error + unit) \<times> target_db" where
  "remember_target target now w =
     (if target = [] then (Inr (), w)
      else td_exec (\<lambda>w. (Inr (), w\<lparr>td_history := upsert_history target (unix_milli now) (td_history w)\<rparr>)) w)"

definition recent_targets :: "int \<Rightarrow> target_db \<Rightarrow> (store_error + string list) \<times> target_db" where
  "recent_targets limit w =
     (let limit = (if limit \<le> 0 then 10 else limit)
      in td_exec (\<lambda>w. (Inr (take (nat limit) (map fst (sort_key (\<lambda>r. - snd r) (td_history w)))), w)) w)"

section \<open>Active targets\<close>

definition view_active :: "active_row \<Rightarrow> active_target" where
  "view_active r = \<lparr>av_target = at_target r, av_interval = at_interval r, av_warning = at_warning r,
     av_critical = at_critical r, av_final_hop = (at_final_hop r \<noteq> 0)\<rparr>"

definition active_targets :: "target_db \<Rightarrow> (store_error + active_target list) \<times> target_db" where
  "active_targets = td_exec (\<lambda>w. (Inr (map view_active (sort_key at_added (td_active w))), w))"

fun upsert_active :: "string \<Rightarrow> int \<Rightarrow> active_row list \<Rightarrow> active_row list" where
  "upsert_active t ts [] = [\<lparr>at_target = t, at_added = ts, at_interval = None, at_warning = None,
     at_critical = None, at_final_hop = 0\<rparr>]"
| "upsert_active t ts (r # rs) =
     (if at_target r = t then r\<lparr>at_added := ts\<rparr> # rs else r # upsert_active t ts rs)"

definition add_active_target :: "string \<Rightarrow> instant \<Rightarrow> target_db \<Rightarrow> (store_error + unit) \<times> target_db" where
  "add_active_target target now w =
     (if target = [] then (Inr (), w)
      else td_exec (\<lambda>w. (Inr (), w\<lparr>td_active := upsert_active target (unix_milli now) (td_active w)\<rparr>)) w)"

definition update_where :: "('a \<Rightarrow> bool) \<Rightarrow> ('a \<Rightarrow> 'a) \<Rightarrow> 'a list \<Rightarrow> 'a list" where
  "update_where P f rows = map (\<lambda>r. if P r then f r else r) rows"

text \<open>The common part of the three setters: the row must exist.\<close>

definition update_active :: "string \<Rightarrow> (active_row \<Rightarrow> active_row) \<Rightarrow> target_db \<Rightarrow> (store_error + unit) \<times> target_db" where
  "update_active target f w =
     (if target = [] then (Inl EmptyTarget, w)
      else td_exec (\<lambda>w. (if \<exists>r \<in> set (td_active w). at_target r = target then Inr () else Inl NotActive,
              w\<lparr>td_active := update_where (\<lambda>r. at_target r = target) f (td_active w)\<rparr>)) w)"

definition set_active_interval :: "string \<Rightarrow> int option \<Rightarrow> target_db \<Rightarrow> (store_error + unit) \<times> target_db" where
  "set_active_interval target ms = update_active target (\<lambda>r. r\<lparr>at_interval := ms\<rparr>)"

definition set_active_thresholds ::
  "string \<Rightarrow> int option \<Rightarrow> int option \<Rightarrow> target_db \<Rightarrow> (store_error + unit) \<times> target_db" where
  "set_active_thresholds target warning critical =
     update_active target (\<lambda>r. r\<lparr>at_warning := warning, at_critical := critical\<rparr>)"

definition set_active_final_hop :: "string \<Rightarrow> bool \<Rightarrow> target_db \<Rightarrow> (store_error + unit) \<times> target_db" where
  "set_active_final_hop target b = update_active target (\<lambda>r. r\<lparr>at_final_hop := (if b then 1 else 0)\<rparr>)"

text \<open>Deleting an active target deletes its tabs: \<open>ON DELETE CASCADE\<close>.\<close>

definition remove_active_target :: "string \<Rightarrow> target_db \<Rightarrow> (store_error + unit) \<times> target_db" where
  "remove_active_target target =
     td_exec (\<lambda>w. (Inr (), w\<lparr>td_active := filter (\<lambda>r. at_target r \<noteq> target) (td_active w),
                              td_tabs := filter (\<lambda>r. tb_target r \<noteq> target) (td_tabs w)\<rparr>))"

section \<open>Bundles\<close>

fun upsert_bundle :: "bundle_row \<Rightarrow> bundle_row list \<Rightarrow> bundle_row list" where
  "upsert_bundle b [] = [b]"
| "upsert_bundle b (r # rs) = (if br_name r = br_name b then b # rs else r # upsert_bundle b rs)"

definition save_bundle :: "string \<Rightarrow> bundle_tab list \<Rightarrow> instant \<Rightarrow> target_db \<Rightarrow> (store_error + unit) \<times> target_db" where
  "save_bundle name tabs now w =
     (if name = [] then (Inl EmptyBundleName, w)
      else td_exec (\<lambda>w. (Inr (), w\<lparr>td_bundles := upsert_bundle \<lparr>br_name = name, br_created = unix_milli now,
              br_targets = map bt_target tabs, br_tabs = Some tabs\<rparr> (td_bundles w)\<rparr>)) w)"

definition default_bundle_tab :: "string \<Rightarrow> bundle_tab" where
  "default_bundle_tab t = \<lparr>bt_target = t, bt_label = None, bt_warning = None, bt_critical = None, bt_probe = []\<rparr>"

definition load_bundle :: "bundle_row \<Rightarrow> bundle_view" where
  "load_bundle r = \<lparr>bd_name = br_name r, bd_created = br_created r, bd_targets = br_targets r,
     bd_tabs = (case br_tabs r of Some tabs \<Rightarrow> tabs | None \<Rightarrow> map default_bundle_tab (br_targets r))\<rparr>"

definition list_bundles :: "target_db \<Rightarrow> (store_error + bundle_view list) \<times> target_db" where
  "list_bundles = td_exec (\<lambda>w. (Inr (map load_bundle (sort_key (\<lambda>r. - br_created r) (td_bundles w))), w))"

definition delete_bundle :: "string \<Rightarrow> target_db \<Rightarrow> (store_error + unit) \<times> target_db" where
  "delete_bundle name = td_exec (\<lambda>w. (Inr (), w\<lparr>td_bundles := filter (\<lambda>r. br_name r \<noteq> name) (td_bundles w)\<rparr>))"

section \<open>Annotations\<close>

definition add_annotation :: "string \<Rightarrow> int \<Rightarrow> string \<Rightarrow> instant \<Rightarrow> target_db \<Rightarrow> (store_error + int) \<times> target_db" where
  "add_annotation target ts txt now w =
     (if target = [] then (Inl EmptyTarget, w)
      else if txt = [] then (Inl EmptyText, w)
      else td_exec (\<lambda>w. let i = td_note_seq w + 1 in
             (Inr i, w\<lparr>td_notes := td_notes w @ [\<lparr>an_id = i, an_target = target, an_ts = ts, an_text = txt,
                        an_created = unix_milli now\<rparr>], td_note_seq := i\<rparr>)) w)"

definition list_annotations ::
  "string \<Rightarrow> int \<Rightarrow> int \<Rightarrow> instant \<Rightarrow> target_db \<Rightarrow> (store_error + annotation list) \<times> target_db" where
  "list_annotations target since till now w =
     (if target = [] then (Inl EmptyTarget, w)
      else let till = (if till = 0 then unix_milli now else till)
           in td_exec (\<lambda>w. (Inr (sort_key an_ts
                (filter (\<lambda>a. an_target a = target \<and> an_ts a \<ge> since \<and> an_ts a \<le> till) (td_notes w))), w)) w)"

definition delete_annotation :: "int \<Rightarrow> target_db \<Rightarrow> (store_error + unit) \<times> target_db" where
  "delete_annotation i = td_exec (\<lambda>w. (Inr (), w\<lparr>td_notes := filter (\<lambda>a. an_id a \<noteq> i) (td_notes w)\<rparr>))"

section \<open>Measurements of one target\<close>

definition clear_route_changes :: "string \<Rightarrow> target_db \<Rightarrow> (store_error + unit) \<times> target_db" where
  "clear_route_changes target w =
     (if target = [] then (Inl EmptyTarget, w)
      else td_exec (\<lambda>w. (Inr (), w\<lparr>td_data := (td_data w)\<lparr>it_changes :=
              filter (\<lambda>r. cr_target (snd r) \<noteq> target) (it_changes (td_data w))\<rparr>\<rparr>)) w)"

text \<open>Both deletes run in one transaction: begin, two statements and the commit may fail.\<close>

definition delete_target_history :: "string \<Rightarrow> target_db \<Rightarrow> (store_error + nat \<times> nat) \<times> target_db" where
  "delete_target_history target =
     td_execs 4 (\<lambda>w.
       let d = td_data w;
           ss = filter (\<lambda>r. sr_target (snd r) \<noteq> target) (it_samples d);
           cs = filter (\<lambda>r. cr_target (snd r) \<noteq> target) (it_changes d)
       in (Inr (length (it_samples d) - length ss, length (it_changes d) - length cs),
           w\<lparr>td_data := d\<lparr>it_samples := ss, it_changes := cs\<rparr>\<rparr>))"

definition target_stats :: "string \<Rightarrow> target_db \<Rightarrow> (store_error + nat \<times> int \<times> int) \<times> target_db" where
  "target_stats target = td_exec (\<lambda>w.
     let ts = map (\<lambda>r. sr_ts (snd r)) (filter (\<lambda>r. sr_target (snd r) = target) (it_samples (td_data w)))
     in (Inr (length ts, if ts = [] then 0 else Min (set ts), if ts = [] then 0 else Max (set ts)), w))"

section \<open>Tabs\<close>

definition tab_order :: "tab_row list \<Rightarrow> tab_row list" where
  "tab_order rows = sort_key tb_position (sort_key tb_id rows)"

definition list_tabs :: "target_db \<Rightarrow> (store_error + tab_row list) \<times> target_db" where
  "list_tabs = td_exec (\<lambda>w. (Inr (tab_order (td_tabs w)), w))"

definition next_position :: "tab_row list \<Rightarrow> int" where
  "next_position rows = (if rows = [] then 0 else Max (tb_position ` set rows) + 1)"

definition max_position :: "target_db \<Rightarrow> (store_error + int) \<times> target_db" where
  "max_position = td_exec (\<lambda>w. (Inr (next_position (td_tabs w)), w))"

text \<open>The insert is refused when the target is not active: the foreign key.\<close>

definition insert_tab :: "tab_row \<Rightarrow> target_db \<Rightarrow> (store_error + int) \<times> target_db" where
  "insert_tab r = td_exec (\<lambda>w.
     if tb_target r \<in> at_target ` set (td_active w)
     then (let i = td_tab_seq w + 1
           in (Inr i, w\<lparr>td_tabs := td_tabs w @ [r\<lparr>tb_id := i\<rparr>], td_tab_seq := i\<rparr>))
     else (Inl ForeignKey, w))"

definition local_probe_id :: string where "local_probe_id = ''local''"

definition create_tab :: "string \<Rightarrow> string option \<Rightarrow> int option \<Rightarrow> int option \<Rightarrow> string \<Rightarrow> instant
    \<Rightarrow> target_db \<Rightarrow> (store_error + int) \<times> target_db" where
  "create_tab target label warning critical probe now w =
     (if target = [] then (Inl EmptyTarget, w)
      else (case max_position w of
         (Inl e, w1) \<Rightarrow> (Inl e, w1)
       | (Inr pos, w1) \<Rightarrow>
           insert_tab \<lparr>tb_id = 0, tb_target = target, tb_label = label, tb_warning = warning,
             tb_critical = critical, tb_position = pos, tb_created = unix_milli now,
             tb_probe = (if probe = [] then local_probe_id else probe), tb_show = False\<rparr> w1))"

record tab_patch =
  tp_label :: "string option"
  tp_clear_label :: bool
  tp_warning :: "int option"
  tp_critical :: "int option"
  tp_clear_thresholds :: bool
  tp_probe :: "string option"
  tp_show :: "bool option"

definition patch_is_empty :: "tab_patch \<Rightarrow> bool" where
  "patch_is_empty p \<longleftrightarrow> tp_probe p = None \<and> tp_show p = None \<and> tp_label p = None \<and> \<not> tp_clear_label p
     \<and> \<not> tp_clear_thresholds p \<and> tp_warning p = None \<and> tp_critical p = None"

definition keep :: "'a option \<Rightarrow> 'a \<Rightarrow> 'a" where
  "keep new old = (case new of None \<Rightarrow> old | Some v \<Rightarrow> v)"

definition apply_tab_patch :: "tab_patch \<Rightarrow> tab_row \<Rightarrow> tab_row" where
  "apply_tab_patch p r = r\<lparr>
     tb_probe := keep (tp_probe p) (tb_probe r),
     tb_show := keep (tp_show p) (tb_show r),
     tb_label := (case tp_label p of Some l \<Rightarrow> Some l | None \<Rightarrow> if tp_clear_label p then None else tb_label r),
     tb_warning := (if tp_clear_thresholds p then None
                    else case tp_warning p of Some v \<Rightarrow> Some v | None \<Rightarrow> tb_warning r),
     tb_critical := (if tp_clear_thresholds p then None
                     else case tp_critical p of Some v \<Rightarrow> Some v | None \<Rightarrow> tb_critical r)\<rparr>"

definition update_tab :: "int \<Rightarrow> tab_patch \<Rightarrow> target_db \<Rightarrow> (store_error + unit) \<times> target_db" where
  "update_tab i p w =
     (if patch_is_empty p then (Inr (), w)
      else td_exec (\<lambda>w. (if \<exists>r \<in> set (td_tabs w). tb_id r = i then Inr () else Inl TabNotFound,
              w\<lparr>td_tabs := update_where (\<lambda>r. tb_id r = i) (apply_tab_patch p) (td_tabs w)\<rparr>)) w)"

definition delete_tab :: "int \<Rightarrow> target_db \<Rightarrow> (store_error + unit) \<times> target_db" where
  "delete_tab i = td_exec (\<lambda>w. (if \<exists>r \<in> set (td_tabs w). tb_id r = i then Inr () else Inl TabNotFound,
      w\<lparr>td_tabs := filter (\<lambda>r. tb_id r \<noteq> i) (td_tabs w)\<rparr>))"

text \<open>\<open>ReorderTabs\<close>: one UPDATE per listed id, numbered by its place, in one transaction.\<close>

fun set_positions :: "int \<Rightarrow> int list \<Rightarrow> tab_row list \<Rightarrow> tab_row list" where
  "set_positions k [] rows = rows"
| "set_positions k (i # order) rows =
     set_positions (k + 1) order (update_where (\<lambda>r. tb_id r = i) (\<lambda>r. r\<lparr>tb_position := k\<rparr>) rows)"

definition reorder_tabs :: "int list \<Rightarrow> target_db \<Rightarrow> (store_error + unit) \<times> target_db" where
  "reorder_tabs order w =
     (if order = [] then (Inr (), w)
      else td_execs (length order + 2)
             (\<lambda>w. (Inr (), w\<lparr>td_tabs := set_positions 0 order (td_tabs w)\<rparr>)) w)"

definition count_tabs_for_target :: "string \<Rightarrow> target_db \<Rightarrow> (store_error + nat) \<times> target_db" where
  "count_tabs_for_target target =
     td_exec (\<lambda>w. (Inr (length (filter (\<lambda>r. tb_target r = target) (td_tabs w))), w))"

end
