(* ===== verification/TargetTables.thy ===== *)
theory TargetTables
  imports TargetStore "HOL-Library.Multiset"
begin

text \<open>
  The tables of the tab bar stay consistent: keys are unique, every tab refers to an active target,
  identifiers are never reused, a bundle's two columns agree. The order a reorder request asks for
  is the order the next listing shows.
\<close>

section \<open>The invariant\<close>

definition active_ok :: "active_row list \<Rightarrow> bool" where
  "active_ok rows \<longleftrightarrow> distinct (map at_target rows)
     \<and> (\<forall>r \<in> set rows. at_target r \<noteq> [] \<and> at_final_hop r \<in> {0, 1})"

definition tabs_ok :: "string set \<Rightarrow> int \<Rightarrow> tab_row list \<Rightarrow> bool" where
  "tabs_ok targets sq rows \<longleftrightarrow> distinct (map tb_id rows)
     \<and> (\<forall>r \<in> set rows. tb_target r \<in> targets \<and> 1 \<le> tb_id r \<and> tb_id r \<le> sq)"

definition bundles_ok :: "bundle_row list \<Rightarrow> bool" where
  "bundles_ok rows \<longleftrightarrow> distinct (map br_name rows)
     \<and> (\<forall>r \<in> set rows. br_name r \<noteq> [] \<and> (\<forall>tabs. br_tabs r = Some tabs \<longrightarrow> br_targets r = map bt_target tabs))"

definition notes_ok :: "int \<Rightarrow> annotation list \<Rightarrow> bool" where
  "notes_ok sq rows \<longleftrightarrow> distinct (map an_id rows)
     \<and> (\<forall>r \<in> set rows. an_id r \<le> sq \<and> an_target r \<noteq> [] \<and> an_text r \<noteq> [])"

definition td_ok :: "target_db \<Rightarrow> bool" where
  "td_ok w \<longleftrightarrow> active_ok (td_active w)
     \<and> tabs_ok (at_target ` set (td_active w)) (td_tab_seq w) (td_tabs w) \<and> 0 \<le> td_tab_seq w
     \<and> distinct (map fst (td_history w)) \<and> bundles_ok (td_bundles w) \<and> notes_ok (td_note_seq w) (td_notes w)"

text \<open>The requests the handlers and the supervisor make of these tables.\<close>

datatype store_op =
    OpRemember string instant | OpAddActive string instant | OpSetInterval string "int option"
  | OpSetThresholds string "int option" "int option" | OpSetFinalHop string bool | OpRemoveActive string
  | OpSaveBundle string "bundle_tab list" instant | OpDeleteBundle string
  | OpAddAnnotation string int string instant | OpDeleteAnnotation int
  | OpClearChanges string | OpDeleteHistory string
  | OpCreateTab string "string option" "int option" "int option" string instant
  | OpUpdateTab int tab_patch | OpDeleteTab int | OpReorder "int list"

fun store_step :: "store_op \<Rightarrow> target_db \<Rightarrow> target_db" where
  "store_step (OpRemember t now) w = snd (remember_target t now w)"
| "store_step (OpAddActive t now) w = snd (add_active_target t now w)"
| "store_step (OpSetInterval t ms) w = snd (set_active_interval t ms w)"
| "store_step (OpSetThresholds t a b) w = snd (set_active_thresholds t a b w)"
| "store_step (OpSetFinalHop t b) w = snd (set_active_final_hop t b w)"
| "store_step (OpRemoveActive t) w = snd (remove_active_target t w)"
| "store_step (OpSaveBundle n tabs now) w = snd (save_bundle n tabs now w)"
| "store_step (OpDeleteBundle n) w = snd (delete_bundle n w)"
| "store_step (OpAddAnnotation t ts x now) w = snd (add_annotation t ts x now w)"
| "store_step (OpDeleteAnnotation i) w = snd (delete_annotation i w)"
| "store_step (OpClearChanges t) w = snd (clear_route_changes t w)"
| "store_step (OpDeleteHistory t) w = snd (delete_target_history t w)"
| "store_step (OpCreateTab t l a b p now) w = snd (create_tab t l a b p now w)"
| "store_step (OpUpdateTab i p) w = snd (update_tab i p w)"
| "store_step (OpDeleteTab i) w = snd (delete_tab i w)"
| "store_step (OpReorder order) w = snd (reorder_tabs order w)"

definition empty_target_db :: "bool list \<Rightarrow> target_db" where
  "empty_target_db faults = \<lparr>td_active = [], td_history = [], td_tabs = [], td_tab_seq = 0, td_bundles = [],
     td_notes = [], td_note_seq = 0, td_data = \<lparr>it_log = [], it_samples = [], it_changes = []\<rparr>, td_faults = faults\<rparr>"

section \<open>Statements\<close>

lemma td_ok_faults [simp]: "td_ok (w\<lparr>td_faults := bs\<rparr>) = td_ok w"
  by (simp add: td_ok_def)

lemma td_okD [simp]:
  assumes "td_ok w"
  shows "active_ok (td_active w)" "tabs_ok (at_target ` set (td_active w)) (td_tab_seq w) (td_tabs w)"
    "0 \<le> td_tab_seq w" "distinct (map fst (td_history w))" "bundles_ok (td_bundles w)"
    "notes_ok (td_note_seq w) (td_notes w)"
  using assms by (simp_all add: td_ok_def)

lemma tabs_ok_mono: "tabs_ok T sq rows \<Longrightarrow> T \<subseteq> T' \<Longrightarrow> tabs_ok T' sq rows"
  by (auto simp: tabs_ok_def)

lemma td_ok_update:
  assumes "td_ok w"
  shows "distinct (map fst h) \<Longrightarrow> td_ok (w\<lparr>td_history := h\<rparr>)"
    and "bundles_ok b \<Longrightarrow> td_ok (w\<lparr>td_bundles := b\<rparr>)"
    and "notes_ok n notes \<Longrightarrow> td_ok (w\<lparr>td_notes := notes, td_note_seq := n\<rparr>)"
    and "notes_ok (td_note_seq w) notes \<Longrightarrow> td_ok (w\<lparr>td_notes := notes\<rparr>)"
    and "td_ok (w\<lparr>td_data := d\<rparr>)"
    and "active_ok rows \<Longrightarrow> at_target ` set (td_active w) \<subseteq> at_target ` set rows \<Longrightarrow> td_ok (w\<lparr>td_active := rows\<rparr>)"
    and "tabs_ok (at_target ` set (td_active w)) (td_tab_seq w) tabs \<Longrightarrow> td_ok (w\<lparr>td_tabs := tabs\<rparr>)"
    and "active_ok rows \<Longrightarrow> tabs_ok (at_target ` set rows) (td_tab_seq w) tabs
      \<Longrightarrow> td_ok (w\<lparr>td_active := rows, td_tabs := tabs\<rparr>)"
    and "tabs_ok (at_target ` set (td_active w)) sq tabs \<Longrightarrow> 0 \<le> sq
      \<Longrightarrow> td_ok (w\<lparr>td_tabs := tabs, td_tab_seq := sq\<rparr>)"
  using assms by (simp_all add: td_ok_def del: td_okD) (blast intro: tabs_ok_mono)

lemma td_fault_cases:
  "td_fault w = (b, w') \<Longrightarrow> \<exists>bs. w' = w\<lparr>td_faults := bs\<rparr>"
  by (cases "td_faults w") (auto simp: td_fault_def intro: exI [of _ "[]"])

lemma td_exec_ok [inv_facts]:
  assumes "td_ok w" "\<And>w. td_ok w \<Longrightarrow> td_ok (snd (f w))"
  shows "td_ok (snd (td_exec f w))"
  using assms by (auto simp: td_exec_def dest!: td_fault_cases split: prod.split bool.split)

lemma td_execs_ok [inv_facts]:
  assumes "\<And>w. td_ok w \<Longrightarrow> td_ok (snd (f w))"
  shows "td_ok w \<Longrightarrow> td_ok (snd (td_execs n f w))"
  by (induction n arbitrary: w) (simp_all add: assms td_exec_ok)

section \<open>Rows\<close>

lemma upsert_history_keys:
  "distinct (map fst rows) \<Longrightarrow> distinct (map fst (upsert_history t ts rows))"
  "set (map fst (upsert_history t ts rows)) = insert t (set (map fst rows))"
  by (induction rows) auto

lemma upsert_active_targets: "at_target ` set (upsert_active t ts rows) = insert t (at_target ` set rows)"
  by (induction rows) auto

lemma rows_ok_Cons:
  "active_ok (r # rs) \<longleftrightarrow> at_target r \<notin> at_target ` set rs \<and> at_target r \<noteq> []
     \<and> at_final_hop r \<in> {0, 1} \<and> active_ok rs"
  "bundles_ok (b # bs) \<longleftrightarrow> br_name b \<notin> br_name ` set bs \<and> br_name b \<noteq> []
     \<and> (\<forall>tabs. br_tabs b = Some tabs \<longrightarrow> br_targets b = map bt_target tabs) \<and> bundles_ok bs"
  "active_ok []" "bundles_ok []"
  by (auto simp: active_ok_def bundles_ok_def)

lemma active_ok_upsert:
  "t \<noteq> [] \<Longrightarrow> active_ok rows \<Longrightarrow> active_ok (upsert_active t ts rows)"
  by (induction rows) (auto simp: rows_ok_Cons upsert_active_targets)

lemma update_where_map: "(\<And>r. g (f r) = g r) \<Longrightarrow> map g (update_where P f rows) = map g rows"
  by (simp add: update_where_def)

lemma active_ok_update:
  assumes "active_ok rows" "\<And>r. at_target (f r) = at_target r"
    "\<And>r. at_final_hop r \<in> {0, 1} \<Longrightarrow> at_final_hop (f r) \<in> {0, 1}"
  shows "active_ok (update_where P f rows)"
  using assms unfolding active_ok_def update_where_map [of at_target f, OF assms(2)]
  by (auto simp: update_where_def)

lemma tabs_ok_update:
  assumes "tabs_ok T sq rows" "\<And>r. tb_id (f r) = tb_id r" "\<And>r. tb_target (f r) = tb_target r"
  shows "tabs_ok T sq (update_where P f rows)"
  using assms unfolding tabs_ok_def update_where_map [of tb_id f, OF assms(2)]
  by (auto simp: update_where_def)

lemma tabs_ok_filter: "tabs_ok T sq rows \<Longrightarrow> (\<And>r. r \<in> set rows \<Longrightarrow> P r \<Longrightarrow> tb_target r \<in> T') \<Longrightarrow> tabs_ok T' sq (filter P rows)"
  by (auto simp: tabs_ok_def distinct_map_filter)

lemma upsert_bundle_names: "br_name ` set (upsert_bundle b rows) = insert (br_name b) (br_name ` set rows)"
  by (induction rows) auto

lemma bundles_ok_upsert:
  assumes "br_name b \<noteq> []" "\<And>tabs. br_tabs b = Some tabs \<Longrightarrow> br_targets b = map bt_target tabs"
  shows "bundles_ok rows \<Longrightarrow> bundles_ok (upsert_bundle b rows)"
  by (induction rows) (auto simp: rows_ok_Cons upsert_bundle_names assms)

lemma tabs_ok_positions: "tabs_ok T sq rows \<Longrightarrow> tabs_ok T sq (set_positions k order rows)"
  by (induction k order rows rule: set_positions.induct) (simp_all add: tabs_ok_update)

section \<open>Operations\<close>

lemma update_active_ok [inv_facts]:
  assumes "td_ok w" "\<And>r. at_target (f r) = at_target r" "\<And>r. at_final_hop r \<in> {0, 1} \<Longrightarrow> at_final_hop (f r) \<in> {0, 1}"
  shows "td_ok (snd (update_active t f w))"
proof -
  have "at_target ` set (update_where P f rows) = at_target ` set rows" for P rows
    using arg_cong [OF update_where_map [of at_target f P rows, OF assms(2)], of set] by simp
  then have "td_ok (v\<lparr>td_active := update_where P f (td_active v)\<rparr>)" if "td_ok v" for v P
    using that assms(2,3) by (intro td_ok_update(6) active_ok_update td_okD) auto
  then show ?thesis
    using assms(1) by (auto simp: update_active_def intro!: td_exec_ok)
qed

lemma tabs_ok_insert:
  assumes "tabs_ok T sq rows" "tb_target r \<in> T" "0 \<le> sq"
  shows "tabs_ok T (sq + 1) (rows @ [r\<lparr>tb_id := sq + 1\<rparr>])"
  using assms by (fastforce simp: tabs_ok_def)

lemma insert_tab_ok [inv_facts]:
  assumes "td_ok w" shows "td_ok (snd (insert_tab r w))"
  unfolding insert_tab_def using assms
  by (auto simp: Let_def intro!: td_exec_ok td_ok_update(9) tabs_ok_insert)

lemma max_position_ok [inv_facts]: "td_ok w \<Longrightarrow> td_ok (snd (max_position w))"
  unfolding max_position_def by (rule td_exec_ok) simp_all

lemma create_tab_ok [inv_facts]:
  assumes "td_ok w" shows "td_ok (snd (create_tab t l a b p now w))"
  using max_position_ok [OF assms] assms
  by (auto simp: create_tab_def insert_tab_ok split: prod.split sum.split)

lemma notes_ok_insert:
  assumes "notes_ok sq notes" "an_target a \<noteq> []" "an_text a \<noteq> []" "an_id a = sq + 1"
  shows "notes_ok (sq + 1) (notes @ [a])"
  using assms by (fastforce simp: notes_ok_def)

lemma rows_ok_filter:
  "active_ok rows \<Longrightarrow> active_ok (filter P rows)"
  "bundles_ok bundles \<Longrightarrow> bundles_ok (filter Q bundles)"
  "notes_ok sq notes \<Longrightarrow> notes_ok sq (filter R notes)"
  by (auto simp: active_ok_def bundles_ok_def notes_ok_def distinct_map_filter)

lemma td_write_ok:
  assumes "td_ok w" "\<And>w. td_ok w \<Longrightarrow> td_ok (g w)"
  shows "td_ok (snd (td_exec (\<lambda>w. (x w, g w)) w))"
  by (rule td_exec_ok) (simp_all add: assms)

lemma td_writes_ok:
  assumes "td_ok w" "\<And>w. td_ok w \<Longrightarrow> td_ok (g w)"
  shows "td_ok (snd (td_execs n (\<lambda>w. (x w, g w)) w))"
  by (rule td_execs_ok) (simp_all add: assms)

lemmas step_intros = td_write_ok td_writes_ok td_ok_update rows_ok_filter tabs_ok_positions

lemma store_step_ok [inv_facts]:
  assumes "td_ok w" shows "td_ok (store_step op w)"
proof (cases op)
  case (OpRemember t now)
  then show ?thesis
    by (auto simp: remember_target_def upsert_history_keys assms intro!: step_intros)
next
  case (OpAddActive t now)
  then show ?thesis
    by (auto simp: add_active_target_def upsert_active_targets active_ok_upsert assms intro!: step_intros)
next
  case (OpRemoveActive t)
  have "tabs_ok (at_target ` set (filter (\<lambda>r. at_target r \<noteq> t) rows)) sq (filter (\<lambda>r. tb_target r \<noteq> t) tabs)"
    if "tabs_ok (at_target ` set rows) sq tabs" for sq tabs and rows :: "active_row list"
    using that by (rule tabs_ok_filter) (use that in \<open>auto simp: tabs_ok_def\<close>)
  then show ?thesis using OpRemoveActive
    by (simp add: remove_active_target_def td_write_ok td_ok_update(8) rows_ok_filter assms del: set_filter)
next
  case (OpSaveBundle n tabs now)
  then show ?thesis
    by (auto simp: save_bundle_def assms intro!: step_intros bundles_ok_upsert)
next
  case (OpAddAnnotation t ts x now)
  then show ?thesis
    by (auto simp: add_annotation_def Let_def notes_ok_insert assms intro!: step_intros)
next
  case (OpUpdateTab i p)
  then show ?thesis
    by (auto simp: update_tab_def apply_tab_patch_def tabs_ok_update assms intro!: step_intros)
next
  case (OpDeleteTab i)
  have "tabs_ok T sq (filter P tabs)" if "tabs_ok T sq tabs" for T sq P tabs
    using that by (rule tabs_ok_filter) (use that in \<open>auto simp: tabs_ok_def\<close>)
  then show ?thesis using OpDeleteTab
    by (simp add: delete_tab_def td_write_ok td_ok_update(7) assms)
next
  case (OpReorder order)
  then show ?thesis
    by (simp add: reorder_tabs_def td_writes_ok td_ok_update tabs_ok_positions assms del: td_execs.simps)
next
  case (OpDeleteHistory t)
  then show ?thesis
    by (simp add: delete_target_history_def Let_def td_writes_ok td_ok_update assms del: td_execs.simps)
next
  case (OpClearChanges t)
  then show ?thesis by (simp add: clear_route_changes_def td_write_ok td_ok_update assms)
next
  case (OpDeleteBundle n)
  then show ?thesis by (simp add: delete_bundle_def td_write_ok td_ok_update rows_ok_filter assms)
next
  case (OpDeleteAnnotation i)
  then show ?thesis by (simp add: delete_annotation_def td_write_ok td_ok_update rows_ok_filter assms)
qed (auto simp: set_active_interval_def set_active_thresholds_def set_active_final_hop_def
       create_tab_ok assms intro!: update_active_ok)

lemma td_ok_ops: "td_ok w \<Longrightarrow> td_ok (fold store_step ops w)"
  by (induction ops arbitrary: w) (simp_all add: store_step_ok)

lemma td_ok_empty: "td_ok (empty_target_db faults)"
  by (simp add: td_ok_def empty_target_db_def active_ok_def tabs_ok_def bundles_ok_def notes_ok_def del: td_okD)


section \<open>Reordering\<close>

text \<open>The place a request gives an identifier.\<close>

fun place :: "int \<Rightarrow> int list \<Rightarrow> int \<Rightarrow> int option" where
  "place k [] i = None"
| "place k (j # js) i = (if i = j then Some k else place (k + 1) js i)"

lemma place_None: "place k order i = None \<longleftrightarrow> i \<notin> set order"
  by (induction k order i rule: place.induct) auto

lemma place_ge: "place k order i = Some p \<Longrightarrow> k \<le> p"
  by (induction k order i rule: place.induct) (force split: if_splits)+

lemma place_inj: "place k order i = Some p \<Longrightarrow> place k order j = Some p \<Longrightarrow> i = j"
  by (induction k order i rule: place.induct) (auto split: if_splits dest: place_ge)

definition placed :: "int \<Rightarrow> int list \<Rightarrow> tab_row \<Rightarrow> tab_row" where
  "placed k order r = (case place k order (tb_id r) of None \<Rightarrow> r | Some p \<Rightarrow> r\<lparr>tb_position := p\<rparr>)"

lemma placed_id [simp]: "tb_id (placed k order r) = tb_id r"
  by (simp add: placed_def split: option.split)

lemma placed_position: "tb_id r \<in> set order \<Longrightarrow> Some (tb_position (placed k order r)) = place k order (tb_id r)"
  using place_None [of k order "tb_id r"] by (auto simp: placed_def)

lemma placed_same: "tb_id r \<notin> set order \<Longrightarrow> placed k order r = r"
  using place_None [of k order "tb_id r"] by (simp add: placed_def)

lemma set_positions_placed:
  "distinct order \<Longrightarrow> set_positions k order rows = map (placed k order) rows"
proof (induction k order rows rule: set_positions.induct)
  case (1 k rows) then show ?case by (simp add: placed_def map_idI)
next
  case (2 k i order rows)
  have "placed (k + 1) order (if tb_id r = i then r\<lparr>tb_position := k\<rparr> else r) = placed k (i # order) r" for r
    using 2(2) place_None [of "k + 1" order i] by (auto simp: placed_def)
  then show ?case using 2 by (simp add: update_where_def)
qed

lemma place_sorted:
  "distinct order \<Longrightarrow> sorted (map (\<lambda>i. the (place k order i)) (filter P order))"
proof (induction order arbitrary: k)
  case (Cons i order k)
  have "the (place k (i # order) j) = the (place (k + 1) order j)" if "j \<in> set order" for j
    using Cons.prems that by auto
  then have "map (\<lambda>i'. the (place k (i # order) i')) (filter P order)
      = map (\<lambda>i. the (place (k + 1) order i)) (filter P order)" by simp
  moreover have "k \<le> the (place (k + 1) order j)" if "j \<in> set order" for j
    using that place_None [of "k + 1" order j] place_ge [of "k + 1" order j] by fastforce
  moreover have "sorted (map (\<lambda>i. the (place (k + 1) order i)) (filter P order))"
    using Cons by simp
  moreover have "map (\<lambda>j. the (place k (i # order) j)) (filter P (i # order))
      = (if P i then [k] else []) @ map (\<lambda>j. the (place k (i # order) j)) (filter P order)" by simp
  ultimately show ?case by (simp only:) auto
qed simp

lemma td_execs_Inr:
  "td_execs n f w = (Inr x, w') \<Longrightarrow> \<exists>bs. f (w\<lparr>td_faults := bs\<rparr>) = (Inr x, w')"
proof (induction n arbitrary: w)
  case 0 then show ?case by (auto intro: exI [of _ "td_faults w"])
next
  case (Suc n)
  then show ?case
    by (fastforce simp: td_exec_def split: prod.splits bool.splits dest!: td_fault_cases)
qed

lemma reorder_tabs_rows:
  assumes "distinct order" "reorder_tabs order w = (Inr (), w')"
  shows "td_tabs w' = map (placed 0 order) (td_tabs w)"
proof (cases "order = []")
  case True
  then show ?thesis using assms by (simp add: reorder_tabs_def placed_def map_idI)
next
  case False
  then have "td_execs (length order + 2) (\<lambda>w. (Inr (), w\<lparr>td_tabs := set_positions 0 order (td_tabs w)\<rparr>)) w
      = (Inr (), w')" using assms(2) by (simp add: reorder_tabs_def del: td_execs.simps)
  from td_execs_Inr [OF this] show ?thesis
    by (auto simp: set_positions_placed [OF assms(1)])
qed

text \<open> After a successful reorder the tab bar lists the tabs of the request in exactly the order of the
  request, identifiers that no tab has being skipped; the other tabs keep their position.\<close>

theorem reorder_is_exact:
  assumes "td_ok w" "distinct order" "reorder_tabs order w = (Inr (), w')"
  shows "filter (\<lambda>i. i \<in> set order) (map tb_id (tab_order (td_tabs w')))
           = filter (\<lambda>i. i \<in> tb_id ` set (td_tabs w)) order
     \<and> filter (\<lambda>r. tb_id r \<notin> set order) (td_tabs w') = filter (\<lambda>r. tb_id r \<notin> set order) (td_tabs w)"
proof -
  define L f xs where "L = filter (\<lambda>r. tb_id r \<in> set order) (td_tabs w')"
    and "f = (\<lambda>i. the (place 0 order i))" and "xs = map tb_id (tab_order L)"
  define zs where "zs = filter (\<lambda>i. i \<in> tb_id ` set (td_tabs w)) order"
  have rows: "td_tabs w' = map (placed 0 order) (td_tabs w)" by (rule reorder_tabs_rows [OF assms(2,3)])
  have dist: "distinct (map tb_id (td_tabs w'))"
    using assms(1) by (simp add: rows td_ok_def tabs_ok_def o_def del: td_okD)
  have set: "set xs = set zs"
    by (auto simp: xs_def L_def zs_def tab_order_def rows intro: image_eqI [of _ tb_id "placed 0 order r" for r])
  have pos: "f (tb_id r) = tb_position r" if "r \<in> set L" for r
    using that placed_position [of _ order 0] by (auto simp: L_def rows f_def) (metis option.sel)
  have "map f xs = map tb_position (tab_order L)"
    using pos by (simp add: xs_def tab_order_def)
  then have sorted: "sorted (map f xs)" by (simp add: tab_order_def)
  have inj: "inj_on f (set order)"
    using place_None [of 0 order] place_inj [of 0 order] by (auto simp: inj_on_def f_def) (metis option.collapse)
  have sub: "set xs \<subseteq> set order" "set zs \<subseteq> set order" by (auto simp: set zs_def)
  have distinct: "distinct xs"
    using dist by (simp add: xs_def L_def tab_order_def distinct_map distinct_sort inj_on_def)
  have "xs = zs"
  proof (rule map_sorted_distinct_set_unique [of f])
    show "inj_on f (set xs \<union> set zs)" using inj sub by (rule_tac inj_on_subset) auto
    show "distinct (map f xs)" "distinct (map f zs)"
      using distinct assms(2) inj sub by (auto simp: distinct_map zs_def intro: inj_on_subset)
    show "sorted (map f zs)" unfolding zs_def f_def by (rule place_sorted [OF assms(2)])
  qed (rule sorted, rule set)
  moreover have "filter (\<lambda>i. i \<in> set order) (map tb_id (tab_order (td_tabs w'))) = xs"
    by (simp add: xs_def L_def tab_order_def filter_sort filter_map o_def)
  moreover have "filter (\<lambda>r. tb_id r \<notin> set order) (td_tabs w') = filter (\<lambda>r. tb_id r \<notin> set order) (td_tabs w)"
    by (auto simp: rows filter_map o_def placed_same intro!: map_idI)
  ultimately show ?thesis by (simp add: zs_def)
qed

definition demo_tabs :: target_db where
  "demo_tabs = fold store_step [OpAddActive ''a'' 0, OpCreateTab ''a'' None None None [] 0,
     OpCreateTab ''a'' None None None [] 0, OpCreateTab ''a'' None None None [] 0] (empty_target_db [])"

lemma reorder_is_exact_witness:
  "filter (\<lambda>i. i \<in> {3, 1}) (map tb_id (tab_order (td_tabs (snd (reorder_tabs [3, 1] demo_tabs))))) = [3, 1]"
proof -
  have ids: "tb_id ` set (td_tabs demo_tabs) = {1, 2, 3}" by code_simp
  have r: "reorder_tabs [3, 1] demo_tabs = (Inr (), snd (reorder_tabs [3, 1] demo_tabs))" by code_simp
  have "td_ok demo_tabs" unfolding demo_tabs_def by (rule td_ok_ops [OF td_ok_empty])
  from reorder_is_exact [OF this _ r] show ?thesis by (simp add: ids)
qed

end
