(* ===== verification/Supervisor.thy ===== *)
theory Supervisor
  imports TargetTables Engine GoText "HOL-Library.List_Lexorder" "HOL-Library.Char_ord"
begin

text \<open>
  \<open>cmd/hoptrail/supervisor.go\<close>: the set of running pipelines, one per monitored target, and how it
  is kept in step with \<open>active_targets\<close>. A pipeline is its settings; what its engine, discovery and
  pinger do is in the theories of those components, and its construction goes through their
  constructors. The map of pipelines is a list with at most one entry per target. Draining an old
  pipeline and the mutex are the order of the operations; the two stages of a removal, between which
  the mutex is free, are operations of their own.
\<close>

section \<open>Addresses as the operator types them\<close>

text \<open>\<open>netip.ParseAddr\<close>: the first of \<open>. : %\<close> decides the syntax. Of IPv6 the program only uses that a
  literal parses, so that predicate is a parameter.\<close>

definition parse_octet :: "string \<Rightarrow> nat option" where
  "parse_octet s = (if s = [] \<or> length s > 1 \<and> hd s = CHR ''0'' then None
     else (case dec_value 0 s of Some v \<Rightarrow> if v \<le> 255 then Some v else None | None \<Rightarrow> None))"

fun dot_fields :: "string \<Rightarrow> string list" where
  "dot_fields [] = [[]]"
| "dot_fields (c # cs) = (if c = CHR ''.'' then [] # dot_fields cs
     else (case dot_fields cs of f # fs \<Rightarrow> (c # f) # fs | [] \<Rightarrow> [[c]]))"

definition parse_ipv4 :: "string \<Rightarrow> nat option" where
  "parse_ipv4 s = (case map parse_octet (dot_fields s) of
       [Some a, Some b, Some c, Some d] \<Rightarrow> Some (a * 16777216 + b * 65536 + c * 256 + d)
     | _ \<Rightarrow> None)"

datatype parsed_addr = NotAnAddr | Is4 nat | Is6

definition parse_addr :: "(string \<Rightarrow> bool) \<Rightarrow> string \<Rightarrow> parsed_addr" where
  "parse_addr is_v6 s = (case find (\<lambda>c. c = CHR ''.'' \<or> c = CHR '':'' \<or> c = CHR ''%'') s of
       None \<Rightarrow> NotAnAddr
     | Some c \<Rightarrow> if c = CHR ''.'' then (case parse_ipv4 s of Some n \<Rightarrow> Is4 n | None \<Rightarrow> NotAnAddr)
                 else if c = CHR '':'' \<and> is_v6 s then Is6 else NotAnAddr)"

definition is_unspecified :: "nat \<Rightarrow> bool" where "is_unspecified n \<longleftrightarrow> n = 0"
definition is_multicast :: "nat \<Rightarrow> bool" where "is_multicast n \<longleftrightarrow> n div 16777216 mod 256 div 16 = 14"

datatype supervisor_error =
    EmptyTargetName | TargetIsV6 | NotTraceable | LookupFailed | NoUsableAddress | IntervalOutOfRange
  | AlreadyMonitored | BuildFailed config_error | NotMonitored
  | WarningNotPositive | CriticalNotPositive | WarningNotBelowCritical | ReadActiveTargets

record resolver =
  rv_is_v6 :: "string \<Rightarrow> bool"
  rv_lookup :: "string \<Rightarrow> string list option"

definition usable4 :: "nat \<Rightarrow> bool" where
  "usable4 n \<longleftrightarrow> \<not> is_unspecified n \<and> \<not> is_multicast n"

fun first_usable :: "(string \<Rightarrow> bool) \<Rightarrow> string list \<Rightarrow> addr option" where
  "first_usable v6 [] = None"
| "first_usable v6 (ip # ips) = (case parse_addr v6 ip of
       Is4 n \<Rightarrow> if usable4 n then Some (V4 n) else first_usable v6 ips
     | _ \<Rightarrow> first_usable v6 ips)"

definition resolve_target :: "resolver \<Rightarrow> string \<Rightarrow> supervisor_error + string \<times> addr" where
  "resolve_target rv typed =
     (if typed = [] then Inl EmptyTargetName
      else (case parse_addr (rv_is_v6 rv) typed of
         Is6 \<Rightarrow> Inl TargetIsV6
       | Is4 n \<Rightarrow> if usable4 n then Inr (typed, V4 n) else Inl NotTraceable
       | NotAnAddr \<Rightarrow> (case rv_lookup rv typed of
             None \<Rightarrow> Inl LookupFailed
           | Some ips \<Rightarrow> (case first_usable (rv_is_v6 rv) ips of
                 Some a \<Rightarrow> Inr (typed, a)
               | None \<Rightarrow> Inl NoUsableAddress))))"

section \<open>Pipelines\<close>

definition min_probe_interval :: duration where "min_probe_interval = 200 * go_ms"
definition max_probe_interval :: duration where "max_probe_interval = 60 * go_second"

record supervisor_config =
  sc_interval :: duration
  sc_discovery_interval :: duration
  sc_max_hops :: int
  sc_timeout :: duration
  sc_threshold :: int

record pipeline =
  pl_target :: string
  pl_addr :: addr
  pl_interval :: duration
  pl_warning :: "int option"
  pl_critical :: "int option"
  pl_final_hop :: bool

record supervisor =
  sv_pipelines :: "pipeline list"
  sv_paused :: bool
  sv_db :: target_db

definition new_supervisor :: "target_db \<Rightarrow> supervisor" where
  "new_supervisor db = \<lparr>sv_pipelines = [], sv_paused = False, sv_db = db\<rparr>"

definition pause_probing :: "supervisor \<Rightarrow> supervisor" where "pause_probing s = s\<lparr>sv_paused := True\<rparr>"
definition resume_probing :: "supervisor \<Rightarrow> supervisor" where "resume_probing s = s\<lparr>sv_paused := False\<rparr>"

definition lookup_pipeline :: "string \<Rightarrow> pipeline list \<Rightarrow> pipeline option" where
  "lookup_pipeline t ps = find (\<lambda>p. pl_target p = t) ps"

fun put_pipeline :: "pipeline \<Rightarrow> pipeline list \<Rightarrow> pipeline list" where
  "put_pipeline p [] = [p]"
| "put_pipeline p (q # qs) = (if pl_target q = pl_target p then p # qs else q # put_pipeline p qs)"

definition new_pinger :: "addr \<Rightarrow> duration \<Rightarrow> duration \<Rightarrow> bool \<Rightarrow> bool \<Rightarrow> config_error option" where
  "new_pinger target interval timeout have_prober have_engine =
     (if \<not> addr_valid target then Some BadTarget
      else if interval \<le> 0 then Some BadInterval
      else if timeout \<le> 0 then Some BadTimeout
      else if \<not> have_prober then Some NilProber
      else if \<not> have_engine then Some NilEngine
      else None)"

definition build_pipeline :: "supervisor_config \<Rightarrow> string \<Rightarrow> addr \<Rightarrow> duration \<Rightarrow> bool \<Rightarrow> config_error + pipeline" where
  "build_pipeline cfg target ad interval final_hop =
     (case new_engine \<lparr>ec_Target = ad, ec_TargetID = target, ec_Threshold = sc_threshold cfg\<rparr> True of
        Inl e \<Rightarrow> Inl e
      | Inr _ \<Rightarrow> (case new_discovery \<lparr>dc_Target = ad, dc_Interval = sc_discovery_interval cfg,
              dc_MaxHops = nat (sc_max_hops cfg mod 256), dc_Timeout = sc_timeout cfg\<rparr> True True of
           Inl e \<Rightarrow> Inl e
         | Inr _ \<Rightarrow> (case new_pinger ad interval (sc_timeout cfg) True True of
              Some e \<Rightarrow> Inl e
            | None \<Rightarrow> Inr \<lparr>pl_target = target, pl_addr = ad, pl_interval = interval, pl_warning = None,
                          pl_critical = None, pl_final_hop = final_hop\<rparr>)))"

section \<open>Queries\<close>

definition interval_for :: "string \<Rightarrow> supervisor \<Rightarrow> duration" where
  "interval_for t s = (case lookup_pipeline t (sv_pipelines s) of None \<Rightarrow> 0 | Some p \<Rightarrow> pl_interval p)"

definition sup_intervals :: "supervisor \<Rightarrow> (string \<times> duration) list" where
  "sup_intervals s = map (\<lambda>p. (pl_target p, pl_interval p)) (sv_pipelines s)"

definition sup_thresholds :: "supervisor \<Rightarrow> (string \<times> int option \<times> int option) list" where
  "sup_thresholds s = map (\<lambda>p. (pl_target p, pl_warning p, pl_critical p)) (sv_pipelines s)"

definition sup_final_hops :: "supervisor \<Rightarrow> (string \<times> bool) list" where
  "sup_final_hops s = map (\<lambda>p. (pl_target p, pl_final_hop p)) (sv_pipelines s)"

definition monitored :: "supervisor \<Rightarrow> string set" where
  "monitored s = pl_target ` set (sv_pipelines s)"

definition sup_targets :: "supervisor \<Rightarrow> string list" where
  "sup_targets s = sort (map pl_target (sv_pipelines s))"

section \<open>Operations\<close>

text \<open>A write-through to the store: its error is logged and changes nothing else.\<close>

definition on_db :: "(target_db \<Rightarrow> 'a \<times> target_db) \<Rightarrow> supervisor \<Rightarrow> supervisor" where
  "on_db f s = s\<lparr>sv_db := snd (f (sv_db s))\<rparr>"

definition add_pipeline :: "resolver \<Rightarrow> supervisor_config \<Rightarrow> string \<Rightarrow> duration \<Rightarrow> int option \<Rightarrow> int option
    \<Rightarrow> bool \<Rightarrow> supervisor \<Rightarrow> (supervisor_error + string \<times> addr) \<times> supervisor" where
  "add_pipeline rv cfg target interval warning critical final_hop s =
     (case resolve_target rv target of
        Inl e \<Rightarrow> (Inl e, s)
      | Inr (i, a) \<Rightarrow>
          if interval < min_probe_interval \<or> interval > max_probe_interval then (Inl IntervalOutOfRange, s)
          else if lookup_pipeline i (sv_pipelines s) \<noteq> None then (Inl AlreadyMonitored, s)
          else (case build_pipeline cfg i a interval final_hop of
              Inl e \<Rightarrow> (Inl (BuildFailed e), s)
            | Inr p \<Rightarrow> (Inr (i, a), s\<lparr>sv_pipelines :=
                put_pipeline (p\<lparr>pl_warning := warning, pl_critical := critical\<rparr>) (sv_pipelines s)\<rparr>)))"

definition sup_add :: "resolver \<Rightarrow> supervisor_config \<Rightarrow> instant \<Rightarrow> string \<Rightarrow> supervisor
    \<Rightarrow> (supervisor_error + unit) \<times> supervisor" where
  "sup_add rv cfg now target s =
     (case add_pipeline rv cfg target (sc_interval cfg) None None False s of
        (Inl e, s') \<Rightarrow> (Inl e, s')
      | (Inr (i, _), s') \<Rightarrow> (Inr (), on_db (remember_target i now) (on_db (add_active_target i now) s')))"

definition rebuild_pipeline :: "supervisor_config \<Rightarrow> string \<Rightarrow> addr option \<Rightarrow> duration option \<Rightarrow> bool option
    \<Rightarrow> supervisor \<Rightarrow> (supervisor_error + bool) \<times> supervisor" where
  "rebuild_pipeline cfg target new_addr new_interval new_final_hop s =
     (case lookup_pipeline target (sv_pipelines s) of
        None \<Rightarrow> (Inl NotMonitored, s)
      | Some old \<Rightarrow>
          (let a = keep new_addr (pl_addr old);
               interval = keep new_interval (pl_interval old);
               final_hop = keep new_final_hop (pl_final_hop old)
           in if a = pl_addr old \<and> interval = pl_interval old \<and> final_hop = pl_final_hop old
              then (Inr False, s)
              else (case build_pipeline cfg target a interval final_hop of
                  Inl e \<Rightarrow> (Inl (BuildFailed e), s)
                | Inr p \<Rightarrow> (Inr True, s\<lparr>sv_pipelines :=
                    put_pipeline (p\<lparr>pl_warning := pl_warning old, pl_critical := pl_critical old\<rparr>)
                      (sv_pipelines s)\<rparr>))))"

text \<open>\<open>Duration.Milliseconds\<close> truncates.\<close>

definition sup_set_interval :: "supervisor_config \<Rightarrow> string \<Rightarrow> duration \<Rightarrow> supervisor
    \<Rightarrow> (supervisor_error + unit) \<times> supervisor" where
  "sup_set_interval cfg target interval s =
     (if interval < min_probe_interval \<or> interval > max_probe_interval then (Inl IntervalOutOfRange, s)
      else (case rebuild_pipeline cfg target None (Some interval) None s of
         (Inl e, s') \<Rightarrow> (Inl e, s')
       | (Inr changed, s') \<Rightarrow>
           (Inr (), if changed then on_db (set_active_interval target (Some (go_quot interval go_ms))) s' else s')))"

definition sup_set_final_hop :: "supervisor_config \<Rightarrow> string \<Rightarrow> bool \<Rightarrow> supervisor
    \<Rightarrow> (supervisor_error + unit) \<times> supervisor" where
  "sup_set_final_hop cfg target b s =
     (case rebuild_pipeline cfg target None None (Some b) s of
        (Inl e, s') \<Rightarrow> (Inl e, s')
      | (Inr changed, s') \<Rightarrow> (Inr (), if changed then on_db (set_active_final_hop target b) s' else s'))"

definition not_positive :: "int option \<Rightarrow> bool" where
  "not_positive x = (case x of None \<Rightarrow> False | Some v \<Rightarrow> v \<le> 0)"

definition check_thresholds :: "int option \<Rightarrow> int option \<Rightarrow> supervisor_error option" where
  "check_thresholds warning critical =
     (if not_positive warning then Some WarningNotPositive
      else if not_positive critical then Some CriticalNotPositive
      else (case (warning, critical) of
          (Some v, Some c) \<Rightarrow> if v \<ge> c then Some WarningNotBelowCritical else None
        | _ \<Rightarrow> None))"

definition sup_set_thresholds :: "string \<Rightarrow> int option \<Rightarrow> int option \<Rightarrow> supervisor
    \<Rightarrow> (supervisor_error + unit) \<times> supervisor" where
  "sup_set_thresholds target warning critical s =
     (case check_thresholds warning critical of
        Some e \<Rightarrow> (Inl e, s)
      | None \<Rightarrow> (case lookup_pipeline target (sv_pipelines s) of
            None \<Rightarrow> (Inl NotMonitored, s)
          | Some p \<Rightarrow> (Inr (), on_db (set_active_thresholds target warning critical)
              (s\<lparr>sv_pipelines := put_pipeline (p\<lparr>pl_warning := warning, pl_critical := critical\<rparr>)
                 (sv_pipelines s)\<rparr>))))"

text \<open>\<open>Remove\<close>: the map entry goes first; the row follows once the pipeline has drained.\<close>

definition remove_begin :: "string \<Rightarrow> supervisor \<Rightarrow> (supervisor_error + unit) \<times> supervisor" where
  "remove_begin target s =
     (if lookup_pipeline target (sv_pipelines s) = None then (Inl NotMonitored, s)
      else (Inr (), s\<lparr>sv_pipelines := filter (\<lambda>p. pl_target p \<noteq> target) (sv_pipelines s)\<rparr>))"

definition remove_finish :: "string \<Rightarrow> supervisor \<Rightarrow> supervisor" where
  "remove_finish target = on_db (remove_active_target target)"

definition sup_remove :: "string \<Rightarrow> supervisor \<Rightarrow> (supervisor_error + unit) \<times> supervisor" where
  "sup_remove target s = (case remove_begin target s of
     (Inl e, s') \<Rightarrow> (Inl e, s') | (Inr _, s') \<Rightarrow> (Inr (), remove_finish target s'))"

text \<open>\<open>Swap\<close> removes the other targets in the order the map iteration yields, given by \<open>iter\<close>.\<close>

definition sup_swap :: "(string list \<Rightarrow> string list) \<Rightarrow> resolver \<Rightarrow> supervisor_config \<Rightarrow> instant \<Rightarrow> string
    \<Rightarrow> supervisor \<Rightarrow> (supervisor_error + unit) \<times> supervisor" where
  "sup_swap iter rv cfg now target s =
     (case resolve_target rv target of
        Inl e \<Rightarrow> (Inl e, s)
      | Inr (i, _) \<Rightarrow>
          (let existing = iter (map pl_target (sv_pipelines s));
               (r, s1) = (if lookup_pipeline i (sv_pipelines s) = None then sup_add rv cfg now i s else (Inr (), s))
           in case r of
                Inl e \<Rightarrow> (Inl e, s1)
              | Inr _ \<Rightarrow> (Inr (), fold (\<lambda>t s. if t = i then s else snd (sup_remove t s)) existing s1)))"

definition sup_shutdown :: "supervisor \<Rightarrow> supervisor" where
  "sup_shutdown s = s\<lparr>sv_pipelines := []\<rparr>"

text \<open>\<open>Hydrate\<close>: a stored interval outside the bounds is clamped, a row that cannot be brought up is
  skipped.\<close>

definition clamp_interval :: "duration \<Rightarrow> duration" where
  "clamp_interval d = (if d < min_probe_interval then min_probe_interval
     else if d > max_probe_interval then max_probe_interval else d)"

definition hydrate_one :: "resolver \<Rightarrow> supervisor_config \<Rightarrow> active_target \<Rightarrow> supervisor \<Rightarrow> supervisor" where
  "hydrate_one rv cfg t s =
     (let interval = (case av_interval t of None \<Rightarrow> sc_interval cfg | Some ms \<Rightarrow> wrap64 (ms * go_ms))
      in snd (add_pipeline rv cfg (av_target t) (clamp_interval interval) (av_warning t) (av_critical t)
                (av_final_hop t) s))"

definition sup_hydrate :: "resolver \<Rightarrow> supervisor_config \<Rightarrow> supervisor \<Rightarrow> (supervisor_error + unit) \<times> supervisor" where
  "sup_hydrate rv cfg s = (case active_targets (sv_db s) of
     (Inl _, db) \<Rightarrow> (Inl ReadActiveTargets, s\<lparr>sv_db := db\<rparr>)
   | (Inr ts, db) \<Rightarrow> (Inr (), fold (hydrate_one rv cfg) ts (s\<lparr>sv_db := db\<rparr>)))"

text \<open>One tick of \<open>runReresolve\<close>, which runs for host names only: the loop ends when it has rebuilt
  the pipeline.\<close>

definition reresolve_tick :: "resolver \<Rightarrow> supervisor_config \<Rightarrow> string \<Rightarrow> addr \<Rightarrow> supervisor \<Rightarrow> bool \<times> supervisor" where
  "reresolve_tick rv cfg target current s =
     (case resolve_target rv target of
        Inl _ \<Rightarrow> (False, s)
      | Inr (_, a) \<Rightarrow>
          if a = current then (False, s)
          else (case rebuild_pipeline cfg target (Some a) None None s of
             (Inl _, s') \<Rightarrow> (False, s') | (Inr _, s') \<Rightarrow> (True, s')))"

end
