(* ===== verification/SupervisorSync.thy ===== *)
theory SupervisorSync
  imports Supervisor
begin

text \<open>
  The supervisor and \<open>active_targets\<close> stay in step: whatever the operator did, a restart brings back
  the same targets with the same settings. The two ways the code can lose that agreement, a removal
  racing with an addition and a target that was skipped at startup, are stated as lemmas.
\<close>

section \<open>Requests\<close>

datatype sup_op =
    SupAdd resolver instant string | SupRemove string
  | SupSwap "string list \<Rightarrow> string list" resolver instant string
  | SupSetInterval string duration | SupSetThresholds string "int option" "int option"
  | SupSetFinalHop string bool | SupReresolve resolver string addr | SupPause | SupResume

fun sup_step :: "supervisor_config \<Rightarrow> sup_op \<Rightarrow> supervisor \<Rightarrow> supervisor" where
  "sup_step cfg (SupAdd rv now t) s = snd (sup_add rv cfg now t s)"
| "sup_step cfg (SupRemove t) s = snd (sup_remove t s)"
| "sup_step cfg (SupSwap iter rv now t) s = snd (sup_swap iter rv cfg now t s)"
| "sup_step cfg (SupSetInterval t d) s = snd (sup_set_interval cfg t d s)"
| "sup_step cfg (SupSetThresholds t a b) s = snd (sup_set_thresholds t a b s)"
| "sup_step cfg (SupSetFinalHop t b) s = snd (sup_set_final_hop cfg t b s)"
| "sup_step cfg (SupReresolve rv t a) s = snd (reresolve_tick rv cfg t a s)"
| "sup_step cfg SupPause s = pause_probing s"
| "sup_step cfg SupResume s = resume_probing s"

text \<open>Intervals arrive as whole milliseconds.\<close>

fun whole_ms :: "sup_op \<Rightarrow> bool" where
  "whole_ms (SupSetInterval t d) \<longleftrightarrow> d mod go_ms = 0"
| "whole_ms _ \<longleftrightarrow> True"

section \<open>Lookups\<close>

definition find_row :: "string \<Rightarrow> active_row list \<Rightarrow> active_row option" where
  "find_row t rows = find (\<lambda>r. at_target r = t) rows"

lemma lookup_put: "lookup_pipeline u (put_pipeline p ps) = (if u = pl_target p then Some p else lookup_pipeline u ps)"
  by (induction ps) (auto simp: lookup_pipeline_def)

lemma lookup_filter:
  "lookup_pipeline u (filter (\<lambda>p. pl_target p \<noteq> t) ps) = (if u = t then None else lookup_pipeline u ps)"
  by (induction ps) (auto simp: lookup_pipeline_def)

lemma lookup_Nil [simp]: "lookup_pipeline u [] = None"
  by (simp add: lookup_pipeline_def)

lemma lookup_target: "lookup_pipeline t ps = Some p \<Longrightarrow> pl_target p = t \<and> p \<in> set ps"
  by (auto simp: lookup_pipeline_def find_Some_iff)

lemma lookup_None: "lookup_pipeline t ps = None \<longleftrightarrow> t \<notin> pl_target ` set ps"
  by (auto simp: lookup_pipeline_def find_None_iff)

lemma find_row_None: "find_row t rows = None \<longleftrightarrow> t \<notin> at_target ` set rows"
  by (auto simp: find_row_def find_None_iff)

lemma find_row_unique:
  "distinct (map at_target rows) \<Longrightarrow> find_row t rows = Some r \<longleftrightarrow> r \<in> set rows \<and> at_target r = t"
  by (induction rows) (auto simp: find_row_def)

lemma row_upsert: "find_row u (upsert_active t ts rows) =
    (if u = t then Some (case find_row t rows of
        None \<Rightarrow> \<lparr>at_target = t, at_added = ts, at_interval = None, at_warning = None, at_critical = None, at_final_hop = 0\<rparr>
      | Some r \<Rightarrow> r\<lparr>at_added := ts\<rparr>) else find_row u rows)"
  by (induction rows) (auto simp: find_row_def)

lemma row_update:
  assumes "\<And>r. at_target (f r) = at_target r"
  shows "find_row u (update_where (\<lambda>r. at_target r = t) f rows)
    = (if u = t then map_option f (find_row t rows) else find_row u rows)"
  by (induction rows) (auto simp: find_row_def update_where_def assms)

lemma row_filter: "find_row u (filter (\<lambda>r. at_target r \<noteq> t) rows) = (if u = t then None else find_row u rows)"
  by (induction rows) (auto simp: find_row_def)

section \<open>Building\<close>

definition config_builds :: "supervisor_config \<Rightarrow> bool" where
  "config_builds cfg \<longleftrightarrow> 1 \<le> sc_threshold cfg \<and> 0 < sc_discovery_interval cfg \<and> 0 < sc_timeout cfg
     \<and> nat (sc_max_hops cfg mod 256) \<noteq> 0 \<and> nat (sc_max_hops cfg mod 256) \<le> max_ttl"

lemma build_pipeline_Inr:
  "build_pipeline cfg t a i b = Inr p \<longleftrightarrow> config_builds cfg \<and> addr_valid a \<and> 0 < i
     \<and> p = \<lparr>pl_target = t, pl_addr = a, pl_interval = i, pl_warning = None, pl_critical = None, pl_final_hop = b\<rparr>"
  by (auto simp: build_pipeline_def new_engine_def new_discovery_def new_pinger_def config_builds_def)

definition usable :: "addr \<Rightarrow> bool" where
  "usable a \<longleftrightarrow> (\<exists>n. a = V4 n \<and> usable4 n)"

lemma first_usable_usable: "first_usable v6 ips = Some a \<Longrightarrow> usable a"
  by (induction ips) (auto simp: usable_def split: parsed_addr.splits if_splits)

lemma resolve_target_Inr: "resolve_target rv t = Inr (i, a) \<Longrightarrow> i = t \<and> t \<noteq> [] \<and> usable a"
  by (auto simp: resolve_target_def usable_def dest: first_usable_usable
      split: if_splits parsed_addr.splits option.splits)

lemma usable_valid: "usable a \<Longrightarrow> addr_valid a"
  by (auto simp: usable_def)

definition in_bounds :: "duration \<Rightarrow> bool" where
  "in_bounds d \<longleftrightarrow> min_probe_interval \<le> d \<and> d \<le> max_probe_interval"

lemma in_bounds_pos: "in_bounds d \<Longrightarrow> 0 < d"
  by (simp add: in_bounds_def min_probe_interval_def go_ms_def)

lemma clamp_in_bounds [simp]: "in_bounds (clamp_interval d)" "in_bounds d \<Longrightarrow> clamp_interval d = d"
  by (auto simp: in_bounds_def clamp_interval_def min_probe_interval_def max_probe_interval_def go_units)

definition brought_up :: "string \<Rightarrow> addr \<Rightarrow> duration \<Rightarrow> int option \<Rightarrow> int option \<Rightarrow> bool \<Rightarrow> pipeline" where
  "brought_up t a i wa cr b = \<lparr>pl_target = t, pl_addr = a, pl_interval = i, pl_warning = wa, pl_critical = cr,
     pl_final_hop = b\<rparr>"

lemma brought_up_simps [simp]:
  "pl_target (brought_up t a i wa cr b) = t" "pl_addr (brought_up t a i wa cr b) = a"
  "pl_interval (brought_up t a i wa cr b) = i" "pl_warning (brought_up t a i wa cr b) = wa"
  "pl_critical (brought_up t a i wa cr b) = cr" "pl_final_hop (brought_up t a i wa cr b) = b"
  by (simp_all add: brought_up_def)

lemma add_pipeline_cases:
  obtains e where "add_pipeline rv cfg t i wa cr b s = (Inl e, s)"
  | a where "add_pipeline rv cfg t i wa cr b s
        = (Inr (t, a), s\<lparr>sv_pipelines := put_pipeline (brought_up t a i wa cr b) (sv_pipelines s)\<rparr>)"
      "resolve_target rv t = Inr (t, a)" "t \<noteq> []" "usable a" "in_bounds i" "config_builds cfg"
      "lookup_pipeline t (sv_pipelines s) = None"
proof (cases "add_pipeline rv cfg t i wa cr b s")
  case (Pair r s')
  show thesis
  proof (cases r)
    case (Inl e)
    with Pair have "s' = s" by (auto simp: add_pipeline_def split: sum.splits prod.splits if_splits)
    with Inl Pair that(1) show thesis by simp
  next
    case (Inr x)
    with Pair obtain a p where a: "resolve_target rv t = Inr (fst x, a)" "build_pipeline cfg (fst x) a i b = Inr p"
        "in_bounds i" "lookup_pipeline (fst x) (sv_pipelines s) = None" "x = (fst x, a)"
        "s' = s\<lparr>sv_pipelines := put_pipeline (p\<lparr>pl_warning := wa, pl_critical := cr\<rparr>) (sv_pipelines s)\<rparr>"
      by (auto simp: add_pipeline_def in_bounds_def split: sum.splits prod.splits if_splits)
    with resolve_target_Inr [OF a(1)] show thesis
      using that(2) [of a] Pair Inr by (auto simp: build_pipeline_Inr brought_up_def)
  qed
qed

lemma add_pipeline_ok:
  assumes "resolve_target rv t = Inr (t, a)" "in_bounds i" "config_builds cfg" "lookup_pipeline t (sv_pipelines s) = None"
  shows "add_pipeline rv cfg t i wa cr b s
    = (Inr (t, a), s\<lparr>sv_pipelines := put_pipeline (brought_up t a i wa cr b) (sv_pipelines s)\<rparr>)"
proof -
  have "build_pipeline cfg t a i b
      = Inr \<lparr>pl_target = t, pl_addr = a, pl_interval = i, pl_warning = None, pl_critical = None, pl_final_hop = b\<rparr>"
    using assms resolve_target_Inr [OF assms(1)] by (simp add: build_pipeline_Inr usable_valid in_bounds_pos)
  then show ?thesis using assms by (simp add: add_pipeline_def in_bounds_def brought_up_def)
qed

lemma rebuild_cases:
  obtains e where "rebuild_pipeline cfg t na ni nb s = (Inl e, s)"
  | p where "rebuild_pipeline cfg t na ni nb s = (Inr False, s)" "lookup_pipeline t (sv_pipelines s) = Some p"
      "keep na (pl_addr p) = pl_addr p" "keep ni (pl_interval p) = pl_interval p" "keep nb (pl_final_hop p) = pl_final_hop p"
  | p where "rebuild_pipeline cfg t na ni nb s = (Inr True, s\<lparr>sv_pipelines := put_pipeline
        (brought_up t (keep na (pl_addr p)) (keep ni (pl_interval p)) (pl_warning p) (pl_critical p)
           (keep nb (pl_final_hop p))) (sv_pipelines s)\<rparr>)"
      "lookup_pipeline t (sv_pipelines s) = Some p"
proof (cases "lookup_pipeline t (sv_pipelines s)")
  case None
  then show thesis using that(1) by (simp add: rebuild_pipeline_def)
next
  case (Some p)
  define q where "q = build_pipeline cfg t (keep na (pl_addr p)) (keep ni (pl_interval p)) (keep nb (pl_final_hop p))"
  consider "keep na (pl_addr p) = pl_addr p \<and> keep ni (pl_interval p) = pl_interval p \<and> keep nb (pl_final_hop p) = pl_final_hop p"
    | e where "\<not> (keep na (pl_addr p) = pl_addr p \<and> keep ni (pl_interval p) = pl_interval p
        \<and> keep nb (pl_final_hop p) = pl_final_hop p)" "q = Inl e"
    | r where "\<not> (keep na (pl_addr p) = pl_addr p \<and> keep ni (pl_interval p) = pl_interval p
        \<and> keep nb (pl_final_hop p) = pl_final_hop p)" "q = Inr r"
    by (cases q) auto
  then show thesis
  proof cases
    case 1 then show thesis using that(2) Some by (simp add: rebuild_pipeline_def)
  next
    case (2 e) then show thesis using that(1) Some by (simp only: rebuild_pipeline_def q_def) (simp add: Let_def)
  next
    case (3 r)
    from 3(2) have "r = brought_up t (keep na (pl_addr p)) (keep ni (pl_interval p)) None None (keep nb (pl_final_hop p))"
      by (simp add: q_def build_pipeline_Inr brought_up_def)
    with 3 show thesis using that(3) [OF _ Some] Some
      by (simp only: rebuild_pipeline_def q_def) (simp add: Let_def brought_up_def)
  qed
qed

section \<open>Pipelines and rows in step\<close>

definition stored_interval :: "supervisor_config \<Rightarrow> active_row \<Rightarrow> duration" where
  "stored_interval cfg r = (case at_interval r of None \<Rightarrow> sc_interval cfg | Some ms \<Rightarrow> ms * go_ms)"

fun agrees :: "supervisor_config \<Rightarrow> pipeline option \<Rightarrow> active_row option \<Rightarrow> bool" where
  "agrees cfg None None \<longleftrightarrow> True"
| "agrees cfg (Some p) (Some r) \<longleftrightarrow> pl_interval p = stored_interval cfg r \<and> pl_warning p = at_warning r
     \<and> pl_critical p = at_critical r \<and> (pl_final_hop p \<longleftrightarrow> at_final_hop r \<noteq> 0)"
| "agrees cfg _ _ \<longleftrightarrow> False"

definition in_step :: "supervisor_config \<Rightarrow> supervisor \<Rightarrow> bool" where
  "in_step cfg s \<longleftrightarrow> td_faults (sv_db s) = [] \<and> active_ok (td_active (sv_db s))
     \<and> (\<forall>t. agrees cfg (lookup_pipeline t (sv_pipelines s)) (find_row t (td_active (sv_db s))))
     \<and> (\<forall>t p. lookup_pipeline t (sv_pipelines s) = Some p \<longrightarrow> in_bounds (pl_interval p) \<and> config_builds cfg)"

lemma td_exec_none: "td_faults w = [] \<Longrightarrow> td_exec f w = f w"
  by (simp add: td_exec_def td_fault_def)

lemma in_step_agrees:
  assumes "in_step cfg s" "lookup_pipeline t (sv_pipelines s) = Some p"
  obtains r where "find_row t (td_active (sv_db s)) = Some r" "agrees cfg (Some p) (Some r)" "t \<noteq> []"
    "in_bounds (pl_interval p)" "config_builds cfg"
proof -
  have a: "agrees cfg (Some p) (find_row t (td_active (sv_db s)))"
    using assms unfolding in_step_def by metis
  then obtain r where r: "find_row t (td_active (sv_db s)) = Some r" by (cases "find_row t (td_active (sv_db s))") auto
  then have "r \<in> set (td_active (sv_db s))" "at_target r = t" by (auto simp: find_row_def find_Some_iff)
  then have "t \<noteq> []" using assms(1) by (auto simp: in_step_def active_ok_def)
  moreover have "in_bounds (pl_interval p) \<and> config_builds cfg"
    using assms unfolding in_step_def by blast
  ultimately show thesis using that [of r] a r by simp
qed

lemma in_step_add:
  assumes "in_step cfg s" "t \<noteq> []" "lookup_pipeline t (sv_pipelines s) = None" "in_bounds (sc_interval cfg)" "config_builds cfg"
  shows "in_step cfg (on_db (remember_target t now) (on_db (add_active_target t now)
    (s\<lparr>sv_pipelines := put_pipeline (brought_up t a (sc_interval cfg) None None False) (sv_pipelines s)\<rparr>)))"
proof -
  have "agrees cfg None (find_row t (td_active (sv_db s)))"
    using assms(1,3) unfolding in_step_def by metis
  then have "find_row t (td_active (sv_db s)) = None"
    by (cases "find_row t (td_active (sv_db s))") simp_all
  then show ?thesis
    using assms by (auto simp: in_step_def on_db_def remember_target_def add_active_target_def td_exec_none
        lookup_put row_upsert active_ok_upsert stored_interval_def)
qed

lemma in_step_change:
  assumes "in_step cfg s" "lookup_pipeline t (sv_pipelines s) = Some p" "pl_target q = t" "in_bounds (pl_interval q)"
    and f: "\<And>r. at_target (f r) = at_target r" "\<And>r. at_final_hop r \<in> {0, 1} \<Longrightarrow> at_final_hop (f r) \<in> {0, 1}"
    and agree: "\<And>r. agrees cfg (Some p) (Some r) \<Longrightarrow> agrees cfg (Some q) (Some (f r))"
  shows "in_step cfg (on_db (update_active t f) (s\<lparr>sv_pipelines := put_pipeline q (sv_pipelines s)\<rparr>))"
proof -
  obtain r where r: "find_row t (td_active (sv_db s)) = Some r" "agrees cfg (Some p) (Some r)" "t \<noteq> []" "config_builds cfg"
    using in_step_agrees [OF assms(1,2)] by blast
  show ?thesis
    using assms(1,3,4) r agree [OF r(2)] active_ok_update [OF _ f]
    by (auto simp: in_step_def on_db_def update_active_def td_exec_none lookup_put row_update f)
qed

lemma in_step_move:
  assumes "in_step cfg s" "lookup_pipeline t (sv_pipelines s) = Some p" "pl_target q = t"
    "pl_interval q = pl_interval p" "pl_warning q = pl_warning p" "pl_critical q = pl_critical p"
    "pl_final_hop q = pl_final_hop p"
  shows "in_step cfg (s\<lparr>sv_pipelines := put_pipeline q (sv_pipelines s)\<rparr>)"
proof -
  obtain r where "find_row t (td_active (sv_db s)) = Some r" "agrees cfg (Some p) (Some r)"
      "in_bounds (pl_interval p)" "config_builds cfg"
    using in_step_agrees [OF assms(1,2)] by blast
  then show ?thesis using assms by (auto simp: in_step_def lookup_put)
qed

lemma in_step_remove:
  assumes "in_step cfg s" shows "in_step cfg (snd (sup_remove t s))"
  using assms by (auto simp: sup_remove_def remove_begin_def remove_finish_def in_step_def on_db_def
      remove_active_target_def td_exec_none lookup_filter row_filter rows_ok_filter)

lemma in_step_sup_add:
  assumes "in_step cfg s" shows "in_step cfg (snd (sup_add rv cfg now t s))"
  by (cases rule: add_pipeline_cases [of rv cfg t "sc_interval cfg" None None False s])
     (simp_all add: sup_add_def assms in_step_add)

lemma go_quot_whole: "0 < d \<Longrightarrow> d mod go_ms = 0 \<Longrightarrow> go_quot d go_ms * go_ms = d"
  by (auto simp: go_quot_def go_ms_def)

lemma in_step_op:
  assumes "in_step cfg s" "whole_ms op"
  shows "in_step cfg (sup_step cfg op s)"
proof (cases op)
  case (SupSwap iter rv now t)
  have "in_step cfg s \<Longrightarrow> in_step cfg (fold (\<lambda>u s. if u = i then s else snd (sup_remove u s)) us s)" for i us s
    by (induction us arbitrary: s) (simp_all add: in_step_remove)
  moreover have "in_step cfg s'" if "sup_add rv cfg now i s = (r, s')" for i r s'
    using in_step_sup_add [OF assms(1), of rv now i] that by simp
  ultimately show ?thesis
    using SupSwap assms(1) by (auto simp: sup_swap_def Let_def split: sum.split prod.splits if_splits)
next
  case (SupSetInterval t d)
  show ?thesis
  proof (cases rule: rebuild_cases [of cfg t None "Some d" None s])
    case (3 p)
    have ms: "go_quot d go_ms * go_ms = d" if "in_bounds d"
      using that SupSetInterval assms(2) by (intro go_quot_whole) (simp_all add: in_bounds_pos)
    show ?thesis
      using SupSetInterval assms(1) 3 ms
      by (auto simp: sup_set_interval_def set_active_interval_def keep_def stored_interval_def in_bounds_def
          intro!: in_step_change [OF assms(1) 3(2)])
  qed (use SupSetInterval assms(1) in \<open>auto simp: sup_set_interval_def\<close>)
next
  case (SupSetThresholds t a b)
  then show ?thesis using assms(1)
    by (auto simp: sup_set_thresholds_def set_active_thresholds_def stored_interval_def
        dest: lookup_target split: option.split intro!: in_step_change elim: in_step_agrees)
next
  case (SupSetFinalHop t b)
  show ?thesis
  proof (cases rule: rebuild_cases [of cfg t None None "Some b" s])
    case (3 p)
    then have "in_bounds (pl_interval p)" using in_step_agrees [OF assms(1) 3(2)] by blast
    then show ?thesis
      using SupSetFinalHop assms(1) 3
      by (auto simp: sup_set_final_hop_def set_active_final_hop_def keep_def stored_interval_def
          intro!: in_step_change [OF assms(1) 3(2)])
  qed (use SupSetFinalHop assms(1) in \<open>auto simp: sup_set_final_hop_def\<close>)
next
  case (SupReresolve rv t a)
  have "in_step cfg (snd (rebuild_pipeline cfg t (Some x) None None s))" for x
    by (cases rule: rebuild_cases [of cfg t "Some x" None None s])
       (auto simp: assms(1) keep_def intro!: in_step_move [OF assms(1)])
  then show ?thesis
    using SupReresolve assms(1) by (auto simp: reresolve_tick_def split: sum.splits prod.splits) (metis snd_conv)+
qed (use assms in \<open>simp_all add: in_step_sup_add in_step_remove\<close>, simp_all add: in_step_def pause_probing_def resume_probing_def)

section \<open>A restart\<close>

definition pl_settings :: "pipeline \<Rightarrow> duration \<times> int option \<times> int option \<times> bool" where
  "pl_settings p = (pl_interval p, pl_warning p, pl_critical p, pl_final_hop p)"

definition settings_of :: "string \<Rightarrow> supervisor \<Rightarrow> (duration \<times> int option \<times> int option \<times> bool) option" where
  "settings_of t s = map_option pl_settings (lookup_pipeline t (sv_pipelines s))"

definition row_settings :: "supervisor_config \<Rightarrow> active_row \<Rightarrow> duration \<times> int option \<times> int option \<times> bool" where
  "row_settings cfg r = (stored_interval cfg r, at_warning r, at_critical r, at_final_hop r \<noteq> 0)"

lemma hydrate_rows:
  assumes "config_builds cfg" "distinct (map at_target rows)"
    and "\<And>r. r \<in> set rows \<Longrightarrow> in_bounds (stored_interval cfg r)"
    and "\<And>r. r \<in> set rows \<Longrightarrow> \<exists>a. resolve_target rv (at_target r) = Inr (at_target r, a)"
    and "\<And>r. r \<in> set rows \<Longrightarrow> lookup_pipeline (at_target r) (sv_pipelines s) = None"
  shows "settings_of t (fold (hydrate_one rv cfg) (map view_active rows) s)
      = (case find_row t rows of Some r \<Rightarrow> Some (row_settings cfg r) | None \<Rightarrow> settings_of t s)
    \<and> sv_db (fold (hydrate_one rv cfg) (map view_active rows) s) = sv_db s"
  using assms(2-5)
proof (induction rows arbitrary: s)
  case Nil then show ?case by (simp add: find_row_def)
next
  case (Cons r rows)
  obtain a where a: "resolve_target rv (at_target r) = Inr (at_target r, a)" using Cons.prems(3) by fastforce
  define i where "i = stored_interval cfg r"
  have i: "in_bounds i" using Cons.prems(2) [of r] by (simp add: i_def)
  have "wrap64 (ms * go_ms) = ms * go_ms" if "at_interval r = Some ms" for ms
    using i that by (intro wrap64_id)
      (simp_all add: i_def stored_interval_def in_bounds_def min_probe_interval_def max_probe_interval_def go_units)
  then have "(case av_interval (view_active r) of None \<Rightarrow> sc_interval cfg | Some ms \<Rightarrow> wrap64 (ms * go_ms)) = i"
    by (simp add: view_active_def i_def stored_interval_def split: option.split)
  then have one: "hydrate_one rv cfg (view_active r) s = s\<lparr>sv_pipelines := put_pipeline
      (brought_up (at_target r) a i (at_warning r) (at_critical r) (at_final_hop r \<noteq> 0)) (sv_pipelines s)\<rparr>"
    using add_pipeline_ok [OF a, of "clamp_interval i" cfg s] i assms(1) Cons.prems(4) [of r]
    by (simp add: hydrate_one_def Let_def) (simp add: view_active_def)
  define s1 where "s1 = hydrate_one rv cfg (view_active r) s"
  have fresh: "lookup_pipeline (at_target q) (sv_pipelines s1) = None" if "q \<in> set rows" for q
    using that Cons.prems(1,4) by (auto simp: s1_def one lookup_put) (metis image_eqI)
  have ih: "settings_of t (fold (hydrate_one rv cfg) (map view_active rows) s1)
      = (case find_row t rows of Some r \<Rightarrow> Some (row_settings cfg r) | None \<Rightarrow> settings_of t s1)
    \<and> sv_db (fold (hydrate_one rv cfg) (map view_active rows) s1) = sv_db s1"
    by (rule Cons.IH) (use Cons.prems fresh in auto)
  have "find_row t rows = None" if "t = at_target r"
    using that Cons.prems(1) by (simp add: find_row_None)
  moreover have "settings_of t s1 = (if t = at_target r then Some (row_settings cfg r) else settings_of t s)"
    by (simp add: s1_def one settings_of_def lookup_put row_settings_def pl_settings_def i_def)
  moreover have "find_row t (r # rows) = (if at_target r = t then Some r else find_row t rows)"
    by (simp add: find_row_def)
  moreover have "sv_db s1 = sv_db s" by (simp add: s1_def one)
  moreover have "fold (hydrate_one rv cfg) (map view_active (r # rows)) s
      = fold (hydrate_one rv cfg) (map view_active rows) s1" by (simp add: s1_def)
  ultimately show ?case using ih by (auto split: option.split)
qed

lemma find_row_sorted:
  assumes "distinct (map at_target rows)"
  shows "find_row t (sort_key at_added rows) = find_row t rows"
proof -
  have "distinct (map at_target (sort_key at_added rows))"
    using assms by (simp add: distinct_map)
  then show ?thesis using assms by (metis find_row_unique not_None_eq set_sort)
qed


definition demo_sup_config :: supervisor_config where
  "demo_sup_config = \<lparr>sc_interval = go_second, sc_discovery_interval = 60 * go_second, sc_max_hops = 30,
     sc_timeout = go_second, sc_threshold = 3\<rparr>"

definition demo_resolver :: resolver where
  "demo_resolver = \<lparr>rv_is_v6 = (\<lambda>_. False), rv_lookup = (\<lambda>_. Some [''::1'', ''9.9.9.9''])\<rparr>"

definition demo_sup_ops :: "sup_op list" where
  "demo_sup_ops = [SupAdd demo_resolver 0 ''1.1.1.1'', SupAdd demo_resolver 0 ''a'', SupSetInterval ''a'' (500 * go_ms),
     SupSetThresholds ''a'' (Some 50) (Some 100), SupSetFinalHop ''a'' True, SupRemove ''1.1.1.1'']"

definition demo_sup :: supervisor where
  "demo_sup = fold (sup_step demo_sup_config) demo_sup_ops (new_supervisor (empty_target_db []))"

lemma demo_resolves:
  "resolve_target demo_resolver ''a'' = Inr (''a'', V4 151587081)"
  "resolve_target demo_resolver ''1.1.1.1'' = Inr (''1.1.1.1'', V4 16843009)"
  by (simp_all add: resolve_target_def demo_resolver_def parse_addr_def parse_ipv4_def parse_octet_def is_digit_def
      digit_value_def usable4_def is_unspecified_def is_multicast_def)

lemma demo_builds: "build_pipeline demo_sup_config t (V4 n) d b =
    (if 0 < d then Inr \<lparr>pl_target = t, pl_addr = V4 n, pl_interval = d, pl_warning = None, pl_critical = None,
       pl_final_hop = b\<rparr> else Inl BadInterval)"
  by (simp add: build_pipeline_def new_engine_def new_discovery_def new_pinger_def demo_sup_config_def go_units max_ttl_def)

lemma demo_interval: "sc_interval demo_sup_config = 1000000000"
  by (simp add: demo_sup_config_def go_units)

lemmas demo_sup_facts = demo_resolves demo_builds sup_add_def add_pipeline_def sup_set_interval_def
  sup_set_thresholds_def sup_set_final_hop_def rebuild_pipeline_def sup_remove_def remove_begin_def remove_finish_def
  on_db_def add_active_target_def remember_target_def set_active_interval_def set_active_thresholds_def
  set_active_final_hop_def update_active_def remove_active_target_def td_exec_none update_where_def check_thresholds_def
  not_positive_def lookup_pipeline_def keep_def new_supervisor_def empty_target_db_def min_probe_interval_def
  max_probe_interval_def go_quot_def unix_milli_def demo_interval

lemma demo_sup_state: "demo_sup =
    \<lparr>sv_pipelines = [\<lparr>pl_target = ''a'', pl_addr = V4 151587081, pl_interval = 500 * go_ms, pl_warning = Some 50,
        pl_critical = Some 100, pl_final_hop = True\<rparr>], sv_paused = False,
     sv_db = (empty_target_db [])\<lparr>td_active := [\<lparr>at_target = ''a'', at_added = 0, at_interval = Some 500,
        at_warning = Some 50, at_critical = Some 100, at_final_hop = 1\<rparr>],
        td_history := [(''1.1.1.1'', 0), (''a'', 0)]\<rparr>\<rparr>"
  by (simp add: demo_sup_def demo_sup_ops_def, simp add: demo_sup_facts go_units)

lemma demo_monitored: "monitored demo_sup = {''a''}"
    "settings_of ''a'' demo_sup = Some (500 * go_ms, Some 50, Some 100, True)"
  by (simp_all add: demo_sup_state monitored_def settings_of_def lookup_pipeline_def pl_settings_def)


section \<open>How the agreement is lost\<close>

text \<open>The mutex is free while a removed pipeline drains. An addition of the same target in that time
  starts a pipeline whose row the removal then deletes: it runs, and a restart does not bring it back.\<close>

lemma removal_races_addition:
  assumes "find_row t (td_active (sv_db s)) \<noteq> None \<longleftrightarrow> t \<in> monitored s" "td_faults (sv_db s) = []"
    and "remove_begin t s = (Inr (), s1)" "sup_add rv cfg now t s1 = (Inr (), s2)"
  shows "t \<in> monitored (remove_finish t s2) \<and> find_row t (td_active (sv_db (remove_finish t s2))) = None"
proof -
  have "lookup_pipeline t (sv_pipelines s2) \<noteq> None"
    using assms(4) by (cases rule: add_pipeline_cases [of rv cfg t "sc_interval cfg" None None False s1])
      (auto simp: sup_add_def on_db_def lookup_put)
  moreover have "td_faults (sv_db s2) = []"
    using assms(2-4) by (cases rule: add_pipeline_cases [of rv cfg t "sc_interval cfg" None None False s1])
      (auto simp: sup_add_def on_db_def remove_begin_def add_active_target_def remember_target_def td_exec_none split: if_splits)
  ultimately show ?thesis
    by (simp add: remove_finish_def on_db_def monitored_def remove_active_target_def td_exec_none row_filter lookup_None)
qed

text \<open>A target skipped at startup keeps its row. Adding it again starts a pipeline at the defaults over
  the old settings, which the next restart brings back.\<close>

definition offline_resolver :: resolver where
  "offline_resolver = \<lparr>rv_is_v6 = (\<lambda>_. False), rv_lookup = (\<lambda>_. None)\<rparr>"

definition readded :: supervisor where
  "readded = snd (sup_add demo_resolver demo_sup_config 5 ''a''
     (snd (sup_hydrate offline_resolver demo_sup_config (new_supervisor (sv_db demo_sup)))))"

lemma readded_state: "sv_pipelines readded = [\<lparr>pl_target = ''a'', pl_addr = V4 151587081, pl_interval = go_second,
      pl_warning = None, pl_critical = None, pl_final_hop = False\<rparr>]
    \<and> td_active (sv_db readded) = [\<lparr>at_target = ''a'', at_added = 0, at_interval = Some 500, at_warning = Some 50,
        at_critical = Some 100, at_final_hop = 1\<rparr>] \<and> td_faults (sv_db readded) = []"
proof -
  have off: "resolve_target offline_resolver ''a'' = Inl LookupFailed"
    by (simp add: resolve_target_def parse_addr_def offline_resolver_def)
  show ?thesis
    by (simp add: readded_def demo_sup_state sup_hydrate_def active_targets_def hydrate_one_def view_active_def off
        Let_def, simp add: demo_sup_facts off sup_hydrate_def active_targets_def hydrate_one_def view_active_def go_units)
qed

lemma skipped_target_keeps_old_settings:
  "settings_of ''a'' readded = Some (go_second, None, None, False)"
  "settings_of ''a'' (snd (sup_hydrate demo_resolver demo_sup_config (new_supervisor (sv_db readded))))
     = Some (500 * go_ms, Some 50, Some 100, True)"
  using readded_state
  by (simp_all add: settings_of_def pl_settings_def sup_hydrate_def active_targets_def hydrate_one_def view_active_def
      clamp_interval_def wrap64_def demo_sup_facts go_units)

end
