(* ===== verification/ReleaseVer.thy ===== *)
theory ReleaseVer
  imports GoText
begin

text \<open>
  Release numbers and their order (\<open>parseSemver\<close>, \<open>Newer\<close> of \<open>internal/release/release.go\<close>), with the pieces of Go's
  \<open>strings\<close> they use.
\<close>

section \<open>Strings\<close>

text \<open>\<open>strings.TrimSpace\<close> on ASCII text, \<open>TrimPrefix\<close>, \<open>HasSuffix\<close> and \<open>Split\<close> at a byte.\<close>

definition is_space :: "char \<Rightarrow> bool" where
  "is_space c \<longleftrightarrow> (of_char c :: nat) \<in> {9, 10, 11, 12, 13, 32}"

definition trim_space :: "string \<Rightarrow> string" where
  "trim_space s = rev (dropWhile is_space (rev (dropWhile is_space s)))"

definition trim_prefix :: "string \<Rightarrow> string \<Rightarrow> string" where
  "trim_prefix s p = (if has_prefix s p then drop (length p) s else s)"

definition has_suffix :: "string \<Rightarrow> string \<Rightarrow> bool" where
  "has_suffix s p \<longleftrightarrow> has_prefix (rev s) (rev p)"

fun split_at :: "char \<Rightarrow> string \<Rightarrow> string list" where
  "split_at sep [] = [[]]"
| "split_at sep (c # cs) = (if c = sep then [] # split_at sep cs
     else (case split_at sep cs of f # fs \<Rightarrow> (c # f) # fs | [] \<Rightarrow> [[c]]))"

section \<open>Release numbers\<close>

datatype semver = SemVer int int int

text \<open>\<open>parseSemver\<close>: the text up to the first \<open>-\<close> after an optional \<open>v\<close>, three non-negative numbers.\<close>

definition parse_part :: "string \<Rightarrow> int option" where
  "parse_part p = (case go_atoi p of Some n \<Rightarrow> if n < 0 then None else Some n | None \<Rightarrow> None)"

definition base_version :: "string \<Rightarrow> string" where
  "base_version v = takeWhile (\<lambda>c. c \<noteq> CHR ''-'') (trim_prefix (trim_space v) ''v'')"

definition parse_semver :: "string \<Rightarrow> semver option" where
  "parse_semver s = (case map parse_part (split_at CHR ''.'' (base_version s)) of
       [Some a, Some b, Some c] \<Rightarrow> Some (SemVer a b c)
     | _ \<Rightarrow> None)"

text \<open>The loop of \<open>Newer\<close> over the three numbers.\<close>

fun first_difference :: "int list \<Rightarrow> int list \<Rightarrow> bool" where
  "first_difference (a # as) (b # bs) = (if a \<noteq> b then a > b else first_difference as bs)"
| "first_difference _ _ = False"

fun parts :: "semver \<Rightarrow> int list" where
  "parts (SemVer a b c) = [a, b, c]"

definition newer :: "string \<Rightarrow> string \<Rightarrow> bool" where
  "newer latest running = (case (parse_semver latest, parse_semver running) of
       (Some l, Some r) \<Rightarrow> first_difference (parts l) (parts r)
     | _ \<Rightarrow> False)"

section \<open>The order of releases\<close>

instantiation semver :: linorder
begin

fun less_eq_semver :: "semver \<Rightarrow> semver \<Rightarrow> bool" where
  "less_eq_semver (SemVer a b c) (SemVer a' b' c') \<longleftrightarrow>
     a < a' \<or> a = a' \<and> (b < b' \<or> b = b' \<and> c \<le> c')"

definition less_semver :: "semver \<Rightarrow> semver \<Rightarrow> bool" where
  "less_semver v w \<longleftrightarrow> v \<le> w \<and> \<not> w \<le> (v :: semver)"

instance
proof
  fix x y z :: semver
  show "x < y \<longleftrightarrow> x \<le> y \<and> \<not> y \<le> x" by (simp add: less_semver_def)
  show "x \<le> x" by (cases x) simp
  show "x \<le> y \<Longrightarrow> y \<le> z \<Longrightarrow> x \<le> z" by (cases x; cases y; cases z) auto
  show "x \<le> y \<Longrightarrow> y \<le> x \<Longrightarrow> x = y" by (cases x; cases y) auto
  show "x \<le> y \<or> y \<le> x" by (cases x; cases y) auto
qed

end

lemma first_difference_less: "first_difference (parts v) (parts w) \<longleftrightarrow> w < v"
  by (cases v; cases w) (auto simp: less_semver_def)

text \<open>Printing a release number and reading it back.\<close>

fun show_semver :: "semver \<Rightarrow> string" where
  "show_semver (SemVer a b c) = go_itoa a @ ''.'' @ go_itoa b @ ''.'' @ go_itoa c"

definition semver_ok :: "semver \<Rightarrow> bool" where
  "semver_ok v \<longleftrightarrow> (\<forall>n \<in> set (parts v). 0 \<le> n \<and> n < 2 ^ 63)"

lemma split_at_digits: "sep \<notin> set xs \<Longrightarrow> split_at sep xs = [xs]"
  by (induction xs) auto

lemma split_at_append: "sep \<notin> set xs \<Longrightarrow> split_at sep (xs @ sep # ys) = xs # split_at sep ys"
  by (induction xs) auto

lemma itoa_digits:
  assumes "0 \<le> n" "c \<in> set (go_itoa n)" shows "is_digit c"
  using assms nat_dec_digits by (simp add: go_itoa_def)

lemma itoa_no_sign:
  assumes "0 \<le> n"
  shows "CHR ''.'' \<notin> set (go_itoa n)" "CHR ''-'' \<notin> set (go_itoa n)" "go_itoa n \<noteq> []"
proof -
  show "CHR ''.'' \<notin> set (go_itoa n)" "CHR ''-'' \<notin> set (go_itoa n)"
    using itoa_digits [OF assms, of "CHR ''.''"] itoa_digits [OF assms, of "CHR ''-''"] by (auto simp: is_digit_def)
  show "go_itoa n \<noteq> []" using assms by (simp add: go_itoa_def)
qed

lemma digit_not_space: "is_digit c \<Longrightarrow> \<not> is_space c \<and> c \<noteq> CHR ''v''"
  by (auto simp: is_digit_def is_space_def)

lemma trim_space_id:
  assumes "s \<noteq> []" "\<not> is_space (hd s)" "\<not> is_space (last s)"
  shows "trim_space s = s"
proof -
  have "dropWhile is_space s = s" using assms by (cases s) auto
  moreover have "dropWhile is_space (rev s) = rev s" using assms by (cases s rule: rev_cases) auto
  ultimately show ?thesis by (simp add: trim_space_def)
qed

text \<open>What \<open>git describe\<close> prints: the tag, possibly with commits on top.\<close>

definition described :: "semver \<Rightarrow> string \<Rightarrow> string" where
  "described v suffix = CHR ''v'' # show_semver v @ suffix"

lemma parse_described:
  assumes "semver_ok v" "suffix = [] \<or> (\<exists>s. suffix = CHR ''-'' # s \<and> \<not> is_space (last suffix))"
  shows "parse_semver (described v suffix) = Some v"
proof -
  obtain a b c where v: "v = SemVer a b c" by (cases v)
  have n: "0 \<le> a" "0 \<le> b" "0 \<le> c" "a < 2 ^ 63" "b < 2 ^ 63" "c < 2 ^ 63"
    using assms(1) by (auto simp: semver_ok_def v)
  have "\<not> is_space (last (go_itoa c))"
    using itoa_digits [OF n(3)] itoa_no_sign(3) [OF n(3)] digit_not_space by (meson last_in_set)
  then have lst: "\<not> is_space (last (described v suffix))"
    using assms(2) itoa_no_sign(3) [OF n(3)] by (auto simp: described_def v)
  have trim: "trim_space (described v suffix) = described v suffix"
  proof (rule trim_space_id)
    show "\<not> is_space (hd (described v suffix))" by (simp add: described_def is_space_def)
  qed (simp add: described_def, rule lst)
  have "trim_prefix (described v suffix) ''v'' = show_semver v @ suffix"
    by (simp add: trim_prefix_def has_prefix_def described_def)
  moreover have "takeWhile (\<lambda>c. c \<noteq> CHR ''-'') (show_semver v @ suffix) = show_semver v"
  proof -
    have "CHR ''-'' \<notin> set (show_semver v)" using itoa_no_sign(2) n(1-3) by (simp add: v)
    then have "x \<in> set (show_semver v) \<Longrightarrow> x \<noteq> CHR ''-''" for x by metis
    then show ?thesis using assms(2) by (auto simp: takeWhile_append2 simp del: show_semver.simps)
  qed
  ultimately have "base_version (described v suffix) = show_semver v"
    by (simp add: base_version_def trim)
  moreover have "split_at CHR ''.'' (show_semver v) = [go_itoa a, go_itoa b, go_itoa c]"
    using itoa_no_sign(1) n(1-3) by (simp add: v split_at_append split_at_digits)
  moreover have "parse_part (go_itoa m) = Some m" if "0 \<le> m" "m < 2 ^ 63" for m
    using that by (simp add: parse_part_def go_atoi_itoa)
  ultimately show ?thesis using n by (simp add: parse_semver_def v)
qed

text \<open> Newer compares releases by the total order of their numbers: for any two builds described by git
  it says exactly whether the running one is older; it is never true of a version and itself, and
  the development suffix never makes a build updatable.\<close>

theorem newer_is_the_release_order:
  assumes "semver_ok v" "semver_ok w"
    and "s = [] \<or> (\<exists>r. s = CHR ''-'' # r \<and> \<not> is_space (last s))"
    and "t = [] \<or> (\<exists>r. t = CHR ''-'' # r \<and> \<not> is_space (last t))"
  shows "newer (described v s) (described w t) \<longleftrightarrow> w < v"
  using parse_described assms by (simp add: newer_def first_difference_less)

lemma newer_is_the_release_order_witness:
  "newer (described (SemVer 0 10 0) []) (described (SemVer 0 9 7) ''-52-gabc'')"
  using newer_is_the_release_order [of "SemVer 0 10 0" "SemVer 0 9 7" "[]" "''-52-gabc''"]
  by (simp add: semver_ok_def is_space_def less_semver_def)

end
