(* ===== verification/ReleaseFetch.thy ===== *)
theory ReleaseFetch
  imports ReleaseVer AlertConfig
begin

text \<open>
  Finding, checking and downloading releases: the asset names, the checksum manifest and
  \<open>DownloadBinary\<close> with \<open>extractBinary\<close> of \<open>internal/release/release.go\<close>, and the background checker of
  \<open>checker.go\<close>. The server's answers, SHA-256 and the archive reader are parameters; files are a map
  from paths to contents, in which temporary files (removed on every path) do not appear.
\<close>

section \<open>Assets\<close>

record asset =
  as_name :: string
  as_url :: string

record release =
  rl_tag :: string
  rl_url :: string
  rl_assets :: "asset list"

definition release_version :: "release \<Rightarrow> string" where
  "release_version r = trim_prefix (rl_tag r) ''v''"

definition binary_asset :: "string \<Rightarrow> release \<Rightarrow> asset option" where
  "binary_asset arch r = find (\<lambda>a. has_prefix (as_name a) ''hoptrail_''
     \<and> has_suffix (as_name a) (''_linux_'' @ arch @ ''.tar.gz'')) (rl_assets r)"

definition checksums_asset :: "release \<Rightarrow> asset option" where
  "checksums_asset r = find (\<lambda>a. has_prefix (as_name a) ''hoptrail_''
     \<and> has_suffix (as_name a) ''_checksums.txt'') (rl_assets r)"

section \<open>The checksum manifest\<close>

text \<open>\<open>strings.Fields\<close> and \<open>strings.ToLower\<close> on ASCII text.\<close>

definition fields_of :: "string \<Rightarrow> string list" where
  "fields_of s = filter (\<lambda>f. f \<noteq> []) (split_at CHR '' '' (map (\<lambda>c. if is_space c then CHR '' '' else c) s))"

definition lower_char :: "char \<Rightarrow> char" where
  "lower_char c = (if 65 \<le> (of_char c :: nat) \<and> (of_char c :: nat) \<le> 90 then char_of ((of_char c :: nat) + 32) else c)"

definition newline :: char where "newline = CHR 0x0A"

definition manifest_entry :: "string \<Rightarrow> string \<Rightarrow> string option" where
  "manifest_entry name line = (case fields_of line of
       [d, n] \<Rightarrow> if n = name \<and> length d = 64 then Some (map lower_char d) else None
     | _ \<Rightarrow> None)"

fun first_entry :: "string \<Rightarrow> string list \<Rightarrow> string option" where
  "first_entry name [] = None"
| "first_entry name (l # ls) = (case manifest_entry name l of Some d \<Rightarrow> Some d | None \<Rightarrow> first_entry name ls)"

datatype download_error = NoPrebuiltBinary | NoChecksumManifest | FetchFailed string | NoManifestEntry
  | StagingFailed | TooLarge | ChecksumMismatch | NotAnArchive | NoBinaryInside | NotExecutable

type_synonym web = "string \<Rightarrow> string option"

definition fetch_checksum :: "web \<Rightarrow> asset \<Rightarrow> string \<Rightarrow> download_error + string" where
  "fetch_checksum get man name = (case get (as_url man) of
       None \<Rightarrow> Inl (FetchFailed (as_name man))
     | Some raw \<Rightarrow> (case first_entry name (split_at newline (take (2 ^ 20) raw)) of
           None \<Rightarrow> Inl NoManifestEntry
         | Some d \<Rightarrow> Inr d))"

section \<open>The download\<close>

definition max_download_bytes :: nat where "max_download_bytes = 100 * 2 ^ 20"

record member =
  mb_name :: string
  mb_regular :: bool
  mb_data :: string

text \<open>What the archive reader yields: the members up to the end, or up to a read error.\<close>

record archive =
  ar_members :: "member list"
  ar_clean_end :: bool

text \<open>\<open>filepath.Base\<close>.\<close>

definition base_name :: "string \<Rightarrow> string" where
  "base_name p = (if p = [] then ''.''
     else let q = rev (dropWhile (\<lambda>c. c = CHR ''/'') (rev p))
          in if q = [] then ''/'' else rev (takeWhile (\<lambda>c. c \<noteq> CHR ''/'') (rev q)))"

definition elf_magic :: string where "elf_magic = CHR 0x7F # ''ELF''"

type_synonym files = "string \<rightharpoonup> string"

definition wanted_member :: "member \<Rightarrow> bool" where
  "wanted_member m \<longleftrightarrow> base_name (mb_name m) = ''hoptrail'' \<and> mb_regular m"

text \<open>\<open>extractBinary\<close>: the first member with the name decides; the rename at the end may fail.\<close>

definition extract_binary :: "(string \<Rightarrow> archive option) \<Rightarrow> bool \<Rightarrow> string \<Rightarrow> string \<Rightarrow> files
    \<Rightarrow> (download_error + unit) \<times> files" where
  "extract_binary untar write_fails tar dest fs =
     (case untar tar of
        None \<Rightarrow> (Inl NotAnArchive, fs)
      | Some ar \<Rightarrow> (case find wanted_member (ar_members ar) of
            None \<Rightarrow> (Inl (if ar_clean_end ar then NoBinaryInside else NotAnArchive), fs)
          | Some m \<Rightarrow>
              if write_fails then (Inl StagingFailed, fs)
              else if length (mb_data m) > max_download_bytes then (Inl TooLarge, fs)
              else if take 4 (mb_data m) \<noteq> elf_magic then (Inl NotExecutable, fs)
              else (Inr (), fs(dest \<mapsto> mb_data m))))"

definition download_binary :: "(string \<Rightarrow> string) \<Rightarrow> (string \<Rightarrow> archive option) \<Rightarrow> web \<Rightarrow> bool \<Rightarrow> bool
    \<Rightarrow> release \<Rightarrow> string \<Rightarrow> string \<Rightarrow> files \<Rightarrow> (download_error + unit) \<times> files" where
  "download_binary sha untar get staging_fails write_fails rel arch dest fs =
     (case binary_asset arch rel of
        None \<Rightarrow> (Inl NoPrebuiltBinary, fs)
      | Some bin \<Rightarrow> (case checksums_asset rel of
            None \<Rightarrow> (Inl NoChecksumManifest, fs)
          | Some man \<Rightarrow> (case fetch_checksum get man (as_name bin) of
                Inl e \<Rightarrow> (Inl e, fs)
              | Inr want \<Rightarrow>
                  if staging_fails then (Inl StagingFailed, fs)
                  else (case get (as_url bin) of
                      None \<Rightarrow> (Inl (FetchFailed (as_name bin)), fs)
                    | Some body \<Rightarrow>
                        if length body > max_download_bytes then (Inl TooLarge, fs)
                        else if sha body \<noteq> want then (Inl ChecksumMismatch, fs)
                        else extract_binary untar write_fails body dest fs))))"

text \<open> A download either changes no file and reports an error, or it stages exactly one file: the first
  regular member named hoptrail of an archive whose digest the release's own manifest lists for that
  archive, an ELF file within the size bound.\<close>

theorem only_verified_binaries_are_staged:
  "case download_binary sha untar get no_dir no_write rel arch dest fs of
     (Inl _, fs') \<Rightarrow> fs' = fs
   | (Inr _, fs') \<Rightarrow> (\<exists>bin man manifest body ar m.
         binary_asset arch rel = Some bin \<and> checksums_asset rel = Some man
       \<and> get (as_url man) = Some manifest \<and> get (as_url bin) = Some body
       \<and> first_entry (as_name bin) (split_at newline (take (2 ^ 20) manifest)) = Some (sha body)
       \<and> length body \<le> max_download_bytes
       \<and> untar body = Some ar \<and> find wanted_member (ar_members ar) = Some m
       \<and> take 4 (mb_data m) = elf_magic \<and> length (mb_data m) \<le> max_download_bytes
       \<and> fs' = fs(dest \<mapsto> mb_data m))"
  by (auto simp: download_binary_def fetch_checksum_def extract_binary_def
      split: option.splits sum.splits prod.splits if_splits)

section \<open>The background checker\<close>

definition interval_duration :: "string \<Rightarrow> duration option" where
  "interval_duration setting =
     (if setting = ''off'' then None
      else if setting = ''daily'' then Some (24 * go_hour)
      else if setting = ''weekly'' then Some (7 * 24 * go_hour)
      else if setting = ''monthly'' then Some (30 * 24 * go_hour)
      else Some (30 * 24 * go_hour))"

definition valid_interval :: "string \<Rightarrow> bool" where
  "valid_interval s \<longleftrightarrow> s \<in> {''off'', ''daily'', ''weekly'', ''monthly''}"

definition default_check_interval :: string where "default_check_interval = ''monthly''"

record last_check =
  lc_at :: int
  lc_version :: string
  lc_url :: string
  lc_err :: string

text \<open>The row of the last check: absent, unreadable, or an entry.\<close>

datatype last_check_row = NoCheck | GarbledCheck | Checked last_check

record checker =
  ck_setting :: "string option"
  ck_last :: last_check_row
  ck_checks :: "instant list"

record check_input =
  ci_now :: instant
  ci_setting_fails :: bool
  ci_last_fails :: bool
  ci_store_fails :: bool
  ci_fetch :: "string + release"

definition read_last_check :: "bool \<Rightarrow> checker \<Rightarrow> last_check option" where
  "read_last_check fails c = (if fails then None else (case ck_last c of
       Checked lc \<Rightarrow> if lc_at lc = 0 then None else Some lc
     | _ \<Rightarrow> None))"

definition check_now :: "check_input \<Rightarrow> checker \<Rightarrow> last_check \<times> checker" where
  "check_now inp c =
     (let result = (case ci_fetch inp of
            Inl e \<Rightarrow> \<lparr>lc_at = unix_milli (ci_now inp), lc_version = [], lc_url = [], lc_err = e\<rparr>
          | Inr rel \<Rightarrow> \<lparr>lc_at = unix_milli (ci_now inp), lc_version = release_version rel,
                        lc_url = rl_url rel, lc_err = []\<rparr>);
          c1 = c\<lparr>ck_checks := ck_checks c @ [ci_now inp]\<rparr>
      in (result, if ci_store_fails inp then c1 else c1\<lparr>ck_last := Checked result\<rparr>))"

definition check_pass :: "check_input \<Rightarrow> checker \<Rightarrow> checker" where
  "check_pass inp c =
     (if ci_setting_fails inp then c
      else (let setting = (case ck_setting c of None \<Rightarrow> default_check_interval | Some s \<Rightarrow> s)
            in case interval_duration setting of
                 None \<Rightarrow> c
               | Some dur \<Rightarrow>
                   (case read_last_check (ci_last_fails inp) c of
                      Some lc \<Rightarrow> if ci_now inp - of_unix_milli (lc_at lc) < dur then c else snd (check_now inp c)
                    | None \<Rightarrow> snd (check_now inp c))))"

definition check_interval_setting :: "bool \<Rightarrow> checker \<Rightarrow> string" where
  "check_interval_setting fails c = (case ck_setting c of
       Some v \<Rightarrow> if \<not> fails \<and> valid_interval v then v else default_check_interval
     | None \<Rightarrow> default_check_interval)"

definition checker_run :: "check_input list \<Rightarrow> checker \<Rightarrow> checker" where
  "checker_run inps c = fold check_pass inps c"

text \<open>The effective interval.\<close>

definition check_every :: "checker \<Rightarrow> duration option" where
  "check_every c = interval_duration (case ck_setting c of None \<Rightarrow> default_check_interval | Some s \<Rightarrow> s)"

definition store_works :: "check_input \<Rightarrow> bool" where
  "store_works i \<longleftrightarrow> \<not> ci_setting_fails i \<and> \<not> ci_last_fails i \<and> \<not> ci_store_fails i"

text \<open>Consecutive elements at least \<open>d\<close> apart.\<close>

fun spaced :: "int \<Rightarrow> int list \<Rightarrow> bool" where
  "spaced d (s # t # ts) \<longleftrightarrow> d \<le> t - s \<and> spaced d (t # ts)"
| "spaced d _ \<longleftrightarrow> True"

lemma spaced_snoc: "spaced d (ts @ [t]) \<longleftrightarrow> spaced d ts \<and> (ts \<noteq> [] \<longrightarrow> d \<le> t - last ts)"
  by (induction d ts rule: spaced.induct) auto

definition checker_ok :: "checker \<Rightarrow> bool" where
  "checker_ok c \<longleftrightarrow> (if ck_checks c = [] then ck_last c = NoCheck
     else (\<exists>lc. ck_last c = Checked lc \<and> lc_at lc = unix_milli (last (ck_checks c)) \<and> lc_at lc \<noteq> 0))"

lemma interval_whole_ms: "interval_duration s = Some d \<Longrightarrow> d mod go_ms = 0 \<and> 0 < d"
  by (auto simp: interval_duration_def go_units split: if_splits)

lemma elapsed_ms: "d mod go_ms = 0 \<Longrightarrow> t - of_unix_milli m < d \<longleftrightarrow> unix_milli t - m < d div go_ms"
proof -
  assume "d mod go_ms = 0"
  then have "d = d div go_ms * go_ms" using div_mult_mod_eq [of d go_ms] by simp
  then obtain k where "d = k * go_ms" ..
  then show ?thesis by (simp add: of_unix_milli_def unix_milli_def go_ms_def) linarith
qed

lemma pass_step:
  assumes "checker_ok c" "store_works i" "check_every c = Some d" "0 < unix_milli (ci_now i)"
  shows "checker_ok (check_pass i c) \<and> ck_setting (check_pass i c) = ck_setting c
    \<and> ck_checks (check_pass i c) = ck_checks c @
        (if ck_checks c \<noteq> [] \<and> unix_milli (ci_now i) - unix_milli (last (ck_checks c)) < d div go_ms
         then [] else [ci_now i])"
proof -
  have d: "d mod go_ms = 0" using assms(3) interval_whole_ms by (auto simp: check_every_def)
  have run: "checker_ok (snd (check_now i c)) \<and> ck_setting (snd (check_now i c)) = ck_setting c
      \<and> ck_checks (snd (check_now i c)) = ck_checks c @ [ci_now i]"
    using assms(2,4) by (auto simp: check_now_def Let_def store_works_def checker_ok_def split: sum.split)
  show ?thesis
  proof (cases "ck_checks c = []")
    case True
    then have "check_pass i c = snd (check_now i c)" using assms(1-3)
      by (simp add: check_pass_def check_every_def store_works_def read_last_check_def checker_ok_def)
    then show ?thesis using True run by simp
  next
    case False
    then obtain lc where lc: "ck_last c = Checked lc" "lc_at lc = unix_milli (last (ck_checks c))" "lc_at lc \<noteq> 0"
      using assms(1) by (auto simp: checker_ok_def)
    then have "check_pass i c = (if unix_milli (ci_now i) - unix_milli (last (ck_checks c)) < d div go_ms
        then c else snd (check_now i c))"
      using assms(2,3) elapsed_ms [OF d] by (simp add: check_pass_def check_every_def store_works_def read_last_check_def)
    then show ?thesis using run assms(1) False by simp
  qed
qed

lemma passes:
  assumes "check_every c = Some d" "checker_ok c" "\<And>i. i \<in> set inps \<Longrightarrow> store_works i \<and> 0 < unix_milli (ci_now i)"
    and "spaced (d div go_ms) (map unix_milli (ck_checks c))"
  shows "let c' = checker_run inps c in
      checker_ok c' \<and> check_every c' = Some d \<and> spaced (d div go_ms) (map unix_milli (ck_checks c'))
    \<and> (inps \<noteq> [] \<longrightarrow> ck_checks c' \<noteq> [] \<and> unix_milli (ci_now (last inps)) - unix_milli (last (ck_checks c')) < d div go_ms)"
  using assms(3)
proof (induction inps rule: rev_induct)
  case Nil then show ?case using assms by (simp add: checker_run_def)
next
  case (snoc i inps)
  define c1 where "c1 = checker_run inps c"
  have ih: "checker_ok c1" "check_every c1 = Some d" "spaced (d div go_ms) (map unix_milli (ck_checks c1))"
    using snoc by (simp_all add: c1_def Let_def)
  have step: "checker_run (inps @ [i]) c = check_pass i c1" by (simp add: checker_run_def c1_def)
  note ps = pass_step [OF ih(1) _ ih(2), of i]
  have "0 < d div go_ms"
    using interval_whole_ms assms(1) by (fastforce simp: check_every_def go_ms_def)
  then show ?case
    using ps snoc.prems ih by (auto simp: step Let_def check_every_def spaced_snoc last_map)
qed

text \<open> With a working store the background checks of an enabled setting are never closer together than
  the chosen interval and never later than it: after every pass the latest check is younger than the
  interval. With the setting off no check ever happens.\<close>

theorem checks_follow_the_interval:
  assumes "\<And>i. i \<in> set inps \<Longrightarrow> store_works i \<and> 0 < unix_milli (ci_now i)"
    and "c = \<lparr>ck_setting = setting, ck_last = NoCheck, ck_checks = []\<rparr>"
  shows "case check_every c of
      None \<Rightarrow> ck_checks (checker_run inps c) = []
    | Some d \<Rightarrow> spaced (d div go_ms) (map unix_milli (ck_checks (checker_run inps c)))
        \<and> (inps \<noteq> [] \<longrightarrow> ck_checks (checker_run inps c) \<noteq> [] \<and>
             unix_milli (ci_now (last inps)) - unix_milli (last (ck_checks (checker_run inps c))) < d div go_ms)"
proof (cases "check_every c")
  case None
  have "check_pass i c = c" for i using None by (simp add: check_pass_def check_every_def)
  then have "checker_run inps c = c" by (induction inps) (simp_all add: checker_run_def)
  then show ?thesis using None assms(2) by simp
next
  case (Some d)
  then show ?thesis using passes [OF Some _ assms(1)] assms(2) by (simp add: checker_ok_def Let_def)
qed

definition demo_check :: "instant \<Rightarrow> check_input" where
  "demo_check t = \<lparr>ci_now = t, ci_setting_fails = False, ci_last_fails = False, ci_store_fails = False,
     ci_fetch = Inl ''offline''\<rparr>"

definition demo_checker :: checker where
  "demo_checker = \<lparr>ck_setting = Some ''daily'', ck_last = NoCheck, ck_checks = []\<rparr>"

lemma checks_follow_the_interval_witness:
  "ck_checks (checker_run [demo_check go_hour, demo_check (5 * go_hour)] demo_checker) \<noteq> []"
proof -
  define inps where "inps = [demo_check go_hour, demo_check (5 * go_hour)]"
  have "store_works i \<and> 0 < unix_milli (ci_now i)" if "i \<in> set inps" for i
    using that by (auto simp: inps_def demo_check_def store_works_def unix_milli_def go_units)
  then have "case check_every demo_checker of
      None \<Rightarrow> ck_checks (checker_run inps demo_checker) = []
    | Some d \<Rightarrow> spaced (d div go_ms) (map unix_milli (ck_checks (checker_run inps demo_checker)))
        \<and> (inps \<noteq> [] \<longrightarrow> ck_checks (checker_run inps demo_checker) \<noteq> [] \<and>
             unix_milli (ci_now (last inps)) - unix_milli (last (ck_checks (checker_run inps demo_checker))) < d div go_ms)"
    by (rule checks_follow_the_interval [OF _ demo_checker_def])
  moreover have "check_every demo_checker = Some (24 * go_hour)"
    by (simp add: check_every_def demo_checker_def interval_duration_def)
  ultimately show ?thesis by (simp add: inps_def)
qed

text \<open>A check whose result cannot be stored is repeated at the next pass, whatever the interval.\<close>

lemma unstored_checks_repeat:
  assumes "ck_last c = NoCheck" "ck_setting c = Some ''monthly''" "\<not> ci_setting_fails i" "ci_store_fails i"
  shows "ck_last (check_pass i c) = NoCheck \<and> ck_checks (check_pass i c) = ck_checks c @ [ci_now i]"
  using assms by (simp add: check_pass_def interval_duration_def read_last_check_def check_now_def Let_def)

end
