(* ===== verification/ProbeFleet.thy ===== *)
theory ProbeFleet
  imports TargetTables ReleaseFetch "HOL-Library.List_Lexorder"
begin

text \<open>
  The registered probes: \<open>internal/storage/probes.go\<close>, \<open>tokens.go\<close> and \<open>probeupdates.go\<close> (heartbeat
  rows, path snapshots, minted tokens, update commands), the heartbeat, path and status endpoints of
  \<open>internal/server/ingest.go\<close> and \<open>probeupdate.go\<close>, and the operator's endpoints of \<open>probetokens.go\<close>.
  The tables share the statement faults of the target tables, whose tabs a forgotten probe resets.
  Failure messages carry the part that tells them apart, not their full wording.
\<close>

section \<open>Rows\<close>

record probe_row =
  pr_id :: string
  pr_version :: "string option"
  pr_started :: "int option"
  pr_last_seen :: int
  pr_label :: "string option"
  pr_ip :: "string option"
  pr_arch :: "string option"
  pr_pin :: bool

record path_row =
  pp_probe :: string
  pp_target :: string
  pp_ts :: int
  pp_hop_count :: int
  pp_target_ttl :: int
  pp_hops :: string

record token_row =
  to_id :: int
  to_token :: string
  to_name :: string
  to_created :: int
  to_last_used :: "int option"

datatype update_state = UpPending | UpApplying | UpApplied | UpFailed

record update_row =
  up_probe :: string
  up_version :: string
  up_arch :: string
  up_sha :: string
  up_state :: update_state
  up_error :: string
  up_deliveries :: nat
  up_requested :: int
  up_updated :: int

record fleet =
  fl_probes :: "probe_row list"
  fl_paths :: "path_row list"
  fl_tokens :: "token_row list"
  fl_token_seq :: int
  fl_updates :: "update_row list"
  fl_failures :: "(int \<times> string \<times> string) list"
  fl_db :: target_db

datatype fleet_error = FleetStoreFailed | EmptyKey | NotRegistered | TokenExists | MissingFields | NoUpdateRow
  | InvalidProbe

definition fl_exec :: "(fleet \<Rightarrow> (fleet_error + 'a) \<times> fleet) \<Rightarrow> fleet \<Rightarrow> (fleet_error + 'a) \<times> fleet" where
  "fl_exec f w = (case td_fault (fl_db w) of
     (True, d) \<Rightarrow> (Inl FleetStoreFailed, w\<lparr>fl_db := d\<rparr>) | (False, d) \<Rightarrow> f (w\<lparr>fl_db := d\<rparr>))"

fun fl_execs :: "nat \<Rightarrow> (fleet \<Rightarrow> (fleet_error + 'a) \<times> fleet) \<Rightarrow> fleet \<Rightarrow> (fleet_error + 'a) \<times> fleet" where
  "fl_execs 0 f = f"
| "fl_execs (Suc n) f = fl_exec (fl_execs n f)"

section \<open>Probes\<close>

definition coalesce :: "'a option \<Rightarrow> 'a option \<Rightarrow> 'a option" where
  "coalesce new old = (case new of None \<Rightarrow> old | Some v \<Rightarrow> Some v)"

definition non_empty :: "string \<Rightarrow> string option" where
  "non_empty s = (if s = [] then None else Some s)"

fun upsert_probe :: "probe_row \<Rightarrow> probe_row list \<Rightarrow> probe_row list" where
  "upsert_probe p [] = [p]"
| "upsert_probe p (r # rs) =
     (if pr_id r = pr_id p
      then r\<lparr>pr_version := pr_version p, pr_started := pr_started p, pr_last_seen := pr_last_seen p,
             pr_ip := coalesce (pr_ip p) (pr_ip r), pr_arch := coalesce (pr_arch p) (pr_arch r)\<rparr> # rs
      else r # upsert_probe p rs)"

definition upsert_probe_heartbeat :: "string \<Rightarrow> string \<Rightarrow> int \<Rightarrow> instant \<Rightarrow> string \<Rightarrow> string \<Rightarrow> fleet
    \<Rightarrow> (fleet_error + unit) \<times> fleet" where
  "upsert_probe_heartbeat probe version started now ip arch w =
     (if probe = [] then (Inl EmptyKey, w)
      else fl_exec (\<lambda>w. (Inr (), w\<lparr>fl_probes := upsert_probe \<lparr>pr_id = probe, pr_version = Some version,
             pr_started = Some started, pr_last_seen = unix_milli now, pr_label = None, pr_ip = non_empty ip,
             pr_arch = non_empty arch, pr_pin = False\<rparr> (fl_probes w)\<rparr>)) w)"

definition set_probe_pin :: "string \<Rightarrow> bool \<Rightarrow> fleet \<Rightarrow> (fleet_error + unit) \<times> fleet" where
  "set_probe_pin probe pin = fl_exec (\<lambda>w.
     (if \<exists>p \<in> set (fl_probes w). pr_id p = probe then Inr () else Inl NotRegistered,
      w\<lparr>fl_probes := update_where (\<lambda>p. pr_id p = probe) (\<lambda>p. p\<lparr>pr_pin := pin\<rparr>) (fl_probes w)\<rparr>))"

definition list_probes :: "fleet \<Rightarrow> (fleet_error + probe_row list) \<times> fleet" where
  "list_probes = fl_exec (\<lambda>w. (Inr (sort_key pr_id (fl_probes w)), w))"

text \<open>\<open>DeleteProbe\<close>: the row, its paths and the tabs that showed it, in one transaction.\<close>

definition forget_probe :: "string \<Rightarrow> fleet \<Rightarrow> fleet" where
  "forget_probe probe w = w\<lparr>
     fl_probes := filter (\<lambda>p. pr_id p \<noteq> probe) (fl_probes w),
     fl_paths := filter (\<lambda>p. pp_probe p \<noteq> probe) (fl_paths w),
     fl_db := (fl_db w)\<lparr>td_tabs := update_where (\<lambda>t. tb_probe t = probe) (\<lambda>t. t\<lparr>tb_probe := local_probe_id\<rparr>)
                          (td_tabs (fl_db w))\<rparr>\<rparr>"

definition delete_probe :: "string \<Rightarrow> fleet \<Rightarrow> (fleet_error + bool) \<times> fleet" where
  "delete_probe probe w =
     (if probe = [] \<or> probe = local_probe_id then (Inl InvalidProbe, w)
      else fl_execs 2 (\<lambda>w. if \<exists>p \<in> set (fl_probes w). pr_id p = probe
                            then fl_execs 3 (\<lambda>w. (Inr True, forget_probe probe w)) w
                            else (Inr False, w)) w)"

section \<open>Path snapshots\<close>

fun upsert_path :: "path_row \<Rightarrow> path_row list \<Rightarrow> path_row list" where
  "upsert_path p [] = [p]"
| "upsert_path p (r # rs) = (if pp_probe r = pp_probe p \<and> pp_target r = pp_target p then p # rs
     else r # upsert_path p rs)"

definition upsert_path_snapshot :: "path_row \<Rightarrow> fleet \<Rightarrow> (fleet_error + unit) \<times> fleet" where
  "upsert_path_snapshot p w =
     (if pp_probe p = [] \<or> pp_target p = [] then (Inl EmptyKey, w)
      else fl_exec (\<lambda>w. (Inr (), w\<lparr>fl_paths := upsert_path p (fl_paths w)\<rparr>)) w)"

definition get_path_snapshot :: "string \<Rightarrow> string \<Rightarrow> fleet \<Rightarrow> (fleet_error + path_row option) \<times> fleet" where
  "get_path_snapshot probe target = fl_exec (\<lambda>w.
     (Inr (find (\<lambda>p. pp_probe p = probe \<and> pp_target p = target) (fl_paths w)), w))"

section \<open>Tokens\<close>

definition insert_probe_token :: "string \<Rightarrow> string \<Rightarrow> instant \<Rightarrow> fleet \<Rightarrow> (fleet_error + int) \<times> fleet" where
  "insert_probe_token token name now w =
     (if token = [] \<or> name = [] then (Inl EmptyKey, w)
      else fl_exec (\<lambda>w. if token \<in> to_token ` set (fl_tokens w) then (Inl TokenExists, w)
             else (Inr (fl_token_seq w + 1), w\<lparr>fl_tokens := fl_tokens w @ [\<lparr>to_id = fl_token_seq w + 1,
                     to_token = token, to_name = name, to_created = unix_milli now, to_last_used = None\<rparr>],
                   fl_token_seq := fl_token_seq w + 1\<rparr>)) w)"

definition list_probe_tokens :: "fleet \<Rightarrow> (fleet_error + token_row list) \<times> fleet" where
  "list_probe_tokens = fl_exec (\<lambda>w.
     (Inr (sort_key (\<lambda>t. - to_created t) (sort_key (\<lambda>t. - to_id t) (fl_tokens w))), w))"

definition delete_probe_token :: "int \<Rightarrow> fleet \<Rightarrow> (fleet_error + bool) \<times> fleet" where
  "delete_probe_token i = fl_exec (\<lambda>w. (Inr (\<exists>t \<in> set (fl_tokens w). to_id t = i),
     w\<lparr>fl_tokens := filter (\<lambda>t. to_id t \<noteq> i) (fl_tokens w)\<rparr>))"

definition probe_token_secrets :: "fleet \<Rightarrow> (fleet_error + string list) \<times> fleet" where
  "probe_token_secrets = fl_exec (\<lambda>w. (Inr (map to_token (fl_tokens w)), w))"

definition probe_token_bindings :: "fleet \<Rightarrow> (fleet_error + token_binding list) \<times> fleet" where
  "probe_token_bindings = fl_exec (\<lambda>w.
     (Inr (map (\<lambda>t. \<lparr>tk_Token = to_token t, tk_Name = to_name t\<rparr>) (fl_tokens w)), w))"

definition touch_probe_token :: "string \<Rightarrow> instant \<Rightarrow> fleet \<Rightarrow> (fleet_error + unit) \<times> fleet" where
  "touch_probe_token token now = fl_exec (\<lambda>w. (Inr (), w\<lparr>fl_tokens :=
     update_where (\<lambda>t. to_token t = token) (\<lambda>t. t\<lparr>to_last_used := Some (unix_milli now)\<rparr>) (fl_tokens w)\<rparr>))"

section \<open>Update commands\<close>

fun replace_update :: "update_row \<Rightarrow> update_row list \<Rightarrow> update_row list" where
  "replace_update u rows = filter (\<lambda>r. up_probe r \<noteq> up_probe u) rows @ [u]"

definition command_probe_update :: "string \<Rightarrow> string \<Rightarrow> string \<Rightarrow> string \<Rightarrow> int \<Rightarrow> fleet
    \<Rightarrow> (fleet_error + unit) \<times> fleet" where
  "command_probe_update probe version arch sha requested w =
     (if probe = [] \<or> version = [] \<or> sha = [] \<or> arch = [] then (Inl MissingFields, w)
      else fl_exec (\<lambda>w. (Inr (), w\<lparr>fl_updates := replace_update \<lparr>up_probe = probe, up_version = version,
             up_arch = arch, up_sha = sha, up_state = UpPending, up_error = [], up_deliveries = 0,
             up_requested = requested, up_updated = requested\<rparr> (fl_updates w)\<rparr>)) w)"

definition find_update :: "string \<Rightarrow> fleet \<Rightarrow> update_row option" where
  "find_update probe w = find (\<lambda>u. up_probe u = probe) (fl_updates w)"

definition get_probe_update :: "string \<Rightarrow> fleet \<Rightarrow> (fleet_error + update_row option) \<times> fleet" where
  "get_probe_update probe = fl_exec (\<lambda>w. (Inr (find_update probe w), w))"

definition list_probe_updates :: "fleet \<Rightarrow> (fleet_error + update_row list) \<times> fleet" where
  "list_probe_updates = fl_exec (\<lambda>w. (Inr (sort_key up_probe (fl_updates w)), w))"

definition change_update :: "string \<Rightarrow> (update_row \<Rightarrow> update_row) \<Rightarrow> fleet \<Rightarrow> fleet" where
  "change_update probe f w = w\<lparr>fl_updates := update_where (\<lambda>u. up_probe u = probe) f (fl_updates w)\<rparr>"

definition set_probe_update_state :: "string \<Rightarrow> update_state \<Rightarrow> string \<Rightarrow> int \<Rightarrow> fleet
    \<Rightarrow> (fleet_error + unit) \<times> fleet" where
  "set_probe_update_state probe st err ts = fl_exec (\<lambda>w.
     (if find_update probe w = None then Inl NoUpdateRow else Inr (),
      change_update probe (\<lambda>u. u\<lparr>up_state := st, up_error := err, up_updated := ts\<rparr>) w))"

definition increment_deliveries :: "string \<Rightarrow> int \<Rightarrow> fleet \<Rightarrow> (fleet_error + nat) \<times> fleet" where
  "increment_deliveries probe ts = fl_exec (\<lambda>w. case find_update probe w of
       None \<Rightarrow> (Inl NoUpdateRow, w)
     | Some u \<Rightarrow> (Inr (up_deliveries u + 1),
         change_update probe (\<lambda>u. u\<lparr>up_deliveries := up_deliveries u + 1, up_updated := ts\<rparr>) w))"

definition clear_probe_update :: "string \<Rightarrow> fleet \<Rightarrow> (fleet_error + unit) \<times> fleet" where
  "clear_probe_update probe = fl_exec (\<lambda>w.
     (Inr (), w\<lparr>fl_updates := filter (\<lambda>u. up_probe u \<noteq> probe) (fl_updates w)\<rparr>))"

section \<open>The life of an update on the heartbeat path\<close>

definition apply_timeout :: duration where "apply_timeout = 5 * go_minute"
definition max_update_deliveries :: nat where "max_update_deliveries = 2"

record update_command =
  uc_version :: string
  uc_sha :: string
  uc_path :: string

definition update_binary_path :: "string \<Rightarrow> string \<Rightarrow> string" where
  "update_binary_path version arch = ''/api/ingest/update-binary?version='' @ version @ ''&arch='' @ arch"

definition command_of :: "update_row \<Rightarrow> update_command" where
  "command_of u = \<lparr>uc_version = up_version u, uc_sha = up_sha u,
     uc_path = update_binary_path (up_version u) (up_arch u)\<rparr>"

definition append_failure :: "int \<Rightarrow> string \<Rightarrow> string \<Rightarrow> fleet \<Rightarrow> (fleet_error + unit) \<times> fleet" where
  "append_failure ts probe msg = fl_exec (\<lambda>w. (Inr (), w\<lparr>fl_failures := fl_failures w @
     [(ts, probe, ''probe update failed: '' @ msg)]\<rparr>))"

definition fail_probe_update :: "string \<Rightarrow> string \<Rightarrow> instant \<Rightarrow> fleet \<Rightarrow> fleet" where
  "fail_probe_update probe msg now w = (case set_probe_update_state probe UpFailed msg (unix_milli now) w of
     (Inl _, w') \<Rightarrow> w' | (Inr _, w') \<Rightarrow> snd (append_failure (unix_milli now) probe msg w'))"

definition heartbeat_update_for :: "string \<Rightarrow> string \<Rightarrow> instant \<Rightarrow> fleet \<Rightarrow> update_command option \<times> fleet" where
  "heartbeat_update_for probe reported now w = (case get_probe_update probe w of
     (Inl _, w1) \<Rightarrow> (None, w1)
   | (Inr None, w1) \<Rightarrow> (None, w1)
   | (Inr (Some u), w1) \<Rightarrow>
       if up_state u = UpApplied then (None, w1)
       else if base_version reported = up_version u
       then (None, snd (set_probe_update_state probe UpApplied [] (unix_milli now) w1))
       else if up_state u = UpFailed then (None, w1)
       else if up_state u = UpApplying
       then (if unix_milli now - up_updated u > apply_timeout div go_ms
             then (None, fail_probe_update probe (''no heartbeat on v'' @ up_version u) now w1)
             else (Some (command_of u), w1))
       else (case increment_deliveries probe (unix_milli now) w1 of
           (Inl _, w2) \<Rightarrow> (None, w2)
         | (Inr n, w2) \<Rightarrow> if n > max_update_deliveries
             then (None, fail_probe_update probe ''probe never acknowledged the command'' now w2)
             else (Some (command_of u), w2)))"

section \<open>The endpoints of the agents\<close>

record agent_call =
  cl_method :: string
  cl_authorization :: string
  cl_yaml_tokens :: "string list"
  cl_now :: instant
  cl_ip :: string

record heartbeat_request =
  hb_probe :: string
  hb_version :: string
  hb_started :: int
  hb_targets :: "string list"
  hb_arch :: string

record heartbeat_response =
  hr_registered :: int
  hr_target_set :: "string list"
  hr_update :: "update_command option"

definition ingest_status :: "ingest_error \<Rightarrow> nat" where
  "ingest_status e = status_code (Inl e)"

text \<open>\<open>authAgent\<close> on the stored bindings.\<close>

definition auth_call :: "agent_call \<Rightarrow> fleet \<Rightarrow> (ingest_error + string \<times> string) \<times> fleet" where
  "auth_call c w = (case probe_token_bindings w of
     (Inl _, w') \<Rightarrow> (auth_agent None (cl_yaml_tokens c) (cl_authorization c), w')
   | (Inr bs, w') \<Rightarrow> (auth_agent (Some bs) (cl_yaml_tokens c) (cl_authorization c), w'))"

text \<open>The common beginning of the agents' endpoints: method, token, body, probe id, binding.\<close>

definition admit :: "string \<Rightarrow> agent_call \<Rightarrow> 'b option \<Rightarrow> ('b \<Rightarrow> string) \<Rightarrow> fleet
    \<Rightarrow> (nat + string \<times> 'b) \<times> fleet" where
  "admit verb c body probe w =
     (if cl_method c \<noteq> verb then (Inl 405, w)
      else (case auth_call c w of
         (Inl e, w1) \<Rightarrow> (Inl (ingest_status e), w1)
       | (Inr (token, bound), w1) \<Rightarrow>
           (case body of
              None \<Rightarrow> (Inl 400, w1)
            | Some b \<Rightarrow>
                if \<not> validate_probe_id (probe b) then (Inl 400, w1)
                else if \<not> require_probe_binding bound (probe b) then (Inl 403, w1)
                else (Inr (token, b), w1))))"

definition handle_heartbeat :: "agent_call \<Rightarrow> heartbeat_request option \<Rightarrow> string list \<Rightarrow> fleet
    \<Rightarrow> (nat + heartbeat_response) \<times> fleet" where
  "handle_heartbeat c body targets w = (case admit ''POST'' c body hb_probe w of
     (Inl n, w1) \<Rightarrow> (Inl n, w1)
   | (Inr (token, b), w1) \<Rightarrow>
       (case upsert_probe_heartbeat (hb_probe b) (hb_version b) (hb_started b) (cl_now c) (cl_ip c) (hb_arch b) w1 of
          (Inl _, w2) \<Rightarrow> (Inl 500, w2)
        | (Inr _, w2) \<Rightarrow>
            (let w3 = snd (touch_probe_token token (cl_now c) w2);
                 (upd, w4) = heartbeat_update_for (hb_probe b) (hb_version b) (cl_now c) w3
             in (Inr \<lparr>hr_registered = unix_milli (cl_now c), hr_target_set = targets, hr_update = upd\<rparr>, w4))))"

text \<open>The path endpoint; what \<open>encoding/json\<close> finds in the opaque hops is an argument: \<open>None\<close> when they are
  absent or null, otherwise the number of elements when they are an array.\<close>

record path_request =
  pq_probe :: string
  pq_target :: string
  pq_ts :: int
  pq_hop_count :: int
  pq_target_ttl :: int
  pq_hops :: "(string \<times> nat option) option"

definition handle_path :: "agent_call \<Rightarrow> path_request option \<Rightarrow> fleet \<Rightarrow> (nat + int) \<times> fleet" where
  "handle_path c body w = (case admit ''POST'' c body pq_probe w of
     (Inl n, w1) \<Rightarrow> (Inl n, w1)
   | (Inr (_, b), w1) \<Rightarrow>
       if pq_target b = [] then (Inl 400, w1)
       else if \<not> check_clock_skew (pq_ts b) (cl_now c) then (Inl 400, w1)
       else (case (case pq_hops b of None \<Rightarrow> Some ''[]''
                   | Some (raw, None) \<Rightarrow> None
                   | Some (raw, Some n) \<Rightarrow> if n > 64 then None else Some raw) of
           None \<Rightarrow> (Inl 400, w1)
         | Some hops \<Rightarrow>
             (case upsert_path_snapshot \<lparr>pp_probe = pq_probe b, pp_target = pq_target b, pp_ts = pq_ts b,
                   pp_hop_count = pq_hop_count b, pp_target_ttl = pq_target_ttl b, pp_hops = hops\<rparr> w1 of
                (Inl _, w2) \<Rightarrow> (Inl 500, w2)
              | (Inr _, w2) \<Rightarrow> (Inr (unix_milli (cl_now c)), w2))))"

record status_request =
  sq_probe :: string
  sq_state :: string
  sq_error :: string

definition handle_update_status :: "agent_call \<Rightarrow> status_request option \<Rightarrow> fleet \<Rightarrow> nat \<times> fleet" where
  "handle_update_status c body w = (case admit ''POST'' c body sq_probe w of
     (Inl n, w1) \<Rightarrow> (n, w1)
   | (Inr (_, b), w1) \<Rightarrow>
       if sq_state b = ''applying''
       then (case set_probe_update_state (sq_probe b) UpApplying [] (unix_milli (cl_now c)) w1 of
           (Inl _, w2) \<Rightarrow> (409, w2) | (Inr _, w2) \<Rightarrow> (200, w2))
       else if sq_state b = ''failed''
       then (200, fail_probe_update (sq_probe b)
               (if sq_error b = [] then ''probe reported failure without detail'' else sq_error b) (cl_now c) w1)
       else (400, w1))"

text \<open>\<open>handleIngestUpdateBinary\<close>: only whitelisted versions and architectures reach the file system.\<close>

definition version_re :: "string \<Rightarrow> bool" where
  "version_re s \<longleftrightarrow> (case split_at CHR ''.'' s of
     [a, b, c] \<Rightarrow> list_all (\<lambda>p. p \<noteq> [] \<and> list_all is_digit p) [a, b, c] | _ \<Rightarrow> False)"

definition arch_re :: "string \<Rightarrow> bool" where
  "arch_re s \<longleftrightarrow> s = ''amd64'' \<or> s = ''arm64''"

definition cached_binary :: "string \<Rightarrow> string \<Rightarrow> string \<Rightarrow> string" where
  "cached_binary dir version arch = dir @ ''/release-cache/'' @ version @ ''/'' @ arch @ ''/hoptrail''"

definition handle_update_binary :: "string \<Rightarrow> (string \<Rightarrow> bool) \<Rightarrow> agent_call \<Rightarrow> string \<Rightarrow> string \<Rightarrow> fleet
    \<Rightarrow> (nat + string) \<times> fleet" where
  "handle_update_binary dir exists c version arch w =
     (if cl_method c \<noteq> ''GET'' then (Inl 405, w)
      else (case auth_call c w of
         (Inl e, w1) \<Rightarrow> (Inl (ingest_status e), w1)
       | (Inr _, w1) \<Rightarrow>
           if \<not> version_re version \<or> \<not> arch_re arch then (Inl 400, w1)
           else if \<not> exists (cached_binary dir version arch) then (Inl 404, w1)
           else (Inr (cached_binary dir version arch), w1)))"

section \<open>The operator's endpoints\<close>

definition mint_token :: "string option \<Rightarrow> string option \<Rightarrow> instant \<Rightarrow> fleet \<Rightarrow> (nat + int \<times> string \<times> string) \<times> fleet" where
  "mint_token name random now w = (case name of
     None \<Rightarrow> (Inl 400, w)
   | Some n \<Rightarrow> if \<not> validate_probe_id n then (Inl 400, w)
       else (case random of
           None \<Rightarrow> (Inl 500, w)
         | Some token \<Rightarrow> (case insert_probe_token token n now w of
               (Inl _, w') \<Rightarrow> (Inl 500, w') | (Inr i, w') \<Rightarrow> (Inr (i, n, token), w'))))"

definition token_prefix :: "string \<Rightarrow> string" where
  "token_prefix token = (if length token > 4 then take 4 token else token)"

definition list_tokens_response :: "fleet \<Rightarrow> (nat + (int \<times> string \<times> string \<times> int \<times> int option) list) \<times> fleet" where
  "list_tokens_response w = (case list_probe_tokens w of
     (Inl _, w') \<Rightarrow> (Inl 500, w')
   | (Inr ts, w') \<Rightarrow> (Inr (map (\<lambda>t. (to_id t, to_name t, token_prefix (to_token t), to_created t, to_last_used t)) ts), w'))"

definition revoke_token :: "int \<Rightarrow> fleet \<Rightarrow> nat \<times> fleet" where
  "revoke_token i w = (case delete_probe_token i w of
     (Inl _, w') \<Rightarrow> (500, w') | (Inr found, w') \<Rightarrow> (if found then 204 else 404, w'))"

text \<open>\<open>commandUpdateFor\<close>: \<open>latest\<close> is the answer of the release source, \<open>cached\<close> whether the binary is in the
  cache, \<open>fetched\<close> whether a download succeeds, \<open>digest\<close> the hash of the cached file.\<close>

record release_env =
  re_latest :: "release option"
  re_cached :: "string \<Rightarrow> string \<Rightarrow> bool"
  re_fetched :: bool
  re_digest :: "string option"

definition command_update_for :: "release_env option \<Rightarrow> instant \<Rightarrow> probe_row \<Rightarrow> fleet \<Rightarrow> nat \<times> fleet" where
  "command_update_for source now p w = (case source of
     None \<Rightarrow> (501, w)
   | Some e \<Rightarrow> (case pr_arch p of
       None \<Rightarrow> (409, w)
     | Some arch \<Rightarrow> (case re_latest e of
         None \<Rightarrow> (502, w)
       | Some rel \<Rightarrow>
           (let target = release_version rel
            in if \<not> version_re target then (502, w)
               else if (case pr_version p of None \<Rightarrow> False | Some v \<Rightarrow> \<not> newer target v) then (409, w)
               else if \<not> re_cached e target arch \<and> \<not> re_fetched e then (502, w)
               else (case re_digest e of
                   None \<Rightarrow> (500, w)
                 | Some sha \<Rightarrow> (case command_probe_update (pr_id p) target arch sha (unix_milli now) w of
                       (Inl _, w') \<Rightarrow> (500, w') | (Inr _, w') \<Rightarrow> (200, w')))))))"

definition cancel_update :: "string \<Rightarrow> fleet \<Rightarrow> nat \<times> fleet" where
  "cancel_update probe w = (case get_probe_update probe w of
     (Inl _, w1) \<Rightarrow> (500, w1)
   | (Inr None, w1) \<Rightarrow> (404, w1)
   | (Inr (Some u), w1) \<Rightarrow> if up_state u = UpApplying then (409, w1)
       else (case clear_probe_update probe w1 of (Inl _, w2) \<Rightarrow> (500, w2) | (Inr _, w2) \<Rightarrow> (204, w2)))"

definition forget_probe_request :: "string \<Rightarrow> fleet \<Rightarrow> nat \<times> fleet" where
  "forget_probe_request probe w =
     (if probe = [] \<or> CHR ''/'' \<in> set probe \<or> probe = local_probe_id \<or> probe = ''all'' then (400, w)
      else (case delete_probe probe w of
         (Inl _, w1) \<Rightarrow> (500, w1)
       | (Inr False, w1) \<Rightarrow> (404, w1)
       | (Inr True, w1) \<Rightarrow> (204, snd (clear_probe_update probe w1))))"

end
