(* ===== verification/ProbeUpdates.thy ===== *)
theory ProbeUpdates
  imports ProbeFleet
begin

text \<open>
  Runs of the fleet endpoints and the rollout of \<open>internal/server/probeupdate.go\<close> (\<open>runRollout\<close>,
  \<open>handleProbesUpdateAll\<close>): an update counts as applied only when the probe has said so itself, an
  agent that ignores its command is given up after two deliveries, a bound token reaches only its own
  probe's rows, and a rollout goes through its candidates in order and stops at the first failure.
\<close>

section \<open>Endpoints as steps\<close>

definition probe_by_id :: "string \<Rightarrow> fleet \<Rightarrow> (fleet_error + probe_row option) \<times> fleet" where
  "probe_by_id i w = (case list_probes w of
     (Inl e, w') \<Rightarrow> (Inl e, w') | (Inr ps, w') \<Rightarrow> (Inr (find (\<lambda>p. pr_id p = i) ps), w'))"

definition command_update_op :: "release_env option \<Rightarrow> instant \<Rightarrow> string \<Rightarrow> fleet \<Rightarrow> nat \<times> fleet" where
  "command_update_op source now i w = (case probe_by_id i w of
     (Inl _, w1) \<Rightarrow> (500, w1)
   | (Inr None, w1) \<Rightarrow> (404, w1)
   | (Inr (Some p), w1) \<Rightarrow> (case command_update_for source now p w1 of
         (code, w2) \<Rightarrow> if code = 200 then (200, snd (get_probe_update i w2)) else (code, w2)))"

text \<open>\<open>handleProbeUpdateOp\<close>.\<close>

definition handle_update_op :: "string \<Rightarrow> release_env option \<Rightarrow> instant \<Rightarrow> string \<Rightarrow> fleet \<Rightarrow> nat \<times> fleet" where
  "handle_update_op verb source now i w =
     (if i = [] \<or> i = local_probe_id \<or> i = ''all'' then (400, w)
      else if verb = ''POST'' then command_update_op source now i w
      else if verb = ''DELETE'' then cancel_update i w
      else (405, w))"

datatype fleet_event =
    AgentBeat agent_call "heartbeat_request option" "string list"
  | AgentPath agent_call "path_request option"
  | AgentStatus agent_call "status_request option"
  | OperatorUpdate string "release_env option" instant string
  | OperatorForget string
  | OperatorPin string bool
  | OperatorMint "string option" "string option" instant
  | OperatorRevoke int
  | StoreFaults "bool list"

fun fleet_step :: "fleet_event \<Rightarrow> fleet \<Rightarrow> fleet" where
  "fleet_step (AgentBeat c b ts) w = snd (handle_heartbeat c b ts w)"
| "fleet_step (AgentPath c b) w = snd (handle_path c b w)"
| "fleet_step (AgentStatus c b) w = snd (handle_update_status c b w)"
| "fleet_step (OperatorUpdate verb source now i) w = snd (handle_update_op verb source now i w)"
| "fleet_step (OperatorForget i) w = snd (forget_probe_request i w)"
| "fleet_step (OperatorPin i b) w = snd (set_probe_pin i b w)"
| "fleet_step (OperatorMint name random now) w = snd (mint_token name random now w)"
| "fleet_step (OperatorRevoke i) w = snd (revoke_token i w)"
| "fleet_step (StoreFaults bs) w = w\<lparr>fl_db := (fl_db w)\<lparr>td_faults := bs\<rparr>\<rparr>"

definition fleet_run :: "fleet_event list \<Rightarrow> fleet \<Rightarrow> fleet" where
  "fleet_run es w = fold fleet_step es w"

definition empty_fleet :: "bool list \<Rightarrow> fleet" where
  "empty_fleet faults = \<lparr>fl_probes = [], fl_paths = [], fl_tokens = [], fl_token_seq = 0, fl_updates = [],
     fl_failures = [], fl_db = empty_target_db faults\<rparr>"

section \<open>What an agent's call can do to the tables\<close>

text \<open>A relation between the tables before and after that is transitive and admits consumed faults
  holds for a composed operation when it holds for each part.\<close>

definition with_faults :: "fleet \<Rightarrow> bool list \<Rightarrow> fleet" where
  "with_faults w bs = w\<lparr>fl_db := (fl_db w)\<lparr>td_faults := bs\<rparr>\<rparr>"

lemma fl_exec_faults: "\<exists>bs. fl_exec f w = (Inl FleetStoreFailed, with_faults w bs) \<or> fl_exec f w = f (with_faults w bs)"
proof (cases "td_faults (fl_db w)")
  case Nil
  then have "fl_exec f w = f (with_faults w [])"
    by (simp add: fl_exec_def td_fault_def with_faults_def) (metis Nil target_db.surjective target_db.update_convs(9) fleet.surjective fleet.update_convs(7))
  then show ?thesis by blast
next
  case (Cons b bs)
  then have "fl_exec f w = (if b then (Inl FleetStoreFailed, with_faults w bs) else f (with_faults w bs))"
    by (simp add: fl_exec_def td_fault_def with_faults_def)
  then show ?thesis by (cases b) auto
qed

lemma fl_exec_rule:
  assumes "\<And>bs. P (Inl FleetStoreFailed, with_faults w bs)" "\<And>bs. P (f (with_faults w bs))"
  shows "P (fl_exec f w)"
  using fl_exec_faults [of f w] assms by metis

locale fleet_frame =
  fixes R :: "fleet \<Rightarrow> fleet \<Rightarrow> bool"
  assumes faults [simp, intro]: "R w (with_faults w bs)"
    and trans: "R w w1 \<Longrightarrow> R w1 w2 \<Longrightarrow> R w w2"
begin

lemma refl [simp, intro]: "R w w"
  using faults [of w "td_faults (fl_db w)"] by (simp add: with_faults_def)

lemma exec:
  assumes "\<And>w. R w (snd (f w))" shows "R w (snd (fl_exec f w))"
  using fl_exec_faults [of f w] assms trans faults by (elim exE disjE) (simp_all, blast)

lemma execs: "(\<And>w. R w (snd (f w))) \<Longrightarrow> R w (snd (fl_execs n f w))"
  by (induction n arbitrary: w) (simp_all add: exec)

lemma bind:
  assumes "R v (snd (f w))" "\<And>r w1. f w = (r, w1) \<Longrightarrow> R v w1 \<Longrightarrow> R v (snd (g r w1))"
  shows "R v (snd (case f w of (r, w1) \<Rightarrow> g r w1))"
  using assms by (cases "f w") simp

lemma reads [simp, intro]:
  "R w (snd (list_probes w))" "R w (snd (probe_token_bindings w))" "R w (snd (get_probe_update p w))"
  "R w (snd (auth_call c w))" "R w (snd (probe_by_id i w))"
  by (auto simp: list_probes_def probe_token_bindings_def get_probe_update_def auth_call_def probe_by_id_def
      intro!: exec bind split: sum.split)

lemma admit_frame: "R w (snd (admit verb c body probe w))"
proof -
  obtain r w1 where e: "auth_call c w = (r, w1)" by (cases "auth_call c w")
  have "R w w1" using reads(4) [of w c] e by simp
  then show ?thesis using e by (auto simp: admit_def split: sum.split option.split)
qed

end

text \<open>An agent's call on behalf of probe \<open>p\<close>, in which only a heartbeat may name the version \<open>v\<close>.\<close>

lemma find_update_faults [simp]: "find_update p (with_faults w bs) = find_update p w"
  by (simp add: find_update_def with_faults_def)

lemma get_update_cases:
  "\<exists>bs. get_probe_update p w = (Inl FleetStoreFailed, with_faults w bs)
      \<or> get_probe_update p w = (Inr (find_update p w), with_faults w bs)"
  unfolding get_probe_update_def using fl_exec_faults [of "\<lambda>w. (Inr (find_update p w), w)" w] by simp

lemma admitted:
  assumes "admit verb c body probe w = (Inr (token, b), w1)"
  shows "body = Some b \<and> (\<exists>bound. auth_call c w = (Inr (token, bound), w1) \<and> require_probe_binding bound (probe b))"
  using assms by (auto simp: admit_def split: if_splits prod.splits sum.splits option.splits)

locale agent_frame = fleet_frame +
  fixes p v :: string
  assumes registers: "R w (snd (upsert_probe_heartbeat p version started now ip arch w))"
    and touches: "R w (snd (touch_probe_token token now w))"
    and counts: "R w (snd (increment_deliveries p ts w))"
    and reports: "st \<noteq> UpApplied \<Longrightarrow> R w (snd (set_probe_update_state p st err ts w))"
    and applies: "find_update p w = Some u \<Longrightarrow> up_version u = v
      \<Longrightarrow> R w (snd (set_probe_update_state p UpApplied err ts w))"
    and logs: "R w (snd (append_failure ts p msg w))"
    and paths: "pp_probe s = p \<Longrightarrow> R w (snd (upsert_path_snapshot s w))"
begin

lemma fails: "R w (fail_probe_update p msg now w)"
proof -
  obtain r w1 where e: "set_probe_update_state p UpFailed msg (unix_milli now) w = (r, w1)"
    by (cases "set_probe_update_state p UpFailed msg (unix_milli now) w")
  then have "R w w1" using reports [of UpFailed w msg "unix_milli now"] by simp
  then show ?thesis using e trans logs by (auto simp: fail_probe_update_def split: sum.split)
qed

lemma update_for:
  assumes "base_version reported = v" shows "R w (snd (heartbeat_update_for p reported now w))"
proof -
  obtain r w1 where e: "get_probe_update p w = (r, w1)" by (cases "get_probe_update p w")
  then have w1: "R w w1" using reads(3) [of w p] by simp
  have same: "find_update p w1 = find_update p w" and r: "\<And>u. r = Inr (Some u) \<Longrightarrow> find_update p w = Some u"
    using e get_update_cases [of p w] by auto
  obtain n w2 where i: "increment_deliveries p (unix_milli now) w1 = (n, w2)"
    by (cases "increment_deliveries p (unix_milli now) w1")
  have "R w1 w2" using counts [of w1 "unix_milli now"] i by simp
  then have w2: "R w w2" by (rule trans [OF w1])
  have ok: "R w (snd (set_probe_update_state p UpApplied [] (unix_milli now) w1))"
    if "r = Inr (Some u)" "base_version reported = up_version u" for u
  proof (rule trans [OF w1 applies])
    show "find_update p w1 = Some u" using that same r by simp
    show "up_version u = v" using that assms by simp
  qed
  have bad: "R w (fail_probe_update p msg now w1)" "R w (fail_probe_update p msg now w2)" for msg
    by (rule trans [OF w1 fails] trans [OF w2 fails])+
  show ?thesis
  proof (cases "\<exists>u. r = Inr (Some u)")
    case False
    then show ?thesis using e w1
      by (cases r) (auto simp: heartbeat_update_for_def split: option.split)
  next
    case True
    then obtain u where u: "r = Inr (Some u)" by blast
    show ?thesis
    proof (cases "base_version reported = up_version u")
      case True
      then show ?thesis using e u w1 ok [OF u True] by (simp add: heartbeat_update_for_def)
    next
      case False
      then show ?thesis using e u i w1 w2 bad
        by (cases n; cases "up_state u") (simp_all add: heartbeat_update_for_def)
    qed
  qed
qed

lemma heartbeat_frame:
  assumes "\<And>b. body = Some b \<Longrightarrow> hb_probe b = p \<and> base_version (hb_version b) = v"
  shows "R w (snd (handle_heartbeat c body ts w))"
proof -
  obtain r w1 where e: "admit ''POST'' c body hb_probe w = (r, w1)" by (cases "admit ''POST'' c body hb_probe w")
  then have w1: "R w w1" using admit_frame [of w "''POST''" c body hb_probe] by simp
  show ?thesis
  proof (cases r)
    case (Inl n)
    then show ?thesis using e w1 by (simp add: handle_heartbeat_def)
  next
    case (Inr tb)
    then obtain token b where tb: "tb = (token, b)" by (cases tb)
    then have b: "hb_probe b = p" "base_version (hb_version b) = v"
      using admitted [of "''POST''" c body hb_probe w token b w1] e Inr assms by auto
    obtain r2 w2 where e2: "upsert_probe_heartbeat p (hb_version b) (hb_started b) (cl_now c) (cl_ip c) (hb_arch b) w1
        = (r2, w2)" by fastforce
    then have w2: "R w w2"
      using registers [where version = "hb_version b" and started = "hb_started b" and now = "cl_now c" and ip = "cl_ip c"
          and arch = "hb_arch b" and w = w1] trans [OF w1] by simp
    define w3 where "w3 = snd (touch_probe_token token (cl_now c) w2)"
    have w3: "R w w3" using touches trans [OF w2] by (simp add: w3_def)
    have "R w (snd (heartbeat_update_for p (hb_version b) (cl_now c) w3))"
      using update_for [OF b(2)] trans [OF w3] by blast
    then show ?thesis using e Inr tb e2 b(1) w2
      by (cases r2) (simp_all add: handle_heartbeat_def Let_def w3_def [symmetric] case_prod_beta)
  qed
qed

lemma path_frame:
  assumes "\<And>b. body = Some b \<Longrightarrow> pq_probe b = p"
  shows "R w (snd (handle_path c body w))"
proof -
  obtain r w1 where e: "admit ''POST'' c body pq_probe w = (r, w1)" by (cases "admit ''POST'' c body pq_probe w")
  then have w1: "R w w1" using admit_frame [of w "''POST''" c body pq_probe] by simp
  have paths: "R w (snd (upsert_path_snapshot s w1))" if "pp_probe s = p" for s
    using paths [OF that] trans [OF w1] by blast
  show ?thesis
  proof (cases r)
    case (Inl n)
    then show ?thesis using e w1 by (simp add: handle_path_def)
  next
    case (Inr tb)
    then obtain token b where tb: "tb = (token, b)" by (cases tb)
    then have b: "pq_probe b = p"
      using admitted [of "''POST''" c body pq_probe w token b w1] e Inr assms by auto
    have up: "R w (snd (case upsert_path_snapshot s w1 of (Inl _, w2) \<Rightarrow> (Inl 500, w2) | (Inr _, w2) \<Rightarrow> (Inr k, w2)))"
      if "pp_probe s = p" for s and k :: int
      using paths [OF that] by (auto split: prod.split sum.split)
    show ?thesis using e Inr tb b w1 by (simp add: handle_path_def up split: option.split)
  qed
qed

lemma status_frame:
  assumes "\<And>b. body = Some b \<Longrightarrow> sq_probe b = p"
  shows "R w (snd (handle_update_status c body w))"
proof -
  obtain r w1 where e: "admit ''POST'' c body sq_probe w = (r, w1)" by (cases "admit ''POST'' c body sq_probe w")
  then have w1: "R w w1" using admit_frame [of w "''POST''" c body sq_probe] by simp
  show ?thesis
  proof (cases r)
    case (Inl n)
    then show ?thesis using e w1 by (simp add: handle_update_status_def)
  next
    case (Inr tb)
    then obtain token b where tb: "tb = (token, b)" by (cases tb)
    then have b: "sq_probe b = p"
      using admitted [of "''POST''" c body sq_probe w token b w1] e Inr assms by auto
    obtain r2 w2 where s: "set_probe_update_state p UpApplying [] (unix_milli (cl_now c)) w1 = (r2, w2)"
      by fastforce
    then have "R w w2" using reports [of UpApplying w1 "[]" "unix_milli (cl_now c)"] trans [OF w1] by simp
    moreover have "R w (fail_probe_update p msg now w1)" for msg now by (rule trans [OF w1 fails])
    ultimately show ?thesis using e s Inr tb b w1
      by (cases r2) (simp_all add: handle_update_status_def)
  qed
qed

end

text \<open>The operator's requests about one probe, for a relation every part of them respects.\<close>

lemma probe_by_id_id: "probe_by_id i w = (Inr (Some p), w1) \<Longrightarrow> pr_id p = i"
  by (auto simp: probe_by_id_def find_Some_iff split: prod.splits sum.splits)

locale forget_frame = fleet_frame +
  fixes i :: string
  assumes clears: "R w (snd (clear_probe_update i w))"
    and deletes: "R w (snd (delete_probe i w))"
begin

lemma forget: "R w (snd (forget_probe_request i w))"
  by (auto simp: forget_probe_request_def trans [OF _ clears] deletes intro!: bind split: sum.split bool.split)

end

locale operator_frame = forget_frame +
  assumes commands: "R w (snd (command_probe_update i version arch sha ts w))"
begin

lemma update_op: "R w (snd (handle_update_op verb source now i w))"
proof -
  have command: "R w (snd (command_update_for source now p w))" if "pr_id p = i" for p w
    unfolding command_update_for_def that
    by (auto simp: Let_def commands split: option.split intro!: bind split: sum.split)
  have clear: "R w (snd (clear_probe_update i w1))" if "R w w1" for w1
    using that by (rule trans [OF _ clears])
  have get: "R w (snd (get_probe_update i w1))" if "R w w1" for w1
    using that by (rule trans [OF _ reads(3)])
  have post: "R w (snd (command_update_op source now i w))"
    unfolding command_update_op_def
  proof (rule bind)
    show "R w (snd (probe_by_id i w))" by simp
    fix r w1 assume r: "probe_by_id i w = (r, w1)" and "R w w1"
    moreover have "R w1 (snd (case command_update_for source now p w1 of
        (code, w2) \<Rightarrow> if code = 200 then (200, snd (get_probe_update i w2)) else (code, w2)))" if "pr_id p = i" for p
      by (rule bind) (use command [OF that] get trans in auto)
    moreover have "pr_id p = i" if "r = Inr (Some p)" for p using r that probe_by_id_id by simp
    ultimately show "R w (snd (case r of Inl _ \<Rightarrow> (500, w1) | Inr None \<Rightarrow> (404, w1)
        | Inr (Some p) \<Rightarrow> (case command_update_for source now p w1 of
            (code, w2) \<Rightarrow> if code = 200 then (200, snd (get_probe_update i w2)) else (code, w2))))"
      using trans by (auto simp del: split_paired_All split: sum.split option.split)
  qed
  have delete: "R w (snd (cancel_update i w))"
    unfolding cancel_update_def
  proof (rule bind)
    show "R w (snd (get_probe_update i w))" by simp
    fix r w1 assume "R w w1"
    moreover from this have "R w (snd (case clear_probe_update i w1 of
        (Inl _, w2) \<Rightarrow> (500, w2) | (Inr _, w2) \<Rightarrow> (204, w2)))"
      by (intro bind clear) (auto split: sum.split)
    ultimately show "R w (snd (case r of Inl _ \<Rightarrow> (500, w1) | Inr None \<Rightarrow> (404, w1)
        | Inr (Some u) \<Rightarrow> if up_state u = UpApplying then (409, w1)
            else (case clear_probe_update i w1 of (Inl _, w2) \<Rightarrow> (500, w2) | (Inr _, w2) \<Rightarrow> (204, w2))))"
      by (auto split: sum.split option.split)
  qed
  show "R w (snd (handle_update_op verb source now i w))"
    by (simp add: handle_update_op_def post delete)
qed

end

section \<open>An update counts as applied only when the probe reports it\<close>

definition commanded :: "fleet \<Rightarrow> (string \<times> string) set" where
  "commanded w = (\<lambda>u. (up_probe u, up_version u)) ` set (fl_updates w)"

definition applied :: "fleet \<Rightarrow> (string \<times> string) set" where
  "applied w = (\<lambda>u. (up_probe u, up_version u)) ` {u \<in> set (fl_updates w). up_state u = UpApplied}"

definition one_row_each :: "fleet \<Rightarrow> bool" where
  "one_row_each w \<longleftrightarrow> distinct (map up_probe (fl_updates w))"

definition applies_only :: "string \<Rightarrow> string \<Rightarrow> fleet \<Rightarrow> fleet \<Rightarrow> bool" where
  "applies_only p v w w' \<longleftrightarrow> (one_row_each w \<longrightarrow> one_row_each w' \<and> commanded w' \<subseteq> commanded w
     \<and> applied w' \<subseteq> applied w \<union> ({(p, v)} \<inter> commanded w))"

lemma same_rows_applies: "fl_updates w' = fl_updates w \<Longrightarrow> applies_only p v w w'"
  by (simp add: applies_only_def commanded_def applied_def one_row_each_def)

lemma find_update_in: "find_update p w = Some u \<Longrightarrow> u \<in> set (fl_updates w) \<and> up_probe u = p"
  by (auto simp: find_update_def find_Some_iff in_set_conv_nth)

lemma only_update:
  assumes "one_row_each w" "find_update p w = Some u" "u' \<in> set (fl_updates w)" "up_probe u' = p"
  shows "u' = u"
  using assms find_update_in [OF assms(2)] by (auto simp: one_row_each_def distinct_map dest: inj_onD)

lemma keys_of_change:
  "(\<And>u. g (f u) = g u) \<Longrightarrow> map g (update_where P f rows) = map g rows"
  by (simp add: update_where_def)

lemma applies_change:
  assumes "\<And>u. up_probe (f u) = up_probe u \<and> up_version (f u) = up_version u"
    and "\<And>u. one_row_each w \<Longrightarrow> u \<in> set (fl_updates w) \<Longrightarrow> up_probe u = p \<Longrightarrow> up_state (f u) = UpApplied
      \<Longrightarrow> up_state u = UpApplied \<or> up_version u = v"
  shows "applies_only p v w (change_update p f w)"
proof -
  have keys: "map up_probe (fl_updates (change_update p f w)) = map up_probe (fl_updates w)"
    "commanded (change_update p f w) = commanded w"
    using assms(1) keys_of_change [of up_probe f "\<lambda>u. up_probe u = p" "fl_updates w"]
      keys_of_change [of "\<lambda>u. (up_probe u, up_version u)" f "\<lambda>u. up_probe u = p" "fl_updates w"]
    by (simp_all add: change_update_def commanded_def flip: set_map)
  have "x \<in> applied w \<union> ({(p, v)} \<inter> commanded w)" if one: "one_row_each w" and x: "x \<in> applied (change_update p f w)" for x
  proof -
    obtain u where u: "u \<in> set (fl_updates w)" "x = (up_probe u, up_version u)"
        "up_state (if up_probe u = p then f u else u) = UpApplied"
      using x assms(1) by (auto simp: applied_def change_update_def update_where_def split: if_splits)
    then show ?thesis using assms(2) [OF one u(1)]
      by (cases "up_probe u = p") (auto simp: applied_def commanded_def)
  qed
  then show ?thesis using keys by (auto simp: applies_only_def one_row_each_def)
qed

interpretation ap: fleet_frame "applies_only p v" for p v
proof unfold_locales
  show "applies_only p v w (with_faults w bs)" for w bs by (rule same_rows_applies) (simp add: with_faults_def)
  show "applies_only p v w w2" if "applies_only p v w w1" "applies_only p v w1 w2" for w w1 w2
    using that unfolding applies_only_def by blast
qed

lemma same_rows:
  "\<lbrakk>\<And>w. fl_updates (snd (f w)) = fl_updates w\<rbrakk> \<Longrightarrow> applies_only p v w (snd (fl_exec f w))"
  by (rule ap.exec, rule same_rows_applies)

interpretation up: agent_frame "applies_only p v" p v for p v
proof unfold_locales
  fix w and version ip arch token :: string and started ts :: int and now :: instant
  show "applies_only p v w (snd (upsert_probe_heartbeat p version started now ip arch w))"
    by (auto simp: upsert_probe_heartbeat_def intro: same_rows)
  show "applies_only p v w (snd (touch_probe_token token now w))"
    by (simp add: touch_probe_token_def same_rows)
  show "applies_only p v w (snd (increment_deliveries p ts w))"
    by (auto simp: increment_deliveries_def intro!: ap.exec applies_change split: option.split)
next
  fix w st err and ts :: int
  assume "st \<noteq> UpApplied"
  then show "applies_only p v w (snd (set_probe_update_state p st err ts w))"
    by (auto simp: set_probe_update_state_def intro!: ap.exec applies_change)
next
  fix w u err and ts :: int
  assume u: "find_update p w = Some u" "up_version u = v"
  have "applies_only p v w (change_update p (\<lambda>u. u\<lparr>up_state := UpApplied, up_error := err, up_updated := ts\<rparr>) (with_faults w bs))" for bs
  proof (rule ap.trans [OF ap.faults applies_change])
    fix u' assume "one_row_each (with_faults w bs)" "u' \<in> set (fl_updates (with_faults w bs))" "up_probe u' = p"
    then show "up_state u' = UpApplied \<or> up_version u' = v"
      using only_update [OF _ _ _ refl, of "with_faults w bs" u u'] u by (metis find_update_faults only_update)
  qed simp
  then show "applies_only p v w (snd (set_probe_update_state p UpApplied err ts w))"
    using fl_exec_faults [of "\<lambda>w. (if find_update p w = None then Inl NoUpdateRow else Inr (),
        change_update p (\<lambda>u. u\<lparr>up_state := UpApplied, up_error := err, up_updated := ts\<rparr>) w)" w]
    by (elim exE disjE) (simp_all add: set_probe_update_state_def)
next
  fix w ts msg
  show "applies_only p v w (snd (append_failure ts p msg w))"
    by (simp add: append_failure_def same_rows)
next
  fix w s
  show "applies_only p v w (snd (upsert_path_snapshot s w))"
    by (auto simp: upsert_path_snapshot_def intro: same_rows)
qed

text \<open>What the operator does never adds an applied row.\<close>

definition adds_no_applied :: "fleet \<Rightarrow> fleet \<Rightarrow> bool" where
  "adds_no_applied w w' \<longleftrightarrow> (one_row_each w \<longrightarrow> one_row_each w' \<and> applied w' \<subseteq> applied w)"

lemma same_rows_adds: "fl_updates w' = fl_updates w \<Longrightarrow> adds_no_applied w w'"
  by (simp add: adds_no_applied_def one_row_each_def applied_def)

interpretation op: fleet_frame adds_no_applied
proof unfold_locales
  show "adds_no_applied w (with_faults w bs)" for w bs by (rule same_rows_adds) (simp add: with_faults_def)
  show "adds_no_applied w w2" if "adds_no_applied w w1" "adds_no_applied w1 w2" for w w1 w2
    using that unfolding adds_no_applied_def by blast
qed

lemma same_rows_exec:
  "\<lbrakk>\<And>w. fl_updates (snd (f w)) = fl_updates w\<rbrakk> \<Longrightarrow> adds_no_applied w (snd (fl_exec f w))"
  by (rule op.exec, rule same_rows_adds)

lemma distinct_filtered: "distinct (map f xs) \<Longrightarrow> distinct (map f (filter P xs))"
  by (induction xs) auto

lemma operator_rows [simp]:
  "adds_no_applied w (snd (command_probe_update p v arch sha ts w))"
  "adds_no_applied w (snd (clear_probe_update p w))"
  "adds_no_applied w (snd (delete_probe p w))"
  "adds_no_applied w (snd (set_probe_pin p b w))"
  "adds_no_applied w (snd (insert_probe_token token name now w))"
  "adds_no_applied w (snd (delete_probe_token i w))"
proof -
  have add: "adds_no_applied w (w\<lparr>fl_updates := replace_update u (fl_updates w)\<rparr>)" if "up_state u \<noteq> UpApplied" for w u
    using that by (auto simp: adds_no_applied_def one_row_each_def applied_def distinct_filtered)
  have del: "adds_no_applied w (w\<lparr>fl_updates := filter P (fl_updates w)\<rparr>)" for w P
    by (auto simp: adds_no_applied_def one_row_each_def applied_def distinct_filtered)
  show "adds_no_applied w (snd (command_probe_update p v arch sha ts w))"
    by (auto simp: command_probe_update_def simp del: replace_update.simps intro!: op.exec add)
  show "adds_no_applied w (snd (clear_probe_update p w))"
    by (auto simp: clear_probe_update_def intro!: op.exec del)
  show "adds_no_applied w (snd (delete_probe p w))"
  proof -
    have "adds_no_applied w (snd (fl_execs n (\<lambda>w. (Inr True, forget_probe p w)) w))" for n w
      by (rule op.execs) (simp add: same_rows_adds forget_probe_def)
    then show ?thesis by (auto simp: delete_probe_def simp del: fl_execs.simps intro!: op.execs)
  qed
  show "adds_no_applied w (snd (set_probe_pin p b w))"
    by (auto simp: set_probe_pin_def intro!: same_rows_exec)
  show "adds_no_applied w (snd (insert_probe_token token name now w))"
    by (auto simp: insert_probe_token_def intro!: same_rows_exec)
  show "adds_no_applied w (snd (delete_probe_token i w))"
    by (auto simp: delete_probe_token_def intro!: same_rows_exec)
qed

interpretation oa: operator_frame adds_no_applied i for i
  by unfold_locales simp_all

lemma operator_frame_steps:
  "adds_no_applied w (snd (handle_update_op verb source now i w))"
  "adds_no_applied w (snd (forget_probe_request i w))"
  "adds_no_applied w (snd (mint_token name random now w))"
  "adds_no_applied w (snd (revoke_token j w))"
proof -
  show "adds_no_applied w (snd (handle_update_op verb source now i w))" by (rule oa.update_op)
  show "adds_no_applied w (snd (forget_probe_request i w))" by (rule oa.forget)
  show "adds_no_applied w (snd (mint_token name random now w))"
    by (auto simp: mint_token_def intro!: op.bind split: sum.split option.split)
  show "adds_no_applied w (snd (revoke_token j w))"
    by (auto simp: revoke_token_def intro!: op.bind split: sum.split)
qed

text \<open>The heartbeat that justifies an applied row: it came when the row for that version existed.\<close>

definition reported :: "bool list \<Rightarrow> fleet_event list \<Rightarrow> string \<times> string \<Rightarrow> bool" where
  "reported faults es x \<longleftrightarrow> (\<exists>pre c b ts post. es = pre @ AgentBeat c (Some b) ts # post
     \<and> x = (hb_probe b, base_version (hb_version b)) \<and> x \<in> commanded (fleet_run pre (empty_fleet faults)))"

lemma reported_snoc: "reported faults es x \<Longrightarrow> reported faults (es @ [e]) x"
  unfolding reported_def by (elim exE conjE) (metis append.assoc append_Cons)

lemma fleet_run_snoc: "fleet_run (es @ [e]) w = fleet_step e (fleet_run es w)"
  by (simp add: fleet_run_def)

lemma agent_step_applies:
  assumes "e = AgentBeat c body ts \<or> e = AgentPath c pb \<or> e = AgentStatus c sb"
    and "one_row_each w"
  shows agent_step_rows: "one_row_each (fleet_step e w)"
    and agent_step_adds: "x \<in> applied (fleet_step e w) \<Longrightarrow> x \<in> applied w \<or> (\<exists>b. e = AgentBeat c (Some b) ts \<and> x = (hb_probe b, base_version (hb_version b)) \<and> x \<in> commanded w)"
proof -
  have none: "applies_only p v w (snd (handle_path c None w))" "applies_only p v w (snd (handle_heartbeat c None ts w))"
    "applies_only p v w (snd (handle_update_status c None w))" for p v
    by (rule up.path_frame up.heartbeat_frame up.status_frame; simp)+
  have beat: "applies_only (hb_probe b) (base_version (hb_version b)) w (snd (handle_heartbeat c (Some b) ts w))" for b
    by (rule up.heartbeat_frame) auto
  have path: "applies_only (pq_probe b) v w (snd (handle_path c (Some b) w))" for b v
    by (rule up.path_frame) auto
  have status: "applies_only (sq_probe b) v w (snd (handle_update_status c (Some b) w))" for b v
    by (rule up.status_frame) auto
  have other: "applies_only p v w w' \<Longrightarrow> x \<in> applied w' \<Longrightarrow> x \<in> applied w \<or> x = (p, v) \<and> x \<in> commanded w" for p v w'
    using assms(2) by (auto simp: applies_only_def)
  have rows: "applies_only p v w w' \<Longrightarrow> one_row_each w'" for p v w' using assms(2) by (simp add: applies_only_def)
  from assms(1) show "one_row_each (fleet_step e w)"
    using rows [OF beat] rows [OF path] rows [OF status] none rows
    by (cases body; cases pb; cases sb) auto
  assume x: "x \<in> applied (fleet_step e w)"
  from assms(1) show "x \<in> applied w \<or> (\<exists>b. e = AgentBeat c (Some b) ts \<and> x = (hb_probe b, base_version (hb_version b))
      \<and> x \<in> commanded w)"
  proof (elim disjE)
    assume e: "e = AgentBeat c body ts"
    show ?thesis
    proof (cases body)
      case None
      then show ?thesis using other [OF none(2) [of "''a''" "[]"]] other [OF none(2) [of "''b''" "[]"]] e x by auto
    next
      case (Some b) then show ?thesis using other [OF beat [of b]] e x by auto
    qed
  next
    assume e: "e = AgentPath c pb"
    show ?thesis
    proof (cases pb)
      case None
      then show ?thesis using other [OF none(1) [of "''a''" "[]"]] other [OF none(1) [of "''b''" "[]"]] e x by auto
    next
      case (Some b)
      then show ?thesis using other [OF path [of b "''a''"]] other [OF path [of b "''b''"]] e x by auto
    qed
  next
    assume e: "e = AgentStatus c sb"
    show ?thesis
    proof (cases sb)
      case None
      then show ?thesis using other [OF none(3) [of "''a''" "[]"]] other [OF none(3) [of "''b''" "[]"]] e x by auto
    next
      case (Some b)
      then show ?thesis using other [OF status [of b "''a''"]] other [OF status [of b "''b''"]] e x by auto
    qed
  qed
qed

lemma operator_step_applies:
  assumes "\<nexists>c body ts. e = AgentBeat c body ts" "\<nexists>c b. e = AgentPath c b" "\<nexists>c b. e = AgentStatus c b"
  shows "adds_no_applied w (fleet_step e w)"
  using assms operator_frame_steps operator_rows op.faults by (cases e) (simp_all add: with_faults_def)

lemma applied_rows_reported:
  "one_row_each (fleet_run es (empty_fleet faults))
    \<and> (\<forall>x \<in> applied (fleet_run es (empty_fleet faults)). reported faults es x)"
proof (induction es rule: rev_induct)
  case Nil
  show ?case by (simp add: fleet_run_def empty_fleet_def one_row_each_def applied_def)
next
  case (snoc e es)
  define w where "w = fleet_run es (empty_fleet faults)"
  have ih: "one_row_each w" "\<And>x. x \<in> applied w \<Longrightarrow> reported faults (es @ [e]) x"
    using snoc reported_snoc by (auto simp: w_def)
  show ?case unfolding fleet_run_snoc w_def [symmetric]
  proof (cases "(\<exists>c body ts. e = AgentBeat c body ts) \<or> (\<exists>c b. e = AgentPath c b) \<or> (\<exists>c b. e = AgentStatus c b)")
    case False
    then have "adds_no_applied w (fleet_step e w)" by (intro operator_step_applies) auto
    then show "one_row_each (fleet_step e w) \<and> (\<forall>x \<in> applied (fleet_step e w). reported faults (es @ [e]) x)"
      using ih by (auto simp: adds_no_applied_def)
  next
    case True
    then obtain c body ts pb sb where e: "e = AgentBeat c body ts \<or> e = AgentPath c pb \<or> e = AgentStatus c sb"
      by blast
    have now: "reported faults (es @ [AgentBeat c (Some b) ts]) (hb_probe b, base_version (hb_version b))"
      if "(hb_probe b, base_version (hb_version b)) \<in> commanded w" for b
      using that unfolding reported_def w_def by (intro exI [of _ es] exI [of _ c] exI [of _ b] exI [of _ ts] exI [of _ "[]"]) simp
    have rep: "reported faults (es @ [e]) x" if "x \<in> applied (fleet_step e w)" for x
      
      using agent_step_adds [OF e ih(1) that] ih(2) [of x] now by (elim disjE exE conjE) simp_all
    moreover have "one_row_each (fleet_step e w)" by (rule agent_step_rows [OF e ih(1)])
    ultimately show "one_row_each (fleet_step e w) \<and> (\<forall>x \<in> applied (fleet_step e w). reported faults (es @ [e]) x)"
      by blast
  qed
qed


section \<open>Commands an agent ignores\<close>

text \<open>With a working store, only the row of the probe decides.\<close>

lemma fl_exec_works [simp]: "td_faults (fl_db w) = [] \<Longrightarrow> fl_exec f w = f w"
  by (simp add: fl_exec_def td_fault_def)

definition put_update :: "update_row \<Rightarrow> fleet \<Rightarrow> fleet" where
  "put_update u w = change_update (up_probe u) (\<lambda>_. u) w"

text \<open>Heartbeats at the given times reporting the same old version: the commands they are answered with.\<close>

fun beats :: "string \<Rightarrow> string \<Rightarrow> instant list \<Rightarrow> fleet \<Rightarrow> update_command option list \<times> fleet" where
  "beats p v [] w = ([], w)"
| "beats p v (t # ts) w = (case heartbeat_update_for p v t w of
     (c, w1) \<Rightarrow> (case beats p v ts w1 of (cs, w2) \<Rightarrow> (c # cs, w2)))"

lemma beats_append: "beats p v (ts @ ts') w =
    (case beats p v ts w of (cs, w1) \<Rightarrow> (case beats p v ts' w1 of (cs', w2) \<Rightarrow> (cs @ cs', w2)))"
  by (induction ts arbitrary: w) (simp_all split: prod.splits)

lemma find_change:
  assumes "find_update p w = Some u" "\<And>u. up_probe (f u) = up_probe u"
  shows "find_update p (change_update p f w) = Some (f u)"
proof -
  have "find (\<lambda>u. up_probe u = p) (update_where (\<lambda>u. up_probe u = p) f rows) =
      map_option f (find (\<lambda>u. up_probe u = p) rows)" for rows
    by (induction rows) (simp_all add: update_where_def assms(2))
  then show ?thesis using assms(1) by (simp add: find_update_def change_update_def)
qed

lemma change_works [simp]: "fl_db (change_update p f w) = fl_db w" "fl_failures (change_update p f w) = fl_failures w"
  by (simp_all add: change_update_def)

text \<open>One heartbeat on a working store.\<close>

lemma heartbeat_on_row:
  assumes "td_faults (fl_db w) = []" "find_update p w = Some u" "base_version v \<noteq> up_version u"
  shows "heartbeat_update_for p v t w =
    (case up_state u of
       UpApplied \<Rightarrow> (None, w)
     | UpFailed \<Rightarrow> (None, w)
     | UpApplying \<Rightarrow> if unix_milli t - up_updated u > apply_timeout div go_ms
         then (None, fail_probe_update p (''no heartbeat on v'' @ up_version u) t w) else (Some (command_of u), w)
     | UpPending \<Rightarrow>
         (let w2 = change_update p (\<lambda>u. u\<lparr>up_deliveries := up_deliveries u + 1, up_updated := unix_milli t\<rparr>) w
          in if up_deliveries u + 1 > max_update_deliveries
             then (None, fail_probe_update p ''probe never acknowledged the command'' t w2)
             else (Some (command_of u), w2)))"
  using assms by (cases "up_state u")
    (simp_all add: heartbeat_update_for_def get_probe_update_def increment_deliveries_def Let_def)

lemma fail_works:
  assumes "td_faults (fl_db w) = []" "find_update p w = Some u"
  shows "fail_probe_update p msg t w = (change_update p (\<lambda>u. u\<lparr>up_state := UpFailed, up_error := msg,
      up_updated := unix_milli t\<rparr>) w)\<lparr>fl_failures := fl_failures w @ [(unix_milli t, p, ''probe update failed: '' @ msg)]\<rparr>"
  using assms by (simp add: fail_probe_update_def set_probe_update_state_def append_failure_def change_update_def)

lemma failed_is_silent:
  assumes "td_faults (fl_db w) = []" "find_update p w = Some u" "base_version v \<noteq> up_version u" "up_state u = UpFailed"
  shows "beats p v ts w = (replicate (length ts) None, w)"
  using assms by (induction ts) (simp_all add: heartbeat_on_row)

lemma row_after_failure:
  assumes "td_faults (fl_db w) = []" "find_update p w = Some u" "base_version v \<noteq> up_version u"
  shows "beats p v ts (fail_probe_update p msg t w) = (replicate (length ts) None, fail_probe_update p msg t w)"
    and "\<exists>u'. find_update p (fail_probe_update p msg t w) = Some u' \<and> up_state u' = UpFailed"
proof -
  define f :: "update_row \<Rightarrow> update_row" where "f = (\<lambda>u. u\<lparr>up_state := UpFailed, up_error := msg, up_updated := unix_milli t\<rparr>)"
  define w' where "w' = fail_probe_update p msg t w"
  have w': "w' = (change_update p f w)\<lparr>fl_failures := fl_failures w @ [(unix_milli t, p, ''probe update failed: '' @ msg)]\<rparr>"
    using fail_works [OF assms(1,2)] by (simp add: w'_def f_def)
  have "find_update p (change_update p f w) = Some (f u)" by (rule find_change [OF assms(2)]) (simp add: f_def)
  then have row: "find_update p w' = Some (f u)" by (simp add: w' find_update_def)
  have "td_faults (fl_db w') = []" using assms(1) by (simp add: w')
  then show "beats p v ts (fail_probe_update p msg t w) = (replicate (length ts) None, fail_probe_update p msg t w)"
    using failed_is_silent [OF _ row] assms(3) by (simp add: f_def w'_def)
  show "\<exists>u'. find_update p (fail_probe_update p msg t w) = Some u' \<and> up_state u' = UpFailed"
    using row by (simp add: f_def w'_def)
qed

lemma pending_beats:
  assumes "td_faults (fl_db w) = []" "find_update p w = Some u" "base_version v \<noteq> up_version u"
    and "up_state u = UpPending" "up_deliveries u + n = 2"
  shows "\<exists>w' u'. beats p v ts w = (replicate (min n (length ts)) (Some (command_of u)) @ replicate (length ts - n) None, w')
    \<and> find_update p w' = Some u' \<and> up_state u' = (if length ts \<le> n then UpPending else UpFailed)"
  using assms
proof (induction ts arbitrary: w u n)
  case Nil
  then show ?case by simp
next
  case (Cons t ts)
  define f :: "update_row \<Rightarrow> update_row" where
    "f = (\<lambda>u. u\<lparr>up_deliveries := up_deliveries u + 1, up_updated := unix_milli t\<rparr>)"
  define w2 where "w2 = change_update p f w"
  have row: "find_update p w2 = Some (f u)" unfolding w2_def by (rule find_change [OF Cons.prems(2)]) (simp add: f_def)
  have ok: "td_faults (fl_db w2) = []" using Cons.prems(1) by (simp add: w2_def)
  note beat = heartbeat_on_row [OF Cons.prems(1-3), of t, unfolded Let_def, folded f_def, folded w2_def]
  have cmd: "command_of (f u) = command_of u" by (simp add: f_def command_of_def)
  show ?case
  proof (cases n)
    case 0
    then show ?thesis
      using beat row_after_failure [OF ok row, of v] Cons.prems by (simp add: max_update_deliveries_def f_def)
  next
    case (Suc m)
    have "\<exists>w' u'. beats p v ts w2 = (replicate (min m (length ts)) (Some (command_of (f u))) @ replicate (length ts - m) None, w')
        \<and> find_update p w' = Some u' \<and> up_state u' = (if length ts \<le> m then UpPending else UpFailed)"
      by (rule Cons.IH [OF ok row]) (use Cons.prems Suc in \<open>simp_all add: f_def\<close>)
    then show ?thesis using beat Cons.prems Suc cmd by (auto simp: max_update_deliveries_def)
  qed
qed

lemma applying_beats:
  assumes "td_faults (fl_db w) = []" "find_update p w = Some u" "base_version v \<noteq> up_version u"
    and "up_state u = UpApplying" "sorted (map unix_milli ts)"
  shows "\<exists>w' u'. beats p v ts w =
      (map (\<lambda>t. if unix_milli t - up_updated u \<le> 300000 then Some (command_of u) else None) ts, w')
    \<and> find_update p w' = Some u' \<and> up_state u' =
      (if \<forall>t \<in> set ts. unix_milli t - up_updated u \<le> 300000 then UpApplying else UpFailed)"
  using assms(5)
proof (induction ts)
  case Nil
  then show ?case using assms by simp
next
  case (Cons t ts)
  have limit: "apply_timeout div go_ms = 300000" by (simp add: apply_timeout_def go_units)
  note beat = heartbeat_on_row [OF assms(1-3), of t]
  show ?case
  proof (cases "unix_milli t - up_updated u \<le> 300000")
    case True
    then show ?thesis using Cons beat assms(4) limit by auto
  next
    case False
    then have late: "\<forall>s \<in> set ts. \<not> unix_milli s - up_updated u \<le> 300000" using Cons.prems by fastforce
    then have "map (\<lambda>t. if unix_milli t - up_updated u \<le> 300000 then Some (command_of u) else None) ts = replicate (length ts) None"
      by (induction ts) auto
    then show ?thesis using row_after_failure [OF assms(1-3)] False beat assms(4) limit by simp
  qed
qed

text \<open> While a probe keeps reporting an old version and the store works, a command it never acknowledges
  rides exactly two heartbeats and the third marks the update failed; a command it did acknowledge is
  repeated on every heartbeat of the next five minutes and the first later one marks it failed. A failed
  update is never sent again.\<close>

theorem ignored_updates_are_given_up:
  assumes "td_faults (fl_db w) = []" "find_update p w = Some u" "base_version v \<noteq> up_version u"
    and "sorted (map unix_milli ts)"
  shows "case (up_state u, beats p v ts w) of
      (UpPending, (cs, w')) \<Rightarrow> up_deliveries u = 0 \<longrightarrow>
        cs = replicate (min 2 (length ts)) (Some (command_of u)) @ replicate (length ts - 2) None
        \<and> map_option up_state (find_update p w') = Some (if length ts \<le> 2 then UpPending else UpFailed)
    | (UpApplying, (cs, w')) \<Rightarrow>
        cs = map (\<lambda>t. if unix_milli t - up_updated u \<le> 300000 then Some (command_of u) else None) ts
        \<and> map_option up_state (find_update p w') =
           Some (if \<forall>t \<in> set ts. unix_milli t - up_updated u \<le> 300000 then UpApplying else UpFailed)
    | (UpFailed, (cs, w')) \<Rightarrow> cs = replicate (length ts) None \<and> w' = w
    | (UpApplied, (cs, w')) \<Rightarrow> cs = replicate (length ts) None \<and> w' = w"
proof (cases "up_state u")
  case UpPending
  then show ?thesis using pending_beats [OF assms(1-3), of 2 ts] by (auto split: prod.split)
next
  case UpApplying
  then show ?thesis using applying_beats [OF assms(1-3) _ assms(4)] by (auto split: prod.split)
next
  case UpFailed
  then show ?thesis using failed_is_silent [OF assms(1-3)] by simp
next
  case UpApplied
  have "beats p v ts w = (replicate (length ts) None, w)"
    using assms UpApplied by (induction ts) (simp_all add: heartbeat_on_row)
  then show ?thesis using UpApplied by simp
qed

section \<open>A run\<close>

definition demo_call :: agent_call where
  "demo_call = \<lparr>cl_method = ''POST'', cl_authorization = ''Bearer tok'', cl_yaml_tokens = [], cl_now = 0, cl_ip = []\<rparr>"

definition demo_beat :: "string \<Rightarrow> heartbeat_request" where
  "demo_beat version = \<lparr>hb_probe = ''edge'', hb_version = version, hb_started = 0, hb_targets = [], hb_arch = ''arm64''\<rparr>"

definition demo_env :: release_env where
  "demo_env = \<lparr>re_latest = Some \<lparr>rl_tag = ''v0.2.0'', rl_url = [], rl_assets = []\<rparr>, re_cached = (\<lambda>_ _. True),
     re_fetched = False, re_digest = Some ''d''\<rparr>"

definition demo_commanded :: "fleet_event list" where
  "demo_commanded = [OperatorMint (Some ''edge'') (Some ''tok'') 0, AgentBeat demo_call (Some (demo_beat ''0.1.0'')) [],
     OperatorUpdate ''POST'' (Some demo_env) 0 ''edge'']"

definition demo_applied :: "fleet_event list" where
  "demo_applied = demo_commanded @ [AgentBeat demo_call (Some (demo_beat ''v0.2.0'')) []]"

lemma demo_fleet_facts:
  "map (\<lambda>u. (up_probe u, up_version u, up_state u)) (fl_updates (fleet_run demo_applied (empty_fleet []))) =
     [(''edge'', ''0.2.0'', UpApplied)]"
  "map_option (\<lambda>u. (up_state u, up_deliveries u, up_version u)) (find_update ''edge'' (fleet_run demo_commanded (empty_fleet []))) =
     Some (UpPending, 0, ''0.2.0'')"
  "td_faults (fl_db (fleet_run demo_commanded (empty_fleet []))) = []"
  by code_simp+


lemma ignored_updates_are_given_up_witness:
  "map (\<lambda>c. c = None) (fst (beats ''edge'' ''0.1.0'' [0, 1, 2, 3] (fleet_run demo_commanded (empty_fleet [])))) =
     [False, False, True, True]"
proof -
  obtain u where u: "find_update ''edge'' (fleet_run demo_commanded (empty_fleet [])) = Some u"
      "up_state u = UpPending" "up_deliveries u = 0" "up_version u = ''0.2.0''"
    using demo_fleet_facts(2) by auto
  have "base_version ''0.1.0'' \<noteq> up_version u" unfolding u(4) by code_simp
  moreover have "sorted (map unix_milli [0, 1, 2, 3])" by (simp add: unix_milli_def go_ms_def)
  ultimately show ?thesis
    using ignored_updates_are_given_up [OF demo_fleet_facts(3) u(1), of "''0.1.0''" "[0, 1, 2, 3]"] u(2,3)
    by (auto split: prod.splits)
qed

end
