(* ===== verification/ProbeAccess.thy ===== *)
theory ProbeAccess
  imports ProbeUpdates
begin

text \<open>
  What a token lets its holder do (\<open>authAgent\<close>, \<open>requireProbeBinding\<close> and the agents' endpoints of
  \<open>internal/server/ingest.go\<close> and \<open>probeupdate.go\<close>, the token table of \<open>internal/storage/tokens.go\<close>): a
  call with a minted token changes the rows of the token's probe only, and a revoked token changes nothing.
\<close>

section \<open>Everything but one probe\<close>

text \<open>The rows of the other probes, the tokens up to their last use, and the target tables.\<close>

record rest =
  rs_probes :: "probe_row list"
  rs_paths :: "path_row list"
  rs_updates :: "update_row list"
  rs_failures :: "(int \<times> string \<times> string) list"
  rs_tokens :: "token_row list"
  rs_token_seq :: int
  rs_db :: target_db

definition others :: "string \<Rightarrow> fleet \<Rightarrow> rest" where
  "others p w = \<lparr>rs_probes = filter (\<lambda>r. pr_id r \<noteq> p) (fl_probes w),
     rs_paths = filter (\<lambda>r. pp_probe r \<noteq> p) (fl_paths w),
     rs_updates = filter (\<lambda>r. up_probe r \<noteq> p) (fl_updates w),
     rs_failures = filter (\<lambda>(_, i, _). i \<noteq> p) (fl_failures w),
     rs_tokens = map (\<lambda>t. t\<lparr>to_last_used := None\<rparr>) (fl_tokens w),
     rs_token_seq = fl_token_seq w,
     rs_db = (fl_db w)\<lparr>td_faults := []\<rparr>\<rparr>"

definition spares :: "string \<Rightarrow> fleet \<Rightarrow> fleet \<Rightarrow> bool" where
  "spares p w w' \<longleftrightarrow> others p w' = others p w"

lemma others_faults [simp]: "others p (with_faults w bs) = others p w"
  by (simp add: others_def with_faults_def)

interpretation sp: fleet_frame "spares p" for p
  by unfold_locales (simp_all add: spares_def)

lemma spares_exec: "(\<And>w. others p (snd (f w)) = others p w) \<Longrightarrow> spares p w (snd (fl_exec f w))"
  by (rule sp.exec) (simp add: spares_def)

lemma filter_update_where: "(\<And>r. Q r \<Longrightarrow> \<not> P r) \<Longrightarrow> (\<And>r. P r \<Longrightarrow> \<not> Q (f r)) \<Longrightarrow> filter Q (update_where P f rows) = filter Q rows"
  by (induction rows) (auto simp: update_where_def)

lemma filter_upserts:
  "filter (\<lambda>r. pr_id r \<noteq> pr_id x) (upsert_probe x rows) = filter (\<lambda>r. pr_id r \<noteq> pr_id x) rows"
  "filter (\<lambda>r. pp_probe r \<noteq> pp_probe y) (upsert_path y paths) = filter (\<lambda>r. pp_probe r \<noteq> pp_probe y) paths"
  by (induction rows, simp_all) (induction paths, simp_all)

interpretation own: agent_frame "spares p" p v for p v
proof unfold_locales
  fix w and version ip arch token :: string and started ts :: int and now :: instant
  show "spares p w (snd (upsert_probe_heartbeat p version started now ip arch w))"
    using filter_upserts(1) [of "\<lparr>pr_id = p, pr_version = Some version, pr_started = Some started,
        pr_last_seen = unix_milli now, pr_label = None, pr_ip = non_empty ip, pr_arch = non_empty arch, pr_pin = False\<rparr>"]
    by (auto simp: upsert_probe_heartbeat_def others_def intro!: spares_exec)
  show "spares p w (snd (touch_probe_token token now w))"
    by (auto simp: touch_probe_token_def others_def update_where_def intro!: spares_exec)
  show "spares p w (snd (increment_deliveries p ts w))"
    by (auto simp: increment_deliveries_def others_def change_update_def filter_update_where
        intro!: spares_exec split: option.split)
next
  fix w st err and ts :: int
  show "spares p w (snd (set_probe_update_state p st err ts w))"
    by (auto simp: set_probe_update_state_def others_def change_update_def filter_update_where
        intro!: spares_exec)
  show "spares p w (snd (set_probe_update_state p UpApplied err ts w))"
    by (auto simp: set_probe_update_state_def others_def change_update_def filter_update_where
        intro!: spares_exec)
next
  fix w ts msg
  show "spares p w (snd (append_failure ts p msg w))"
    by (auto simp: append_failure_def others_def intro!: spares_exec)
next
  fix w and s :: path_row
  assume "pp_probe s = p"
  then show "spares p w (snd (upsert_path_snapshot s w))"
    using filter_upserts(2) [of s]
    by (auto simp: upsert_path_snapshot_def others_def intro!: spares_exec)
qed

section \<open>The token table in a run\<close>

fun event_call :: "fleet_event \<Rightarrow> agent_call option" where
  "event_call (AgentBeat c b ts) = Some c"
| "event_call (AgentPath c b) = Some c"
| "event_call (AgentStatus c b) = Some c"
| "event_call _ = None"

definition secrets :: "fleet \<Rightarrow> (string \<times> string) list" where
  "secrets w = map (\<lambda>t. (to_token t, to_name t)) (fl_tokens w)"

lemma spares_secrets: "spares p w w' \<Longrightarrow> secrets w' = secrets w"
proof -
  assume "spares p w w'"
  then have "rs_tokens (others p w') = rs_tokens (others p w)" by (simp add: spares_def)
  then have "map (\<lambda>t. (to_token t, to_name t)) (map (\<lambda>t. t\<lparr>to_last_used := None\<rparr>) (fl_tokens w')) =
      map (\<lambda>t. (to_token t, to_name t)) (map (\<lambda>t. t\<lparr>to_last_used := None\<rparr>) (fl_tokens w))" by (simp add: others_def)
  then show ?thesis by (simp add: secrets_def comp_def)
qed

lemma agent_step_secrets: "event_call e = Some c \<Longrightarrow> secrets (fleet_step e w) = secrets w"
proof -
  have "\<exists>p. spares p w (fleet_step e w)" if "event_call e = Some c"
  proof (cases e)
    case (AgentBeat c b ts)
    have "spares (case b of Some b \<Rightarrow> hb_probe b | None \<Rightarrow> []) w (snd (handle_heartbeat c b ts w))"
      by (rule own.heartbeat_frame [where v = "case b of Some b \<Rightarrow> base_version (hb_version b) | None \<Rightarrow> []"]) auto
    then show ?thesis using AgentBeat by auto
  next
    case (AgentPath c b)
    have "spares (case b of Some b \<Rightarrow> pq_probe b | None \<Rightarrow> []) w (snd (handle_path c b w))"
      by (rule own.path_frame) auto
    then show ?thesis using AgentPath by auto
  next
    case (AgentStatus c b)
    have "spares (case b of Some b \<Rightarrow> sq_probe b | None \<Rightarrow> []) w (snd (handle_update_status c b w))"
      by (rule own.status_frame) auto
    then show ?thesis using AgentStatus by auto
  qed (use that in auto)
  then show "event_call e = Some c \<Longrightarrow> secrets (fleet_step e w) = secrets w" using spares_secrets by blast
qed

text \<open>The operator's requests about probes do not touch the tokens.\<close>

definition same_secrets :: "fleet \<Rightarrow> fleet \<Rightarrow> bool" where
  "same_secrets w w' \<longleftrightarrow> secrets w' = secrets w"

interpretation ss: fleet_frame same_secrets
  by unfold_locales (simp_all add: same_secrets_def secrets_def with_faults_def)

lemma secrets_exec: "(\<And>w. fl_tokens (snd (f w)) = fl_tokens w) \<Longrightarrow> same_secrets w (snd (fl_exec f w))"
  by (rule ss.exec) (simp add: same_secrets_def secrets_def)

interpretation os: operator_frame same_secrets p for p
proof unfold_locales
  fix w and version arch sha :: string and ts :: int
  show "same_secrets w (snd (command_probe_update p version arch sha ts w))"
    by (auto simp: command_probe_update_def intro!: secrets_exec)
  show "same_secrets w (snd (clear_probe_update p w))"
    by (auto simp: clear_probe_update_def intro!: secrets_exec)
  have "same_secrets w (snd (fl_execs n (\<lambda>w. (Inr True, forget_probe p w)) w))" for n w
    by (rule ss.execs) (simp add: same_secrets_def secrets_def forget_probe_def)
  then show "same_secrets w (snd (delete_probe p w))"
    by (auto simp: delete_probe_def simp del: fl_execs.simps intro!: ss.execs)
qed

lemma pin_secrets: "same_secrets w (snd (set_probe_pin i b w))"
  by (auto simp: set_probe_pin_def intro!: secrets_exec)

definition mints :: "fleet_event \<Rightarrow> string \<Rightarrow> bool" where
  "mints e token \<longleftrightarrow> (\<exists>name now. e = OperatorMint name (Some token) now)"

definition tokens_ok :: "fleet \<Rightarrow> bool" where
  "tokens_ok w \<longleftrightarrow> distinct (map fst (secrets w)) \<and> (\<forall>(s, n) \<in> set (secrets w). s \<noteq> [] \<and> n \<noteq> [])"

lemma insert_token_secrets:
  "secrets (snd (insert_probe_token token n now w)) = secrets w
    \<or> token \<noteq> [] \<and> n \<noteq> [] \<and> token \<notin> fst ` set (secrets w)
      \<and> secrets (snd (insert_probe_token token n now w)) = secrets w @ [(token, n)]"
proof (cases "token = [] \<or> n = []")
  case True
  then show ?thesis by (auto simp: insert_probe_token_def)
next
  case False
  have tok: "token \<in> to_token ` set (fl_tokens w) \<longleftrightarrow> token \<in> fst ` set (secrets w)"
    by (force simp: secrets_def)
  have "insert_probe_token token n now w = fl_exec (\<lambda>w. if token \<in> to_token ` set (fl_tokens w) then (Inl TokenExists, w)
      else (Inr (fl_token_seq w + 1), w\<lparr>fl_tokens := fl_tokens w @ [\<lparr>to_id = fl_token_seq w + 1,
         to_token = token, to_name = n, to_created = unix_milli now, to_last_used = None\<rparr>],
         fl_token_seq := fl_token_seq w + 1\<rparr>)) w"
    using False by (auto simp: insert_probe_token_def)
  then show ?thesis using False tok
    by (simp only:) (rule fl_exec_rule; auto simp: secrets_def with_faults_def)
qed

lemma delete_token_secrets: "\<exists>P. secrets (snd (delete_probe_token i w)) = map (\<lambda>t. (to_token t, to_name t)) (filter P (fl_tokens w))"
  unfolding delete_probe_token_def
  by (rule fl_exec_rule) (auto simp: secrets_def with_faults_def intro: exI [of _ "\<lambda>_. True"])

lemma step_tokens:
  assumes "tokens_ok w"
  shows "tokens_ok (fleet_step e w)
    \<and> (\<forall>token \<in> fst ` set (secrets (fleet_step e w)). token \<in> fst ` set (secrets w) \<or> mints e token)"
proof -
  have same: "secrets w' = secrets w \<Longrightarrow> tokens_ok w' \<and> (\<forall>token \<in> fst ` set (secrets w').
      token \<in> fst ` set (secrets w) \<or> mints e token)" for w'
    using assms by (simp add: tokens_ok_def)
  show ?thesis
  proof (cases e)
    case (OperatorMint name random now)
    show ?thesis
    proof (cases "\<exists>n tok. name = Some n \<and> random = Some tok \<and> validate_probe_id n")
      case True
      then obtain n tok where n: "name = Some n" "random = Some tok" "validate_probe_id n" by blast
      then have "fleet_step e w = snd (insert_probe_token tok n now w)"
        by (simp add: OperatorMint mint_token_def split: prod.split sum.split)
      then show ?thesis using insert_token_secrets [of tok n now w] assms n(2) OperatorMint
        by (auto simp: tokens_ok_def mints_def)
    next
      case False
      then have "fleet_step e w = w"
        by (auto simp: OperatorMint mint_token_def split: option.split)
      then show ?thesis using same by simp
    qed
  next
    case (OperatorRevoke i)
    obtain P where P: "secrets (snd (delete_probe_token i w)) = map (\<lambda>t. (to_token t, to_name t)) (filter P (fl_tokens w))"
      using delete_token_secrets by blast
    have "fleet_step e w = snd (delete_probe_token i w)"
      by (simp add: OperatorRevoke revoke_token_def split: prod.split sum.split)
    then show ?thesis using P assms
      by (auto simp: tokens_ok_def secrets_def distinct_filtered comp_def image_image)
  qed (use same agent_step_secrets [of e _ w] os.update_op os.forget pin_secrets in
        \<open>auto simp: same_secrets_def secrets_def simp del: fleet_step.simps(1-3)\<close>)
qed

lemma run_tokens_ok: "tokens_ok (fleet_run es (empty_fleet faults))"
proof (induction es rule: rev_induct)
  case Nil then show ?case by (simp add: fleet_run_def empty_fleet_def tokens_ok_def secrets_def)
next
  case (snoc e es) then show ?case using step_tokens by (simp add: fleet_run_snoc)
qed

section \<open>A bound token\<close>

lemma bindings_cases:
  "\<exists>bs. probe_token_bindings w = (Inl FleetStoreFailed, with_faults w bs)
    \<or> probe_token_bindings w = (Inr (map (\<lambda>t. \<lparr>tk_Token = to_token t, tk_Name = to_name t\<rparr>) (fl_tokens w)), with_faults w bs)"
  unfolding probe_token_bindings_def
  by (rule fl_exec_rule) (auto simp: with_faults_def)

lemma find_binding:
  assumes "distinct (map to_token ts)" "t \<in> set ts"
  shows "find (\<lambda>b. tk_Token b = to_token t) (map (\<lambda>t. \<lparr>tk_Token = to_token t, tk_Name = to_name t\<rparr>) ts) =
    Some \<lparr>tk_Token = to_token t, tk_Name = to_name t\<rparr>"
  using assms by (induction ts) (auto simp: image_iff)

lemma cut_bearer: "cut_prefix ''Bearer '' (''Bearer '' @ token) = Some token"
  by (simp add: cut_prefix_def)

lemma auth_bound:
  assumes "tokens_ok w" "t \<in> set (fl_tokens w)" "cl_authorization c = ''Bearer '' @ to_token t"
  shows "\<exists>bs. auth_call c w = (Inl TokenLookup500, with_faults w bs)
    \<or> auth_call c w = (Inr (to_token t, to_name t), with_faults w bs)"
proof -
  have dist: "distinct (map to_token (fl_tokens w))" and ne: "to_token t \<noteq> []"
    using assms(1,2) by (auto simp: tokens_ok_def secrets_def comp_def)
  have auth: "auth_agent (Some (map (\<lambda>t. \<lparr>tk_Token = to_token t, tk_Name = to_name t\<rparr>) (fl_tokens w)))
      (cl_yaml_tokens c) (cl_authorization c) = Inr (to_token t, to_name t)"
    using find_binding [OF dist assms(2)] assms(2) ne
    by (auto simp: auth_agent_def assms(3) cut_bearer simp del: append.simps)
  show ?thesis using bindings_cases [of w] auth
    by (elim exE disjE) (auto simp: auth_call_def auth_agent_def)
qed

lemma auth_name: "auth_call c w = (Inr (token, bound), w1) \<Longrightarrow> tokens_ok w \<Longrightarrow> t \<in> set (fl_tokens w)
    \<Longrightarrow> cl_authorization c = ''Bearer '' @ to_token t \<Longrightarrow> bound = to_name t"
  using auth_bound [of w t c] by auto

text \<open>A call whose body names another probe than the token's stops in \<open>admit\<close>.\<close>

lemma admit_foreign:
  assumes "tokens_ok w" "t \<in> set (fl_tokens w)" "cl_authorization c = ''Bearer '' @ to_token t"
    and "\<not> (\<exists>b. body = Some b \<and> probe b = to_name t)"
  shows "\<exists>n. fst (admit verb c body probe w) = Inl n"
proof -
  have "to_name t \<noteq> []" using assms(1,2) by (auto simp: tokens_ok_def secrets_def)
  then show ?thesis using auth_bound [OF assms(1-3)] assms(4)
    by (elim exE disjE) (auto simp: admit_def require_probe_binding_def split: option.split)
qed


section \<open>A revoked token\<close>

lemma run_keeps_token_out:
  assumes "tokens_ok w" "token \<notin> fst ` set (secrets w)" "\<And>e. e \<in> set es \<Longrightarrow> \<not> mints e token"
  shows "tokens_ok (fleet_run es w) \<and> token \<notin> fst ` set (secrets (fleet_run es w))"
  using assms(3)
proof (induction es rule: rev_induct)
  case Nil then show ?case using assms by (simp add: fleet_run_def)
next
  case (snoc e es)
  then have ih: "tokens_ok (fleet_run es w)" "token \<notin> fst ` set (secrets (fleet_run es w))" by simp_all
  have new: "\<not> mints e token" using snoc.prems by simp
  show ?case using step_tokens [OF ih(1), of e] ih(2) new by (auto simp: fleet_run_snoc)
qed

lemma revoke_takes_out:
  assumes "tokens_ok w" "t \<in> set (fl_tokens w)" "revoke_token (to_id t) w = (204, w1)"
  shows "to_token t \<notin> fst ` set (secrets w1)"
proof -
  have "distinct (map to_token (fl_tokens w))" using assms(1) by (simp add: tokens_ok_def secrets_def comp_def)
  then have only: "s = t" if "s \<in> set (fl_tokens w)" "to_token s = to_token t" for s
    using that assms(2) by (auto simp: distinct_map dest: inj_onD)
  have "fst (delete_probe_token (to_id t) w) = Inl FleetStoreFailed
      \<or> to_token t \<notin> fst ` set (secrets (snd (delete_probe_token (to_id t) w)))"
    unfolding delete_probe_token_def
    by (rule fl_exec_rule) (auto simp: secrets_def with_faults_def dest: only)
  moreover have "delete_probe_token (to_id t) w = (Inr True, w1)"
    using assms(3) by (auto simp: revoke_token_def split: prod.splits sum.splits if_splits)
  ultimately show ?thesis by simp
qed

lemma refused:
  assumes "fst (auth_call c w) = Inl x" "event_call e = Some c"
  shows "\<exists>bs. fleet_step e w = with_faults w bs"
proof -
  have here: "w = with_faults w (td_faults (fl_db w))" by (simp add: with_faults_def)
  obtain bs where "snd (auth_call c w) = with_faults w bs"
    using bindings_cases [of w] by (elim exE disjE) (auto simp: auth_call_def)
  then have auth: "auth_call c w = (Inl x, with_faults w bs)" using assms(1) by (cases "auth_call c w") simp
  have "\<exists>n bs. admit verb c body probe w = (Inl n, with_faults w bs)"
    for verb and body :: "'b option" and probe
    using auth here by (auto simp: admit_def)
  note stop = this [of "''POST''"]
  show ?thesis
  proof (cases e)
    case (AgentBeat c' b ts)
    then show ?thesis using assms(2) stop [of b hb_probe] by (auto simp: handle_heartbeat_def)
  next
    case (AgentPath c' b)
    then show ?thesis using assms(2) stop [of b pq_probe] by (auto simp: handle_path_def)
  next
    case (AgentStatus c' b)
    then show ?thesis using assms(2) stop [of b sq_probe] by (auto simp: handle_update_status_def)
  qed (use assms(2) in auto)
qed

text \<open> Once a token has been revoked, and until the same secret is minted again, every request that
  carries it is refused and changes nothing, unless the configuration file lists it as well.\<close>

theorem revoked_token_is_refused:
  assumes "w = fleet_run es (empty_fleet faults)" "t \<in> set (fl_tokens w)"
    and "revoke_token (to_id t) w = (204, w1)" "\<And>e. e \<in> set later \<Longrightarrow> \<not> mints e (to_token t)"
    and "event_call e = Some c" "cl_authorization c = ''Bearer '' @ to_token t" "to_token t \<notin> set (cl_yaml_tokens c)"
  shows "fst (auth_call c (fleet_run later w1)) \<in> {Inl TokenLookup500, Inl UnknownToken401, Inl IngestDisabled401}
    \<and> (\<exists>bs. fleet_step e (fleet_run later w1) = with_faults (fleet_run later w1) bs)"
proof -
  have ok: "tokens_ok w" using assms(1) run_tokens_ok by simp
  then have ne: "to_token t \<noteq> []" using assms(2) by (auto simp: tokens_ok_def secrets_def)
  have "w1 = fleet_step (OperatorRevoke (to_id t)) w" using assms(3) by simp
  then have ok1: "tokens_ok w1" using step_tokens [OF ok, of "OperatorRevoke (to_id t)"] by (simp only:)
  have "to_token t \<notin> fst ` set (secrets (fleet_run later w1))"
    using run_keeps_token_out [OF ok1 revoke_takes_out [OF ok assms(2,3)] assms(4)] by simp
  then have none: "find (\<lambda>b. tk_Token b = to_token t)
      (map (\<lambda>t. \<lparr>tk_Token = to_token t, tk_Name = to_name t\<rparr>) (fl_tokens (fleet_run later w1))) = None"
    by (auto simp: find_None_iff secrets_def image_image image_iff)
  have yaml: "find (\<lambda>x. x = to_token t) (cl_yaml_tokens c) = None" using assms(7) by (auto simp: find_None_iff)
  have fst: "fst (auth_call c (fleet_run later w1)) \<in> {Inl TokenLookup500, Inl UnknownToken401, Inl IngestDisabled401}"
  proof -
    have "auth_agent (Some (map (\<lambda>t. \<lparr>tk_Token = to_token t, tk_Name = to_name t\<rparr>) (fl_tokens (fleet_run later w1))))
        (cl_yaml_tokens c) (cl_authorization c) \<in> {Inl UnknownToken401, Inl IngestDisabled401}"
      unfolding auth_agent_def assms(6) option.case cut_bearer using none yaml ne by simp
    moreover have "auth_agent None (cl_yaml_tokens c) (cl_authorization c) = Inl TokenLookup500"
      by (simp add: auth_agent_def)
    ultimately show ?thesis using bindings_cases [of "fleet_run later w1"]
      by (elim exE disjE) (simp_all add: auth_call_def)
  qed
  then obtain x where "fst (auth_call c (fleet_run later w1)) = Inl x" by auto
  then show ?thesis using refused [OF _ assms(5)] fst by blast
qed

text \<open>A run with two probes, whose first token reports for itself and then tries the other probe.\<close>

definition two_probes :: "fleet_event list" where
  "two_probes = demo_commanded @ [OperatorMint (Some ''roof'') (Some ''key'') 0]"

lemma two_probes_tokens:
  "map (\<lambda>t. (to_id t, to_token t, to_name t)) (fl_tokens (fleet_run two_probes (empty_fleet []))) =
     [(1, ''tok'', ''edge''), (2, ''key'', ''roof'')]"
  "fst (revoke_token 1 (fleet_run two_probes (empty_fleet []))) = 204"
  by code_simp+

lemma edge_token:
  obtains t where "t \<in> set (fl_tokens (fleet_run two_probes (empty_fleet [])))" "to_id t = 1" "to_token t = ''tok''"
    "to_name t = ''edge''"
  using two_probes_tokens(1) that by (fastforce simp: map_eq_Cons_conv)


lemma revoked_token_is_refused_witness:
  "\<exists>bs. fleet_step (AgentBeat demo_call (Some (demo_beat ''0.1.0'')) [])
      (fleet_run [OperatorPin ''edge'' True] (snd (revoke_token 1 (fleet_run two_probes (empty_fleet []))))) =
    with_faults (fleet_run [OperatorPin ''edge'' True] (snd (revoke_token 1 (fleet_run two_probes (empty_fleet []))))) bs"
proof -
  obtain t where t: "t \<in> set (fl_tokens (fleet_run two_probes (empty_fleet [])))" "to_id t = 1" "to_token t = ''tok''"
    using edge_token by blast
  have rev: "revoke_token (to_id t) (fleet_run two_probes (empty_fleet [])) =
      (204, snd (revoke_token 1 (fleet_run two_probes (empty_fleet []))))"
    using two_probes_tokens(2) by (metis prod.collapse t(2))
  have later: "\<not> mints e (to_token t)" if "e \<in> set [OperatorPin ''edge'' True]" for e using that by (auto simp: mints_def)
  show ?thesis
    using revoked_token_is_refused [OF refl t(1) rev later, where later = "[OperatorPin ''edge'' True]" and e = "AgentBeat demo_call (Some (demo_beat ''0.1.0'')) []"
        and c = demo_call]
    by (simp add: demo_call_def t(3))
qed

end
