(* ===== verification/Rollout.thy ===== *)
theory Rollout
  imports ProbeUpdates
begin

text \<open>
  The rollout to the whole fleet: \<open>handleProbesUpdateAll\<close> of \<open>internal/server/probetokens.go\<close> and
  \<open>runRollout\<close> of \<open>probeupdate.go\<close>. The goroutine is a state that each of its wake-ups advances: \<open>None\<close>
  as deadline means that it is about to command the next candidate, otherwise it polls the row of the
  current one. Between two wake-ups any endpoint may run.
\<close>

section \<open>The rollout\<close>

record rollout =
  ro_running :: bool
  ro_current :: string
  ro_done :: "string list"
  ro_failed :: string
  ro_queue :: "probe_row list"
  ro_deadline :: "instant option"

definition idle_rollout :: rollout where
  "idle_rollout = \<lparr>ro_running = False, ro_current = [], ro_done = [], ro_failed = [], ro_queue = [], ro_deadline = None\<rparr>"

definition server_offline_after :: duration where "server_offline_after = 3 * 60 * go_second"

definition is_candidate :: "string \<Rightarrow> instant \<Rightarrow> probe_row \<Rightarrow> bool" where
  "is_candidate central now p \<longleftrightarrow> \<not> pr_pin p \<and> pr_arch p \<noteq> None
     \<and> \<not> (now - of_unix_milli (pr_last_seen p) \<ge> server_offline_after)
     \<and> (case pr_version p of None \<Rightarrow> False | Some v \<Rightarrow> newer central v)"

definition start_rollout :: "string \<Rightarrow> instant \<Rightarrow> rollout \<Rightarrow> fleet \<Rightarrow> nat \<times> rollout \<times> fleet" where
  "start_rollout central now r w =
     (if ro_running r then (409, r, w)
      else (case list_probes w of
         (Inl _, w1) \<Rightarrow> (500, r, w1)
       | (Inr ps, w1) \<Rightarrow>
           (let candidates = filter (is_candidate central now) ps
            in if candidates = [] then (409, r, w1)
               else (200, \<lparr>ro_running = True, ro_current = [], ro_done = [], ro_failed = [],
                           ro_queue = candidates, ro_deadline = None\<rparr>, w1))))"

definition end_rollout :: "rollout \<Rightarrow> rollout" where
  "end_rollout r = r\<lparr>ro_running := False, ro_current := []\<rparr>"

definition rollout_give_up :: "rollout \<Rightarrow> rollout" where
  "rollout_give_up r = end_rollout (r\<lparr>ro_failed := ro_current r\<rparr>)"

definition rollout_command :: "release_env option \<Rightarrow> instant \<Rightarrow> rollout \<Rightarrow> fleet \<Rightarrow> rollout \<times> fleet" where
  "rollout_command source now r w = (case ro_queue r of
     [] \<Rightarrow> (end_rollout r, w)
   | p # ps \<Rightarrow>
       (let r1 = r\<lparr>ro_current := pr_id p, ro_queue := ps\<rparr>
        in case command_update_for source now p w of (code, w1) \<Rightarrow>
             if code \<noteq> 200 then (rollout_give_up r1, w1)
             else (r1\<lparr>ro_deadline := Some (now + (3 * go_minute + apply_timeout))\<rparr>, w1)))"

definition rollout_poll :: "instant \<Rightarrow> instant \<Rightarrow> rollout \<Rightarrow> fleet \<Rightarrow> rollout \<times> fleet" where
  "rollout_poll deadline now r w = (case get_probe_update (ro_current r) w of
     (Inl _, w1) \<Rightarrow> (r, w1)
   | (Inr None, w1) \<Rightarrow> (r, w1)
   | (Inr (Some u), w1) \<Rightarrow>
       if up_state u = UpApplied then (r\<lparr>ro_done := ro_done r @ [ro_current r], ro_deadline := None\<rparr>, w1)
       else if up_state u = UpFailed then (rollout_give_up r, w1)
       else if now > deadline then (rollout_give_up r, fail_probe_update (ro_current r) ''rollout gave up waiting'' now w1)
       else (r, w1))"

definition rollout_tick :: "release_env option \<Rightarrow> instant \<Rightarrow> rollout \<Rightarrow> fleet \<Rightarrow> rollout \<times> fleet" where
  "rollout_tick source now r w =
     (if \<not> ro_running r then (r, w)
      else case ro_deadline r of None \<Rightarrow> rollout_command source now r w | Some d \<Rightarrow> rollout_poll d now r w)"

definition rollout_status :: "rollout \<Rightarrow> bool \<times> string \<times> string list \<times> string" where
  "rollout_status r = (ro_running r, ro_current r, ro_done r, ro_failed r)"

section \<open>Rollouts among the other endpoints\<close>

datatype rollout_event = Endpoint fleet_event | Start string instant | Tick "release_env option" instant

fun rollout_step :: "rollout_event \<Rightarrow> rollout \<times> fleet \<Rightarrow> rollout \<times> fleet" where
  "rollout_step (Endpoint e) (r, w) = (r, fleet_step e w)"
| "rollout_step (Start central now) (r, w) = snd (start_rollout central now r w)"
| "rollout_step (Tick source now) (r, w) = rollout_tick source now r w"

definition rollout_run :: "rollout_event list \<Rightarrow> rollout \<times> fleet \<Rightarrow> rollout \<times> fleet" where
  "rollout_run es s = fold rollout_step es s"

lemma rollout_run_snoc: "rollout_run (es @ [e]) s = rollout_step e (rollout_run es s)"
  by (simp add: rollout_run_def)

text \<open>How far a rollout over the candidates \<open>ids\<close> is: the first ones are done, then one is in progress, or the
  rollout has ended with all of them or with the failure of the next.\<close>

definition rollout_shape :: "string list \<Rightarrow> rollout \<Rightarrow> bool" where
  "rollout_shape ids r \<longleftrightarrow>
     (if \<not> ro_running r then ro_current r = [] \<and>
          (ro_failed r = [] \<and> ro_done r = ids \<or> (\<exists>rest. ids = ro_done r @ ro_failed r # rest))
      else ro_failed r = [] \<and>
          (if ro_deadline r = None then ids = ro_done r @ map pr_id (ro_queue r)
           else ids = ro_done r @ ro_current r # map pr_id (ro_queue r)))"

lemma tick_shape:
  assumes "rollout_shape ids r" shows "rollout_shape ids (fst (rollout_tick source now r w))"
proof (cases "ro_running r")
  case False then show ?thesis using assms by (simp add: rollout_tick_def)
next
  case True
  show ?thesis
  proof (cases "ro_deadline r")
    case None
    then show ?thesis using assms True
      by (cases "ro_queue r") (auto simp: rollout_tick_def rollout_command_def rollout_shape_def end_rollout_def
          rollout_give_up_def Let_def split: prod.split)
  next
    case (Some d)
    then show ?thesis using assms True
      by (auto simp: rollout_tick_def rollout_poll_def rollout_shape_def end_rollout_def
          rollout_give_up_def split: prod.split sum.split option.split)
  qed
qed


section \<open>A cancelled command\<close>

text \<open>No request but a new command creates the row of a probe.\<close>

definition row_keys :: "fleet \<Rightarrow> string set" where
  "row_keys w = up_probe ` set (fl_updates w)"

definition no_new_row :: "string \<Rightarrow> fleet \<Rightarrow> fleet \<Rightarrow> bool" where
  "no_new_row p w w' \<longleftrightarrow> (p \<notin> row_keys w \<longrightarrow> p \<notin> row_keys w')"

lemma find_no_row: "find_update p w = None \<longleftrightarrow> p \<notin> row_keys w"
  by (auto simp: find_update_def find_None_iff row_keys_def)

lemma same_updates_keys: "fl_updates w' = fl_updates w \<Longrightarrow> row_keys w' = row_keys w"
  by (simp add: row_keys_def)

lemma keys_simps [simp]:
  "row_keys (with_faults w bs) = row_keys w"
  "row_keys (w\<lparr>fl_probes := a\<rparr>) = row_keys w" "row_keys (w\<lparr>fl_paths := b\<rparr>) = row_keys w"
  "row_keys (w\<lparr>fl_tokens := c\<rparr>) = row_keys w" "row_keys (w\<lparr>fl_failures := d\<rparr>) = row_keys w"
  "row_keys (w\<lparr>fl_tokens := c, fl_token_seq := n\<rparr>) = row_keys w"
  "row_keys (forget_probe p w) = row_keys w"
  by (simp_all add: row_keys_def with_faults_def forget_probe_def)

interpretation nn: fleet_frame "no_new_row p" for p
  by unfold_locales (auto simp: no_new_row_def)

lemma no_new_exec:
  "(\<And>w. row_keys (snd (f w)) \<subseteq> row_keys w) \<Longrightarrow> no_new_row p w (snd (fl_exec f w))"
  by (rule nn.exec) (auto simp: no_new_row_def)

lemma change_keys [simp]: "(\<And>u. up_probe (f u) = up_probe u) \<Longrightarrow> row_keys (change_update q f w) = row_keys w"
  using keys_of_change [of up_probe f "\<lambda>u. up_probe u = q" "fl_updates w"]
  by (simp add: change_update_def row_keys_def flip: set_map)

interpretation na: agent_frame "no_new_row p" q v for p q v
  by unfold_locales
    (auto simp: upsert_probe_heartbeat_def touch_probe_token_def increment_deliveries_def set_probe_update_state_def
      append_failure_def upsert_path_snapshot_def intro!: no_new_exec split: option.splits)

interpretation nf: forget_frame "no_new_row p" i for p i
proof unfold_locales
  show "no_new_row p w (snd (clear_probe_update i w))" for w
    by (auto simp: clear_probe_update_def row_keys_def intro!: no_new_exec)
  have "no_new_row p w (snd (fl_execs n (\<lambda>w. (Inr True, forget_probe i w)) w))" for n w
    by (rule nn.execs) (simp add: no_new_row_def)
  then show "no_new_row p w (snd (delete_probe i w))" for w
    by (auto simp: delete_probe_def simp del: fl_execs.simps intro!: nn.execs)
qed

interpretation no: operator_frame "\<lambda>w w'. i \<noteq> p \<longrightarrow> no_new_row p w w'" i for i p
proof unfold_locales
  show "i \<noteq> p \<longrightarrow> no_new_row p w (with_faults w bs)" for w bs by simp
  show "i \<noteq> p \<longrightarrow> no_new_row p w w2" if "i \<noteq> p \<longrightarrow> no_new_row p w w1" "i \<noteq> p \<longrightarrow> no_new_row p w1 w2" for w w1 w2
    using that nn.trans by blast
  have add: "no_new_row p w (w\<lparr>fl_updates := replace_update u (fl_updates w)\<rparr>)" if "up_probe u \<noteq> p" for w u
    using that by (auto simp: no_new_row_def row_keys_def)
  show "i \<noteq> p \<longrightarrow> no_new_row p w (snd (command_probe_update i version arch sha ts w))" for w version arch sha ts
    by (auto simp: command_probe_update_def simp del: replace_update.simps intro!: nn.exec add)
qed (simp_all add: nf.clears nf.deletes)

definition commands :: "rollout_event \<Rightarrow> string \<Rightarrow> bool" where
  "commands e p \<longleftrightarrow> (\<exists>verb source now. e = Endpoint (OperatorUpdate verb source now p))"

lemma endpoint_no_new:
  assumes "\<not> commands (Endpoint e) p" shows "no_new_row p w (fleet_step e w)"
proof (cases e)
  case (AgentBeat c b ts)
  then show ?thesis
    using na.heartbeat_frame [of b "case b of Some b \<Rightarrow> hb_probe b | None \<Rightarrow> []"
        "case b of Some b \<Rightarrow> base_version (hb_version b) | None \<Rightarrow> []"] by auto
next
  case (AgentPath c b)
  then show ?thesis using na.path_frame [of b "case b of Some b \<Rightarrow> pq_probe b | None \<Rightarrow> []"] by auto
next
  case (AgentStatus c b)
  then show ?thesis using na.status_frame [of b "case b of Some b \<Rightarrow> sq_probe b | None \<Rightarrow> []"] by auto
next
  case (OperatorUpdate verb source now i)
  then have "i \<noteq> p" using assms by (auto simp: commands_def)
  then show ?thesis using no.update_op [of i p] OperatorUpdate by simp
next
  case (OperatorForget i)
  then show ?thesis using nf.forget [of p w i] by simp
next
  case (OperatorPin i b)
  have "no_new_row p w (snd (set_probe_pin i b w))" by (auto simp: set_probe_pin_def intro!: no_new_exec)
  then show ?thesis using OperatorPin by simp
next
  case (OperatorMint name random now)
  have "no_new_row p w (snd (insert_probe_token t n now w))" for t n
    by (auto simp: insert_probe_token_def intro!: no_new_exec split: if_splits)
  then show ?thesis using OperatorMint
    by (auto simp: mint_token_def split: option.split intro!: nn.bind split: sum.split)
next
  case (OperatorRevoke i)
  have "no_new_row p w (snd (delete_probe_token i w))" by (auto simp: delete_probe_token_def intro!: no_new_exec)
  then show ?thesis using OperatorRevoke by (auto simp: revoke_token_def intro!: nn.bind split: sum.split)
next
  case (StoreFaults bs)
  then show ?thesis using nn.faults by (simp add: with_faults_def)
qed

lemma waiting_tick:
  assumes "ro_running r" "ro_deadline r = Some d" "find_update (ro_current r) w = None"
  shows "\<exists>bs. rollout_tick source now r w = (r, with_faults w bs)"
  using get_update_cases [of "ro_current r" w] assms
  by (auto simp: rollout_tick_def rollout_poll_def)

text \<open> A rollout whose current command has been cancelled never ends: whatever happens afterwards, short
  of the operator commanding that probe again, its wake-ups change nothing at any time, its deadline
  included, and every attempt to start a new rollout is rejected.\<close>

theorem cancelled_rollout_never_ends:
  assumes "ro_running r" "ro_deadline r = Some d"
    and "cancel_update (ro_current r) w = (204, w1)"
    and "\<And>e. e \<in> set es \<Longrightarrow> \<not> commands e (ro_current r)"
  shows "\<exists>w'. rollout_run es (r, w1) = (r, w') \<and> fst (start_rollout central now r w') = 409"
proof -
  have "find_update (ro_current r) w1 = None"
  proof -
    have "row_keys (snd (clear_probe_update (ro_current r) w)) \<subseteq> row_keys w - {ro_current r}
        \<or> fst (clear_probe_update (ro_current r) w) = Inl FleetStoreFailed" for w
      unfolding clear_probe_update_def by (rule fl_exec_rule) (auto simp: row_keys_def with_faults_def)
    then show ?thesis using assms(3) unfolding find_no_row
      by (auto simp: cancel_update_def split: prod.splits sum.splits option.splits if_splits) (metis Diff_iff fst_conv insertI1 snd_conv subsetD sum.distinct(1))
  qed
  then have "fst (rollout_run es (r, w1)) = r \<and> find_update (ro_current r) (snd (rollout_run es (r, w1))) = None"
    using assms(4)
  proof (induction es rule: rev_induct)
    case Nil then show ?case by (simp add: rollout_run_def)
  next
    case (snoc e es)
    obtain w2 where s: "rollout_run es (r, w1) = (r, w2)" and none: "find_update (ro_current r) w2 = None"
      using snoc by (cases "rollout_run es (r, w1)") auto
    show ?case
    proof (cases e)
      case (Endpoint f)
      then have "no_new_row (ro_current r) w2 (fleet_step f w2)"
        using snoc.prems(2) [of e] by (intro endpoint_no_new) simp
      then show ?thesis using s none Endpoint by (simp add: rollout_run_snoc find_no_row no_new_row_def)
    next
      case (Start c t)
      then show ?thesis using s none assms(1) by (simp add: rollout_run_snoc start_rollout_def)
    next
      case (Tick source t)
      then show ?thesis using s none waiting_tick [OF assms(1,2) none, of source t] by (auto simp: rollout_run_snoc)
    qed
  qed
  then show ?thesis using assms(1)
    by (intro exI [of _ "snd (rollout_run es (r, w1))"]) (simp add: prod_eq_iff start_rollout_def)
qed

section \<open>A run\<close>

definition demo_started :: "nat \<times> rollout \<times> fleet" where
  "demo_started = start_rollout ''0.2.0'' 0 idle_rollout (fleet_run (take 2 demo_commanded) (empty_fleet []))"

definition demo_waiting :: "rollout \<times> fleet" where
  "demo_waiting = rollout_step (Tick (Some demo_env) 0) (snd demo_started)"

lemma demo_rollout_facts:
  "fst demo_started = 200" "map pr_id (ro_queue (fst (snd demo_started))) = [''edge'']"
  "ro_running (fst demo_waiting)" "ro_deadline (fst demo_waiting) = Some 480000000000"
  "ro_current (fst demo_waiting) = ''edge''" "fst (cancel_update ''edge'' (snd demo_waiting)) = 204"
  by code_simp+


lemma cancelled_rollout_never_ends_witness:
  "\<exists>w'. rollout_run [Tick (Some demo_env) (10 * 480000000000)]
      (fst demo_waiting, snd (cancel_update ''edge'' (snd demo_waiting))) = (fst demo_waiting, w')"
proof -
  have "cancel_update (ro_current (fst demo_waiting)) (snd demo_waiting) =
      (204, snd (cancel_update ''edge'' (snd demo_waiting)))"
    using demo_rollout_facts(5,6) by (metis prod.collapse)
  from cancelled_rollout_never_ends [OF demo_rollout_facts(3,4) this, of "[Tick (Some demo_env) (10 * 480000000000)]"]
  show ?thesis by (auto simp: commands_def)
qed

end
