(* ===== verification/CentralApi.thy ===== *)
theory CentralApi
  imports SupervisorSync ProbeUpdates AlertEngine
begin

text \<open>
  The operator's endpoints of \<open>internal/server/handlers.go\<close> on targets, tabs, bundles, annotations and
  target data, with \<open>clearSubjectAlertStates\<close> of \<open>alerts.go\<close> and the per-probe operations of
  \<open>probetokens.go\<close>. The state of the central is its pipelines, the tables (those of the fleet hold the
  target tables), and the alert tables. A request is its decoded body (\<open>None\<close> when JSON decoding fails);
  the answer is the status code, or the response. Each handler runs as one step; the interleavings inside
  \<open>Remove\<close> are treated with the supervisor. Errors of the supervisor are told apart by constructor where
  the code looks for the words of their messages.
\<close>

section \<open>The central\<close>

record central =
  ce_pipelines :: "pipeline list"
  ce_paused :: bool
  ce_fleet :: fleet
  ce_alerts :: alerting

definition sup_of :: "central \<Rightarrow> supervisor" where
  "sup_of c = \<lparr>sv_pipelines = ce_pipelines c, sv_paused = ce_paused c, sv_db = fl_db (ce_fleet c)\<rparr>"

definition on_sup :: "(supervisor \<Rightarrow> 'r \<times> supervisor) \<Rightarrow> central \<Rightarrow> 'r \<times> central" where
  "on_sup f c = (case f (sup_of c) of (r, s) \<Rightarrow>
     (r, c\<lparr>ce_pipelines := sv_pipelines s, ce_paused := sv_paused s, ce_fleet := (ce_fleet c)\<lparr>fl_db := sv_db s\<rparr>\<rparr>))"

definition on_fleet :: "(fleet \<Rightarrow> 'r \<times> fleet) \<Rightarrow> central \<Rightarrow> 'r \<times> central" where
  "on_fleet f c = (case f (ce_fleet c) of (r, w) \<Rightarrow> (r, c\<lparr>ce_fleet := w\<rparr>))"

definition on_tables :: "(target_db \<Rightarrow> 'r \<times> target_db) \<Rightarrow> central \<Rightarrow> 'r \<times> central" where
  "on_tables f = on_fleet (\<lambda>w. case f (fl_db w) of (r, d) \<Rightarrow> (r, w\<lparr>fl_db := d\<rparr>))"

text \<open>\<open>clearSubjectAlertStates\<close>.\<close>

definition clear_state :: "instant \<Rightarrow> incident \<Rightarrow> alerting \<Rightarrow> alerting" where
  "clear_state now st w =
     (let w1 = (if in_phase st = Active
                then snd (append_alert_history (unix_milli now) (in_event st) (in_subject st) HCleared
                       (MsgRemoved (in_subject st) (in_event st)) w)
                else w)
      in snd (delete_alert_state (in_event st) (in_subject st) w1))"

definition clear_subject :: "instant \<Rightarrow> string \<Rightarrow> alert_event list \<Rightarrow> alerting \<Rightarrow> alerting" where
  "clear_subject now subject events w = (case list_alert_states w of
     (None, w1) \<Rightarrow> w1
   | (Some states, w1) \<Rightarrow>
       fold (\<lambda>st w. if in_subject st \<noteq> subject \<or> in_event st \<notin> set events then w else clear_state now st w) states w1)"

definition clear_alerts :: "instant \<Rightarrow> string \<Rightarrow> alert_event list \<Rightarrow> central \<Rightarrow> central" where
  "clear_alerts now subject events c = c\<lparr>ce_alerts := clear_subject now subject events (ce_alerts c)\<rparr>"

section \<open>Targets\<close>

definition decode_target :: "string option \<Rightarrow> string option" where
  "decode_target body = (case body of None \<Rightarrow> None
     | Some t \<Rightarrow> if trim_space t = [] then None else Some (trim_space t))"

record targets_response =
  tr_targets :: "string list"
  tr_intervals :: "(string \<times> int) list"
  tr_thresholds :: "(string \<times> int option \<times> int option) list"
  tr_final_hop :: "(string \<times> bool) list"

definition intervals_as_ms :: "(string \<times> duration) list \<Rightarrow> (string \<times> int) list" where
  "intervals_as_ms xs = map (\<lambda>(t, d). (t, go_quot d go_ms)) xs"

definition handle_targets_get :: "central \<Rightarrow> targets_response" where
  "handle_targets_get c = \<lparr>tr_targets = sup_targets (sup_of c), tr_intervals = intervals_as_ms (sup_intervals (sup_of c)),
     tr_thresholds = sup_thresholds (sup_of c), tr_final_hop = sup_final_hops (sup_of c)\<rparr>"

definition bad_target_input :: "supervisor_error \<Rightarrow> bool" where
  "bad_target_input e \<longleftrightarrow> e \<in> {LookupFailed, NoUsableAddress, NotTraceable, TargetIsV6, EmptyTargetName}"

definition add_status :: "supervisor_error \<Rightarrow> nat" where
  "add_status e = (if e = AlreadyMonitored then 409 else if bad_target_input e then 400 else 500)"

definition handle_targets_add :: "resolver \<Rightarrow> supervisor_config \<Rightarrow> instant \<Rightarrow> string option \<Rightarrow> central
    \<Rightarrow> (nat + string) \<times> central" where
  "handle_targets_add rv cfg now body c = (case decode_target body of
     None \<Rightarrow> (Inl 400, c)
   | Some t \<Rightarrow> (case on_sup (sup_add rv cfg now t) c of
         (Inl e, c1) \<Rightarrow> (Inl (add_status e), c1) | (Inr _, c1) \<Rightarrow> (Inr t, c1)))"

text \<open>The single-target endpoint: \<open>resolveTarget\<close> and \<open>handleTargetPost\<close>.\<close>

definition resolve_request :: "string \<Rightarrow> central \<Rightarrow> nat + string" where
  "resolve_request query c =
     (if query \<noteq> [] then Inr query
      else (case sup_targets (sup_of c) of [] \<Rightarrow> Inl 503 | [t] \<Rightarrow> Inr t | _ \<Rightarrow> Inl 400))"

definition handle_target_post :: "(string list \<Rightarrow> string list) \<Rightarrow> resolver \<Rightarrow> supervisor_config \<Rightarrow> instant
    \<Rightarrow> string option \<Rightarrow> central \<Rightarrow> (nat + string) \<times> central" where
  "handle_target_post iter rv cfg now body c = (case decode_target body of
     None \<Rightarrow> (Inl 400, c)
   | Some t \<Rightarrow>
       if sup_targets (sup_of c) = [t] then (Inr t, c)
       else (case on_sup (sup_swap iter rv cfg now t) c of
           (Inl e, c1) \<Rightarrow> (Inl (if bad_target_input e then 400 else 500), c1) | (Inr _, c1) \<Rightarrow> (Inr t, c1)))"

definition handle_target_delete :: "instant \<Rightarrow> string \<Rightarrow> central \<Rightarrow> nat \<times> central" where
  "handle_target_delete now t c = (case on_sup (sup_remove t) c of
     (Inl e, c1) \<Rightarrow> (if e = NotMonitored then 404 else 500, c1)
   | (Inr _, c1) \<Rightarrow> (200, clear_alerts now t [TargetLoss, LatencyHigh] c1))"

text \<open>A nullable field of a request is absent, null, or a value.\<close>

datatype 'a nullable = Absent | Null | Given 'a

fun is_set :: "'a nullable \<Rightarrow> bool" where "is_set Absent = False" | "is_set _ = True"
fun value_of :: "'a nullable \<Rightarrow> 'a option" where "value_of (Given v) = Some v" | "value_of _ = None"

record target_patch =
  pa_interval :: "int option"
  pa_warning :: "int nullable"
  pa_critical :: "int nullable"
  pa_final_hop :: "bool option"

definition supervisor_status :: "supervisor_error \<Rightarrow> nat" where
  "supervisor_status e = (if e = NotMonitored then 404
     else if e \<in> {IntervalOutOfRange, WarningNotPositive, CriticalNotPositive, WarningNotBelowCritical} then 400
     else 500)"

text \<open>The three parts of \<open>handleTargetPatch\<close>; each may answer early.\<close>

definition patch_interval :: "supervisor_config \<Rightarrow> string \<Rightarrow> target_patch \<Rightarrow> central \<Rightarrow> nat option \<times> central" where
  "patch_interval cfg t p c = (case pa_interval p of
     None \<Rightarrow> (None, c)
   | Some ms \<Rightarrow>
       if ms \<le> 0 then (Some 400, c)
       else (case on_sup (sup_set_interval cfg t (wrap64 (ms * go_ms))) c of
           (Inl e, c1) \<Rightarrow> (Some (supervisor_status e), c1) | (Inr _, c1) \<Rightarrow> (None, c1)))"

definition patch_thresholds :: "string \<Rightarrow> target_patch \<Rightarrow> central \<Rightarrow> nat option \<times> central" where
  "patch_thresholds t p c =
     (if \<not> is_set (pa_warning p) \<and> \<not> is_set (pa_critical p) then (None, c)
      else if \<not> is_set (pa_warning p) \<or> \<not> is_set (pa_critical p) then (Some 400, c)
      else (case on_sup (sup_set_thresholds t (value_of (pa_warning p)) (value_of (pa_critical p))) c of
          (Inl e, c1) \<Rightarrow> (Some (supervisor_status e), c1) | (Inr _, c1) \<Rightarrow> (None, c1)))"

definition patch_final_hop :: "supervisor_config \<Rightarrow> string \<Rightarrow> target_patch \<Rightarrow> central \<Rightarrow> nat option \<times> central" where
  "patch_final_hop cfg t p c = (case pa_final_hop p of
     None \<Rightarrow> (None, c)
   | Some b \<Rightarrow> (case on_sup (sup_set_final_hop cfg t b) c of
         (Inl e, c1) \<Rightarrow> (Some (supervisor_status e), c1) | (Inr _, c1) \<Rightarrow> (None, c1)))"

definition handle_target_patch :: "supervisor_config \<Rightarrow> string \<Rightarrow> target_patch option \<Rightarrow> central \<Rightarrow> nat \<times> central" where
  "handle_target_patch cfg t body c = (case body of
     None \<Rightarrow> (400, c)
   | Some p \<Rightarrow>
       if pa_interval p = None \<and> \<not> is_set (pa_warning p) \<and> \<not> is_set (pa_critical p) \<and> pa_final_hop p = None
       then (400, c)
       else (case patch_interval cfg t p c of
           (Some n, c1) \<Rightarrow> (n, c1)
         | (None, c1) \<Rightarrow> (case patch_thresholds t p c1 of
               (Some n, c2) \<Rightarrow> (n, c2)
             | (None, c2) \<Rightarrow> (case patch_final_hop cfg t p c2 of
                   (Some n, c3) \<Rightarrow> (n, c3) | (None, c3) \<Rightarrow> (200, c3)))))"

section \<open>Tabs\<close>

definition validate_tab_probe :: "string \<Rightarrow> fleet \<Rightarrow> string option \<times> fleet" where
  "validate_tab_probe p w =
     (if p = [] \<or> p = local_probe_id then (Some local_probe_id, w)
      else if p = ''all'' then (None, w)
      else (case list_probes w of
         (Inl _, w1) \<Rightarrow> (None, w1)
       | (Inr ps, w1) \<Rightarrow> (if p \<in> pr_id ` set ps then Some p else None, w1)))"

text \<open>\<open>findTab\<close>: a failing query and a missing tab are the same error to its callers.\<close>

definition find_tab :: "int \<Rightarrow> target_db \<Rightarrow> tab_row option \<times> target_db" where
  "find_tab i w = (case list_tabs w of
     (Inl _, w1) \<Rightarrow> (None, w1) | (Inr ts, w1) \<Rightarrow> (find (\<lambda>t. tb_id t = i) ts, w1))"

definition handle_tabs_list :: "central \<Rightarrow> (nat + tab_row list) \<times> central" where
  "handle_tabs_list c = (case on_tables list_tabs c of (Inl _, c1) \<Rightarrow> (Inl 500, c1) | (Inr ts, c1) \<Rightarrow> (Inr ts, c1))"

record create_tab_request =
  ct_target :: string
  ct_label :: "string option"
  ct_warning :: "int option"
  ct_critical :: "int option"
  ct_copy_from :: "int option"
  ct_probe :: string

definition copy_tab :: "tab_row \<Rightarrow> create_tab_request \<Rightarrow> create_tab_request" where
  "copy_tab src r = r\<lparr>
     ct_label := (case ct_label r of None \<Rightarrow> tb_label src | l \<Rightarrow> l),
     ct_warning := (case ct_warning r of None \<Rightarrow> tb_warning src | v \<Rightarrow> v),
     ct_critical := (case ct_critical r of None \<Rightarrow> tb_critical src | v \<Rightarrow> v),
     ct_probe := (if ct_probe r = [] then tb_probe src else ct_probe r)\<rparr>"

definition copy_source :: "create_tab_request \<Rightarrow> central \<Rightarrow> create_tab_request option \<times> central" where
  "copy_source r c = (case ct_copy_from r of
     None \<Rightarrow> (Some r, c)
   | Some i \<Rightarrow> (case on_tables (find_tab i) c of (src, c1) \<Rightarrow> (map_option (\<lambda>s. copy_tab s r) src, c1)))"

definition handle_tabs_create :: "instant \<Rightarrow> create_tab_request option \<Rightarrow> central \<Rightarrow> (nat + tab_row) \<times> central" where
  "handle_tabs_create now body c = (case body of
     None \<Rightarrow> (Inl 400, c)
   | Some r0 \<Rightarrow>
       if ct_target r0 = [] then (Inl 400, c)
       else (case copy_source r0 c of
           (None, c1) \<Rightarrow> (Inl 404, c1)
         | (Some r, c1) \<Rightarrow> (case on_fleet (validate_tab_probe (ct_probe r)) c1 of
               (None, c2) \<Rightarrow> (Inl 400, c2)
             | (Some p, c2) \<Rightarrow>
                 (case on_tables (create_tab (ct_target r) (ct_label r) (ct_warning r) (ct_critical r) p now) c2 of
                    (Inl e, c3) \<Rightarrow> (Inl (if e = ForeignKey then 400 else 500), c3)
                  | (Inr i, c3) \<Rightarrow> (case on_tables (find_tab i) c3 of
                        (None, c4) \<Rightarrow> (Inl 500, c4) | (Some t, c4) \<Rightarrow> (Inr t, c4))))))"

record tab_patch_request =
  tq_label :: "string nullable"
  tq_warning :: "int nullable"
  tq_critical :: "int nullable"
  tq_probe :: "string option"
  tq_show :: "bool option"

definition bad_thresholds :: "int nullable \<Rightarrow> int nullable \<Rightarrow> bool" where
  "bad_thresholds w k \<longleftrightarrow> is_set w \<noteq> is_set k
     \<or> (case (value_of w, value_of k) of (Some a, Some b) \<Rightarrow> a \<le> 0 \<or> b \<le> 0 \<or> a \<ge> b | _ \<Rightarrow> False)"

definition tab_patch_of :: "tab_patch_request \<Rightarrow> string option \<Rightarrow> tab_patch" where
  "tab_patch_of r probe = \<lparr>tp_label = value_of (tq_label r), tp_clear_label = (tq_label r = Null),
     tp_warning = value_of (tq_warning r),
     tp_critical = (if value_of (tq_warning r) = None then None else value_of (tq_critical r)),
     tp_clear_thresholds = (tq_warning r = Null), tp_probe = probe, tp_show = tq_show r\<rparr>"

definition validate_patch_probe :: "string option \<Rightarrow> central \<Rightarrow> string option option \<times> central" where
  "validate_patch_probe p c = (case p of
     None \<Rightarrow> (Some None, c)
   | Some i \<Rightarrow> (case on_fleet (validate_tab_probe i) c of (v, c1) \<Rightarrow> (map_option Some v, c1)))"

definition handle_tab_update :: "int \<Rightarrow> tab_patch_request option \<Rightarrow> central \<Rightarrow> (nat + tab_row) \<times> central" where
  "handle_tab_update i body c = (case body of
     None \<Rightarrow> (Inl 400, c)
   | Some r \<Rightarrow>
       if \<not> is_set (tq_label r) \<and> \<not> is_set (tq_warning r) \<and> \<not> is_set (tq_critical r)
          \<and> tq_probe r = None \<and> tq_show r = None
       then (Inl 400, c)
       else (case validate_patch_probe (tq_probe r) c of
           (None, c1) \<Rightarrow> (Inl 400, c1)
         | (Some probe, c1) \<Rightarrow>
             if bad_thresholds (tq_warning r) (tq_critical r) then (Inl 400, c1)
             else (case on_tables (update_tab i (tab_patch_of r probe)) c1 of
                 (Inl e, c2) \<Rightarrow> (Inl (if e = TabNotFound then 404 else 500), c2)
               | (Inr _, c2) \<Rightarrow> (case on_tables (find_tab i) c2 of
                     (None, c3) \<Rightarrow> (Inl 500, c3) | (Some t, c3) \<Rightarrow> (Inr t, c3)))))"

text \<open>Closing the last tab of a target stops monitoring it; what goes wrong then is only logged.\<close>

definition close_target_if_last :: "string \<Rightarrow> central \<Rightarrow> central" where
  "close_target_if_last t c = (case on_tables (count_tabs_for_target t) c of
     (Inl _, c1) \<Rightarrow> c1
   | (Inr n, c1) \<Rightarrow> if n = 0 then snd (on_sup (sup_remove t) c1) else c1)"

definition handle_tab_delete :: "int \<Rightarrow> central \<Rightarrow> nat \<times> central" where
  "handle_tab_delete i c = (case on_tables (find_tab i) c of
     (None, c1) \<Rightarrow> (404, c1)
   | (Some t, c1) \<Rightarrow> (case on_tables (delete_tab i) c1 of
         (Inl e, c2) \<Rightarrow> (if e = TabNotFound then 404 else 500, c2)
       | (Inr _, c2) \<Rightarrow> (204, close_target_if_last (tb_target t) c2)))"

definition handle_tabs_reorder :: "int list option \<Rightarrow> central \<Rightarrow> nat \<times> central" where
  "handle_tabs_reorder body c = (case body of
     None \<Rightarrow> (400, c)
   | Some order \<Rightarrow> if order = [] then (400, c)
       else (case on_tables (reorder_tabs order) c of (Inl _, c1) \<Rightarrow> (500, c1) | (Inr _, c1) \<Rightarrow> (204, c1)))"

section \<open>Bundles\<close>

text \<open>The wire form of a tab in a bundle has no probe.\<close>

record bundle_tab_json =
  bj_target :: string
  bj_label :: "string option"
  bj_warning :: "int option"
  bj_critical :: "int option"

record bundle_request =
  bq_name :: string
  bq_targets :: "string list"
  bq_tabs :: "bundle_tab_json list"

definition bundle_tab_of_json :: "bundle_tab_json \<Rightarrow> bundle_tab" where
  "bundle_tab_of_json j = \<lparr>bt_target = bj_target j, bt_label = bj_label j, bt_warning = bj_warning j,
     bt_critical = bj_critical j, bt_probe = []\<rparr>"

definition bundle_tab_as_json :: "bundle_tab \<Rightarrow> bundle_tab_json" where
  "bundle_tab_as_json b = \<lparr>bj_target = bt_target b, bj_label = bt_label b, bj_warning = bt_warning b,
     bj_critical = bt_critical b\<rparr>"

definition bundle_tabs_of :: "bundle_request \<Rightarrow> bundle_tab list option" where
  "bundle_tabs_of r =
     (if bq_tabs r \<noteq> []
      then if list_all (\<lambda>t. bj_target t \<noteq> []) (bq_tabs r) then Some (map bundle_tab_of_json (bq_tabs r)) else None
      else Some (map default_bundle_tab (bq_targets r)))"

definition handle_bundle_save :: "instant \<Rightarrow> bundle_request option \<Rightarrow> central
    \<Rightarrow> (nat + string \<times> string list \<times> bundle_tab_json list) \<times> central" where
  "handle_bundle_save now body c = (case body of
     None \<Rightarrow> (Inl 400, c)
   | Some r \<Rightarrow>
       (let name = trim_space (bq_name r)
        in if name = [] \<or> length name > 64 then (Inl 400, c)
           else (case bundle_tabs_of r of
               None \<Rightarrow> (Inl 400, c)
             | Some tabs \<Rightarrow> (case on_tables (save_bundle name tabs now) c of
                   (Inl _, c1) \<Rightarrow> (Inl 500, c1)
                 | (Inr _, c1) \<Rightarrow> (Inr (name, map bt_target tabs, map bundle_tab_as_json tabs), c1)))))"

definition handle_bundles_list :: "central
    \<Rightarrow> (nat + (string \<times> int \<times> string list \<times> bundle_tab_json list) list) \<times> central" where
  "handle_bundles_list c = (case on_tables list_bundles c of
     (Inl _, c1) \<Rightarrow> (Inl 500, c1)
   | (Inr bs, c1) \<Rightarrow> (Inr (map (\<lambda>b. (bd_name b, bd_created b, bd_targets b, map bundle_tab_as_json (bd_tabs b))) bs), c1))"

definition handle_bundle_delete :: "string \<Rightarrow> central \<Rightarrow> nat \<times> central" where
  "handle_bundle_delete name c =
     (if name = [] \<or> CHR ''/'' \<in> set name then (400, c)
      else (case on_tables (delete_bundle name) c of (Inl _, c1) \<Rightarrow> (500, c1) | (Inr _, c1) \<Rightarrow> (204, c1)))"

section \<open>Annotations and target data\<close>

definition annotation_text_max :: nat where "annotation_text_max = 280"

record annotation_request =
  aq_target :: string
  aq_ts :: int
  aq_text :: string

definition handle_annotation_add :: "instant \<Rightarrow> annotation_request option \<Rightarrow> central \<Rightarrow> (nat + annotation) \<times> central" where
  "handle_annotation_add now body c = (case body of
     None \<Rightarrow> (Inl 400, c)
   | Some r \<Rightarrow>
       (let target = trim_space (aq_target r); txt = trim_space (aq_text r)
        in if target = [] \<or> txt = [] \<or> length (runes txt) > annotation_text_max \<or> aq_ts r \<le> 0 then (Inl 400, c)
           else (case on_tables (add_annotation target (aq_ts r) txt now) c of
               (Inl _, c1) \<Rightarrow> (Inl 500, c1)
             | (Inr i, c1) \<Rightarrow> (Inr \<lparr>an_id = i, an_target = target, an_ts = aq_ts r, an_text = txt,
                                    an_created = unix_milli now\<rparr>, c1))))"

definition parse_time_ms :: "string \<Rightarrow> int \<Rightarrow> int option" where
  "parse_time_ms v dflt = (if v = [] then Some dflt else go_atoi v)"

definition handle_annotations_list :: "instant \<Rightarrow> string \<Rightarrow> string \<Rightarrow> string \<Rightarrow> central
    \<Rightarrow> (nat + annotation list) \<times> central" where
  "handle_annotations_list now target since till c =
     (let target = trim_space target
      in if target = [] then (Inl 400, c)
         else (case (parse_time_ms since 0, parse_time_ms till 0) of
             (Some a, Some b) \<Rightarrow> (case on_tables (list_annotations target a b now) c of
                 (Inl _, c1) \<Rightarrow> (Inl 500, c1) | (Inr rows, c1) \<Rightarrow> (Inr rows, c1))
           | _ \<Rightarrow> (Inl 400, c)))"

definition handle_annotation_delete :: "string \<Rightarrow> central \<Rightarrow> nat \<times> central" where
  "handle_annotation_delete sfx c =
     (if sfx = [] \<or> CHR ''/'' \<in> set sfx then (400, c)
      else (case go_atoi sfx of
         None \<Rightarrow> (400, c)
       | Some i \<Rightarrow> (case on_tables (delete_annotation i) c of (Inl _, c1) \<Rightarrow> (500, c1) | (Inr _, c1) \<Rightarrow> (204, c1))))"

definition handle_target_history :: "string \<Rightarrow> central \<Rightarrow> (nat + string list) \<times> central" where
  "handle_target_history limit c =
     (case (if limit = [] then Some 10 else case go_atoi limit of None \<Rightarrow> None
              | Some n \<Rightarrow> if n < 1 then None else if n > 100 then Some 100 else Some n) of
        None \<Rightarrow> (Inl 400, c)
      | Some n \<Rightarrow> (case on_tables (recent_targets n) c of (Inl _, c1) \<Rightarrow> (Inl 500, c1) | (Inr ts, c1) \<Rightarrow> (Inr ts, c1)))"

definition handle_target_stats :: "string \<Rightarrow> central \<Rightarrow> (nat + nat \<times> int \<times> int) \<times> central" where
  "handle_target_stats t c =
     (if t = [] then (Inl 400, c)
      else (case on_tables (target_stats t) c of (Inl _, c1) \<Rightarrow> (Inl 500, c1) | (Inr r, c1) \<Rightarrow> (Inr r, c1)))"

definition handle_target_data :: "string \<Rightarrow> central \<Rightarrow> nat \<times> central" where
  "handle_target_data t c =
     (if t = [] then (400, c)
      else (case on_tables (delete_target_history t) c of (Inl _, c1) \<Rightarrow> (500, c1) | (Inr _, c1) \<Rightarrow> (204, c1)))"

section \<open>Probes\<close>

text \<open>\<open>handleProbeByPath\<close> without the update suffix: forgetting clears the probe's incidents too.\<close>

definition handle_probe_delete :: "instant \<Rightarrow> string \<Rightarrow> central \<Rightarrow> nat \<times> central" where
  "handle_probe_delete now i c = (case on_fleet (forget_probe_request i) c of
     (n, c1) \<Rightarrow> if n = 204 then (204, clear_alerts now i [ProbeOffline] c1) else (n, c1))"

definition handle_probe_patch :: "string \<Rightarrow> bool option \<Rightarrow> central \<Rightarrow> nat \<times> central" where
  "handle_probe_patch i body c =
     (if i = [] \<or> CHR ''/'' \<in> set i \<or> i = local_probe_id \<or> i = ''all'' then (400, c)
      else (case body of
         None \<Rightarrow> (400, c)
       | Some pin \<Rightarrow> (case on_fleet (set_probe_pin i pin) c of (Inl _, c1) \<Rightarrow> (404, c1) | (Inr _, c1) \<Rightarrow> (200, c1))))"

text \<open>The list of probes, the local one first.\<close>

record probe_view =
  pj_id :: string
  pj_version :: "string option"
  pj_online :: bool
  pj_last_seen :: "int option"
  pj_outdated :: bool
  pj_pin :: bool
  pj_update :: "update_row option"

definition probe_view_of :: "string \<Rightarrow> instant \<Rightarrow> update_row list \<Rightarrow> probe_row \<Rightarrow> probe_view" where
  "probe_view_of version now updates p = \<lparr>pj_id = pr_id p, pj_version = pr_version p,
     pj_online = (now - of_unix_milli (pr_last_seen p) < 3 * 60 * go_second), pj_last_seen = Some (pr_last_seen p),
     pj_outdated = (case pr_version p of None \<Rightarrow> False | Some v \<Rightarrow> newer version v), pj_pin = pr_pin p,
     pj_update = find (\<lambda>u. up_probe u = pr_id p) updates\<rparr>"

definition handle_probes_list :: "string \<Rightarrow> instant \<Rightarrow> central \<Rightarrow> (nat + probe_view list) \<times> central" where
  "handle_probes_list configured now c = (case on_fleet list_probes c of
     (Inl _, c1) \<Rightarrow> (Inl 500, c1)
   | (Inr ps, c1) \<Rightarrow> (case on_fleet list_probe_updates c1 of (us, c2) \<Rightarrow>
       let version = (if configured = [] then ''dev'' else configured);
           updates = (case us of Inl _ \<Rightarrow> [] | Inr rows \<Rightarrow> rows)
       in (Inr (\<lparr>pj_id = local_probe_id, pj_version = Some version, pj_online = True, pj_last_seen = None,
                  pj_outdated = False, pj_pin = False, pj_update = None\<rparr>
                # map (probe_view_of version now updates) ps), c2)))"

text \<open>\<open>resolveProbeID\<close>.\<close>

definition resolve_probe :: "string \<Rightarrow> central \<Rightarrow> (nat + string) \<times> central" where
  "resolve_probe v c =
     (if v = [] \<or> v = local_probe_id then (Inr local_probe_id, c)
      else if v = ''all'' then (Inl 400, c)
      else (case on_fleet list_probes c of
         (Inl _, c1) \<Rightarrow> (Inl 500, c1)
       | (Inr ps, c1) \<Rightarrow> (if v \<in> pr_id ` set ps then Inr v else Inl 404, c1)))"

section \<open>Requests as steps\<close>

datatype api_event =
    PostTarget resolver instant "string option"
  | SwapTarget "string list \<Rightarrow> string list" resolver instant "string option"
  | DeleteTarget instant string
  | PatchTarget string "target_patch option"
  | PostTab instant "create_tab_request option"
  | PatchTab int "tab_patch_request option"
  | DeleteTab int
  | ReorderTabs "int list option"
  | PostBundle instant "bundle_request option"
  | DeleteBundle string
  | PostAnnotation instant "annotation_request option"
  | DeleteAnnotation string
  | DeleteData string
  | DeleteProbe instant string
  | PatchProbe string "bool option"
  | Reresolved resolver string addr
  | FleetRequest fleet_event
  | AlertFaults "bool list"

text \<open>Forgetting a probe goes through \<open>DeleteProbe\<close> here.\<close>

fun api_step :: "supervisor_config \<Rightarrow> api_event \<Rightarrow> central \<Rightarrow> central" where
  "api_step cfg (PostTarget rv now b) c = snd (handle_targets_add rv cfg now b c)"
| "api_step cfg (SwapTarget iter rv now b) c = snd (handle_target_post iter rv cfg now b c)"
| "api_step cfg (DeleteTarget now t) c = snd (handle_target_delete now t c)"
| "api_step cfg (PatchTarget t b) c = snd (handle_target_patch cfg t b c)"
| "api_step cfg (PostTab now b) c = snd (handle_tabs_create now b c)"
| "api_step cfg (PatchTab i b) c = snd (handle_tab_update i b c)"
| "api_step cfg (DeleteTab i) c = snd (handle_tab_delete i c)"
| "api_step cfg (ReorderTabs b) c = snd (handle_tabs_reorder b c)"
| "api_step cfg (PostBundle now b) c = snd (handle_bundle_save now b c)"
| "api_step cfg (DeleteBundle n) c = snd (handle_bundle_delete n c)"
| "api_step cfg (PostAnnotation now b) c = snd (handle_annotation_add now b c)"
| "api_step cfg (DeleteAnnotation s) c = snd (handle_annotation_delete s c)"
| "api_step cfg (DeleteData t) c = snd (handle_target_data t c)"
| "api_step cfg (DeleteProbe now i) c = snd (handle_probe_delete now i c)"
| "api_step cfg (PatchProbe i b) c = snd (handle_probe_patch i b c)"
| "api_step cfg (Reresolved rv t a) c = snd (on_sup (reresolve_tick rv cfg t a) c)"
| "api_step cfg (FleetRequest e) c = snd (on_fleet (\<lambda>w. ((), fleet_step e w)) c)"
| "api_step cfg (AlertFaults bs) c = c\<lparr>ce_alerts := (ce_alerts c)\<lparr>al_faults := bs\<rparr>\<rparr>"

definition api_run :: "supervisor_config \<Rightarrow> api_event list \<Rightarrow> central \<Rightarrow> central" where
  "api_run cfg es c = fold (api_step cfg) es c"

definition new_central :: "alerting \<Rightarrow> bool list \<Rightarrow> central" where
  "new_central al faults = \<lparr>ce_pipelines = [], ce_paused = False, ce_fleet = empty_fleet faults, ce_alerts = al\<rparr>"

end
