(* ===== verification/CentralTabs.thy ===== *)
theory CentralTabs
  imports CentralApi
begin

text \<open>
  Tabs over runs of the central's endpoints: the probe a tab shows is the local one or a registered one
  (\<open>validateTabProbe\<close>, \<open>DeleteProbe\<close>), and closing a tab (\<open>handleTabDelete\<close>) stops monitoring exactly
  when it was the target's last one.
\<close>

section \<open>Tabs show registered probes\<close>

definition probe_ids :: "fleet \<Rightarrow> string set" where
  "probe_ids w = pr_id ` set (fl_probes w)"

definition tab_probes :: "target_db \<Rightarrow> string set" where
  "tab_probes d = tb_probe ` set (td_tabs d)"

definition tabs_registered :: "fleet \<Rightarrow> bool" where
  "tabs_registered w \<longleftrightarrow> tab_probes (fl_db w) \<subseteq> insert local_probe_id (probe_ids w)"

definition keeps_registered :: "fleet \<Rightarrow> fleet \<Rightarrow> bool" where
  "keeps_registered w w' \<longleftrightarrow> (tabs_registered w \<longrightarrow> tabs_registered w')"

interpretation kr: fleet_frame keeps_registered
  by unfold_locales (auto simp: keeps_registered_def tabs_registered_def tab_probes_def probe_ids_def with_faults_def)

lemma keeps_exec:
  "(\<And>w. td_tabs (fl_db (snd (f w))) = td_tabs (fl_db w) \<and> probe_ids w \<subseteq> probe_ids (snd (f w)))
    \<Longrightarrow> keeps_registered w (snd (fl_exec f w))"
  by (rule kr.exec) (auto simp: keeps_registered_def tabs_registered_def tab_probes_def)

lemma probe_ids_simps [simp]:
  "probe_ids (w\<lparr>fl_updates := a\<rparr>) = probe_ids w" "probe_ids (w\<lparr>fl_paths := b\<rparr>) = probe_ids w"
  "probe_ids (w\<lparr>fl_tokens := c\<rparr>) = probe_ids w" "probe_ids (w\<lparr>fl_failures := d\<rparr>) = probe_ids w"
  "probe_ids (w\<lparr>fl_tokens := c, fl_token_seq := n\<rparr>) = probe_ids w" "probe_ids (w\<lparr>fl_db := x\<rparr>) = probe_ids w"
  "probe_ids (change_update p f w) = probe_ids w"
  by (simp_all add: probe_ids_def change_update_def)

lemma upsert_probe_ids: "pr_id ` set (upsert_probe p rows) = insert (pr_id p) (pr_id ` set rows)"
  by (induction rows) auto

lemma update_where_ids: "(\<And>r. g (f r) = g r) \<Longrightarrow> g ` set (update_where P f rows) = g ` set rows"
  using keys_of_change [of g f P rows] by (simp flip: set_map)

interpretation ka: agent_frame keeps_registered p v for p v
  by unfold_locales
    (auto simp: upsert_probe_heartbeat_def touch_probe_token_def increment_deliveries_def set_probe_update_state_def
      append_failure_def upsert_path_snapshot_def probe_ids_def upsert_probe_ids change_update_def
      intro!: keeps_exec split: option.splits)

lemma forget_registered: "tabs_registered w \<Longrightarrow> tabs_registered (forget_probe p w)"
  by (auto simp: tabs_registered_def tab_probes_def probe_ids_def forget_probe_def update_where_def)

interpretation ko: operator_frame keeps_registered i for i
proof unfold_locales
  show "keeps_registered w (snd (command_probe_update i version arch sha ts w))" for w version arch sha ts
    by (auto simp: command_probe_update_def intro!: keeps_exec)
  show "keeps_registered w (snd (clear_probe_update i w))" for w
    by (auto simp: clear_probe_update_def intro!: keeps_exec)
  have "keeps_registered w (snd (fl_execs n (\<lambda>w. (Inr True, forget_probe i w)) w))" for n w
    by (rule kr.execs) (simp add: keeps_registered_def forget_registered)
  then show "keeps_registered w (snd (delete_probe i w))" for w
    by (auto simp: delete_probe_def simp del: fl_execs.simps intro!: kr.execs)
qed

lemma token_and_pin_registered:
  "keeps_registered w (snd (set_probe_pin i b w))" "keeps_registered w (snd (insert_probe_token t n now w))"
  "keeps_registered w (snd (delete_probe_token j w))"
  by (auto simp: set_probe_pin_def insert_probe_token_def delete_probe_token_def probe_ids_def update_where_ids
      intro!: keeps_exec split: if_splits)

lemma fleet_step_registered: "keeps_registered w (fleet_step e w)"
proof (cases e)
  case (AgentBeat c b ts)
  then show ?thesis
    using ka.heartbeat_frame [of b "case b of Some b \<Rightarrow> hb_probe b | None \<Rightarrow> []"
        "case b of Some b \<Rightarrow> base_version (hb_version b) | None \<Rightarrow> []"] by auto
next
  case (AgentPath c b)
  then show ?thesis using ka.path_frame [of b "case b of Some b \<Rightarrow> pq_probe b | None \<Rightarrow> []"] by auto
next
  case (AgentStatus c b)
  then show ?thesis using ka.status_frame [of b "case b of Some b \<Rightarrow> sq_probe b | None \<Rightarrow> []"] by auto
next
  case (OperatorMint name random now)
  then show ?thesis using token_and_pin_registered(2)
    by (auto simp: mint_token_def split: option.split intro!: kr.bind split: sum.split)
next
  case (OperatorRevoke i)
  then show ?thesis using token_and_pin_registered(3)
    by (auto simp: revoke_token_def intro!: kr.bind split: sum.split)
next
  case (StoreFaults bs)
  then show ?thesis using kr.faults by (simp add: with_faults_def)
qed (simp_all add: ko.update_op ko.forget token_and_pin_registered)

text \<open>The operations on the target tables: only \<open>CreateTab\<close> and \<open>UpdateTab\<close> bring in a probe.\<close>

lemma td_exec_cases:
  assumes "\<And>bs. P (Inl StoreFailed, w\<lparr>td_faults := bs\<rparr>)" "\<And>bs. P (f (w\<lparr>td_faults := bs\<rparr>))"
  shows "P (td_exec f w)"
proof (cases "td_faults w")
  case Nil
  have "w\<lparr>td_faults := td_faults w\<rparr> = w" by (cases w) simp
  then have "P (f w)" using assms(2) [of "td_faults w"] by (simp only:)
  then show ?thesis by (simp add: td_exec_def td_fault_def Nil)
next
  case (Cons b bs)
  then show ?thesis using assms by (cases b) (simp_all add: td_exec_def td_fault_def)
qed

lemma td_execs_cases:
  assumes "\<And>bs. P (Inl StoreFailed, w\<lparr>td_faults := bs\<rparr>)" "\<And>bs. P (f (w\<lparr>td_faults := bs\<rparr>))"
  shows "P (td_execs n f w)"
  using assms
proof (induction n arbitrary: w)
  case 0
  have "w\<lparr>td_faults := td_faults w\<rparr> = w" by (cases w) simp
  then show ?case using 0(2) [of "td_faults w"] by simp
next
  case (Suc n)
  show ?case unfolding td_execs.simps
  proof (rule td_exec_cases)
    show "P (td_execs n f (w\<lparr>td_faults := bs\<rparr>))" for bs by (rule Suc.IH) (simp_all add: Suc.prems)
  qed (rule Suc.prems)
qed

definition no_new_probes :: "(target_db \<Rightarrow> 'r \<times> target_db) \<Rightarrow> bool" where
  "no_new_probes f \<longleftrightarrow> (\<forall>d. tab_probes (snd (f d)) \<subseteq> tab_probes d)"

lemma adds_none_exec: "(\<And>d. tab_probes (snd (f d)) \<subseteq> tab_probes d) \<Longrightarrow> no_new_probes (td_exec f)"
proof -
  assume f: "\<And>d. tab_probes (snd (f d)) \<subseteq> tab_probes d"
  have "tab_probes (snd (td_exec f d)) \<subseteq> tab_probes d" for d
    by (rule td_exec_cases) (use f [of "d\<lparr>td_faults := bs\<rparr>" for bs] in \<open>simp_all add: tab_probes_def\<close>)
  then show ?thesis by (simp add: no_new_probes_def)
qed

lemma adds_none_execs:
  assumes f: "\<And>d. tab_probes (snd (f d)) \<subseteq> tab_probes d" shows "no_new_probes (td_execs n f)"
proof -
  have "tab_probes (snd (td_execs n f d)) \<subseteq> tab_probes d" for d
    by (rule td_execs_cases) (use f [of "d\<lparr>td_faults := bs\<rparr>" for bs] in \<open>simp_all add: tab_probes_def\<close>)
  then show ?thesis by (simp add: no_new_probes_def)
qed

lemma set_positions_probes: "tb_probe ` set (set_positions k order rows) = tb_probe ` set rows"
  by (induction order arbitrary: k rows) (simp_all add: update_where_ids)

lemma no_new_ops [simp]:
  "no_new_probes list_tabs" "no_new_probes (delete_tab i)" "no_new_probes (reorder_tabs order)"
  "no_new_probes (save_bundle n tabs now)" "no_new_probes (delete_bundle n)"
  "no_new_probes (add_annotation t ts txt now)" "no_new_probes (delete_annotation i)"
  "no_new_probes (delete_target_history t)" "no_new_probes (find_tab i)"
  "no_new_probes (count_tabs_for_target t)" "no_new_probes (remember_target t now)"
  "no_new_probes (add_active_target t now)" "no_new_probes (update_active t f)"
  "no_new_probes (remove_active_target t)"
proof -
  have keep: "no_new_probes (td_exec f)" if "\<And>d. td_tabs (snd (f d)) = td_tabs d" for f :: "target_db \<Rightarrow> (store_error + 'a) \<times> target_db"
    by (rule adds_none_exec) (simp add: tab_probes_def that)
  have skip: "no_new_probes (\<lambda>w. if P w then (r, w) else f w)" if "no_new_probes f"
    for P r and f :: "target_db \<Rightarrow> (store_error + 'a) \<times> target_db"
    using that by (simp add: no_new_probes_def)
  show tabs: "no_new_probes list_tabs" "no_new_probes (delete_bundle n)"
    "no_new_probes (delete_annotation i)" "no_new_probes (count_tabs_for_target t)"
    unfolding list_tabs_def delete_bundle_def delete_annotation_def count_tabs_for_target_def by (simp_all add: keep)
  show "no_new_probes (delete_tab i)" "no_new_probes (remove_active_target t)"
    unfolding delete_tab_def remove_active_target_def by (rule adds_none_exec, auto simp: tab_probes_def)+
  have "no_new_probes (td_execs m (\<lambda>w. (Inr (), w\<lparr>td_tabs := set_positions 0 order (td_tabs w)\<rparr>)))" for m
    by (rule adds_none_execs) (simp add: tab_probes_def set_positions_probes)
  then show "no_new_probes (reorder_tabs order)" by (simp add: no_new_probes_def reorder_tabs_def del: td_execs.simps)
  show "no_new_probes (delete_target_history t)"
    unfolding delete_target_history_def by (rule adds_none_execs) (simp add: tab_probes_def Let_def)
  show "no_new_probes (find_tab i)"
  proof -
    have "tab_probes (snd (find_tab i d)) = tab_probes (snd (list_tabs d))" for d
      by (simp add: find_tab_def split: prod.split sum.split)
    then show ?thesis using tabs(1) by (simp add: no_new_probes_def)
  qed
  have "no_new_probes (td_exec (\<lambda>w. (Inr (), w\<lparr>td_bundles := g w\<rparr>)))" "no_new_probes (td_exec (\<lambda>w. (Inr (), w\<lparr>td_history := h w\<rparr>)))"
    "no_new_probes (td_exec (\<lambda>w. (r w, w\<lparr>td_active := k w\<rparr>)))"
    "no_new_probes (td_exec (\<lambda>w. (Inr (j w), w\<lparr>td_notes := l w, td_note_seq := j w\<rparr>)))"
    for g h k l j and r :: "target_db \<Rightarrow> store_error + unit"
    by (simp_all add: keep)
  then show "no_new_probes (save_bundle n tabs now)" "no_new_probes (add_annotation t ts txt now)"
    "no_new_probes (remember_target t now)" "no_new_probes (add_active_target t now)" "no_new_probes (update_active t f)"
    unfolding no_new_probes_def save_bundle_def add_annotation_def remember_target_def add_active_target_def
      update_active_def Let_def by simp_all
qed

definition central_registered :: "central \<Rightarrow> bool" where
  "central_registered c \<longleftrightarrow> tabs_registered (ce_fleet c)"

lemma on_tables_registered:
  assumes "no_new_probes f" "central_registered c" "on_tables f c = (r, c')"
  shows "central_registered c' \<and> probe_ids (ce_fleet c') = probe_ids (ce_fleet c)"
  using assms by (auto simp: on_tables_def on_fleet_def central_registered_def tabs_registered_def no_new_probes_def
      split: prod.splits) (metis insert_iff snd_conv subsetD)

lemma on_fleet_registered:
  assumes "keeps_registered (ce_fleet c) (snd (f (ce_fleet c)))" "central_registered c" "on_fleet f c = (r, c')"
  shows "central_registered c'"
  using assms by (auto simp: on_fleet_def central_registered_def keeps_registered_def split: prod.splits)

text \<open>Requests to the supervisor write through operations that bring in no probe.\<close>

definition sup_adds_no_probe :: "(supervisor \<Rightarrow> 'r \<times> supervisor) \<Rightarrow> bool" where
  "sup_adds_no_probe f \<longleftrightarrow> (\<forall>s. tab_probes (sv_db (snd (f s))) \<subseteq> tab_probes (sv_db s))"

lemma on_sup_registered:
  assumes "sup_adds_no_probe f" "central_registered c" "on_sup f c = (r, c')"
  shows "central_registered c'"
proof -
  obtain s where s: "f (sup_of c) = (r, s)" and c': "ce_fleet c' = (ce_fleet c)\<lparr>fl_db := sv_db s\<rparr>"
    using assms(3) by (auto simp: on_sup_def split: prod.splits)
  have "tab_probes (sv_db s) \<subseteq> tab_probes (fl_db (ce_fleet c))"
    using assms(1) [unfolded sup_adds_no_probe_def, THEN spec, of "sup_of c"] s by (simp add: sup_of_def)
  then show ?thesis using assms(2) by (auto simp: central_registered_def tabs_registered_def c')
qed

lemma on_db_probes: "no_new_probes f \<Longrightarrow> tab_probes (sv_db (on_db f s)) \<subseteq> tab_probes (sv_db s)"
  by (simp add: on_db_def no_new_probes_def)

lemma add_pipeline_db: "sv_db (snd (add_pipeline rv cfg t i a b fh s)) = sv_db s"
  by (cases rule: add_pipeline_cases [of rv cfg t i a b fh s]) simp_all

lemma rebuild_db: "sv_db (snd (rebuild_pipeline cfg t na ni nb s)) = sv_db s"
  by (cases rule: rebuild_cases [of cfg t na ni nb s]) simp_all

lemma sup_ops_probes [simp]:
  "sup_adds_no_probe (sup_add rv cfg now t)" "sup_adds_no_probe (sup_remove t)"
  "sup_adds_no_probe (sup_swap iter rv cfg now t)" "sup_adds_no_probe (sup_set_interval cfg t d)"
  "sup_adds_no_probe (sup_set_thresholds t wa cr)" "sup_adds_no_probe (sup_set_final_hop cfg t b)"
  "sup_adds_no_probe (reresolve_tick rv cfg t a)"
proof -
  have add: "tab_probes (sv_db (snd (sup_add rv cfg now t s))) \<subseteq> tab_probes (sv_db s)" for rv now t s
  proof -
    obtain r s' where e: "add_pipeline rv cfg t (sc_interval cfg) None None False s = (r, s')" by fastforce
    then have db: "sv_db s' = sv_db s" using add_pipeline_db [of rv cfg t "sc_interval cfg" None None False s] by simp
    show ?thesis
    proof (cases r)
      case (Inl x) then show ?thesis using e db by (simp add: sup_add_def)
    next
      case (Inr x)
      have "tab_probes (sv_db (on_db (remember_target (fst x) now) (on_db (add_active_target (fst x) now) s')))
          \<subseteq> tab_probes (sv_db (on_db (add_active_target (fst x) now) s'))"
        by (rule on_db_probes) simp
      also have "\<dots> \<subseteq> tab_probes (sv_db s')" by (rule on_db_probes) simp
      finally show ?thesis using e Inr db by (cases x) (simp add: sup_add_def)
    qed
  qed
  have remove: "tab_probes (sv_db (snd (sup_remove t s))) \<subseteq> tab_probes (sv_db s)" for t s
    using on_db_probes [OF no_new_ops(14), of t "s\<lparr>sv_pipelines := filter (\<lambda>p. pl_target p \<noteq> t) (sv_pipelines s)\<rparr>"]
    by (simp add: sup_remove_def remove_begin_def remove_finish_def)
  have removes: "tab_probes (sv_db (fold (\<lambda>u s. if u = i then s else snd (sup_remove u s)) us s)) \<subseteq> tab_probes (sv_db s)" for i us s
  proof (induction us arbitrary: s)
    case (Cons u us)
    show ?case using order_trans [OF Cons.IH [of "snd (sup_remove u s)"] remove] Cons.IH [of s] by simp
  qed simp
  show "sup_adds_no_probe (sup_add rv cfg now t)" "sup_adds_no_probe (sup_remove t)"
    using add remove by (simp_all add: sup_adds_no_probe_def)
  have swap: "tab_probes (sv_db (snd (sup_swap iter rv cfg now t s))) \<subseteq> tab_probes (sv_db s)" for s
  proof (cases "resolve_target rv t")
    case (Inr x)
    define u where "u = (if lookup_pipeline (fst x) (sv_pipelines s) = None then sup_add rv cfg now (fst x) s else (Inr (), s))"
    have "tab_probes (sv_db (snd u)) \<subseteq> tab_probes (sv_db s)" using add by (simp add: u_def)
    moreover have "tab_probes (sv_db (snd (sup_swap iter rv cfg now t s))) \<subseteq> tab_probes (sv_db (snd u))"
      using Inr removes [of "fst x" "iter (map pl_target (sv_pipelines s))" "snd u"]
      unfolding sup_swap_def Inr sum.case prod.case_eq_if Let_def u_def [symmetric]
      by (cases "fst u") simp_all
    ultimately show ?thesis by (rule order_trans [rotated])
  qed (simp add: sup_swap_def)
  then show "sup_adds_no_probe (sup_swap iter rv cfg now t)" by (simp add: sup_adds_no_probe_def)
  have wr: "tab_probes (sv_db (on_db (update_active t f) s')) \<subseteq> tab_probes (sv_db s)" if "sv_db s' = sv_db s" for f s s'
    using on_db_probes [OF no_new_ops(13), of t f s'] that by simp
  have rebuilt: "rebuild_pipeline cfg t na ni nb s = (r, s') \<Longrightarrow> sv_db s' = sv_db s" for na ni nb s r s'
    using rebuild_db [of cfg t na ni nb s] by simp
  show "sup_adds_no_probe (sup_set_interval cfg t d)" "sup_adds_no_probe (sup_set_final_hop cfg t b)"
    unfolding sup_adds_no_probe_def sup_set_interval_def set_active_interval_def sup_set_final_hop_def set_active_final_hop_def
    by (auto split: prod.split sum.split dest!: rebuilt dest: subsetD [OF wr])
  show "sup_adds_no_probe (sup_set_thresholds t wa cr)"
    unfolding sup_adds_no_probe_def sup_set_thresholds_def set_active_thresholds_def
    by (auto split: option.split dest: subsetD [OF wr [OF refl]])
  show "sup_adds_no_probe (reresolve_tick rv cfg t a)"
    unfolding sup_adds_no_probe_def reresolve_tick_def
    by (auto split: prod.split sum.split dest!: rebuilt)
qed

text \<open>What \<open>validateTabProbe\<close> lets through.\<close>

lemma list_probes_Inr: "list_probes w = (Inr ps, w') \<Longrightarrow> probe_ids w' = pr_id ` set ps"
  unfolding list_probes_def using fl_exec_faults [of "\<lambda>w. (Inr (sort_key pr_id (fl_probes w)), w)" w]
  by (elim exE disjE) (auto simp: probe_ids_def with_faults_def)

lemma validated:
  assumes "on_fleet (validate_tab_probe p) c = (v, c')"
  shows "(\<forall>q. v = Some q \<longrightarrow> q \<in> insert local_probe_id (probe_ids (ce_fleet c')))
    \<and> (central_registered c \<longrightarrow> central_registered c')"
proof -
  have "keeps_registered (ce_fleet c) (snd (validate_tab_probe p (ce_fleet c)))"
    using kr.reads(1) by (auto simp: validate_tab_probe_def intro!: kr.bind split: sum.split)
  moreover have "q \<in> insert local_probe_id (probe_ids (ce_fleet c'))" if "v = Some q" for q
    using assms that
    by (cases "list_probes (ce_fleet c)"; cases "fst (list_probes (ce_fleet c))")
      (auto simp: on_fleet_def validate_tab_probe_def list_probes_Inr split: if_splits)
  ultimately show ?thesis using on_fleet_registered [OF _ _ assms] by simp
qed

lemma create_tab_probes:
  "tab_probes (snd (create_tab t l a b p now d)) \<subseteq> insert (if p = [] then local_probe_id else p) (tab_probes d)"
proof -
  have pos: "tab_probes (snd (max_position d)) = tab_probes d"
    unfolding max_position_def by (rule td_exec_cases) (simp_all add: tab_probes_def)
  have ins: "tab_probes (snd (insert_tab r d)) \<subseteq> insert (tb_probe r) (tab_probes d)" for r d
    unfolding insert_tab_def by (rule td_exec_cases) (auto simp: tab_probes_def Let_def)
  show ?thesis
  proof (cases "t = []")
    case True then show ?thesis by (auto simp: create_tab_def)
  next
    case False
    obtain x d1 where e: "max_position d = (x, d1)" by fastforce
    then have "tab_probes d1 = tab_probes d" using pos by simp
    then show ?thesis using False e ins [of _ d1]
      by (cases x) (auto simp: create_tab_def split: if_splits dest!: subsetD [OF ins])
  qed
qed

lemma update_tab_probes:
  "tab_probes (snd (update_tab i p d)) \<subseteq> tab_probes d \<union> set_option (tp_probe p)"
proof (cases "patch_is_empty p")
  case False
  have "tab_probes (snd (td_exec (\<lambda>w. (if \<exists>r \<in> set (td_tabs w). tb_id r = i then Inr () else Inl TabNotFound,
      w\<lparr>td_tabs := update_where (\<lambda>r. tb_id r = i) (apply_tab_patch p) (td_tabs w)\<rparr>)) d)) \<subseteq> tab_probes d \<union> set_option (tp_probe p)"
    by (rule td_exec_cases)
      (auto simp: tab_probes_def update_where_def apply_tab_patch_def keep_def split: option.splits if_splits)
  then show ?thesis using False by (simp add: update_tab_def)
qed (auto simp: update_tab_def)

lemma on_tables_adds:
  assumes "tab_probes (snd (f (fl_db (ce_fleet c)))) \<subseteq> tab_probes (fl_db (ce_fleet c)) \<union> P"
    and "P \<subseteq> insert local_probe_id (probe_ids (ce_fleet c))" "central_registered c" "on_tables f c = (r, c')"
  shows "central_registered c'"
  using assms by (auto simp: on_tables_def on_fleet_def central_registered_def tabs_registered_def split: prod.splits) blast

text \<open>Each handler keeps the tabs on registered probes.\<close>

lemma clear_alerts_registered [simp]: "central_registered (clear_alerts now t es c) = central_registered c"
  by (simp add: clear_alerts_def central_registered_def)

lemma target_handlers_registered:
  assumes "central_registered c"
  shows "central_registered (snd (handle_targets_add rv cfg now b c))"
    and "central_registered (snd (handle_target_post iter rv cfg now b c))"
    and "central_registered (snd (handle_target_delete now t c))"
  using assms
  by (auto simp: handle_targets_add_def handle_target_post_def handle_target_delete_def
      split: option.split prod.split sum.split dest: on_sup_registered [rotated 2])

lemma patch_parts_registered:
  assumes "central_registered c"
  shows "central_registered (snd (patch_interval cfg t p c))" "central_registered (snd (patch_thresholds t p c))"
    "central_registered (snd (patch_final_hop cfg t p c))"
  using assms
  by (auto simp: patch_interval_def patch_thresholds_def patch_final_hop_def
      split: option.split prod.split sum.split dest: on_sup_registered [rotated 2])

lemma target_patch_registered:
  assumes "central_registered c" shows "central_registered (snd (handle_target_patch cfg t b c))"
proof (cases b)
  case (Some p)
  obtain r1 c1 r2 c2 r3 c3 where e: "patch_interval cfg t p c = (r1, c1)" "patch_thresholds t p c1 = (r2, c2)"
    "patch_final_hop cfg t p c2 = (r3, c3)" by (metis surj_pair)
  have "central_registered c1" "central_registered c2" "central_registered c3"
    using patch_parts_registered(1) [OF assms, of cfg t p] patch_parts_registered(2) [of c1 t p]
      patch_parts_registered(3) [of c2 cfg t p] e by auto
  then show ?thesis using Some assms e by (simp add: handle_target_patch_def split: option.split)
qed (simp add: handle_target_patch_def assms)

lemma table_handlers_registered:
  assumes "central_registered c"
  shows "central_registered (snd (handle_tabs_reorder o' c))" "central_registered (snd (handle_bundle_save now bq c))"
    "central_registered (snd (handle_bundle_delete n c))" "central_registered (snd (handle_annotation_add now aq c))"
    "central_registered (snd (handle_annotation_delete x c))" "central_registered (snd (handle_target_data t c))"
  using assms
  by (auto simp: handle_tabs_reorder_def handle_bundle_save_def handle_bundle_delete_def handle_annotation_add_def
      handle_annotation_delete_def handle_target_data_def Let_def
      split: option.split prod.split sum.split dest: on_tables_registered [rotated 2])

lemma tab_delete_registered:
  assumes "central_registered c" shows "central_registered (snd (handle_tab_delete i c))"
proof -
  have close: "central_registered (close_target_if_last t c)" if "central_registered c" for t c
  proof -
    obtain r c1 where e: "on_tables (count_tabs_for_target t) c = (r, c1)" by fastforce
    then have "central_registered c1" using on_tables_registered [OF _ that e] by simp
    moreover have "central_registered (snd (on_sup (sup_remove t) c1))"
      using calculation by (cases "on_sup (sup_remove t) c1") (auto dest: on_sup_registered [rotated 2])
    ultimately show ?thesis by (simp add: close_target_if_last_def e split: sum.split)
  qed
  obtain r c1 where e: "on_tables (find_tab i) c = (r, c1)" by fastforce
  then have c1: "central_registered c1" using on_tables_registered [OF _ assms e] by simp
  obtain r' c2 where e': "on_tables (delete_tab i) c1 = (r', c2)" by fastforce
  then have "central_registered c2" using on_tables_registered [OF _ c1 e'] by simp
  then show ?thesis using c1 close by (auto simp: handle_tab_delete_def e e' split: option.split sum.split)
qed

lemma reread_registered:
  "on_tables (find_tab i) c = (r, c') \<Longrightarrow> central_registered c \<Longrightarrow> central_registered c'"
  by (auto dest: on_tables_registered [rotated 2])

lemma tabs_create_registered:
  assumes c: "central_registered c" shows "central_registered (snd (handle_tabs_create now b c))"
proof (cases b)
  case (Some r0)
  obtain src c1 where e1: "copy_source r0 c = (src, c1)" by fastforce
  have c1: "central_registered c1"
    using e1 c by (auto simp: copy_source_def split: option.splits prod.splits dest: reread_registered)
  show ?thesis
  proof (cases src)
    case None
    then show ?thesis using Some c c1 e1 by (simp add: handle_tabs_create_def)
  next
    case src: (Some r)
    obtain v c2 where e2: "on_fleet (validate_tab_probe (ct_probe r)) c1 = (v, c2)" by fastforce
    have c2: "central_registered c2" using validated [OF e2] c1 by simp
    show ?thesis
    proof (cases v)
      case None
      then show ?thesis using Some c c2 e1 e2 src by (simp add: handle_tabs_create_def)
    next
      case v: (Some p)
      obtain x c3 where e3: "on_tables (create_tab (ct_target r) (ct_label r) (ct_warning r) (ct_critical r) p now) c2 = (x, c3)"
        by fastforce
      have "central_registered c3"
        by (rule on_tables_adds [where P = "{if p = [] then local_probe_id else p}", OF _ _ c2 e3])
          (use create_tab_probes validated [OF e2] v in auto)
      then show ?thesis using Some c e1 e2 e3 src v
        by (auto simp: handle_tabs_create_def split: sum.split prod.split option.split dest: reread_registered)
    qed
  qed
qed (simp add: handle_tabs_create_def c)

lemma tab_update_registered:
  assumes c: "central_registered c" shows "central_registered (snd (handle_tab_update i b c))"
proof (cases b)
  case (Some r)
  obtain v c1 where e1: "validate_patch_probe (tq_probe r) c = (v, c1)" by fastforce
  have c1: "central_registered c1 \<and> (\<forall>q. v = Some (Some q) \<longrightarrow> q \<in> insert local_probe_id (probe_ids (ce_fleet c1)))"
    using e1 c by (auto simp: validate_patch_probe_def split: option.splits prod.splits dest!: validated)
  obtain x c2 where e2: "on_tables (update_tab i (tab_patch_of r (the v))) c1 = (x, c2)" by fastforce
  have "central_registered c2" if "v \<noteq> None"
  proof (rule on_tables_adds [where P = "set_option (the v)", OF _ _ _ e2])
    show "tab_probes (snd (update_tab i (tab_patch_of r (the v)) (fl_db (ce_fleet c1))))
      \<subseteq> tab_probes (fl_db (ce_fleet c1)) \<union> set_option (the v)"
      using update_tab_probes [of i "tab_patch_of r (the v)"] by (simp add: tab_patch_of_def)
  qed (use c1 that in auto)
  then show ?thesis using Some c c1 e1 e2
    by (cases v) (auto simp: handle_tab_update_def split: sum.split prod.split option.split dest: reread_registered)
qed (simp add: handle_tab_update_def c)

lemma probe_handlers_registered:
  assumes c: "central_registered c"
  shows "central_registered (snd (handle_probe_delete now i c))" "central_registered (snd (handle_probe_patch i b c))"
proof -
  have "keeps_registered w (snd (forget_probe_request i w))" for w
    using fleet_step_registered [of w "OperatorForget i"] by simp
  then show "central_registered (snd (handle_probe_delete now i c))"
    using c by (cases "on_fleet (forget_probe_request i) c")
      (auto simp: handle_probe_delete_def dest: on_fleet_registered [rotated 2])
  show "central_registered (snd (handle_probe_patch i b c))"
    using c token_and_pin_registered(1)
    by (auto simp: handle_probe_patch_def split: option.split prod.split sum.split dest: on_fleet_registered [rotated 2])
qed

lemma api_step_registered:
  assumes "central_registered c" shows "central_registered (api_step cfg e c)"
proof (cases e)
  case (FleetRequest f)
  show ?thesis using assms fleet_step_registered
    by (cases "on_fleet (\<lambda>w. ((), fleet_step f w)) c") (auto simp: FleetRequest dest: on_fleet_registered [rotated 2])
next
  case (Reresolved rv t a)
  show ?thesis using assms
    by (cases "on_sup (reresolve_tick rv cfg t a) c") (auto simp: Reresolved dest: on_sup_registered [rotated 2])
next
  case (AlertFaults bs)
  then show ?thesis using assms by (simp add: central_registered_def)
qed (simp_all add: assms target_handlers_registered target_patch_registered table_handlers_registered
    tabs_create_registered tab_update_registered tab_delete_registered probe_handlers_registered)

text \<open>
  Whatever requests the central serves, and whatever statements of its database fail, each tab shows
  the local probe or a probe that is registered: a tab is created or moved only to a probe that
  \<open>validateTabProbe\<close> has found, and forgetting a probe moves its tabs to the local one.
\<close>

theorem tabs_show_registered_probes:
  "list_all (\<lambda>t. tb_probe t = local_probe_id \<or> tb_probe t \<in> pr_id ` set (fl_probes (ce_fleet (api_run cfg es (new_central al faults)))))
     (td_tabs (fl_db (ce_fleet (api_run cfg es (new_central al faults)))))"
proof -
  have "central_registered (api_run cfg es c)" if "central_registered c" for c
    using that unfolding api_run_def by (induction es arbitrary: c) (simp_all add: api_step_registered)
  moreover have "central_registered (new_central al faults)"
    by (simp add: new_central_def central_registered_def tabs_registered_def tab_probes_def empty_fleet_def empty_target_db_def)
  ultimately show ?thesis
    by (auto simp: central_registered_def tabs_registered_def tab_probes_def probe_ids_def list_all_iff)
qed

end
