(* ===== verification/CentralRemoval.thy ===== *)
theory CentralRemoval
  imports CentralTabs
begin

text \<open>
  What the operator's removals take away: closing a tab stops monitoring exactly when it was the last tab
  of its target (\<open>handleTabDelete\<close>), and deleting a target (\<open>handleTargetDelete\<close>) clears its loss and
  latency incidents with one line in the log each and sends nothing (\<open>clearSubjectAlertStates\<close>).
\<close>

section \<open>Closing a tab\<close>

lemma on_tables_works:
  "td_faults (fl_db (ce_fleet c)) = [] \<Longrightarrow> on_tables (td_exec f) c
    = (case f (fl_db (ce_fleet c)) of (r, d) \<Rightarrow> (r, c\<lparr>ce_fleet := (ce_fleet c)\<lparr>fl_db := d\<rparr>\<rparr>))"
  by (simp add: on_tables_def on_fleet_def td_exec_none split: prod.split)

lemma set_tab_order [simp]: "set (tab_order rows) = set rows"
  by (simp add: tab_order_def)

lemma find_tab_works:
  assumes "td_faults (fl_db (ce_fleet c)) = []" "t \<in> set (td_tabs (fl_db (ce_fleet c)))"
    "distinct (map tb_id (td_tabs (fl_db (ce_fleet c))))"
  shows "on_tables (find_tab (tb_id t)) c = (Some t, c)"
proof -
  have "find (\<lambda>u. tb_id u = tb_id t) (tab_order (td_tabs (fl_db (ce_fleet c)))) = Some t"
  proof (cases "find (\<lambda>u. tb_id u = tb_id t) (tab_order (td_tabs (fl_db (ce_fleet c))))")
    case None
    then show ?thesis using assms(2) by (auto simp: find_None_iff)
  next
    case (Some u)
    then have "u \<in> set (td_tabs (fl_db (ce_fleet c)))" "tb_id u = tb_id t"
      by (auto simp: find_Some_iff) (metis nth_mem set_tab_order)
    then show ?thesis using Some assms(2,3) by (simp add: distinct_map inj_on_def)
  qed
  then show ?thesis
    using assms(1) by (simp add: on_tables_def on_fleet_def find_tab_def list_tabs_def td_exec_none)
qed

text \<open>What is left of the tables and of the pipelines.\<close>

definition without_tab :: "tab_row \<Rightarrow> target_db \<Rightarrow> target_db" where
  "without_tab t d = d\<lparr>td_tabs := filter (\<lambda>u. tb_id u \<noteq> tb_id t) (td_tabs d)\<rparr>"

definition last_tab :: "tab_row \<Rightarrow> target_db \<Rightarrow> bool" where
  "last_tab t d \<longleftrightarrow> list_all (\<lambda>u. tb_target u = tb_target t \<longrightarrow> tb_id u = tb_id t) (td_tabs d)"

text \<open>Closing a tab answers 204, removes that tab and no other, and stops the pipeline of its target and
  takes it from the active targets exactly when no other tab shows the target. The incidents of a target
  that goes this way are left to the sweep of the alert engine: the alert tables do not change.\<close>

theorem closing_the_last_tab_stops_monitoring:
  assumes "td_faults (fl_db (ce_fleet c)) = []" "t \<in> set (td_tabs (fl_db (ce_fleet c)))"
    "distinct (map tb_id (td_tabs (fl_db (ce_fleet c))))"
    "lookup_pipeline (tb_target t) (ce_pipelines c) = Some p"
  defines "d \<equiv> fl_db (ce_fleet c)"
  shows "handle_tab_delete (tb_id t) c =
    (204, if last_tab t d
          then c\<lparr>ce_pipelines := filter (\<lambda>p. pl_target p \<noteq> tb_target t) (ce_pipelines c),
                 ce_fleet := (ce_fleet c)\<lparr>fl_db := (without_tab t d)
                   \<lparr>td_active := filter (\<lambda>r. at_target r \<noteq> tb_target t) (td_active d)\<rparr>\<rparr>\<rparr>
          else c\<lparr>ce_fleet := (ce_fleet c)\<lparr>fl_db := without_tab t d\<rparr>\<rparr>)"
proof -
  define c2 where "c2 = c\<lparr>ce_fleet := (ce_fleet c)\<lparr>fl_db := without_tab t d\<rparr>\<rparr>"
  have del: "on_tables (delete_tab (tb_id t)) c = (Inr (), c2)"
    using assms(1,2) by (auto simp: delete_tab_def on_tables_works c2_def without_tab_def d_def)
  have left: "filter (\<lambda>u. tb_target u = tb_target t) (td_tabs (without_tab t d)) = [] \<longleftrightarrow> last_tab t d"
    by (auto simp: without_tab_def last_tab_def filter_empty_conv list_all_iff)
  have faults: "td_faults (fl_db (ce_fleet c2)) = []" using assms(1) by (simp add: c2_def without_tab_def d_def)
  have count: "on_tables (count_tabs_for_target (tb_target t)) c2
      = (Inr (length (filter (\<lambda>u. tb_target u = tb_target t) (td_tabs (without_tab t d)))), c2)"
    using faults by (simp add: count_tabs_for_target_def on_tables_works) (simp add: c2_def)
  have stop: "snd (on_sup (sup_remove (tb_target t)) c2) = c2\<lparr>ce_pipelines := filter (\<lambda>p. pl_target p \<noteq> tb_target t) (ce_pipelines c),
      ce_fleet := (ce_fleet c)\<lparr>fl_db := (without_tab t d)\<lparr>td_active := filter (\<lambda>r. at_target r \<noteq> tb_target t) (td_active d)\<rparr>\<rparr>\<rparr>"
    if "last_tab t d"
  proof -
    have "filter (\<lambda>u. tb_target u \<noteq> tb_target t) (td_tabs (without_tab t d)) = td_tabs (without_tab t d)"
      using that by (auto simp: without_tab_def last_tab_def list_all_iff intro: filter_cong)
    then show ?thesis
      using faults assms(4)
      by (simp add: on_sup_def sup_of_def sup_remove_def remove_begin_def remove_finish_def on_db_def
          remove_active_target_def td_exec_none c2_def) (simp add: without_tab_def)
  qed
  show ?thesis
    using find_tab_works [OF assms(1-3)] del count left stop
    by (simp add: handle_tab_delete_def close_target_if_last_def) (simp add: c2_def)
qed

section \<open>Deleting a target\<close>

definition removed_entry :: "instant \<Rightarrow> incident \<Rightarrow> int \<times> alert_event \<times> string \<times> history_kind \<times> alert_message" where
  "removed_entry now st = (unix_milli now, in_event st, in_subject st, HCleared, MsgRemoved (in_subject st) (in_event st))"

definition logged_entry :: "history_row \<Rightarrow> int \<times> alert_event \<times> string \<times> history_kind \<times> alert_message" where
  "logged_entry r = (hr_ts r, hr_event r, hr_subject r, hr_kind r, hr_message r)"

definition concerns :: "string \<Rightarrow> alert_event list \<Rightarrow> incident \<Rightarrow> bool" where
  "concerns subject events r \<longleftrightarrow> in_subject r = subject \<and> in_event r \<in> set events"

lemma clear_state_works:
  assumes "al_faults w = []"
  shows "al_faults (clear_state now st w) = [] \<and> al_queue (clear_state now st w) = al_queue w
    \<and> al_states (clear_state now st w) = filter (\<lambda>r. \<not> same_incident (in_event st) (in_subject st) r) (al_states w)
    \<and> map logged_entry (al_history (clear_state now st w))
      = map logged_entry (al_history w) @ (if in_phase st = Active then [removed_entry now st] else [])"
  using assms by (simp add: clear_state_def append_alert_history_def delete_alert_state_def logged_entry_def removed_entry_def)

lemma clear_fold_works:
  fixes now :: instant and subject :: string and events :: "alert_event list"
  assumes "al_faults w = []"
  defines "step \<equiv> \<lambda>st w. if in_subject st \<noteq> subject \<or> in_event st \<notin> set events then w else clear_state now st w"
  shows "al_faults (fold step sts w) = [] \<and> al_queue (fold step sts w) = al_queue w
    \<and> al_states (fold step sts w)
      = filter (\<lambda>r. \<not> (concerns subject events r \<and> incident_key_of r \<in> incident_key_of ` set sts)) (al_states w)
    \<and> map logged_entry (al_history (fold step sts w)) = map logged_entry (al_history w)
        @ map (removed_entry now) (filter (\<lambda>r. concerns subject events r \<and> in_phase r = Active) sts)"
  using assms(1)
proof (induction sts arbitrary: w)
  case (Cons st sts)
  show ?case
  proof (cases "concerns subject events st")
    case True
    have c: "al_faults (clear_state now st w) = []" using clear_state_works [OF Cons.prems] by simp
    have s: "step st w = clear_state now st w" using True by (simp add: step_def concerns_def)
    have "filter (\<lambda>r. \<not> (concerns subject events r \<and> incident_key_of r \<in> incident_key_of ` set sts))
          (filter (\<lambda>r. \<not> same_incident (in_event st) (in_subject st) r) rs)
        = filter (\<lambda>r. \<not> (concerns subject events r \<and> incident_key_of r \<in> incident_key_of ` set (st # sts))) rs" for rs
      unfolding filter_filter using True
      by (intro filter_cong) (auto simp: concerns_def same_incident_def incident_key_of_def)
    then show ?thesis
      using Cons.IH [OF c] clear_state_works [OF Cons.prems, of now st] True by (simp add: s del: image_insert)
  next
    case False
    then have s: "step st w = w" by (auto simp: step_def concerns_def)
    have "filter (\<lambda>r. \<not> (concerns subject events r \<and> incident_key_of r \<in> incident_key_of ` set sts)) rs
        = filter (\<lambda>r. \<not> (concerns subject events r \<and> incident_key_of r \<in> incident_key_of ` set (st # sts))) rs" for rs
      using False by (intro filter_cong) (auto simp: concerns_def incident_key_of_def)
    then show ?thesis using Cons.IH [OF Cons.prems] False by (simp add: s del: image_insert)
  qed
qed simp

text \<open>Deleting a monitored target answers 200, stops its pipeline, takes its active row and all its tabs, and
  clears exactly its loss and latency incidents: each one that was active leaves one cleared entry in the
  log, and nothing is queued for delivery.\<close>

theorem deleting_a_target_clears_its_incidents:
  assumes "td_faults (fl_db (ce_fleet c)) = []" "al_faults (ce_alerts c) = []"
    "lookup_pipeline t (ce_pipelines c) = Some p" "handle_target_delete now t c = (n, c')"
  shows "n = 200
    \<and> ce_pipelines c' = filter (\<lambda>p. pl_target p \<noteq> t) (ce_pipelines c)
    \<and> td_active (fl_db (ce_fleet c')) = filter (\<lambda>r. at_target r \<noteq> t) (td_active (fl_db (ce_fleet c)))
    \<and> td_tabs (fl_db (ce_fleet c')) = filter (\<lambda>r. tb_target r \<noteq> t) (td_tabs (fl_db (ce_fleet c)))
    \<and> al_states (ce_alerts c') = filter (\<lambda>r. \<not> concerns t [TargetLoss, LatencyHigh] r) (al_states (ce_alerts c))
    \<and> map logged_entry (al_history (ce_alerts c')) = map logged_entry (al_history (ce_alerts c))
        @ map (removed_entry now) (filter (\<lambda>r. concerns t [TargetLoss, LatencyHigh] r \<and> in_phase r = Active)
            (al_states (ce_alerts c)))
    \<and> al_queue (ce_alerts c') = al_queue (ce_alerts c)"
proof -
  define c1 where "c1 = c\<lparr>ce_pipelines := filter (\<lambda>p. pl_target p \<noteq> t) (ce_pipelines c),
      ce_fleet := (ce_fleet c)\<lparr>fl_db := (fl_db (ce_fleet c))
        \<lparr>td_active := filter (\<lambda>r. at_target r \<noteq> t) (td_active (fl_db (ce_fleet c))),
         td_tabs := filter (\<lambda>r. tb_target r \<noteq> t) (td_tabs (fl_db (ce_fleet c)))\<rparr>\<rparr>\<rparr>"
  have "on_sup (sup_remove t) c = (Inr (), c1)"
    using assms(1,3) by (simp add: on_sup_def sup_of_def sup_remove_def remove_begin_def remove_finish_def on_db_def
        remove_active_target_def td_exec_none c1_def)
  then have c': "n = 200" "c' = clear_alerts now t [TargetLoss, LatencyHigh] c1"
    using assms(4) by (simp_all add: handle_target_delete_def)
  have "clear_subject now t [TargetLoss, LatencyHigh] (ce_alerts c)
      = fold (\<lambda>st w. if in_subject st \<noteq> t \<or> in_event st \<notin> set [TargetLoss, LatencyHigh] then w else clear_state now st w)
          (al_states (ce_alerts c)) (ce_alerts c)"
    using assms(2) by (simp add: clear_subject_def list_alert_states_def)
  moreover have "filter (\<lambda>r. \<not> (concerns t es r \<and> incident_key_of r \<in> incident_key_of ` set rs)) rs
      = filter (\<lambda>r. \<not> concerns t es r) rs" for es rs
    by (rule filter_cong) auto
  ultimately show ?thesis
    using c' clear_fold_works [OF assms(2), of t "[TargetLoss, LatencyHigh]" now "al_states (ce_alerts c)"]
    by (simp add: clear_alerts_def c1_def)
qed

section \<open>A monitored target with two tabs and two incidents\<close>

definition demo_tab :: "int \<Rightarrow> tab_row" where
  "demo_tab i = \<lparr>tb_id = i, tb_target = ''a'', tb_label = None, tb_warning = None, tb_critical = None, tb_position = i,
     tb_created = 0, tb_probe = local_probe_id, tb_show = False\<rparr>"

definition demo_incidents :: "incident list" where
  "demo_incidents = [\<lparr>in_event = TargetLoss, in_subject = ''a'', in_phase = Active, in_since = 0, in_notified = None\<rparr>,
     \<lparr>in_event = ProbeOffline, in_subject = ''a'', in_phase = Active, in_since = 0, in_notified = None\<rparr>]"

definition demo_central :: "int list \<Rightarrow> central" where
  "demo_central is = \<lparr>ce_pipelines = sv_pipelines demo_sup, ce_paused = False,
     ce_fleet = (empty_fleet [])\<lparr>fl_db := (sv_db demo_sup)\<lparr>td_tabs := map demo_tab is\<rparr>\<rparr>,
     ce_alerts = demo_db\<lparr>al_states := demo_incidents\<rparr>\<rparr>"

lemma demo_central_facts:
  "td_faults (fl_db (ce_fleet (demo_central is))) = []" "al_faults (ce_alerts (demo_central is)) = []"
  "td_tabs (fl_db (ce_fleet (demo_central is))) = map demo_tab is" "al_states (ce_alerts (demo_central is)) = demo_incidents"
  "ce_pipelines (demo_central is) = sv_pipelines demo_sup" "tb_id (demo_tab i) = i" "tb_target (demo_tab i) = ''a''"
  "lookup_pipeline ''a'' (sv_pipelines demo_sup) = Some (hd (sv_pipelines demo_sup))"
  "filter (\<lambda>p. pl_target p \<noteq> ''a'') (sv_pipelines demo_sup) = []" "sv_pipelines demo_sup \<noteq> []"
  by (simp_all add: demo_central_def demo_sup_state empty_target_db_def demo_db_def demo_tab_def lookup_pipeline_def)

lemma closing_the_last_tab_stops_monitoring_witness:
  "ce_pipelines (snd (handle_tab_delete 1 (demo_central [1, 2]))) \<noteq> []
   \<and> ce_pipelines (snd (handle_tab_delete 1 (demo_central [1]))) = []"
  using closing_the_last_tab_stops_monitoring [of "demo_central [1, 2]" "demo_tab 1"]
    closing_the_last_tab_stops_monitoring [of "demo_central [1]" "demo_tab 1"]
  by (simp add: demo_central_facts last_tab_def)

lemma deleting_a_target_clears_its_incidents_witness:
  "al_states (ce_alerts (snd (handle_target_delete 0 ''a'' (demo_central [1])))) = [demo_incidents ! 1]"
  using deleting_a_target_clears_its_incidents [of "demo_central [1]" "''a''" _ 0, OF _ _ _ prod.collapse [symmetric]]
  by (simp add: demo_central_facts demo_incidents_def concerns_def)

end
