(* ===== verification/Bandwidth.thy ===== *)
theory Bandwidth
  imports AlertConfig
begin

text \<open>
  The data of the bandwidth monitor: the configuration with its validation and its rows in the \<open>config\<close>
  table (\<open>internal/bandwidth/config.go\<close>), and the table of test results with the rolling baseline
  (\<open>internal/storage/bandwidth.go\<close>). Floats are rationals with the rounding of every operation as an
  argument. How floats and lists of strings are written in a row is \<open>strconv\<close> and \<open>encoding/json\<close>; a
  \<open>codec\<close> holds both directions.
\<close>

section \<open>Configuration\<close>

record bandwidth_config =
  bc_enabled :: bool
  bc_cadence :: string
  bc_chart :: string
  bc_interval :: int
  bc_times :: "string list"
  bc_timezone :: string
  bc_directions :: string
  bc_server_mode :: string
  bc_server_id :: "int option"
  bc_derate :: rat
  bc_days :: int
  bc_metric :: string
  bc_floor :: rat
  bc_pause :: bool

definition default_bandwidth_config :: bandwidth_config where
  "default_bandwidth_config = \<lparr>bc_enabled = False, bc_cadence = ''times'', bc_chart = ''view'', bc_interval = 60,
     bc_times = [''02:00''], bc_timezone = [], bc_directions = ''both'', bc_server_mode = ''auto'',
     bc_server_id = None, bc_derate = 1/2, bc_days = 7, bc_metric = ''median'', bc_floor = 10, bc_pause = True\<rparr>"

definition min_baseline_samples :: nat where "min_baseline_samples = 7"

text \<open>\<open>^([01][0-9]|2[0-3]):[0-5][0-9]$\<close>. (\<open>$\<close> is the end of the text: the expression has no \<open>m\<close> flag.)\<close>

definition hhmm_ok :: "string \<Rightarrow> bool" where
  "hhmm_ok s = (case s of
     [a, b, c, d, e] \<Rightarrow> (a \<in> {CHR ''0'', CHR ''1''} \<and> is_digit b \<or> a = CHR ''2'' \<and> b \<in> set ''0123'')
       \<and> c = CHR '':'' \<and> d \<in> set ''012345'' \<and> is_digit e
   | _ \<Rightarrow> False)"

datatype bandwidth_problem =
    BadChartWindow string | BadCadence string | BadInterval int | BadTimeCount nat | BadTime string | BadZone string
  | BadDirections string | BadServerMode string | NoServerId | BadThreshold rat | BadDays int | BadMetric string | BadFloor rat

definition chart_windows :: "string list" where
  "chart_windows = [''view'', ''1h'', ''6h'', ''24h'', ''7d'', ''30d'']"

text \<open>All problems, in the order of the checks; \<open>zones\<close> tells whether \<open>time.LoadLocation\<close> knows a name.\<close>

definition validate_bandwidth :: "(string \<Rightarrow> bool) \<Rightarrow> bandwidth_config \<Rightarrow> bandwidth_problem list" where
  "validate_bandwidth zones c =
     (if bc_chart c \<in> set chart_windows then [] else [BadChartWindow (bc_chart c)])
   @ (if bc_cadence c \<in> {''times'', ''interval''} then [] else [BadCadence (bc_cadence c)])
   @ (if bc_interval c < 15 \<or> bc_interval c > 1440 then [BadInterval (bc_interval c)] else [])
   @ (let n = length (bc_times c) in if n < 1 \<or> n > 6 then [BadTimeCount n] else [])
   @ map BadTime (filter (\<lambda>t. \<not> hhmm_ok t) (bc_times c))
   @ (if bc_timezone c \<noteq> [] \<and> \<not> zones (bc_timezone c) then [BadZone (bc_timezone c)] else [])
   @ (if bc_directions c \<in> {''both'', ''down_only'', ''up_only''} then [] else [BadDirections (bc_directions c)])
   @ (if bc_server_mode c \<in> {''auto'', ''pinned''} then [] else [BadServerMode (bc_server_mode c)])
   @ (if bc_server_mode c = ''pinned'' \<and> bc_server_id c = None then [NoServerId] else [])
   @ (if bc_derate c < 1/10 \<or> bc_derate c > 9/10 then [BadThreshold (bc_derate c)] else [])
   @ (if bc_days c \<in> {1, 3, 7, 14, 30} then [] else [BadDays (bc_days c)])
   @ (if bc_metric c \<in> {''median'', ''p50'', ''trimmed_mean''} then [] else [BadMetric (bc_metric c)])
   @ (if bc_floor c < 1 \<or> bc_floor c > 100000 then [BadFloor (bc_floor c)] else [])"

section \<open>Rows\<close>

record codec =
  cd_float :: "rat \<Rightarrow> string"
  cd_parse_float :: "string \<Rightarrow> rat option"
  cd_times :: "string list \<Rightarrow> string"
  cd_parse_times :: "string \<Rightarrow> string list option"

datatype bandwidth_field =
    BEnabled | BChart | BCadence | BInterval | BTimes | BTimezone | BDirections | BServerMode | BServerId
  | BDerate | BDays | BMetric | BFloor | BPause

fun bandwidth_key :: "bandwidth_field \<Rightarrow> string" where
  "bandwidth_key BEnabled = ''bandwidth.enabled''"
| "bandwidth_key BCadence = ''bandwidth.cadence_mode''"
| "bandwidth_key BInterval = ''bandwidth.interval_minutes''"
| "bandwidth_key BTimes = ''bandwidth.scheduled_times''"
| "bandwidth_key BTimezone = ''bandwidth.timezone''"
| "bandwidth_key BDirections = ''bandwidth.directions''"
| "bandwidth_key BServerMode = ''bandwidth.server_mode''"
| "bandwidth_key BServerId = ''bandwidth.server_id''"
| "bandwidth_key BDerate = ''bandwidth.derate_threshold''"
| "bandwidth_key BDays = ''bandwidth.baseline_days''"
| "bandwidth_key BMetric = ''bandwidth.baseline_metric''"
| "bandwidth_key BFloor = ''bandwidth.health_check_floor_mbps''"
| "bandwidth_key BPause = ''bandwidth.pause_icmp_during_test''"
| "bandwidth_key BChart = ''bandwidth.chart_window''"

definition key_install_dismissed :: string where
  "key_install_dismissed = ''bandwidth.install_banner_dismissed_for_version''"
definition key_derate_dismissed :: string where
  "key_derate_dismissed = ''bandwidth.derate_banner_dismissed_incident_ts''"
definition key_run_in_flight :: string where
  "key_run_in_flight = ''bandwidth.run_in_flight''"

text \<open>\<open>ConfigWithPrefix\<close>: \<open>LIKE\<close> of the prefix.\<close>

definition config_with_prefix :: "bool \<Rightarrow> string \<Rightarrow> kv \<Rightarrow> kv option" where
  "config_with_prefix fault prefix kv = (if fault then None else Some (\<lambda>k. if has_prefix k prefix then kv k else None))"

text \<open>One block of \<open>LoadConfig\<close>: a value that does not parse leaves the field alone.\<close>

fun overlay :: "codec \<Rightarrow> bandwidth_field \<Rightarrow> string \<Rightarrow> bandwidth_config \<Rightarrow> bandwidth_config" where
  "overlay cd BEnabled v c = c\<lparr>bc_enabled := (v = ''true'')\<rparr>"
| "overlay cd BChart v c = (if v \<in> set chart_windows then c\<lparr>bc_chart := v\<rparr> else c)"
| "overlay cd BCadence v c = c\<lparr>bc_cadence := v\<rparr>"
| "overlay cd BInterval v c = (case go_atoi v of Some n \<Rightarrow> c\<lparr>bc_interval := n\<rparr> | None \<Rightarrow> c)"
| "overlay cd BTimes v c = (case cd_parse_times cd v of
      Some ts \<Rightarrow> if ts \<noteq> [] then c\<lparr>bc_times := ts\<rparr> else c | None \<Rightarrow> c)"
| "overlay cd BTimezone v c = c\<lparr>bc_timezone := v\<rparr>"
| "overlay cd BDirections v c = c\<lparr>bc_directions := v\<rparr>"
| "overlay cd BServerMode v c = c\<lparr>bc_server_mode := v\<rparr>"
| "overlay cd BServerId v c = (case go_atoi v of Some n \<Rightarrow> c\<lparr>bc_server_id := Some n\<rparr> | None \<Rightarrow> c)"
| "overlay cd BDerate v c = (case cd_parse_float cd v of Some x \<Rightarrow> c\<lparr>bc_derate := x\<rparr> | None \<Rightarrow> c)"
| "overlay cd BDays v c = (case go_atoi v of Some n \<Rightarrow> c\<lparr>bc_days := n\<rparr> | None \<Rightarrow> c)"
| "overlay cd BMetric v c = c\<lparr>bc_metric := v\<rparr>"
| "overlay cd BFloor v c = (case cd_parse_float cd v of Some x \<Rightarrow> c\<lparr>bc_floor := x\<rparr> | None \<Rightarrow> c)"
| "overlay cd BPause v c = c\<lparr>bc_pause := (v = ''true'')\<rparr>"

definition load_order :: "bandwidth_field list" where
  "load_order = [BEnabled, BChart, BCadence, BInterval, BTimes, BTimezone, BDirections, BServerMode, BServerId,
     BDerate, BDays, BMetric, BFloor, BPause]"

definition overlay_row :: "codec \<Rightarrow> kv \<Rightarrow> bandwidth_field \<Rightarrow> bandwidth_config \<Rightarrow> bandwidth_config" where
  "overlay_row cd rows f c = (case rows (bandwidth_key f) of None \<Rightarrow> c | Some v \<Rightarrow> overlay cd f v c)"

definition load_bandwidth_config :: "codec \<Rightarrow> bool \<Rightarrow> kv \<Rightarrow> bandwidth_config option" where
  "load_bandwidth_config cd fault kv = (case config_with_prefix fault ''bandwidth.'' kv of
     None \<Rightarrow> None | Some rows \<Rightarrow> Some (fold (overlay_row cd rows) load_order default_bandwidth_config))"

section \<open>Test results\<close>

record bandwidth_sample =
  bw_ts :: int
  bw_down :: rat
  bw_up :: rat
  bw_ping :: rat
  bw_bytes_down :: int
  bw_bytes_up :: int
  bw_duration :: int
  bw_server_id :: "int option"
  bw_server_name :: "string option"
  bw_ok :: bool
  bw_error :: "string option"
  bw_derate :: bool

text \<open>The timestamp is the primary key; \<open>fault\<close> is the failure of the statement.\<close>

definition record_bandwidth_sample :: "bool \<Rightarrow> bandwidth_sample \<Rightarrow> bandwidth_sample list \<Rightarrow> bool \<times> bandwidth_sample list" where
  "record_bandwidth_sample fault s rows =
     (if fault \<or> bw_ts s \<in> bw_ts ` set rows then (False, rows) else (True, rows @ [s]))"

definition list_bandwidth_samples :: "bool \<Rightarrow> int \<Rightarrow> int \<Rightarrow> bandwidth_sample list \<Rightarrow> bandwidth_sample list option" where
  "list_bandwidth_samples fault since till rows =
     (if fault then None
      else Some (sort_key bw_ts (filter (\<lambda>s. since \<le> bw_ts s \<and> bw_ts s \<le> till) rows)))"

definition latest_bandwidth_sample :: "bool \<Rightarrow> bandwidth_sample list \<Rightarrow> bandwidth_sample option option" where
  "latest_bandwidth_sample fault rows =
     (if fault then None else Some (if rows = [] then None else Some (last (sort_key bw_ts rows))))"

record baseline =
  bl_down :: rat
  bl_up :: rat
  bl_n :: nat
  bl_at :: int

definition median :: "(rat \<Rightarrow> rat) \<Rightarrow> rat list \<Rightarrow> rat" where
  "median rnd vals = (let v = sort vals; n = length v
     in if n = 0 then 0 else if n mod 2 = 1 then v ! (n div 2)
        else rnd (rnd (v ! (n div 2 - 1) + v ! (n div 2)) / 2))"

text \<open>A tenth of the count, rounded down, is dropped at each end.\<close>

definition trimmed_mean :: "(rat \<Rightarrow> rat) \<Rightarrow> rat list \<Rightarrow> rat" where
  "trimmed_mean rnd vals = (let v = sort vals; n = length v; trim = n div 10; m = take (n - 2 * trim) (drop trim v)
     in if n = 0 then 0 else rnd (fold (\<lambda>x acc. rnd (acc + x)) m 0 / of_nat (length m)))"

definition baseline_rows :: "int \<Rightarrow> rat \<Rightarrow> int \<Rightarrow> bandwidth_sample list \<Rightarrow> bandwidth_sample list" where
  "baseline_rows days flr till rows = sort_key bw_ts (filter (\<lambda>s. till - days * 86400000 \<le> bw_ts s \<and> bw_ts s \<le> till
     \<and> bw_ok s \<and> flr \<le> bw_down s \<and> flr \<le> bw_up s) rows)"

text \<open>\<open>ComputeBandwidthBaseline\<close>: \<^const>\<open>None\<close> for an error, \<^term>\<open>Some None\<close> below the minimum count.\<close>

definition compute_baseline :: "(rat \<Rightarrow> rat) \<Rightarrow> bool \<Rightarrow> string \<Rightarrow> int \<Rightarrow> rat \<Rightarrow> int \<Rightarrow> nat \<Rightarrow> bandwidth_sample list
    \<Rightarrow> baseline option option" where
  "compute_baseline rnd fault metric days flr till at_least rows =
     (if fault then None
      else (let qs = baseline_rows days flr till rows;
                agg = (if metric = ''trimmed_mean'' then trimmed_mean rnd else median rnd)
            in if length qs < at_least then Some None
               else Some (Some \<lparr>bl_down = agg (map bw_down qs), bl_up = agg (map bw_up qs), bl_n = length qs, bl_at = till\<rparr>)))"

end
