(* ===== verification/BandwidthSchedule.thy ===== *)
theory BandwidthSchedule
  imports Bandwidth
begin

text \<open>
  When the next speed test is due (\<open>internal/bandwidth/runner.go\<close>): \<open>PrevScheduled\<close>, \<open>NextScheduled\<close> and
  \<open>NextIntervalRun\<close>. A time zone is its offset at every instant; \<open>time.Date\<close> is the algorithm of Go's
  package. A local reading is the number of nanoseconds that the clock on the wall shows since its own
  midnight of January 1, 1970.
\<close>

section \<open>Wall clocks\<close>

type_synonym zone = "instant \<Rightarrow> duration"

definition go_day :: duration where "go_day = 24 * go_hour"

definition wall :: "zone \<Rightarrow> instant \<Rightarrow> int" where "wall z t = t + z t"
definition clock_hour :: "zone \<Rightarrow> instant \<Rightarrow> int" where "clock_hour z t = wall z t mod go_day div go_hour"
definition clock_minute :: "zone \<Rightarrow> instant \<Rightarrow> int" where "clock_minute z t = wall z t mod go_hour div go_minute"

text \<open>\<open>time.Date\<close>: the offset is looked up at the reading taken as UTC, and again at the instant found.\<close>

definition go_date :: "zone \<Rightarrow> int \<Rightarrow> instant" where "go_date z w = w - z (w - z w)"

text \<open>The calendar day of \<open>AddDate(0, 0, k)\<close>.\<close>

definition day_after :: "zone \<Rightarrow> instant \<Rightarrow> int \<Rightarrow> int" where
  "day_after z now k = wall z (go_date z (wall z now + k * go_day)) div go_day"

definition on_day :: "zone \<Rightarrow> int \<Rightarrow> int \<times> int \<Rightarrow> instant" where
  "on_day z day hm = go_date z (day * go_day + fst hm * go_hour + snd hm * go_minute)"

section \<open>Entries of the schedule\<close>

text \<open>\<open>fmt.Sscanf\<close> with \<open>"%d:%d"\<close>: blanks before a number, a sign, digits; what follows is not looked at.\<close>

definition scan_int :: "string \<Rightarrow> (int \<times> string) option" where
  "scan_int s0 = (let s = dropWhile (\<lambda>c. c = CHR '' '' \<or> c = CHR 0x09) s0;
       sign = takeWhile (\<lambda>c. c = CHR ''+'' \<or> c = CHR ''-'') (take 1 s);
       digits = takeWhile is_digit (drop (length sign) s)
     in map_option (\<lambda>n. (n, drop (length sign + length digits) s)) (go_atoi (sign @ digits)))"

definition scan_hhmm :: "string \<Rightarrow> (int \<times> int) option" where
  "scan_hhmm s = (case scan_int s of
     None \<Rightarrow> None
   | Some (h, rest) \<Rightarrow> (case rest of [] \<Rightarrow> None | c # minutes \<Rightarrow> if c \<noteq> CHR '':'' then None
       else (case scan_int minutes of None \<Rightarrow> None | Some (m, _) \<Rightarrow> Some (h, m))))"

text \<open>A time that the zone skips on that day is left out.\<close>

definition occurrence :: "zone \<Rightarrow> int \<Rightarrow> string \<Rightarrow> instant option" where
  "occurrence z day entry = (case scan_hhmm entry of
     None \<Rightarrow> None
   | Some hm \<Rightarrow> (let t = on_day z day hm
       in if clock_hour z t \<noteq> fst hm \<or> clock_minute z t \<noteq> snd hm then None else Some t))"

definition candidates :: "zone \<Rightarrow> instant \<Rightarrow> string list \<Rightarrow> int list \<Rightarrow> instant list" where
  "candidates z now entries offsets =
     concat (map (\<lambda>k. List.map_filter (occurrence z (day_after z now k)) entries) offsets)"

definition later :: "instant \<Rightarrow> instant \<Rightarrow> instant option \<Rightarrow> instant option" where
  "later now t best = (if \<not> now < t \<and> (case best of None \<Rightarrow> True | Some b \<Rightarrow> b < t) then Some t else best)"

definition sooner :: "instant \<Rightarrow> instant \<Rightarrow> instant option \<Rightarrow> instant option" where
  "sooner now t best = (if now < t \<and> (case best of None \<Rightarrow> True | Some b \<Rightarrow> t < b) then Some t else best)"

definition prev_scheduled :: "instant \<Rightarrow> string list \<Rightarrow> zone \<Rightarrow> instant option" where
  "prev_scheduled now entries z = fold (later now) (candidates z now entries [0, -1, -2]) None"

definition next_scheduled :: "instant \<Rightarrow> string list \<Rightarrow> zone \<Rightarrow> instant option" where
  "next_scheduled now entries z = fold (sooner now) (candidates z now entries [0, 1, 2]) None"

text \<open>The anchor of the interval mode is the later of the last stored test and the last attempt;
  \<^const>\<open>zero_time\<close> is no attempt.\<close>

definition next_interval_run :: "bandwidth_sample option \<Rightarrow> instant \<Rightarrow> int \<Rightarrow> instant \<Rightarrow> instant" where
  "next_interval_run latest attempted minutes now =
     (let anchor = (case latest of Some s \<Rightarrow> if attempted < of_unix_milli (bw_ts s) then of_unix_milli (bw_ts s) else attempted
                                 | None \<Rightarrow> attempted);
          nxt = anchor + minutes * go_minute
      in if anchor = zero_time then now + 30 * go_second
         else if nxt < now + go_second then now + go_second else nxt)"

section \<open>The soonest and the latest candidate\<close>

definition displays :: "zone \<Rightarrow> string list \<Rightarrow> instant \<Rightarrow> bool" where
  "displays z entries t \<longleftrightarrow> list_ex (\<lambda>e. scan_hhmm e = Some (clock_hour z t, clock_minute z t)) entries"

lemma occurrence_shows: "occurrence z day e = Some t \<Longrightarrow> scan_hhmm e = Some (clock_hour z t, clock_minute z t)"
  by (auto simp: occurrence_def Let_def split: option.splits if_splits)

lemma in_candidates:
  "t \<in> set (candidates z now entries ks) \<longleftrightarrow>
     (\<exists>k \<in> set ks. \<exists>e \<in> set entries. occurrence z (day_after z now k) e = Some t)"
  by (force simp: candidates_def map_filter_def)

lemma candidates_show: "t \<in> set (candidates z now entries ks) \<Longrightarrow> displays z entries t"
  by (auto simp: in_candidates displays_def list_ex_iff dest!: occurrence_shows)

lemma sooner_None: "fold (sooner now) ts (Some b) \<noteq> None"
  by (induction ts arbitrary: b) (auto simp: sooner_def)

lemma fold_soonest:
  "(fold (sooner now) ts best = None \<longrightarrow> best = None \<and> (\<forall>t \<in> set ts. t \<le> now))
   \<and> (\<forall>r. fold (sooner now) ts best = Some r \<longrightarrow>
        (best = Some r \<or> r \<in> set ts \<and> now < r) \<and> (\<forall>t \<in> set ts. now < t \<longrightarrow> r \<le> t) \<and> (\<forall>b. best = Some b \<longrightarrow> r \<le> b))"
proof (induction ts arbitrary: best)
  case (Cons t ts)
  show ?case
  proof (cases "sooner now t best = best")
    case True
    then have "now < t \<longrightarrow> (\<exists>b. best = Some b \<and> b \<le> t)"
      by (auto simp: sooner_def split: if_splits option.splits)
    then show ?thesis using Cons.IH [of best] True by fastforce
  next
    case False
    then have "now < t" "sooner now t best = Some t" "\<forall>b. best = Some b \<longrightarrow> t < b"
      by (auto simp: sooner_def split: if_splits option.splits)
    then show ?thesis using Cons.IH [of "Some t"] sooner_None [of now ts t] by fastforce
  qed
qed simp

lemma fold_latest:
  "(\<forall>b. best = Some b \<longrightarrow> b \<le> now) \<Longrightarrow> fold (later now) ts best = Some r \<Longrightarrow> (r \<in> set ts \<or> best = Some r) \<and> r \<le> now"
proof (induction ts arbitrary: best)
  case (Cons t ts)
  have "(\<forall>b. later now t best = Some b \<longrightarrow> b \<le> now)" using Cons.prems(1) by (auto simp: later_def)
  from Cons.IH [OF this] Cons.prems(2) show ?case by (auto simp: later_def split: if_splits)
qed auto

lemma prev_scheduled_Some: "prev_scheduled now entries z = Some t \<Longrightarrow> displays z entries t \<and> t \<le> now"
  unfolding prev_scheduled_def using fold_latest [of None now "candidates z now entries [0, -1, -2]" t]
  by (auto dest: candidates_show)

lemma next_scheduled_Some:
  assumes "next_scheduled now entries z = Some t"
  shows "displays z entries t \<and> now < t \<and> t \<in> set (candidates z now entries [0, 1, 2])
    \<and> (\<forall>u \<in> set (candidates z now entries [0, 1, 2]). now < u \<longrightarrow> t \<le> u)"
  using assms fold_soonest [of now "candidates z now entries [0, 1, 2]" None] candidates_show
  unfolding next_scheduled_def by blast

section \<open>Zones without transitions\<close>

lemma digit_bound: "is_digit c \<Longrightarrow> digit_value c \<le> 9"
  unfolding is_digit_def digit_value_def by linarith

lemma digit_no_sign: "is_digit c \<Longrightarrow> c \<noteq> CHR ''-'' \<and> c \<noteq> CHR ''+'' \<and> c \<noteq> CHR '' '' \<and> c \<noteq> CHR 0x09"
  by (auto simp: is_digit_def)

lemma atoi_two_digits:
  assumes "is_digit a" "is_digit b"
  shows "go_atoi [a, b] = Some (int (10 * digit_value a + digit_value b))"
proof -
  have "int (10 * digit_value a + digit_value b) < 2 ^ 63"
    using digit_bound [OF assms(1)] digit_bound [OF assms(2)] by simp
  then show ?thesis using assms digit_no_sign [OF assms(1)]
    by (simp add: go_atoi_def signed_digits_def Let_def add.commute)
qed

lemma scan_two_digits:
  assumes "is_digit a" "is_digit b" "rest = [] \<or> \<not> is_digit (hd rest)"
  shows "scan_int (a # b # rest) = Some (int (10 * digit_value a + digit_value b), rest)"
proof -
  have "takeWhile is_digit rest = []" using assms(3) by (cases rest) auto
  then show ?thesis
    using assms atoi_two_digits [OF assms(1,2)] digit_no_sign [OF assms(1)] by (simp add: scan_int_def Let_def)
qed

lemma valid_entry_scans:
  assumes "hhmm_ok s"
  obtains h m where "scan_hhmm s = Some (h, m)" "0 \<le> h" "h \<le> 23" "0 \<le> m" "m \<le> 59"
proof -
  obtain a b d e where s: "s = [a, b, CHR '':'', d, e]"
    and ab: "a \<in> {CHR ''0'', CHR ''1''} \<and> is_digit b \<or> a = CHR ''2'' \<and> b \<in> set ''0123''"
    and de: "d \<in> set ''012345''" "is_digit e"
    using assms by (auto simp: hhmm_ok_def split: list.splits)
  have digits: "is_digit a" "is_digit b" "is_digit d" using ab de(1) by (auto simp: is_digit_def)
  have h: "10 * digit_value a + digit_value b \<le> 23"
    using ab digit_bound [of b] by (auto simp: digit_value_def)
  have m: "10 * digit_value d + digit_value e \<le> 59"
    using de digit_bound [of e] by (auto simp: digit_value_def)
  have "scan_hhmm s = Some (int (10 * digit_value a + digit_value b), int (10 * digit_value d + digit_value e))"
    using scan_two_digits [of a b "[CHR '':'', d, e]"] scan_two_digits [of d e "[]"] digits de(2)
    by (simp add: s scan_hhmm_def)
  then show thesis by (rule that) (use h m in linarith)+
qed

text \<open>A clock rings when it shows the hour and the minute of an entry with no second past.\<close>

definition rings :: "zone \<Rightarrow> string list \<Rightarrow> instant \<Rightarrow> bool" where
  "rings z entries t \<longleftrightarrow> displays z entries t \<and> wall z t mod go_minute = 0"

lemma day_units: "go_day = 86400000000000" "go_hour = 3600000000000" "go_minute = 60000000000"
  by (simp_all add: go_day_def go_units)

lemma reading_parts:
  assumes "0 \<le> h" "h \<le> 23" "0 \<le> m" "m \<le> (59 :: int)"
  shows "(day * go_day + h * go_hour + m * go_minute) div go_day = day"
    "(day * go_day + h * go_hour + m * go_minute) mod go_day div go_hour = h"
    "(day * go_day + h * go_hour + m * go_minute) mod go_hour div go_minute = m"
    "(day * go_day + h * go_hour + m * go_minute) mod go_minute = 0"
proof -
  have r: "0 \<le> h * go_hour + m * go_minute" "h * go_hour + m * go_minute < go_day"
    "0 \<le> m * go_minute" "m * go_minute < go_hour" using assms by (simp_all add: day_units)
  have e: "day * go_day + h * go_hour + m * go_minute = (h * go_hour + m * go_minute) + day * go_day" by simp
  have e': "day * go_day + h * go_hour + m * go_minute = m * go_minute + (day * 24 + h) * go_hour"
    by (simp add: day_units algebra_simps)
  have e'': "day * go_day + h * go_hour + m * go_minute = (day * 1440 + h * 60 + m) * go_minute"
    by (simp add: day_units algebra_simps)
  have d: "(h * go_hour + m * go_minute) div go_day = 0" "(h * go_hour + m * go_minute) mod go_day = h * go_hour + m * go_minute"
    using r by simp_all
  have "go_day \<noteq> 0" "go_hour \<noteq> 0" "go_minute \<noteq> 0" by (simp_all add: day_units)
  note nz = this
  show "(day * go_day + h * go_hour + m * go_minute) div go_day = day"
    unfolding e by (subst div_mult_self1 [OF nz(1)]) (simp add: d(1))
  have "(h * go_hour + m * go_minute) div go_hour = h"
    using r(3,4) nz(2) by (metis add.commute add_cancel_right_right div_mult_self1 div_pos_pos_trivial)
  then show "(day * go_day + h * go_hour + m * go_minute) mod go_day div go_hour = h"
    unfolding e using d(2) by (simp only: mod_mult_self1)
  show "(day * go_day + h * go_hour + m * go_minute) mod go_hour div go_minute = m"
    unfolding e' using r(3,4) nz(3) by (simp only: mod_mult_self1) (simp add: mod_pos_pos_trivial)
  show "(day * go_day + h * go_hour + m * go_minute) mod go_minute = 0"
    unfolding e'' by simp
qed

lemma fixed_zone:
  assumes "\<And>t. z t = c"
  shows "wall z t = t + c" "go_date z w = w - c" "day_after z now k = (now + c) div go_day + k"
proof -
  show "wall z t = t + c" "go_date z w = w - c" using assms by (simp_all add: wall_def go_date_def)
  have nz: "go_day \<noteq> 0" by (simp add: day_units)
  have "day_after z now k = (now + c + k * go_day) div go_day"
    unfolding day_after_def wall_def go_date_def assms by (rule arg_cong [where f = "\<lambda>x. x div go_day"]) simp
  then show "day_after z now k = (now + c) div go_day + k" by (simp only: div_mult_self1 [OF nz] add.commute)
qed

lemma fixed_occurrence:
  assumes "\<And>t. z t = c" "scan_hhmm e = Some (h, m)" "0 \<le> h" "h \<le> 23" "0 \<le> m" "m \<le> 59"
  shows "occurrence z day e = Some (day * go_day + h * go_hour + m * go_minute - c)"
  using assms reading_parts [OF assms(3-6)]
  by (simp add: occurrence_def on_day_def fixed_zone [OF assms(1)] clock_hour_def clock_minute_def Let_def)

lemma ringing_instant:
  assumes "\<And>t. z t = c" "scan_hhmm e = Some (clock_hour z u, clock_minute z u)" "wall z u mod go_minute = 0"
  shows "u = (wall z u div go_day) * go_day + clock_hour z u * go_hour + clock_minute z u * go_minute - c"
    "0 \<le> clock_hour z u" "clock_hour z u \<le> 23" "0 \<le> clock_minute z u" "clock_minute z u \<le> 59"
proof -
  define w where "w = u + c"
  have w: "wall z u = w" by (simp add: w_def fixed_zone [OF assms(1)])
  define r where "r = w mod go_day"
  have r: "0 \<le> r" "r < go_day" by (simp_all add: r_def day_units)
  have rh: "w mod go_hour = r mod go_hour" unfolding r_def by (rule mod_mod_cancel [symmetric]) (simp add: day_units)
  have rm: "w mod go_minute = r mod go_hour mod go_minute"
    unfolding rh [symmetric] by (rule mod_mod_cancel [symmetric]) (simp add: day_units)
  have "r mod go_hour = r mod go_hour div go_minute * go_minute"
    using assms(3) rm w by (metis add.right_neutral div_mult_mod_eq)
  then have "r = r div go_hour * go_hour + r mod go_hour div go_minute * go_minute" by (metis div_mult_mod_eq)
  moreover have "w = w div go_day * go_day + r" unfolding r_def by (rule div_mult_mod_eq [symmetric])
  ultimately have "w = w div go_day * go_day + r div go_hour * go_hour + r mod go_hour div go_minute * go_minute"
    by linarith
  then show "u = (wall z u div go_day) * go_day + clock_hour z u * go_hour + clock_minute z u * go_minute - c"
    unfolding clock_hour_def clock_minute_def w rh r_def [symmetric] by (simp add: w_def)
  show "0 \<le> clock_hour z u" "clock_hour z u \<le> 23"
    using r by (simp_all add: clock_hour_def w r_def [symmetric] day_units)
  have "0 \<le> r mod go_hour" "r mod go_hour < go_hour" by (simp_all add: day_units)
  then show "0 \<le> clock_minute z u" "clock_minute z u \<le> 59"
    by (simp_all add: clock_minute_def w rh day_units)
qed



end
