(* ===== verification/BandwidthRunner.thy ===== *)
theory BandwidthRunner
  imports BandwidthSchedule
begin

text \<open>
  The runner of \<open>internal/bandwidth/runner.go\<close>: the choice of the next test (\<open>nextRun\<close>), one test
  (\<open>execute\<close>, \<open>derated\<close>), the scheduler loop (\<open>Run\<close>) and what the API does to it meanwhile
  (\<open>Reconfigure\<close>, \<open>RunNow\<close>) as a step relation. The two channels hold one element each. The tables may be
  changed by the rest of the program between any two steps, and each statement may fail.
\<close>

record runner =
  ru_cfg :: bandwidth_config
  ru_in_flight :: bool
  ru_last :: instant
  ru_kill :: bool
  ru_reconf :: "bandwidth_config option"
  ru_manual :: bool
  ru_paused :: bool
  ru_rows :: "bandwidth_sample list"
  ru_kv :: kv
  ru_faults :: "bool list"

definition new_runner :: "bandwidth_config \<Rightarrow> bool \<Rightarrow> bandwidth_sample list \<Rightarrow> kv \<Rightarrow> bool list \<Rightarrow> runner" where
  "new_runner cfg kill rows kv faults = \<lparr>ru_cfg = cfg, ru_in_flight = False, ru_last = zero_time, ru_kill = kill,
     ru_reconf = None, ru_manual = False, ru_paused = False, ru_rows = rows, ru_kv = kv, ru_faults = faults\<rparr>"

definition ru_fault :: "runner \<Rightarrow> bool \<times> runner" where
  "ru_fault r = (case ru_faults r of [] \<Rightarrow> (False, r) | b # bs \<Rightarrow> (b, r\<lparr>ru_faults := bs\<rparr>))"

definition ru_set_config :: "string \<Rightarrow> string \<Rightarrow> runner \<Rightarrow> runner" where
  "ru_set_config k v r = (case ru_fault r of (b, r1) \<Rightarrow> r1\<lparr>ru_kv := snd (set_config b k v (ru_kv r1))\<rparr>)"

definition ru_delete_config :: "string \<Rightarrow> runner \<Rightarrow> runner" where
  "ru_delete_config k r = (case ru_fault r of (b, r1) \<Rightarrow> r1\<lparr>ru_kv := snd (delete_config b k (ru_kv r1))\<rparr>)"

section \<open>Choosing the next test\<close>

definition catchup_delay :: duration where "catchup_delay = 4 * go_minute"

record clocks =
  ck_local :: zone
  ck_zone :: "string \<Rightarrow> zone option"

definition location :: "clocks \<Rightarrow> bandwidth_config \<Rightarrow> zone" where
  "location ck c = (if bc_timezone c = [] then ck_local ck
     else case ck_zone ck (bc_timezone c) of None \<Rightarrow> ck_local ck | Some z \<Rightarrow> z)"

text \<open>\<open>n1\<close> and \<open>n2\<close> are the two readings of the clock.\<close>

definition missed :: "bandwidth_sample option option \<Rightarrow> instant \<Rightarrow> bool" where
  "missed latest slot \<longleftrightarrow> (case latest of None \<Rightarrow> False | Some None \<Rightarrow> True
     | Some (Some s) \<Rightarrow> of_unix_milli (bw_ts s) < slot)"

definition next_run :: "clocks \<Rightarrow> instant \<Rightarrow> instant \<Rightarrow> bandwidth_config \<Rightarrow> runner \<Rightarrow> instant option \<times> runner" where
  "next_run ck n1 n2 cfg r =
     (if bc_cadence cfg = ''interval''
      then (case ru_fault r of (b, r1) \<Rightarrow>
              (map_option (\<lambda>l. next_interval_run l (ru_last r) (bc_interval cfg) n1) (latest_bandwidth_sample b (ru_rows r1)), r1))
      else (let z = location ck cfg; nxt = next_scheduled n2 (bc_times cfg) z
            in case prev_scheduled n1 (bc_times cfg) z of
                 None \<Rightarrow> (nxt, r)
               | Some slot \<Rightarrow>
                   if \<not> ru_last r < slot then (nxt, r)
                   else (case ru_fault r of (b, r1) \<Rightarrow>
                      (if missed (latest_bandwidth_sample b (ru_rows r1)) slot then Some (n2 + catchup_delay) else nxt, r1))))"

section \<open>One test\<close>

record speedtest =
  st_type :: string
  st_latency :: rat
  st_down :: rat
  st_bytes_down :: int
  st_up :: rat
  st_bytes_up :: int
  st_server_id :: int
  st_server_name :: string

text \<open>What the command answers: an error, output that does not decode (with the decoder's words), or a value.\<close>

datatype cli_outcome = CliError string | CliGarbage string | CliValue speedtest

definition start_test :: "instant \<Rightarrow> bandwidth_config \<Rightarrow> runner \<Rightarrow> bool \<times> runner" where
  "start_test now cfg r =
     (if ru_kill r \<or> ru_in_flight r then (False, r)
      else (True, (ru_set_config key_run_in_flight ''true'' (r\<lparr>ru_in_flight := True, ru_last := now\<rparr>))
              \<lparr>ru_paused := bc_pause cfg \<or> ru_paused r\<rparr>))"

definition blank_sample :: "instant \<Rightarrow> instant \<Rightarrow> bandwidth_sample" where
  "blank_sample started finished = \<lparr>bw_ts = unix_milli started, bw_down = 0, bw_up = 0, bw_ping = 0, bw_bytes_down = 0,
     bw_bytes_up = 0, bw_duration = (finished - started) div go_ms, bw_server_id = None, bw_server_name = None,
     bw_ok = False, bw_error = None, bw_derate = False\<rparr>"

definition unexpected_output :: "string \<Rightarrow> string" where
  "unexpected_output e = ''unexpected speedtest output (parse: '' @ e @ '')''"

definition sample_of_outcome :: "(rat \<Rightarrow> rat) \<Rightarrow> cli_outcome \<Rightarrow> bandwidth_sample \<Rightarrow> bandwidth_sample" where
  "sample_of_outcome rnd out s = (case out of
     CliError e \<Rightarrow> s\<lparr>bw_error := Some (take 200 e)\<rparr>
   | CliGarbage e \<Rightarrow> s\<lparr>bw_error := Some (unexpected_output e)\<rparr>
   | CliValue v \<Rightarrow>
       if st_type v \<noteq> ''result'' then s\<lparr>bw_error := Some (unexpected_output ''<nil>'')\<rparr>
       else s\<lparr>bw_ok := True, bw_down := rnd (rnd (st_down v * 8) / 1000000), bw_up := rnd (rnd (st_up v * 8) / 1000000),
              bw_ping := st_latency v, bw_bytes_down := st_bytes_down v, bw_bytes_up := st_bytes_up v,
              bw_server_id := (if st_server_id v = 0 then None else Some (st_server_id v)),
              bw_server_name := (if st_server_name v = [] then None else Some (st_server_name v))\<rparr>)"

definition below_baseline :: "(rat \<Rightarrow> rat) \<Rightarrow> bandwidth_config \<Rightarrow> baseline \<Rightarrow> bandwidth_sample \<Rightarrow> bool" where
  "below_baseline rnd cfg b s =
     (let down = bw_down s < rnd (bl_down b * bc_derate cfg); up = bw_up s < rnd (bl_up b * bc_derate cfg)
      in if bc_directions cfg = ''down_only'' then down
         else if bc_directions cfg = ''up_only'' then up else down \<or> up)"

definition derated :: "(rat \<Rightarrow> rat) \<Rightarrow> bandwidth_config \<Rightarrow> bandwidth_sample \<Rightarrow> runner \<Rightarrow> bool \<times> runner" where
  "derated rnd cfg s r = (case ru_fault r of (b, r1) \<Rightarrow>
     (case compute_baseline rnd b (bc_metric cfg) (bc_days cfg) (bc_floor cfg) (bw_ts s) min_baseline_samples (ru_rows r1) of
        Some (Some base) \<Rightarrow> below_baseline rnd cfg base s | _ \<Rightarrow> False, r1))"

definition judge_sample :: "(rat \<Rightarrow> rat) \<Rightarrow> bandwidth_config \<Rightarrow> bandwidth_sample \<Rightarrow> runner \<Rightarrow> bandwidth_sample \<times> runner" where
  "judge_sample rnd cfg s r =
     (if bw_ok s then (case derated rnd cfg s r of (d, r1) \<Rightarrow> (s\<lparr>bw_derate := d\<rparr>, r1)) else (s, r))"

definition store_sample :: "bandwidth_sample \<Rightarrow> runner \<Rightarrow> runner" where
  "store_sample s r = (case ru_fault r of (b, r1) \<Rightarrow>
     (case record_bandwidth_sample b s (ru_rows r1) of
        (False, _) \<Rightarrow> r1
      | (True, rows) \<Rightarrow> (let r2 = r1\<lparr>ru_rows := rows\<rparr>
          in if bw_ok s \<and> \<not> bw_derate s then ru_delete_config key_derate_dismissed r2 else r2)))"

text \<open>The deferred calls run in reverse: probing resumes, then the flag and its row go.\<close>

definition finish_test :: "(rat \<Rightarrow> rat) \<Rightarrow> instant \<Rightarrow> instant \<Rightarrow> bandwidth_config \<Rightarrow> cli_outcome \<Rightarrow> runner \<Rightarrow> runner" where
  "finish_test rnd started finished cfg out r =
     (case judge_sample rnd cfg (sample_of_outcome rnd out (blank_sample started finished)) r of (s, r1) \<Rightarrow>
        (let r2 = store_sample s r1; r3 = (if bc_pause cfg then r2\<lparr>ru_paused := False\<rparr> else r2)
         in ru_delete_config key_run_in_flight (r3\<lparr>ru_in_flight := False\<rparr>)))"

section \<open>The scheduler\<close>

definition reconfigure_runner :: "bandwidth_config \<Rightarrow> runner \<Rightarrow> runner" where
  "reconfigure_runner cfg r = r\<lparr>ru_reconf := Some cfg\<rparr>"

definition run_now :: "runner \<Rightarrow> bool \<times> runner" where
  "run_now r = (if ru_kill r \<or> ru_in_flight r then (False, r) else (True, r\<lparr>ru_manual := True\<rparr>))"

text \<open>Where the loop is: at its top, in the select with the timer of this turn, in a test, or off for good.\<close>

datatype runner_phase = Top | Waiting bandwidth_config "instant option" | Testing bandwidth_config instant | Off

record scheduler =
  sd_now :: instant
  sd_phase :: runner_phase
  sd_runner :: runner

definition boot :: "instant \<Rightarrow> runner \<Rightarrow> scheduler" where
  "boot now r = (if ru_kill r then \<lparr>sd_now = now, sd_phase = Off, sd_runner = r\<rparr>
     else \<lparr>sd_now = now, sd_phase = Top, sd_runner = ru_delete_config key_run_in_flight r\<rparr>)"

text \<open>A label tells which test started: by the timer or on request, when, and under which configuration.\<close>

datatype runner_label =
    Armed | Applied | Started bool instant bandwidth_config | Refused | Finished
  | AskedConfig bandwidth_config | AskedRun | Elsewhere

definition arm :: "clocks \<Rightarrow> instant \<Rightarrow> instant \<Rightarrow> runner \<Rightarrow> instant option \<times> runner" where
  "arm ck n1 n2 r = (if bc_enabled (ru_cfg r) then next_run ck n1 n2 (ru_cfg r) r else (None, r))"

definition begin_test :: "bool \<Rightarrow> instant \<Rightarrow> bandwidth_config \<Rightarrow> runner \<Rightarrow> runner_label \<times> scheduler" where
  "begin_test timed t cfg r = (case start_test t cfg r of
     (True, r1) \<Rightarrow> (Started timed t cfg, \<lparr>sd_now = t, sd_phase = Testing cfg t, sd_runner = r1\<rparr>)
   | (False, r1) \<Rightarrow> (Refused, \<lparr>sd_now = t, sd_phase = Top, sd_runner = r1\<rparr>))"

inductive sched_step :: "clocks \<Rightarrow> (rat \<Rightarrow> rat) \<Rightarrow> scheduler \<Rightarrow> runner_label \<Rightarrow> scheduler \<Rightarrow> bool"
  for ck rnd where
  turn: "sd_phase s = Top \<Longrightarrow> sd_now s \<le> n1 \<Longrightarrow> n1 \<le> n2 \<Longrightarrow> n2 \<le> t \<Longrightarrow> arm ck n1 n2 (sd_runner s) = (d, r)
    \<Longrightarrow> sched_step ck rnd s Armed \<lparr>sd_now = t, sd_phase = Waiting (ru_cfg (sd_runner s)) d, sd_runner = r\<rparr>"
| take_config: "sd_phase s = Waiting cfg d \<Longrightarrow> ru_reconf (sd_runner s) = Some c \<Longrightarrow> sd_now s \<le> t
    \<Longrightarrow> sched_step ck rnd s Applied
          \<lparr>sd_now = t, sd_phase = Top, sd_runner = (sd_runner s)\<lparr>ru_reconf := None, ru_cfg := c\<rparr>\<rparr>"
| take_request: "sd_phase s = Waiting cfg d \<Longrightarrow> ru_manual (sd_runner s) \<Longrightarrow> sd_now s \<le> t
    \<Longrightarrow> begin_test False t cfg ((sd_runner s)\<lparr>ru_manual := False\<rparr>) = (l, s')
    \<Longrightarrow> sched_step ck rnd s l s'"
| take_timer: "sd_phase s = Waiting cfg (Some d) \<Longrightarrow> d \<le> t \<Longrightarrow> sd_now s \<le> t
    \<Longrightarrow> begin_test True t cfg (sd_runner s) = (l, s')
    \<Longrightarrow> sched_step ck rnd s l s'"
| test_ends: "sd_phase s = Testing cfg started \<Longrightarrow> sd_now s \<le> t
    \<Longrightarrow> sched_step ck rnd s Finished
          \<lparr>sd_now = t, sd_phase = Top, sd_runner = finish_test rnd started t cfg out (sd_runner s)\<rparr>"
| asked_config: "sched_step ck rnd s (AskedConfig c) (s\<lparr>sd_runner := reconfigure_runner c (sd_runner s)\<rparr>)"
| asked_run: "sched_step ck rnd s AskedRun (s\<lparr>sd_runner := snd (run_now (sd_runner s))\<rparr>)"
| elsewhere: "sched_step ck rnd s Elsewhere
    (s\<lparr>sd_runner := (sd_runner s)\<lparr>ru_rows := rows, ru_kv := kv, ru_faults := faults\<rparr>\<rparr>)"

inductive sched_run :: "clocks \<Rightarrow> (rat \<Rightarrow> rat) \<Rightarrow> scheduler \<Rightarrow> runner_label list \<Rightarrow> scheduler \<Rightarrow> bool"
  for ck rnd where
  done_run: "sched_run ck rnd s [] s"
| more_run: "sched_step ck rnd s l s1 \<Longrightarrow> sched_run ck rnd s1 ls s2 \<Longrightarrow> sched_run ck rnd s (l # ls) s2"

inductive_cases run_NilE: "sched_run ck rnd s [] s'"
inductive_cases run_ConsE: "sched_run ck rnd s (l # ls) s'"

end
