(* ===== verification/BandwidthSpacing.thy ===== *)
theory BandwidthSpacing
  imports BandwidthRunner
begin

text \<open>
  What holds of every run of the bandwidth scheduler, whatever the store does: how far apart the tests are
  that it starts by itself, when probing is paused, and how a failed lookup stops the interval mode.
\<close>

section \<open>What a test leaves alone\<close>

lemma ru_fault_frame [simp]:
  "ru_cfg (snd (ru_fault r)) = ru_cfg r" "ru_in_flight (snd (ru_fault r)) = ru_in_flight r"
  "ru_last (snd (ru_fault r)) = ru_last r" "ru_kill (snd (ru_fault r)) = ru_kill r"
  "ru_reconf (snd (ru_fault r)) = ru_reconf r" "ru_manual (snd (ru_fault r)) = ru_manual r"
  "ru_paused (snd (ru_fault r)) = ru_paused r" "ru_rows (snd (ru_fault r)) = ru_rows r"
  by (simp_all add: ru_fault_def split: list.split)

lemma ru_statement_frame [simp]:
  "ru_cfg (ru_set_config k v r) = ru_cfg r" "ru_cfg (ru_delete_config k r) = ru_cfg r"
  "ru_in_flight (ru_set_config k v r) = ru_in_flight r" "ru_in_flight (ru_delete_config k r) = ru_in_flight r"
  "ru_last (ru_set_config k v r) = ru_last r" "ru_last (ru_delete_config k r) = ru_last r"
  "ru_kill (ru_set_config k v r) = ru_kill r" "ru_kill (ru_delete_config k r) = ru_kill r"
  "ru_reconf (ru_set_config k v r) = ru_reconf r" "ru_reconf (ru_delete_config k r) = ru_reconf r"
  "ru_manual (ru_set_config k v r) = ru_manual r" "ru_manual (ru_delete_config k r) = ru_manual r"
  "ru_paused (ru_set_config k v r) = ru_paused r" "ru_paused (ru_delete_config k r) = ru_paused r"
  by (simp_all add: ru_set_config_def ru_delete_config_def split: prod.split)
     (metis ru_fault_frame snd_conv)+

definition control :: "runner \<Rightarrow> bool \<times> bool \<times> instant" where
  "control r = (ru_in_flight r, ru_paused r, ru_last r)"

lemma same_control:
  "ru_in_flight r1 = ru_in_flight r \<Longrightarrow> ru_paused r1 = ru_paused r \<Longrightarrow> ru_last r1 = ru_last r \<Longrightarrow> ru_kill r1 = ru_kill r
    \<Longrightarrow> control r1 = control r \<and> ru_kill r1 = ru_kill r"
  by (simp add: control_def)

lemma fault_control: "ru_fault r = (b, r1) \<Longrightarrow> control r1 = control r \<and> ru_kill r1 = ru_kill r"
  using ru_fault_frame [of r] by (simp add: control_def)

lemma judge_control: "judge_sample rnd cfg s r = (s', r1) \<Longrightarrow> control r1 = control r \<and> ru_kill r1 = ru_kill r"
  by (auto simp: judge_sample_def derated_def split: if_splits prod.splits dest: fault_control)

lemma store_control: "control (store_sample s r) = control r \<and> ru_kill (store_sample s r) = ru_kill r"
proof -
  obtain b r1 where e: "ru_fault r = (b, r1)" by fastforce
  obtain ok rows where e': "record_bandwidth_sample b s (ru_rows r1) = (ok, rows)" by fastforce
  show ?thesis using fault_control [OF e]
    by (cases ok) (simp_all add: store_sample_def control_def Let_def e e')
qed

lemma finish_control:
  "ru_in_flight (finish_test rnd a b cfg out r) = False"
  "ru_last (finish_test rnd a b cfg out r) = ru_last r" "ru_kill (finish_test rnd a b cfg out r) = ru_kill r"
  "ru_paused (finish_test rnd a b cfg out r) = (if bc_pause cfg then False else ru_paused r)"
proof -
  obtain s r1 where e: "judge_sample rnd cfg (sample_of_outcome rnd out (blank_sample a b)) r = (s, r1)" by fastforce
  have "control (store_sample s r1) = control r \<and> ru_kill (store_sample s r1) = ru_kill r"
    using judge_control [OF e] store_control [of s r1] by simp
  then show "ru_in_flight (finish_test rnd a b cfg out r) = False"
    "ru_last (finish_test rnd a b cfg out r) = ru_last r" "ru_kill (finish_test rnd a b cfg out r) = ru_kill r"
    "ru_paused (finish_test rnd a b cfg out r) = (if bc_pause cfg then False else ru_paused r)"
    by (simp_all add: finish_test_def e Let_def control_def)
qed

lemma next_run_control: "next_run ck n1 n2 cfg r = (d, r1) \<Longrightarrow> control r1 = control r \<and> ru_kill r1 = ru_kill r"
  by (auto simp: next_run_def Let_def split: if_splits prod.splits option.splits dest: fault_control)

lemma arm_control: "arm ck n1 n2 r = (d, r1) \<Longrightarrow> control r1 = control r \<and> ru_kill r1 = ru_kill r"
  by (auto simp: arm_def split: if_splits dest: next_run_control)

lemma start_test_cases:
  obtains "start_test t cfg r = (False, r)" "ru_kill r \<or> ru_in_flight r"
  | r1 where "start_test t cfg r = (True, r1)" "\<not> ru_kill r" "\<not> ru_in_flight r" "ru_in_flight r1" "ru_last r1 = t"
      "ru_kill r1 = ru_kill r" "ru_paused r1 = (bc_pause cfg \<or> ru_paused r)"
proof (cases "ru_kill r \<or> ru_in_flight r")
  case True
  then show thesis using that(1) by (simp add: start_test_def)
next
  case False
  then show thesis by (intro that(2)) (auto simp: start_test_def)
qed

section \<open>The distance between tests\<close>

text \<open>A deadline respects a configuration after an attempt when an entry of its schedule lies in between, or
  its interval has passed.\<close>

definition spaced :: "clocks \<Rightarrow> bandwidth_config \<Rightarrow> instant \<Rightarrow> instant \<Rightarrow> bool" where
  "spaced ck c a d \<longleftrightarrow> (if bc_cadence c = ''interval'' then a + bc_interval c * go_minute \<le> d
     else \<exists>slot. a < slot \<and> slot \<le> d \<and> displays (location ck c) (bc_times c) slot)"

lemma spaced_mono: "spaced ck c a d \<Longrightarrow> a' \<le> a \<Longrightarrow> d \<le> d' \<Longrightarrow> spaced ck c a' d'"
  by (auto simp: spaced_def split: if_splits intro: order_le_less_trans order_trans)

lemma next_interval_spaced:
  assumes "zero_time < a" shows "a + m * go_minute \<le> next_interval_run l a m now"
proof -
  have "a \<le> (case l of Some s \<Rightarrow> if a < of_unix_milli (bw_ts s) then of_unix_milli (bw_ts s) else a | None \<Rightarrow> a)"
    by (simp split: option.split)
  then show ?thesis using assms by (simp add: next_interval_run_def Let_def)
qed

lemma next_run_spaced:
  assumes "next_run ck n1 n2 cfg r = (Some d, r1)" "zero_time < ru_last r" "ru_last r \<le> n1" "n1 \<le> n2"
  shows "spaced ck cfg (ru_last r) d"
proof (cases "bc_cadence cfg = ''interval''")
  case True
  then obtain l where "d = next_interval_run l (ru_last r) (bc_interval cfg) n1"
    using assms(1) by (auto simp: next_run_def split: prod.splits)
  then show ?thesis using True next_interval_spaced [OF assms(2)] by (simp add: spaced_def)
next
  case False
  define z where "z = location ck cfg"
  have soon: "spaced ck cfg (ru_last r) d" if "next_scheduled n2 (bc_times cfg) z = Some d"
    using next_scheduled_Some [OF that] assms(3,4) False by (auto simp: spaced_def z_def intro!: exI [of _ d])
  have late: "spaced ck cfg (ru_last r) d"
    if "prev_scheduled n1 (bc_times cfg) z = Some slot" "ru_last r < slot" "d = n2 + catchup_delay" for slot
    using prev_scheduled_Some [OF that(1)] that(2,3) assms(4) False
    by (auto simp: spaced_def z_def catchup_delay_def go_units intro!: exI [of _ slot])
  show ?thesis
  proof (cases "prev_scheduled n1 (bc_times cfg) z")
    case None
    then show ?thesis using assms(1) False soon by (simp add: next_run_def Let_def z_def)
  next
    case (Some slot)
    show ?thesis
    proof (cases "ru_last r < slot")
      case True
      then show ?thesis using assms(1) False Some soon late [OF Some]
        by (auto simp: next_run_def Let_def z_def split: prod.splits if_splits)
    next
      case no: False
      then show ?thesis using assms(1) False Some soon by (simp add: next_run_def Let_def z_def)
    qed
  qed
qed

text \<open>After an attempt at \<open>a\<close>, until the next one of the scheduler.\<close>

definition attempted_since :: "clocks \<Rightarrow> instant \<Rightarrow> scheduler \<Rightarrow> bool" where
  "attempted_since ck a s \<longleftrightarrow> zero_time < a \<and> a \<le> ru_last (sd_runner s) \<and> ru_last (sd_runner s) \<le> sd_now s
     \<and> (\<forall>c d. sd_phase s = Waiting c (Some d) \<longrightarrow> spaced ck c a d)"

lemma begin_test_cases:
  assumes "begin_test timed t cfg r = (l, s')"
  obtains "l = Refused" "s' = \<lparr>sd_now = t, sd_phase = Top, sd_runner = r\<rparr>" "ru_kill r \<or> ru_in_flight r"
  | r1 where "l = Started timed t cfg" "s' = \<lparr>sd_now = t, sd_phase = Testing cfg t, sd_runner = r1\<rparr>" "\<not> ru_kill r"
      "ru_in_flight r1" "ru_last r1 = t" "ru_kill r1 = ru_kill r" "ru_paused r1 = (bc_pause cfg \<or> ru_paused r)"
  using assms by (cases rule: start_test_cases [of t cfg r]) (auto simp: begin_test_def)

lemma attempted_step:
  assumes "sched_step ck rnd s l s'" "attempted_since ck a s"
  shows "attempted_since ck a s' \<and> (\<forall>t c. l = Started True t c \<longrightarrow> spaced ck c a t)"
  using assms(1)
proof cases
  case (turn n1 n2 t d r)
  have since: "zero_time < a" "a \<le> ru_last (sd_runner s)" "ru_last (sd_runner s) \<le> sd_now s"
    using assms(2) by (simp_all add: attempted_since_def)
  have r: "ru_last r = ru_last (sd_runner s)" using arm_control [OF turn(7)] by (simp add: control_def)
  have "spaced ck (ru_cfg (sd_runner s)) a e" if "d = Some e" for e
  proof (rule spaced_mono [OF next_run_spaced])
    show "next_run ck n1 n2 (ru_cfg (sd_runner s)) (sd_runner s) = (Some e, r)"
      using turn(7) that by (simp add: arm_def split: if_splits)
  qed (use turn since in simp_all)
  then show ?thesis using turn r since by (simp add: attempted_since_def)
next
  case (take_request cfg d t)
  then show ?thesis using assms(2) by (elim begin_test_cases) (auto simp: attempted_since_def)
next
  case (take_timer cfg d t)
  then have "spaced ck cfg a t" using assms(2) by (auto simp: attempted_since_def intro: spaced_mono)
  with take_timer show ?thesis using assms(2) by (elim begin_test_cases) (auto simp: attempted_since_def)
next
  case asked_run
  then show ?thesis using assms(2) by (simp add: attempted_since_def run_now_def)
qed (use assms(2) in \<open>auto simp: attempted_since_def finish_control reconfigure_runner_def\<close>)

lemma started_since:
  assumes "sched_step ck rnd s (Started timed a c) s'" "zero_time < sd_now s"
  shows "attempted_since ck a s'"
  using assms(1)
proof cases
  case (take_request cfg d t)
  then show ?thesis using assms(2) by (elim begin_test_cases) (auto simp: attempted_since_def)
next
  case (take_timer cfg d t)
  then show ?thesis using assms(2) by (elim begin_test_cases) (auto simp: attempted_since_def)
qed

lemma step_clock: "sched_step ck rnd s l s' \<Longrightarrow> sd_now s \<le> sd_now s'"
  by (induction rule: sched_step.cases) (auto elim: begin_test_cases)

lemma run_clock: "sched_run ck rnd s ls s' \<Longrightarrow> sd_now s \<le> sd_now s'"
  by (induction rule: sched_run.induct) (auto dest: step_clock)

lemma run_append:
  "sched_run ck rnd s (xs @ ys) s' \<Longrightarrow> \<exists>m. sched_run ck rnd s xs m \<and> sched_run ck rnd m ys s'"
  by (induction xs arbitrary: s) (auto intro: sched_run.intros elim!: run_ConsE, blast intro: sched_run.intros)

lemma attempted_run:
  assumes "sched_run ck rnd s ls s'" "attempted_since ck a s"
  shows "attempted_since ck a s'"
  using assms by (induction rule: sched_run.induct) (auto dest: attempted_step)


section \<open>Pausing and the kill switch\<close>

definition is_testing :: "runner_phase \<Rightarrow> bool" where
  "is_testing ph \<longleftrightarrow> (case ph of Testing _ _ \<Rightarrow> True | _ \<Rightarrow> False)"

definition orderly :: "scheduler \<Rightarrow> bool" where
  "orderly s \<longleftrightarrow> (ru_in_flight (sd_runner s) \<longleftrightarrow> is_testing (sd_phase s))
     \<and> (ru_paused (sd_runner s) \<longrightarrow> (\<exists>c a. sd_phase s = Testing c a \<and> bc_pause c))
     \<and> (ru_kill (sd_runner s) \<longrightarrow> sd_phase s = Off)"

lemma orderly_step:
  assumes "sched_step ck rnd s l s'" "orderly s"
  shows "orderly s' \<and> ru_kill (sd_runner s') = ru_kill (sd_runner s)
    \<and> (ru_kill (sd_runner s) \<longrightarrow> l \<in> {AskedRun, Elsewhere} \<union> range AskedConfig)"
  using assms(1)
proof cases
  case (turn n1 n2 t d r)
  then show ?thesis using arm_control [OF turn(7)] assms(2) by (auto simp: orderly_def is_testing_def control_def)
next
  case (take_request cfg d t)
  then show ?thesis using assms(2) by (elim begin_test_cases) (auto simp: orderly_def is_testing_def)
next
  case (take_timer cfg d t)
  then show ?thesis using assms(2) by (elim begin_test_cases) (auto simp: orderly_def is_testing_def)
qed (use assms(2) in \<open>auto simp: orderly_def is_testing_def finish_control reconfigure_runner_def run_now_def\<close>)

text \<open>From the start of the daemon on, the prober is paused only while a test runs that asks for it, a test is
  in flight exactly while the scheduler is in one, and with the kill switch set no test ever starts, neither
  by the timer nor on request.\<close>

theorem probing_pauses_only_for_tests:
  assumes "sched_run ck rnd (boot now (new_runner cfg kill rows kv faults)) ls s"
  shows "(ru_paused (sd_runner s) \<longrightarrow> ru_in_flight (sd_runner s))
    \<and> (ru_in_flight (sd_runner s) \<longleftrightarrow> is_testing (sd_phase s))
    \<and> (kill \<longrightarrow> list_all (\<lambda>l. \<forall>b t c. l \<noteq> Started b t c) ls \<and> \<not> ru_in_flight (sd_runner s))"
proof -
  have run: "orderly s2 \<and> ru_kill (sd_runner s2) = ru_kill (sd_runner s1)
      \<and> (ru_kill (sd_runner s1) \<longrightarrow> list_all (\<lambda>l. l \<in> {AskedRun, Elsewhere} \<union> range AskedConfig) ls)"
    if "sched_run ck rnd s1 ls s2" "orderly s1" for s1 s2 ls
    using that
  proof (induction rule: sched_run.induct)
    case (more_run s1 l m ls s2)
    show ?case using orderly_step [OF more_run.hyps(1) more_run.prems] more_run.IH by simp
  qed simp
  define s0 where "s0 = boot now (new_runner cfg kill rows kv faults)"
  have "orderly s0" "ru_kill (sd_runner s0) = kill"
    by (simp_all add: s0_def boot_def new_runner_def orderly_def is_testing_def)
  then have "orderly s" "ru_kill (sd_runner s) = kill"
      "kill \<longrightarrow> list_all (\<lambda>l. l \<in> {AskedRun, Elsewhere} \<union> range AskedConfig) ls"
    using run [OF assms [folded s0_def]] by simp_all
  then show ?thesis by (auto simp: orderly_def is_testing_def list_all_iff)
qed

section \<open>A failed lookup in interval mode\<close>

definition idle_for_good :: "scheduler \<Rightarrow> bool" where
  "idle_for_good s \<longleftrightarrow> (\<exists>c. sd_phase s = Waiting c None) \<and> ru_reconf (sd_runner s) = None \<and> \<not> ru_manual (sd_runner s)"

text \<open>C24: In interval mode one failed lookup of the latest result ends the schedule: the turn arms no timer, and
  until somebody asks for a test or saves the configuration the scheduler never moves again, however well the
  store works from then on.\<close>

theorem failed_lookup_ends_the_schedule:
  assumes "sched_step ck rnd s Armed s1" "sched_run ck rnd s1 ls s2"
    "bc_enabled (ru_cfg (sd_runner s))" "bc_cadence (ru_cfg (sd_runner s)) = ''interval''"
    "ru_faults (sd_runner s) = True # faults" "ru_reconf (sd_runner s) = None" "\<not> ru_manual (sd_runner s)"
    "list_all (\<lambda>l. l \<noteq> AskedRun \<and> (\<forall>c. l \<noteq> AskedConfig c)) ls"
  shows "list_all (\<lambda>l. l = Elsewhere) ls \<and> sd_phase s2 = sd_phase s1"
proof -
  have start: "idle_for_good s1"
    using assms(1)
  proof cases
    case (turn n1 n2 t d r)
    then show ?thesis using assms(3-7)
      by (auto simp: arm_def next_run_def ru_fault_def latest_bandwidth_sample_def idle_for_good_def)
  qed (auto elim: begin_test_cases)
  have step: "l = Elsewhere \<and> sd_phase m' = sd_phase m \<and> idle_for_good m'"
    if "sched_step ck rnd m l m'" "idle_for_good m" "l \<noteq> AskedRun" "\<forall>c. l \<noteq> AskedConfig c" for m l m'
    using that by cases (auto simp: idle_for_good_def)
  show ?thesis using assms(2) start assms(8)
  proof (induction rule: sched_run.induct)
    case (more_run m l m' ls m2)
    then show ?case using step [OF more_run.hyps(1)] by auto
  qed simp
qed

section \<open>A scheduler in interval mode\<close>

definition hourly :: bandwidth_config where
  "hourly = default_bandwidth_config\<lparr>bc_enabled := True, bc_cadence := ''interval''\<rparr>"

definition utc :: clocks where
  "utc = \<lparr>ck_local = \<lambda>_. 0, ck_zone = \<lambda>_. None\<rparr>"

definition hourly_runner :: "bool list \<Rightarrow> runner" where
  "hourly_runner faults = new_runner hourly False [] Map.empty faults"

text \<open>The store loses the result of the first test.\<close>

lemma hourly_run:
  "\<exists>s'. sched_run utc id (boot 0 (hourly_runner [False, False, False, True])) ([Armed] @ Started True (30 * go_second) hourly
      # [Finished, Armed] @ [Started True (3630 * go_second) hourly]) s'"
proof -
  have now: "unix_milli (30 * go_second) = 30000" "zero_time < 0" by (simp_all add: unix_milli_def go_units zero_time_def)
  let ?r = "\<lambda>last flight paused fs. \<lparr>ru_cfg = hourly, ru_in_flight = flight, ru_last = last, ru_kill = False, ru_reconf = None,
     ru_manual = False, ru_paused = paused, ru_rows = [], ru_kv = (if flight then [key_run_in_flight \<mapsto> ''true''] else Map.empty), ru_faults = fs\<rparr>"
  let ?s = "\<lambda>now ph r. \<lparr>sd_now = now, sd_phase = ph, sd_runner = r\<rparr>"
  have cfg: "bc_enabled hourly" "bc_cadence hourly = ''interval''" "bc_interval hourly = 60" "bc_pause hourly"
    by (simp_all add: hourly_def default_bandwidth_config_def)
  have le: "30 * go_second \<le> 70 * go_second" by (simp add: go_units)
  have key: "key_run_in_flight \<noteq> []" by (simp add: key_run_in_flight_def)
  have s0: "boot 0 (hourly_runner [False, False, False, True]) = ?s 0 Top (?r zero_time False False [False, False, True])"
    by (simp add: boot_def hourly_runner_def new_runner_def ru_delete_config_def ru_fault_def delete_config_def)
  have a1: "arm utc 0 0 (?r zero_time False False [False, False, True]) = (Some (30 * go_second), ?r zero_time False False [False, True])"
    by (simp add: arm_def next_run_def cfg ru_fault_def latest_bandwidth_sample_def next_interval_run_def)
  have b1: "begin_test True (30 * go_second) hourly (?r zero_time False False [False, True])
      = (Started True (30 * go_second) hourly, ?s (30 * go_second) (Testing hourly (30 * go_second)) (?r (30 * go_second) True True [True]))"
    by (simp add: begin_test_def start_test_def ru_set_config_def ru_fault_def set_config_def key cfg)
  have f1: "finish_test id (30 * go_second) (70 * go_second) hourly (CliError ''timeout'') (?r (30 * go_second) True True [True])
      = ?r (30 * go_second) False False []"
    by (simp add: finish_test_def judge_sample_def sample_of_outcome_def blank_sample_def store_sample_def ru_fault_def
        record_bandwidth_sample_def ru_delete_config_def delete_config_def cfg)
  have a2: "arm utc (70 * go_second) (70 * go_second) (?r (30 * go_second) False False [])
      = (Some (3630 * go_second), ?r (30 * go_second) False False [])"
    by (simp add: arm_def next_run_def cfg ru_fault_def latest_bandwidth_sample_def next_interval_run_def go_units zero_time_def)
  obtain s' where b2: "begin_test True (3630 * go_second) hourly (?r (30 * go_second) False False [])
      = (Started True (3630 * go_second) hourly, s')"
    by (simp add: begin_test_def start_test_def)
  have "sched_step utc id (boot 0 (hourly_runner [False, False, False, True])) Armed
      (?s 0 (Waiting hourly (Some (30 * go_second))) (?r zero_time False False [False, True]))"
    using sched_step.turn [of "?s 0 Top (?r zero_time False False [False, False, True])" 0 0 0 utc] a1 by (simp add: s0)
  moreover have "sched_step utc id (?s 0 (Waiting hourly (Some (30 * go_second))) (?r zero_time False False [False, True]))
      (Started True (30 * go_second) hourly) (?s (30 * go_second) (Testing hourly (30 * go_second)) (?r (30 * go_second) True True [True]))"
    by (rule sched_step.take_timer [where t = "30 * go_second"]) (simp, simp, simp add: go_units, use b1 in simp)
  moreover have "sched_step utc id (?s (30 * go_second) (Testing hourly (30 * go_second)) (?r (30 * go_second) True True [True])) Finished
      (?s (70 * go_second) Top (?r (30 * go_second) False False []))"
    using sched_step.test_ends [of "?s (30 * go_second) (Testing hourly (30 * go_second)) (?r (30 * go_second) True True [True])"
        hourly "30 * go_second" "70 * go_second" utc id "CliError ''timeout''"] f1 le by simp
  moreover have "sched_step utc id (?s (70 * go_second) Top (?r (30 * go_second) False False [])) Armed
      (?s (70 * go_second) (Waiting hourly (Some (3630 * go_second))) (?r (30 * go_second) False False []))"
    using sched_step.turn [of "?s (70 * go_second) Top (?r (30 * go_second) False False [])" "70 * go_second" "70 * go_second"
        "70 * go_second" utc] a2 by simp
  moreover have "sched_step utc id (?s (70 * go_second) (Waiting hourly (Some (3630 * go_second))) (?r (30 * go_second) False False []))
      (Started True (3630 * go_second) hourly) s'"
    by (rule sched_step.take_timer [where t = "3630 * go_second"]) (simp, simp, simp add: go_units, use b2 in simp)
  ultimately show ?thesis unfolding append.simps by (meson sched_run.intros)
qed


lemma probing_pauses_only_for_tests_witness:
  "\<exists>s. sched_run utc id (boot 0 (hourly_runner [])) [AskedRun] s \<and> \<not> ru_paused (sd_runner s)"
proof -
  let ?s = "(boot 0 (hourly_runner []))\<lparr>sd_runner := snd (run_now (sd_runner (boot 0 (hourly_runner []))))\<rparr>"
  have run: "sched_run utc id (boot 0 (hourly_runner [])) [AskedRun] ?s" by (auto intro: sched_run.intros sched_step.intros)
  have "\<not> is_testing (sd_phase ?s)" by (simp add: boot_def is_testing_def hourly_runner_def new_runner_def)
  then show ?thesis using run probing_pauses_only_for_tests [OF run [unfolded hourly_runner_def]] by (auto simp: hourly_runner_def)
qed

lemma failed_lookup_ends_the_schedule_witness:
  "\<exists>s. sched_step utc id (boot 0 (hourly_runner [False, True])) Armed s \<and> \<not> (\<exists>s2. sched_run utc id s [Started True 1 hourly] s2)"
proof -
  have boot: "boot 0 (hourly_runner [False, True]) = \<lparr>sd_now = 0, sd_phase = Top, sd_runner = (hourly_runner [True])\<rparr>"
    by (simp add: boot_def hourly_runner_def new_runner_def ru_delete_config_def ru_fault_def delete_config_def)
  obtain d r where "arm utc 0 0 (hourly_runner [True]) = (d, r)" by fastforce
  then obtain s where s: "sched_step utc id (boot 0 (hourly_runner [False, True])) Armed s"
    using sched_step.turn [of "boot 0 (hourly_runner [False, True])" 0 0 0 utc d r] by (auto simp: boot)
  have "bc_enabled (ru_cfg (hourly_runner [True]))" "bc_cadence (ru_cfg (hourly_runner [True])) = ''interval''"
      "ru_faults (hourly_runner [True]) = [True]" "ru_reconf (hourly_runner [True]) = None" "\<not> ru_manual (hourly_runner [True])"
    by (simp_all add: hourly_runner_def new_runner_def hourly_def default_bandwidth_config_def)
  then show ?thesis
    using s failed_lookup_ends_the_schedule [OF s, of "[Started True 1 hourly]"] by (auto simp: boot)
qed

end
