(* ===== verification/BandwidthApi.thy ===== *)
theory BandwidthApi
  imports BandwidthRunner
begin

text \<open>
  The endpoints of the bandwidth monitor (\<open>internal/server/bandwidth.go\<close>, \<open>bandwidthinstall.go\<close>): reading and
  patching the configuration, the history, the derate status, the run-now request and the install of the
  command line tool. Faults of statements are lists as in the runner.
\<close>

section \<open>Configuration\<close>

record bandwidth_patch =
  bp_enabled :: "bool option"
  bp_cadence :: "string option"
  bp_chart :: "string option"
  bp_interval :: "int option"
  bp_times :: "string list option"
  bp_timezone :: "string option"
  bp_directions :: "string option"
  bp_server_mode :: "string option"
  bp_server_id :: "int option"
  bp_derate :: "rat option"
  bp_days :: "int option"
  bp_metric :: "string option"
  bp_floor :: "rat option"
  bp_pause :: "bool option"
  bp_install_dismissed :: "string option"
  bp_derate_dismissed :: "int option"

definition patched :: "'a option \<Rightarrow> 'a \<Rightarrow> 'a" where
  "patched v old = (case v of None \<Rightarrow> old | Some x \<Rightarrow> x)"

definition apply_patch :: "bandwidth_patch \<Rightarrow> bandwidth_config \<Rightarrow> bandwidth_config" where
  "apply_patch p c = c\<lparr>bc_enabled := patched (bp_enabled p) (bc_enabled c), bc_chart := patched (bp_chart p) (bc_chart c),
     bc_cadence := patched (bp_cadence p) (bc_cadence c), bc_interval := patched (bp_interval p) (bc_interval c),
     bc_times := patched (bp_times p) (bc_times c), bc_timezone := patched (bp_timezone p) (bc_timezone c),
     bc_directions := patched (bp_directions p) (bc_directions c), bc_server_mode := patched (bp_server_mode p) (bc_server_mode c),
     bc_server_id := (case bp_server_id p of None \<Rightarrow> bc_server_id c | i \<Rightarrow> i),
     bc_derate := patched (bp_derate p) (bc_derate c), bc_days := patched (bp_days p) (bc_days c),
     bc_metric := patched (bp_metric p) (bc_metric c), bc_floor := patched (bp_floor p) (bc_floor c),
     bc_pause := patched (bp_pause p) (bc_pause c)\<rparr>"

text \<open>The value of each row a request writes, and the rows in the order the handler collects them.\<close>

fun patch_value :: "codec \<Rightarrow> bandwidth_patch \<Rightarrow> bandwidth_field \<Rightarrow> string option" where
  "patch_value cd p BEnabled = map_option go_format_bool (bp_enabled p)"
| "patch_value cd p BChart = bp_chart p"
| "patch_value cd p BCadence = bp_cadence p"
| "patch_value cd p BInterval = map_option go_itoa (bp_interval p)"
| "patch_value cd p BTimes = map_option (cd_times cd) (bp_times p)"
| "patch_value cd p BTimezone = bp_timezone p"
| "patch_value cd p BDirections = bp_directions p"
| "patch_value cd p BServerMode = bp_server_mode p"
| "patch_value cd p BServerId = map_option go_itoa (bp_server_id p)"
| "patch_value cd p BDerate = map_option (cd_float cd) (bp_derate p)"
| "patch_value cd p BDays = map_option go_itoa (bp_days p)"
| "patch_value cd p BMetric = bp_metric p"
| "patch_value cd p BFloor = map_option (cd_float cd) (bp_floor p)"
| "patch_value cd p BPause = map_option go_format_bool (bp_pause p)"

definition patch_writes :: "codec \<Rightarrow> bandwidth_patch \<Rightarrow> (string \<times> string) list" where
  "patch_writes cd p =
     List.map_filter (\<lambda>f. map_option (\<lambda>v. (bandwidth_key f, v)) (patch_value cd p f)) load_order
     @ (case bp_install_dismissed p of None \<Rightarrow> [] | Some v \<Rightarrow> [(key_install_dismissed, v)])
     @ (case bp_derate_dismissed p of None \<Rightarrow> [] | Some ts \<Rightarrow> [(key_derate_dismissed, go_itoa ts)])"

text \<open>The writes stop at the first that fails.\<close>

fun write_rows :: "(string \<times> string) list \<Rightarrow> bool list \<Rightarrow> kv \<Rightarrow> bool \<times> kv" where
  "write_rows [] faults kv = (True, kv)"
| "write_rows ((k, v) # ws) faults kv =
     (case set_config (faults \<noteq> [] \<and> hd faults) k v kv of
        (True, kv1) \<Rightarrow> write_rows ws (tl faults) kv1 | (False, kv1) \<Rightarrow> (False, kv1))"

text \<open>The answer, the rows, and the configuration handed to the runner, if any.\<close>

definition handle_bandwidth_patch :: "codec \<Rightarrow> (string \<Rightarrow> bool) \<Rightarrow> bool \<Rightarrow> bool list \<Rightarrow> bandwidth_patch option \<Rightarrow> kv
    \<Rightarrow> nat \<times> kv \<times> bandwidth_config option" where
  "handle_bandwidth_patch cd zones load_fault faults body kv = (case body of
     None \<Rightarrow> (400, kv, None)
   | Some p \<Rightarrow> (case load_bandwidth_config cd load_fault kv of
         None \<Rightarrow> (500, kv, None)
       | Some c \<Rightarrow>
           (let cfg = apply_patch p c; ws = patch_writes cd p
            in if ws = [] then (400, kv, None)
               else if validate_bandwidth zones cfg \<noteq> [] then (400, kv, None)
               else (case write_rows ws faults kv of
                   (False, kv1) \<Rightarrow> (500, kv1, None) | (True, kv1) \<Rightarrow> (204, kv1, Some cfg)))))"

record bandwidth_view =
  bv_cfg :: bandwidth_config
  bv_install_dismissed :: "string option"
  bv_derate_dismissed :: "int option"
  bv_in_flight :: bool

definition read_row :: "bool \<Rightarrow> string \<Rightarrow> kv \<Rightarrow> string option" where
  "read_row fault k kv = (case get_config fault k kv of Inl _ \<Rightarrow> None | Inr v \<Rightarrow> v)"

definition handle_bandwidth_get :: "codec \<Rightarrow> bool \<Rightarrow> bool \<Rightarrow> bool \<Rightarrow> runner option \<Rightarrow> kv \<Rightarrow> nat + bandwidth_view" where
  "handle_bandwidth_get cd f1 f2 f3 r kv = (case load_bandwidth_config cd f1 kv of
     None \<Rightarrow> Inl 500
   | Some c \<Rightarrow> Inr \<lparr>bv_cfg = c, bv_install_dismissed = read_row f2 key_install_dismissed kv,
        bv_derate_dismissed = Option.bind (read_row f3 key_derate_dismissed kv) go_atoi,
        bv_in_flight = (case r of None \<Rightarrow> False | Some r \<Rightarrow> ru_in_flight r)\<rparr>)"

section \<open>History and status\<close>

definition parse_window :: "string \<Rightarrow> int \<Rightarrow> int option" where
  "parse_window v dflt = (if v = [] then Some dflt else go_atoi v)"

definition handle_bandwidth_history :: "instant \<Rightarrow> string \<Rightarrow> string \<Rightarrow> bool \<Rightarrow> bandwidth_sample list
    \<Rightarrow> nat + bandwidth_sample list" where
  "handle_bandwidth_history now till since fault rows =
     (case (parse_window till (unix_milli now), parse_window since (unix_milli (now - 7 * 24 * go_hour))) of
        (Some b, Some a) \<Rightarrow> (case list_bandwidth_samples fault a b rows of None \<Rightarrow> Inl 500 | Some ss \<Rightarrow> Inr ss)
      | _ \<Rightarrow> Inl 400)"

text \<open>\<open>derateIncidentStart\<close>: the least flagged timestamp after the last healthy result, 0 when there is none.\<close>

definition last_healthy :: "bandwidth_sample list \<Rightarrow> int" where
  "last_healthy rows = (let hs = map bw_ts (filter (\<lambda>s. \<not> bw_derate s \<and> bw_ok s) rows) in if hs = [] then 0 else Max (set hs))"

definition derate_incident_start :: "bandwidth_sample list \<Rightarrow> int" where
  "derate_incident_start rows =
     (let fs = map bw_ts (filter (\<lambda>s. bw_derate s \<and> bw_ts s > last_healthy rows) rows) in if fs = [] then 0 else Min (set fs))"

record derate_status =
  ds_derated :: bool
  ds_last :: "bandwidth_sample option"
  ds_baseline :: "baseline option"
  ds_since :: "int option"
  ds_dismissed :: "int option"

definition handle_derate_status :: "(rat \<Rightarrow> rat) \<Rightarrow> codec \<Rightarrow> bool \<Rightarrow> bool \<Rightarrow> bool \<Rightarrow> bool \<Rightarrow> bool
    \<Rightarrow> bandwidth_sample list \<Rightarrow> kv \<Rightarrow> nat + derate_status" where
  "handle_derate_status rnd cd f1 f2 f3 f4 f5 rows kv = (case latest_bandwidth_sample f1 rows of
     None \<Rightarrow> Inl 500
   | Some l \<Rightarrow>
       (let derated = (case l of None \<Rightarrow> False | Some s \<Rightarrow> bw_ok s \<and> bw_derate s)
        in Inr \<lparr>ds_derated = derated, ds_last = l,
             ds_baseline = (case (load_bandwidth_config cd f2 kv, l) of
                 (Some c, Some s) \<Rightarrow> (case compute_baseline rnd f3 (bc_metric c) (bc_days c) (bc_floor c) (bw_ts s)
                       min_baseline_samples rows of Some b \<Rightarrow> b | None \<Rightarrow> None)
               | _ \<Rightarrow> None),
             ds_since = (if derated \<and> \<not> f4 \<and> derate_incident_start rows > 0 then Some (derate_incident_start rows) else None),
             ds_dismissed = Option.bind (read_row f5 key_derate_dismissed kv) go_atoi\<rparr>))"

definition handle_bandwidth_run :: "runner option \<Rightarrow> bool \<Rightarrow> nat \<times> runner option" where
  "handle_bandwidth_run r available = (case r of
     None \<Rightarrow> (503, None)
   | Some r \<Rightarrow> if ru_kill r then (503, Some r) else if \<not> available then (503, Some r)
       else (case run_now r of (b, r1) \<Rightarrow> (if b then 202 else 409, Some r1)))"

section \<open>Installing the command line tool\<close>

record install_state =
  is_running :: bool
  is_done :: bool
  is_ok :: bool
  is_output :: string

definition no_install :: install_state where
  "no_install = \<lparr>is_running = False, is_done = False, is_ok = False, is_output = []\<rparr>"

definition max_install_output :: nat where "max_install_output = 8192"

definition install_start :: "install_state \<Rightarrow> nat \<times> install_state" where
  "install_start st = (if is_running st then (409, st)
     else (202, st\<lparr>is_running := True, is_done := False, is_ok := False, is_output := []\<rparr>))"

text \<open>The end of the command keeps the last bytes of its output.\<close>

definition install_end :: "string \<Rightarrow> bool \<Rightarrow> install_state \<Rightarrow> install_state" where
  "install_end out success st =
     (let out = (if length out > max_install_output then drop (length out - max_install_output) out else out)
      in st\<lparr>is_running := False, is_done := True, is_ok := success, is_output := out\<rparr>)"

definition install_status :: "install_state \<Rightarrow> string \<times> string" where
  "install_status st = (if is_running st then (''running'', [])
     else if is_done st \<and> is_ok st then (''ok'', is_output st)
     else if is_done st then (''failed'', is_output st) else (''idle'', []))"

section \<open>A patch is what the next load sees\<close>

text \<open>What a codec has to give back.\<close>

definition codec_keeps :: "codec \<Rightarrow> bandwidth_patch \<Rightarrow> bool" where
  "codec_keeps cd p \<longleftrightarrow> (\<forall>x \<in> set_option (bp_derate p) \<union> set_option (bp_floor p). cd_parse_float cd (cd_float cd x) = Some x)
     \<and> (\<forall>ts \<in> set_option (bp_times p). cd_parse_times cd (cd_times cd ts) = Some ts)"

definition fits_int64 :: "bandwidth_patch \<Rightarrow> bool" where
  "fits_int64 p \<longleftrightarrow> (\<forall>n \<in> set_option (bp_interval p) \<union> set_option (bp_days p) \<union> set_option (bp_server_id p).
     - (2 ^ 63) \<le> n \<and> n < 2 ^ 63)"

lemma bandwidth_key_inj [simp]: "bandwidth_key f = bandwidth_key g \<longleftrightarrow> f = g"
  by (cases f; cases g) simp_all

lemma bandwidth_key_facts [simp]:
  "has_prefix (bandwidth_key f) ''bandwidth.''" "bandwidth_key f \<noteq> key_install_dismissed"
  "bandwidth_key f \<noteq> key_derate_dismissed" "bandwidth_key f \<noteq> []" "key_install_dismissed \<noteq> []" "key_derate_dismissed \<noteq> []"
  by (cases f; simp add: has_prefix_def key_install_dismissed_def key_derate_dismissed_def)+

lemma overlay_other:
  "f \<noteq> BEnabled \<Longrightarrow> bc_enabled (overlay_row cd rows f c) = bc_enabled c"
  "f \<noteq> BChart \<Longrightarrow> bc_chart (overlay_row cd rows f c) = bc_chart c"
  "f \<noteq> BCadence \<Longrightarrow> bc_cadence (overlay_row cd rows f c) = bc_cadence c"
  "f \<noteq> BInterval \<Longrightarrow> bc_interval (overlay_row cd rows f c) = bc_interval c"
  "f \<noteq> BTimes \<Longrightarrow> bc_times (overlay_row cd rows f c) = bc_times c"
  "f \<noteq> BTimezone \<Longrightarrow> bc_timezone (overlay_row cd rows f c) = bc_timezone c"
  "f \<noteq> BDirections \<Longrightarrow> bc_directions (overlay_row cd rows f c) = bc_directions c"
  "f \<noteq> BServerMode \<Longrightarrow> bc_server_mode (overlay_row cd rows f c) = bc_server_mode c"
  "f \<noteq> BServerId \<Longrightarrow> bc_server_id (overlay_row cd rows f c) = bc_server_id c"
  "f \<noteq> BDerate \<Longrightarrow> bc_derate (overlay_row cd rows f c) = bc_derate c"
  "f \<noteq> BDays \<Longrightarrow> bc_days (overlay_row cd rows f c) = bc_days c"
  "f \<noteq> BMetric \<Longrightarrow> bc_metric (overlay_row cd rows f c) = bc_metric c"
  "f \<noteq> BFloor \<Longrightarrow> bc_floor (overlay_row cd rows f c) = bc_floor c"
  "f \<noteq> BPause \<Longrightarrow> bc_pause (overlay_row cd rows f c) = bc_pause c"
  by (cases f; simp add: overlay_row_def split: option.split)+

lemma overlay_own:
  "bc_enabled (overlay_row cd rows BEnabled c) = (case rows (bandwidth_key BEnabled) of None \<Rightarrow> bc_enabled c | Some v \<Rightarrow> (v = ''true''))"
  "bc_chart (overlay_row cd rows BChart c) = (case rows (bandwidth_key BChart) of None \<Rightarrow> bc_chart c | Some v \<Rightarrow> (if v \<in> set chart_windows then v else bc_chart c))"
  "bc_cadence (overlay_row cd rows BCadence c) = (case rows (bandwidth_key BCadence) of None \<Rightarrow> bc_cadence c | Some v \<Rightarrow> v)"
  "bc_interval (overlay_row cd rows BInterval c) = (case rows (bandwidth_key BInterval) of None \<Rightarrow> bc_interval c | Some v \<Rightarrow> (case go_atoi v of Some n \<Rightarrow> n | None \<Rightarrow> bc_interval c))"
  "bc_times (overlay_row cd rows BTimes c) = (case rows (bandwidth_key BTimes) of None \<Rightarrow> bc_times c | Some v \<Rightarrow> (case cd_parse_times cd v of Some ts \<Rightarrow> if ts \<noteq> [] then ts else bc_times c | None \<Rightarrow> bc_times c))"
  "bc_timezone (overlay_row cd rows BTimezone c) = (case rows (bandwidth_key BTimezone) of None \<Rightarrow> bc_timezone c | Some v \<Rightarrow> v)"
  "bc_directions (overlay_row cd rows BDirections c) = (case rows (bandwidth_key BDirections) of None \<Rightarrow> bc_directions c | Some v \<Rightarrow> v)"
  "bc_server_mode (overlay_row cd rows BServerMode c) = (case rows (bandwidth_key BServerMode) of None \<Rightarrow> bc_server_mode c | Some v \<Rightarrow> v)"
  "bc_server_id (overlay_row cd rows BServerId c) = (case rows (bandwidth_key BServerId) of None \<Rightarrow> bc_server_id c | Some v \<Rightarrow> (case go_atoi v of Some n \<Rightarrow> Some n | None \<Rightarrow> bc_server_id c))"
  "bc_derate (overlay_row cd rows BDerate c) = (case rows (bandwidth_key BDerate) of None \<Rightarrow> bc_derate c | Some v \<Rightarrow> (case cd_parse_float cd v of Some x \<Rightarrow> x | None \<Rightarrow> bc_derate c))"
  "bc_days (overlay_row cd rows BDays c) = (case rows (bandwidth_key BDays) of None \<Rightarrow> bc_days c | Some v \<Rightarrow> (case go_atoi v of Some n \<Rightarrow> n | None \<Rightarrow> bc_days c))"
  "bc_metric (overlay_row cd rows BMetric c) = (case rows (bandwidth_key BMetric) of None \<Rightarrow> bc_metric c | Some v \<Rightarrow> v)"
  "bc_floor (overlay_row cd rows BFloor c) = (case rows (bandwidth_key BFloor) of None \<Rightarrow> bc_floor c | Some v \<Rightarrow> (case cd_parse_float cd v of Some x \<Rightarrow> x | None \<Rightarrow> bc_floor c))"
  "bc_pause (overlay_row cd rows BPause c) = (case rows (bandwidth_key BPause) of None \<Rightarrow> bc_pause c | Some v \<Rightarrow> (v = ''true''))"
  by (simp_all add: overlay_row_def split: option.split)

text \<open>Each field of a loaded configuration is decided by its own row.\<close>

definition decided :: "codec \<Rightarrow> kv \<Rightarrow> bandwidth_config" where
  "decided cd rows = fold (overlay_row cd rows) load_order default_bandwidth_config"

lemmas overlay_facts = overlay_other overlay_own

lemma decided_fields:
  "bc_enabled (decided cd rows) = bc_enabled (overlay_row cd rows BEnabled default_bandwidth_config)"
  "bc_chart (decided cd rows) = bc_chart (overlay_row cd rows BChart default_bandwidth_config)"
  "bc_cadence (decided cd rows) = bc_cadence (overlay_row cd rows BCadence default_bandwidth_config)"
  "bc_interval (decided cd rows) = bc_interval (overlay_row cd rows BInterval default_bandwidth_config)"
  "bc_times (decided cd rows) = bc_times (overlay_row cd rows BTimes default_bandwidth_config)"
  "bc_timezone (decided cd rows) = bc_timezone (overlay_row cd rows BTimezone default_bandwidth_config)"
  "bc_directions (decided cd rows) = bc_directions (overlay_row cd rows BDirections default_bandwidth_config)"
  "bc_server_mode (decided cd rows) = bc_server_mode (overlay_row cd rows BServerMode default_bandwidth_config)"
  "bc_server_id (decided cd rows) = bc_server_id (overlay_row cd rows BServerId default_bandwidth_config)"
  "bc_derate (decided cd rows) = bc_derate (overlay_row cd rows BDerate default_bandwidth_config)"
  "bc_days (decided cd rows) = bc_days (overlay_row cd rows BDays default_bandwidth_config)"
  "bc_metric (decided cd rows) = bc_metric (overlay_row cd rows BMetric default_bandwidth_config)"
  "bc_floor (decided cd rows) = bc_floor (overlay_row cd rows BFloor default_bandwidth_config)"
  "bc_pause (decided cd rows) = bc_pause (overlay_row cd rows BPause default_bandwidth_config)"
  by (simp_all add: decided_def load_order_def overlay_facts split: option.split)

lemma load_decided: "load_bandwidth_config cd False kv = Some (decided cd (\<lambda>k. if has_prefix k ''bandwidth.'' then kv k else None))"
  by (simp add: load_bandwidth_config_def config_with_prefix_def decided_def)

lemma write_rows_ok:
  assumes "write_rows ws faults kv = (True, kv')" "distinct (map fst ws)"
  shows "kv' k = (case map_of ws k of None \<Rightarrow> kv k | Some v \<Rightarrow> Some v)"
  using assms
proof (induction ws faults kv rule: write_rows.induct)
  case (2 k1 v ws faults kv)
  obtain ok kv1 where e: "set_config (faults \<noteq> [] \<and> hd faults) k1 v kv = (ok, kv1)" by fastforce
  then have ok: "ok = True" using 2(2) by (cases ok) simp_all
  then have kv1: "kv1 = kv(k1 \<mapsto> v)" using e by (auto simp: set_config_def split: if_splits)
  have "write_rows ws (tl faults) kv1 = (True, kv')" using 2(2) e ok by simp
  moreover have "distinct (map fst ws)" "k1 \<notin> fst ` set ws" using 2(3) by simp_all
  ultimately have "kv' k = (case map_of ws k of None \<Rightarrow> kv1 k | Some v \<Rightarrow> Some v)"
    using 2(1) [OF e [symmetric] ok] by blast
  moreover have "map_of ws k1 = None" using 2(3) by (simp add: map_of_eq_None_iff)
  ultimately show ?case by (simp add: kv1 split: option.split)
qed simp

lemma map_of_patch_fields:
  "map_of (List.map_filter (\<lambda>f. map_option (\<lambda>v. (bandwidth_key f, v)) (g f)) fs) (bandwidth_key f)
    = (if f \<in> set fs then g f else None)"
  by (induction fs) (auto simp: map_filter_simps split: option.split)

lemma patch_fields_keys:
  "distinct fs \<Longrightarrow> distinct (map fst (List.map_filter (\<lambda>f. map_option (\<lambda>v. (bandwidth_key f, v)) (g f)) fs))
    \<and> (\<forall>k v. (k, v) \<in> set (List.map_filter (\<lambda>f. map_option (\<lambda>v. (bandwidth_key f, v)) (g f)) fs) \<longrightarrow> k \<in> bandwidth_key ` set fs)"
  by (induction fs) (auto simp: map_filter_simps split: option.split) 

lemma load_order_all: "distinct load_order" "f \<in> set load_order"
  by (simp_all add: load_order_def) (cases f; simp)

lemma patch_writes_keys: "distinct (map fst (patch_writes cd p))"
proof -
  let ?ws = "List.map_filter (\<lambda>f. map_option (\<lambda>v. (bandwidth_key f, v)) (patch_value cd p f)) load_order"
  note ks = patch_fields_keys [OF load_order_all(1), of "patch_value cd p"]
  have other: "k \<notin> fst ` set ?ws" if "k = key_install_dismissed \<or> k = key_derate_dismissed" for k
  proof
    assume "k \<in> fst ` set ?ws"
    then obtain x where "k = fst x" "x \<in> set ?ws" by (rule imageE)
    then have "k \<in> bandwidth_key ` set load_order"
      using conjunct2 [OF ks, rule_format, of "fst x" "snd x"] by (simp only: prod.collapse)
    then obtain f where "k = bandwidth_key f" by (elim imageE)
    then show False using that bandwidth_key_facts(2,3) [of f] by simp
  qed
  have "key_install_dismissed \<noteq> key_derate_dismissed" by (simp add: key_install_dismissed_def key_derate_dismissed_def)
  moreover have "distinct (map fst ?ws)" using ks by simp
  ultimately show ?thesis using other [of key_install_dismissed] other [of key_derate_dismissed]
    unfolding patch_writes_def by (cases "bp_install_dismissed p"; cases "bp_derate_dismissed p") simp_all
qed

lemma patch_writes_value: "map_of (patch_writes cd p) (bandwidth_key f) = patch_value cd p f"
  by (cases "patch_value cd p f")
     (auto simp: patch_writes_def map_add_def map_of_patch_fields load_order_all map_of_append split: option.split)

lemma patched_row:
  assumes "write_rows (patch_writes cd p) faults kv = (True, kv')"
  shows "kv' (bandwidth_key f) = (case patch_value cd p f of None \<Rightarrow> kv (bandwidth_key f) | Some v \<Rightarrow> Some v)"
  using write_rows_ok [OF assms patch_writes_keys] by (simp add: patch_writes_value)

text \<open>C26: A saved patch is exactly what the next load sees: after an answer of 204 the configuration loaded from the
  rows is the one loaded before with the fields of the request replaced, it is the one handed to the runner,
  and it is valid. (Floats and lists of times must survive being written and read; integers are those of
  Go.) Rows outside the request keep their values.\<close>

theorem bandwidth_patch_roundtrip:
  assumes "handle_bandwidth_patch cd zones f faults (Some p) kv = (204, kv', told)" "codec_keeps cd p" "fits_int64 p"
  shows "\<exists>c. load_bandwidth_config cd f kv = Some c \<and> load_bandwidth_config cd False kv' = Some (apply_patch p c)
    \<and> told = Some (apply_patch p c) \<and> validate_bandwidth zones (apply_patch p c) = []
    \<and> (\<forall>k. k \<notin> fst ` set (patch_writes cd p) \<longrightarrow> kv' k = kv k)"
proof -
  obtain c where c: "load_bandwidth_config cd f kv = Some c"
    using assms(1) by (auto simp: handle_bandwidth_patch_def split: option.splits)
  then have f: "f = False" by (auto simp: load_bandwidth_config_def config_with_prefix_def split: if_splits)
  have ok: "write_rows (patch_writes cd p) faults kv = (True, kv')" "told = Some (apply_patch p c)"
      "validate_bandwidth zones (apply_patch p c) = []"
    using assms(1) c by (auto simp: handle_bandwidth_patch_def Let_def split: if_splits prod.splits bool.splits)
  have c_eq: "c = decided cd (\<lambda>k. if has_prefix k ''bandwidth.'' then kv k else None)"
    using c f by (simp add: load_decided)
  note row = patched_row [OF ok(1)]
  have chart: "bp_chart p = Some v \<Longrightarrow> v \<in> set chart_windows" for v
    using ok(3) by (auto simp: validate_bandwidth_def apply_patch_def patched_def split: if_splits)
  have nonempty: "bp_times p = Some ts \<Longrightarrow> ts \<noteq> []" for ts
    using ok(3) by (auto simp: validate_bandwidth_def apply_patch_def patched_def Let_def split: if_splits)
  have codecs: "bp_derate p = Some x \<Longrightarrow> cd_parse_float cd (cd_float cd x) = Some x"
      "bp_floor p = Some x \<Longrightarrow> cd_parse_float cd (cd_float cd x) = Some x"
      "bp_times p = Some ts \<Longrightarrow> cd_parse_times cd (cd_times cd ts) = Some ts" for x ts
    using assms(2) by (simp_all add: codec_keeps_def)
  have ints: "bp_interval p = Some n \<Longrightarrow> go_atoi (go_itoa n) = Some n" "bp_days p = Some n \<Longrightarrow> go_atoi (go_itoa n) = Some n"
      "bp_server_id p = Some n \<Longrightarrow> go_atoi (go_itoa n) = Some n" for n
    using assms(3) by (simp_all add: fits_int64_def)
  have bools: "go_format_bool b = ''true'' \<longleftrightarrow> b" for b by (simp add: go_format_bool_def)
  have "decided cd (\<lambda>k. if has_prefix k ''bandwidth.'' then kv' k else None) = apply_patch p c"
    unfolding c_eq
    by (rule bandwidth_config.equality)
      (simp_all add: apply_patch_def patched_def decided_fields overlay_own row chart nonempty codecs ints bools
        del: bandwidth_key.simps split: option.split)
  moreover have "kv' k = kv k" if "k \<notin> fst ` set (patch_writes cd p)" for k
    using write_rows_ok [OF ok(1) patch_writes_keys, of k] that by (simp add: map_of_eq_None_iff [THEN iffD2])
  ultimately show ?thesis using c ok(2,3) by (simp add: load_decided)
qed

definition demo_codec :: codec where
  "demo_codec = \<lparr>cd_float = \<lambda>_. [], cd_parse_float = \<lambda>_. None, cd_times = \<lambda>_. [], cd_parse_times = \<lambda>_. None\<rparr>"

definition demo_patch :: bandwidth_patch where
  "demo_patch = \<lparr>bp_enabled = Some True, bp_cadence = Some ''interval'', bp_chart = None, bp_interval = Some 30,
     bp_times = None, bp_timezone = None, bp_directions = None, bp_server_mode = None, bp_server_id = None,
     bp_derate = None, bp_days = None, bp_metric = None, bp_floor = None, bp_pause = None,
     bp_install_dismissed = None, bp_derate_dismissed = None\<rparr>"

lemma bandwidth_patch_roundtrip_witness:
  "\<exists>kv' c. load_bandwidth_config demo_codec False kv' = Some c \<and> bc_enabled c \<and> bc_interval c = 30"
proof -
  have load: "load_bandwidth_config demo_codec False Map.empty = Some default_bandwidth_config"
    by (simp add: load_decided decided_def load_order_def overlay_row_def)
  obtain ok kv' where w: "write_rows (patch_writes demo_codec demo_patch) [] Map.empty = (ok, kv')" by fastforce
  have ok: "ok = True"
    using w by (simp add: patch_writes_def demo_patch_def load_order_def map_filter_simps set_config_def)
  have "validate_bandwidth (\<lambda>_. True) (apply_patch demo_patch default_bandwidth_config) = []"
    by (simp add: validate_bandwidth_def apply_patch_def demo_patch_def patched_def default_bandwidth_config_def
        chart_windows_def hhmm_ok_def is_digit_def)
  moreover have "patch_writes demo_codec demo_patch \<noteq> []"
    by (simp add: patch_writes_def demo_patch_def load_order_def map_filter_simps)
  ultimately have "handle_bandwidth_patch demo_codec (\<lambda>_. True) False [] (Some demo_patch) Map.empty
      = (204, kv', Some (apply_patch demo_patch default_bandwidth_config))"
    using w by (simp add: handle_bandwidth_patch_def load ok)
  from bandwidth_patch_roundtrip [OF this] show ?thesis
    by (force simp: codec_keeps_def fits_int64_def demo_patch_def apply_patch_def patched_def load)
qed

end
