(* ===== verification/SelfUpdate.thy ===== *)
theory SelfUpdate
  imports ReleaseFetch
begin

text \<open>
  Replacing the running binary: the central's upload, status and apply endpoints
  (\<open>internal/server/update.go\<close>) and the probe's updater (\<open>internal/agent/updater.go\<close>), which share the
  order backup, rename, capability, rollback. A file is its bytes and whether it carries the capability to
  open raw sockets; a rename moves both, writing into a file leaves it without the capability (the kernel
  drops it), and a new file has none. What the commands, the file system and the network answer is input.
\<close>

section \<open>Files\<close>

record binary =
  bn_bytes :: string
  bn_caps :: bool

record install_dir =
  id_staged :: "binary option"
  id_live :: "binary option"
  id_backups :: "string list"

text \<open>\<open>copyFile\<close>: fails before or after the target is opened, with part of the bytes, or with all of them.\<close>

datatype copy_outcome = CopyDone | CopyNoTarget | CopyPartial nat | CopyUnsynced

definition copy_file :: "copy_outcome \<Rightarrow> string option \<Rightarrow> binary option \<Rightarrow> bool \<times> binary option" where
  "copy_file out src dst = (case src of
     None \<Rightarrow> (False, dst)
   | Some bytes \<Rightarrow> (case out of
         CopyDone \<Rightarrow> (True, Some \<lparr>bn_bytes = bytes, bn_caps = False\<rparr>)
       | CopyNoTarget \<Rightarrow> (False, dst)
       | CopyPartial n \<Rightarrow> (False, Some \<lparr>bn_bytes = take n bytes, bn_caps = False\<rparr>)
       | CopyUnsynced \<Rightarrow> (False, Some \<lparr>bn_bytes = bytes, bn_caps = False\<rparr>)))"

text \<open>What the two apply paths share; the binary to install is in a file of its own.\<close>

record swap_env =
  sw_backup_dir :: bool
  sw_backup :: copy_outcome
  sw_rename :: bool
  sw_setcap :: bool
  sw_rollback :: copy_outcome

datatype swap_error = NoBackupDir | BackupFailed | InstallFailed | SetcapFailed

definition swap_binary :: "swap_env \<Rightarrow> binary \<Rightarrow> install_dir \<Rightarrow> swap_error option \<times> bool \<times> install_dir" where
  "swap_binary env new d =
     (if \<not> sw_backup_dir env then (Some NoBackupDir, False, d)
      else (case copy_file (sw_backup env) (map_option bn_bytes (id_live d)) None of
          (False, b) \<Rightarrow> (Some BackupFailed, False, d\<lparr>id_backups := id_backups d @ map bn_bytes (case b of None \<Rightarrow> [] | Some f \<Rightarrow> [f])\<rparr>)
        | (True, b) \<Rightarrow>
            (let old = map_option bn_bytes b;
                 d1 = d\<lparr>id_backups := id_backups d @ (case old of None \<Rightarrow> [] | Some bytes \<Rightarrow> [bytes])\<rparr>
             in if \<not> sw_rename env then (Some InstallFailed, False, d1)
                else if sw_setcap env then (None, True, d1\<lparr>id_live := Some (new\<lparr>bn_caps := True\<rparr>)\<rparr>)
                else (Some SetcapFailed, True, d1\<lparr>id_live := snd (copy_file (sw_rollback env) old (Some new))\<rparr>))))"

section \<open>The central\<close>

definition expected_sudoers_version :: int where "expected_sudoers_version = 2"
definition max_upload_bytes :: nat where "max_upload_bytes = 100 * 2 ^ 20"

text \<open>\<open>(?m)^# SUDOERS_VERSION:\s*(\d+)\<close>: the first line that starts so, the digits after any white space.\<close>

definition marker :: string where "marker = ''# SUDOERS_VERSION:''"

definition re_space :: "char \<Rightarrow> bool" where
  "re_space c \<longleftrightarrow> c \<in> {CHR 0x09, CHR 0x0A, CHR 0x0C, CHR 0x0D, CHR '' ''}"

definition marker_digits :: "string \<Rightarrow> string option" where
  "marker_digits s = (if has_prefix s marker
     then (let ds = takeWhile is_digit (dropWhile re_space (drop (length marker) s)) in if ds = [] then None else Some ds)
     else None)"

fun find_marker :: "bool \<Rightarrow> string \<Rightarrow> string option" where
  "find_marker at_start [] = None"
| "find_marker at_start (c # cs) =
     (case (if at_start then marker_digits (c # cs) else None) of
        Some ds \<Rightarrow> Some ds | None \<Rightarrow> find_marker (c = newline) cs)"

record sudoers_status =
  su_ok :: bool
  su_version :: int
  su_error :: bool

definition sudoers_check :: "string option \<Rightarrow> sudoers_status" where
  "sudoers_check content = (case content of
     None \<Rightarrow> \<lparr>su_ok = False, su_version = 0, su_error = True\<rparr>
   | Some text \<Rightarrow> (case find_marker True text of
         None \<Rightarrow> \<lparr>su_ok = False, su_version = 0, su_error = True\<rparr>
       | Some ds \<Rightarrow> (let v = (case go_atoi ds of None \<Rightarrow> 0 | Some n \<Rightarrow> n)
           in if v \<noteq> expected_sudoers_version then \<lparr>su_ok = False, su_version = v, su_error = True\<rparr>
              else \<lparr>su_ok = True, su_version = v, su_error = False\<rparr>)))"

text \<open>The version probe runs the staged file: an error, or the version it prints.\<close>

type_synonym version_probe = "string \<Rightarrow> string + string"

datatype staged_info = NotStaged | Staged nat | StagedVersion nat string | StagedBroken nat string

definition staged_stat :: "install_dir \<Rightarrow> staged_info" where
  "staged_stat d = (case id_staged d of None \<Rightarrow> NotStaged | Some b \<Rightarrow> Staged (length (bn_bytes b)))"

definition staged_version :: "version_probe \<Rightarrow> install_dir \<Rightarrow> staged_info" where
  "staged_version probe d = (case id_staged d of
     None \<Rightarrow> NotStaged
   | Some b \<Rightarrow> (case probe (bn_bytes b) of
         Inl e \<Rightarrow> StagedBroken (length (bn_bytes b)) e | Inr v \<Rightarrow> StagedVersion (length (bn_bytes b)) v))"

text \<open>The steps of an upload that can fail, and the body as far as it arrives.\<close>

record upload_env =
  ul_dir :: bool
  ul_temp :: bool
  ul_read :: bool
  ul_chmod :: bool
  ul_rename :: bool

definition handle_update_upload :: "upload_env \<Rightarrow> string \<Rightarrow> install_dir \<Rightarrow> (nat + staged_info) \<times> install_dir" where
  "handle_update_upload env body d =
     (if \<not> ul_dir env \<or> \<not> ul_temp env then (Inl 500, d)
      else if length body > max_upload_bytes then (Inl 400, d)
      else if \<not> ul_read env then (Inl 500, d)
      else if body = [] then (Inl 400, d)
      else if take 4 body \<noteq> elf_magic then (Inl 400, d)
      else if \<not> ul_chmod env \<or> \<not> ul_rename env then (Inl 500, d)
      else (let d1 = d\<lparr>id_staged := Some \<lparr>bn_bytes = body, bn_caps = False\<rparr>\<rparr> in (Inr (staged_stat d1), d1)))"

text \<open>\<open>handleUpdateApply\<close>; a success also restarts the probe unit and the daemon.\<close>

definition handle_update_apply :: "version_probe \<Rightarrow> string option \<Rightarrow> swap_env \<Rightarrow> install_dir
    \<Rightarrow> (nat + string) \<times> install_dir" where
  "handle_update_apply probe sudoers env d = (case (id_staged d, staged_version probe d) of
     (Some b, StagedVersion _ v) \<Rightarrow>
       if \<not> su_ok (sudoers_check sudoers) then (Inl 409, d)
       else (case swap_binary env b d of
           (None, _, d1) \<Rightarrow> (Inr v, d1\<lparr>id_staged := None\<rparr>)
         | (Some _, renamed, d1) \<Rightarrow> (Inl 500, if renamed then d1\<lparr>id_staged := None\<rparr> else d1))
   | _ \<Rightarrow> (Inl 409, d))"

section \<open>The probe\<close>

record agent_command =
  ac_version :: string
  ac_sha :: string
  ac_path :: string

record updater_env =
  ue_sudoers :: bool
  ue_staging :: bool
  ue_download :: "string option"
  ue_chmod :: bool
  ue_probe :: version_probe
  ue_swap :: swap_env

datatype updater_error = SudoersUnusable | NoStagingDir | DownloadFailed | DigestMismatch | NotLinuxExecutable
  | ChmodFailed | StagedWontRun string | WrongVersion string | SwapFailed swap_error

text \<open>\<open>Updater.apply\<close>: the download goes to a file of its own, removed unless it was renamed.\<close>

definition updater_apply :: "(string \<Rightarrow> string) \<Rightarrow> updater_env \<Rightarrow> agent_command \<Rightarrow> install_dir
    \<Rightarrow> updater_error option \<times> install_dir" where
  "updater_apply sha env cmd d =
     (if \<not> ue_sudoers env then (Some SudoersUnusable, d)
      else if \<not> ue_staging env then (Some NoStagingDir, d)
      else (case ue_download env of
          None \<Rightarrow> (Some DownloadFailed, d)
        | Some bytes \<Rightarrow>
            if sha bytes \<noteq> ac_sha cmd then (Some DigestMismatch, d)
            else if take 4 bytes \<noteq> elf_magic then (Some NotLinuxExecutable, d)
            else if \<not> ue_chmod env then (Some ChmodFailed, d)
            else (case ue_probe env bytes of
                Inl e \<Rightarrow> (Some (StagedWontRun e), d)
              | Inr v \<Rightarrow>
                  if base_version v \<noteq> ac_version cmd then (Some (WrongVersion v), d)
                  else (case swap_binary (ue_swap env) \<lparr>bn_bytes = bytes, bn_caps = False\<rparr> d of
                      (e, _, d1) \<Rightarrow> (map_option SwapFailed e, d1)))))"

record updater =
  uu_version :: string
  uu_running :: bool

definition on_command :: "agent_command \<Rightarrow> updater \<Rightarrow> bool \<times> updater" where
  "on_command cmd u =
     (if base_version (uu_version u) = ac_version cmd then (False, u)
      else if uu_running u then (False, u)
      else (True, u\<lparr>uu_running := True\<rparr>))"

text \<open>One attempt: what it reports to the central, in order, and the state afterwards.\<close>

datatype status_report = ReportApplying | ReportFailed updater_error

definition updater_attempt :: "(string \<Rightarrow> string) \<Rightarrow> updater_env \<Rightarrow> agent_command \<Rightarrow> updater \<Rightarrow> install_dir
    \<Rightarrow> status_report list \<times> updater \<times> install_dir" where
  "updater_attempt sha env cmd u d = (case on_command cmd u of
     (False, u1) \<Rightarrow> ([], u1, d)
   | (True, u1) \<Rightarrow> (case updater_apply sha env cmd d of
         (e, d1) \<Rightarrow> (ReportApplying # (case e of None \<Rightarrow> [] | Some e \<Rightarrow> [ReportFailed e]), u1\<lparr>uu_running := False\<rparr>, d1)))"

section \<open>What is installed afterwards\<close>


text \<open>The rollback does not restore the capability. When everything but setting the capability works, the
  central's apply answers 500 with the old bytes back in place, but in a file without the capability: the
  next start of the daemon finds a binary that cannot open its sockets, whatever the old one carried.\<close>

theorem rollback_drops_the_capability:
  assumes "id_live d = Some old" "id_staged d = Some new" "probe (bn_bytes new) = Inr v" "su_ok (sudoers_check sudoers)"
    "env = \<lparr>sw_backup_dir = True, sw_backup = CopyDone, sw_rename = True, sw_setcap = False, sw_rollback = CopyDone\<rparr>"
  shows "\<exists>d'. handle_update_apply probe sudoers env d = (Inl 500, d')
    \<and> id_live d' = Some \<lparr>bn_bytes = bn_bytes old, bn_caps = False\<rparr> \<and> id_staged d' = None"
  using assms by (simp add: handle_update_apply_def staged_version_def swap_binary_def copy_file_def)

definition demo_dir :: install_dir where
  "demo_dir = \<lparr>id_staged = Some \<lparr>bn_bytes = elf_magic @ ''new'', bn_caps = False\<rparr>,
     id_live = Some \<lparr>bn_bytes = elf_magic @ ''old'', bn_caps = True\<rparr>, id_backups = []\<rparr>"

definition demo_updater_env :: updater_env where
  "demo_updater_env = \<lparr>ue_sudoers = True, ue_staging = True, ue_download = Some (elf_magic @ ''new''), ue_chmod = True,
     ue_probe = (\<lambda>_. Inr ''v1.2.0''), ue_swap = \<lparr>sw_backup_dir = True, sw_backup = CopyDone, sw_rename = True,
       sw_setcap = True, sw_rollback = CopyDone\<rparr>\<rparr>"


definition failing_setcap :: swap_env where
  "failing_setcap = \<lparr>sw_backup_dir = True, sw_backup = CopyDone, sw_rename = True, sw_setcap = False, sw_rollback = CopyDone\<rparr>"

lemma rollback_drops_the_capability_witness:
  "\<exists>d'. handle_update_apply (\<lambda>_. Inr ''1'') (Some ''# SUDOERS_VERSION: 2'') failing_setcap demo_dir = (Inl 500, d')
    \<and> id_live d' = Some \<lparr>bn_bytes = elf_magic @ ''old'', bn_caps = False\<rparr>"
proof -
  have su: "su_ok (sudoers_check (Some ''# SUDOERS_VERSION: 2''))" by code_simp
  show ?thesis
    using rollback_drops_the_capability [of demo_dir "\<lparr>bn_bytes = elf_magic @ ''old'', bn_caps = True\<rparr>"
        "\<lparr>bn_bytes = elf_magic @ ''new'', bn_caps = False\<rparr>" "\<lambda>_. Inr ''1''" "''1''", OF _ _ _ su failing_setcap_def]
    by (auto simp: demo_dir_def)
qed

end
