(* ===== verification/CrossOrigin.thy ===== *)
theory CrossOrigin
  imports Supervisor ReleaseFetch
begin

text \<open>
  The guard in front of the API (\<open>internal/server/csrf.go\<close>): which requests reach a handler. What the
  middleware reads of a request is its method, path, host, origin and token header, an absent header being
  empty. \<open>net.SplitHostPort\<close> is Go's algorithm; which texts are IPv6 addresses is a parameter; letters are
  those of ASCII, as the names in a \<open>Host\<close> header are.
\<close>

section \<open>Hosts and ports\<close>

definition split_last :: "char \<Rightarrow> string \<Rightarrow> (string \<times> string) option" where
  "split_last c s = (if c \<in> set s then Some (rev (tl (dropWhile (\<lambda>x. x \<noteq> c) (rev s))), rev (takeWhile (\<lambda>x. x \<noteq> c) (rev s)))
     else None)"

definition split_host_port :: "string \<Rightarrow> (string \<times> string) option" where
  "split_host_port s = (case split_last CHR '':'' s of
     None \<Rightarrow> None
   | Some (before, port) \<Rightarrow>
       if hd s = CHR ''['' then
         (case split_first CHR '']'' s of
            (_, None) \<Rightarrow> None
          | (opened, Some rest) \<Rightarrow>
              if rest = CHR '':'' # port \<and> CHR ''['' \<notin> set (tl s) \<and> CHR '']'' \<notin> set rest then Some (tl opened, port) else None)
       else if CHR '':'' \<in> set before \<or> CHR ''['' \<in> set s \<or> CHR '']'' \<in> set s then None
       else Some (before, port))"

definition lower :: "string \<Rightarrow> string" where "lower s = map lower_char s"

definition trim_dot :: "string \<Rightarrow> string" where
  "trim_dot s = (if s \<noteq> [] \<and> last s = CHR ''.'' then butlast s else s)"

definition host_allowed :: "(string \<Rightarrow> bool) \<Rightarrow> string list \<Rightarrow> string \<Rightarrow> bool" where
  "host_allowed v6 allowed header =
     (let host = trim_dot (case split_host_port header of None \<Rightarrow> header | Some (h, _) \<Rightarrow> h); low = lower host
      in if host = [] then False
         else if low = ''localhost'' then True
         else if parse_addr v6 host \<noteq> NotAnAddr then True
         else if CHR ''.'' \<notin> set low \<or> has_suffix low ''.local'' then True
         else list_ex (\<lambda>a. low = lower (trim_dot a)) allowed)"

definition host_port_key :: "string \<Rightarrow> string" where
  "host_port_key hp =
     (let (h, p) = (case split_host_port hp of None \<Rightarrow> (hp, []) | Some (h, p) \<Rightarrow> (h, p));
          host = lower (trim_dot h); port = (if p = ''80'' \<or> p = ''443'' then [] else p)
      in if port = [] then host else host @ CHR '':'' # port)"

text \<open>The text after the first \<open>://\<close>.\<close>

fun after_scheme :: "string \<Rightarrow> string option" where
  "after_scheme (c # cs) = (if has_prefix (c # cs) ''://'' then Some (drop 3 (c # cs)) else after_scheme cs)"
| "after_scheme [] = None"

definition same_origin :: "string \<Rightarrow> string \<Rightarrow> bool" where
  "same_origin origin host = (case after_scheme origin of
     None \<Rightarrow> False | Some hp \<Rightarrow> lower (host_port_key hp) = lower (host_port_key host))"

section \<open>The guard\<close>

record web_request =
  wq_method :: string
  wq_path :: string
  wq_host :: string
  wq_origin :: string
  wq_token :: string

datatype guard_answer = Forward | Answered nat

definition cross_origin_guard :: "(string \<Rightarrow> bool) \<Rightarrow> string list \<Rightarrow> web_request \<Rightarrow> guard_answer" where
  "cross_origin_guard v6 allowed r =
     (if wq_method r = ''GET'' \<or> wq_method r = ''HEAD'' then Forward
      else if wq_method r = ''OPTIONS'' then Answered 204
      else if has_prefix (wq_path r) ''/api/ingest/'' then Forward
      else if \<not> has_prefix (wq_path r) ''/api/'' then Forward
      else if \<not> host_allowed v6 allowed (wq_host r) then Answered 403
      else if wq_origin r \<noteq> [] \<and> \<not> same_origin (wq_origin r) (wq_host r) then Answered 403
      else if wq_token r = [] then Answered 403
      else Forward)"

section \<open>Names as browsers send them\<close>

text \<open>A name without port, colons and brackets; a port of digits.\<close>

definition plain_host :: "string \<Rightarrow> bool" where
  "plain_host h \<longleftrightarrow> h \<noteq> [] \<and> CHR '':'' \<notin> set h \<and> CHR ''['' \<notin> set h \<and> CHR '']'' \<notin> set h \<and> last h \<noteq> CHR ''.''"

definition digits :: "string \<Rightarrow> bool" where "digits p \<longleftrightarrow> p \<noteq> [] \<and> list_all is_digit p"

definition authority :: "string \<Rightarrow> string option \<Rightarrow> string" where
  "authority h p = (case p of None \<Rightarrow> h | Some p \<Rightarrow> h @ CHR '':'' # p)"

definition effective_port :: "string option \<Rightarrow> string option" where
  "effective_port p = (if p = Some ''80'' \<or> p = Some ''443'' then None else p)"

lemma split_last_at: "c \<notin> set b \<Longrightarrow> split_last c (a @ c # b) = Some (a, b)"
proof -
  assume c: "c \<notin> set b"
  have e: "rev (a @ c # b) = rev b @ c # rev a" by simp
  have "takeWhile (\<lambda>x. x \<noteq> c) (rev b @ c # rev a) = rev b" "dropWhile (\<lambda>x. x \<noteq> c) (rev b @ c # rev a) = c # rev a"
    using c by (subst takeWhile_append2 dropWhile_append2; auto)+
  then show ?thesis unfolding split_last_def e by simp
qed

lemma no_colon_in_digits: "digits p \<Longrightarrow> c \<in> set p \<Longrightarrow> is_digit c"
  by (simp add: digits_def list_all_iff)

lemma split_authority:
  assumes "plain_host h" "pred_option digits p"
  shows "split_host_port (authority h p) = map_option (\<lambda>q. (h, q)) p"
proof (cases p)
  case None
  then show ?thesis using assms(1) by (simp add: authority_def split_host_port_def split_last_def plain_host_def)
next
  case (Some q)
  have q: "c \<notin> set q" if "\<not> is_digit c" for c using no_colon_in_digits assms(2) Some that by auto
  have nd: "\<not> is_digit CHR '':''" "\<not> is_digit CHR ''[''" "\<not> is_digit CHR '']''" by (simp_all add: is_digit_def)
  have hd: "hd (h @ CHR '':'' # q) \<noteq> CHR ''[''" using assms(1) by (cases h) (auto simp: plain_host_def)
  show ?thesis
    using Some assms(1) hd q [OF nd(2)] q [OF nd(3)] split_last_at [OF q [OF nd(1)], of h]
    by (simp add: authority_def split_host_port_def plain_host_def)
qed

lemma lower_char_colon: "lower_char c = CHR '':'' \<longleftrightarrow> c = CHR '':''"
proof -
  have "lower_char CHR '':'' = CHR '':''" by code_simp
  moreover have "lower_char c \<noteq> CHR '':''" if "65 \<le> (of_char c :: nat)" "(of_char c :: nat) \<le> 90"
  proof
    assume "lower_char c = CHR '':''"
    then have "(of_char (char_of ((of_char c :: nat) + 32) :: char) :: nat) = 58" using that by (simp add: lower_char_def)
    then show False using that by (simp add: of_char_char_of_small)
  qed
  ultimately show ?thesis by (auto simp: lower_char_def split: if_splits)
qed


lemma lower_char_lower: "lower_char (lower_char c) = lower_char c"
proof -
  have "\<not> (65 \<le> (of_char (lower_char c) :: nat) \<and> (of_char (lower_char c) :: nat) \<le> 90)"
    by (auto simp: lower_char_def of_char_char_of_small)
  then show ?thesis unfolding lower_char_def [of "lower_char c"] by (simp only: if_False)
qed

lemma lower_digit: "is_digit c \<Longrightarrow> lower_char c = c"
  by (auto simp: is_digit_def lower_char_def)

lemma lower_idem [simp]: "lower (lower s) = lower s" by (simp add: lower_def lower_char_lower)

lemma lower_append [simp]: "lower (a @ b) = lower a @ lower b" by (simp add: lower_def)

lemma lower_digits: "digits q \<Longrightarrow> lower q = q"
  using no_colon_in_digits [of q] by (auto simp: lower_def lower_digit intro: map_idI)

lemma lower_no_colon: "plain_host h \<Longrightarrow> CHR '':'' \<notin> set (lower h)"
proof
  assume h: "plain_host h" and "CHR '':'' \<in> set (lower h)"
  then obtain c where "c \<in> set h" "lower_char c = CHR '':''" unfolding lower_def set_map by (metis imageE)
  then show False using h unfolding lower_char_colon plain_host_def by blast
qed

lemma colon_inject: "c \<notin> set a \<Longrightarrow> c \<notin> set b \<Longrightarrow> a @ c # x = b @ c # y \<longleftrightarrow> a = b \<and> x = y"
proof (induction a arbitrary: b)
  case Nil
  then show ?case by (cases b) auto
next
  case (Cons d a)
  then show ?case by (cases b) auto
qed

lemma authority_inject:
  "CHR '':'' \<notin> set a \<Longrightarrow> CHR '':'' \<notin> set b \<Longrightarrow> authority a p = authority b q \<longleftrightarrow> a = b \<and> p = q"
  by (cases p; cases q) (auto simp: authority_def colon_inject)

lemma key_of_authority:
  assumes "plain_host h" "pred_option digits p"
  shows "host_port_key (authority h p) = authority (lower h) (effective_port p)"
proof -
  have t: "trim_dot h = h" using assms(1) by (simp add: trim_dot_def plain_host_def)
  show ?thesis
  proof (cases p)
    case None
    then show ?thesis using split_authority [OF assms]
      by (simp add: host_port_key_def effective_port_def) (simp add: authority_def t)
  next
    case (Some q)
    then show ?thesis using split_authority [OF assms] assms(2)
      by (simp add: host_port_key_def t effective_port_def digits_def) (simp add: authority_def)
  qed
qed

lemma lower_key:
  assumes "plain_host h" "pred_option digits p"
  shows "lower (host_port_key (authority h p)) = authority (lower h) (effective_port p)"
proof -
  have "lower (CHR '':'' # q) = CHR '':'' # q" if "p = Some q" for q
    using lower_digits [of q] assms(2) that by (simp add: lower_def lower_char_colon)
  then show ?thesis unfolding key_of_authority [OF assms]
    by (cases p) (simp_all add: authority_def effective_port_def)
qed

lemma after_scheme_at: "CHR '':'' \<notin> set s \<Longrightarrow> after_scheme (s @ ''://'' @ x) = Some x"
  by (induction s) (auto simp: has_prefix_def)

lemma same_origin_exact:
  assumes "CHR '':'' \<notin> set s" "plain_host h" "pred_option digits p" "plain_host k" "pred_option digits r"
  shows "same_origin (s @ ''://'' @ authority h p) (authority k r) \<longleftrightarrow> lower h = lower k \<and> effective_port p = effective_port r"
  using authority_inject [OF lower_no_colon [OF assms(2)] lower_no_colon [OF assms(4)]]
  by (simp only: same_origin_def after_scheme_at [OF assms(1)] option.case lower_key [OF assms(2,3)] lower_key [OF assms(4,5)])

lemma host_allowed_exact:
  assumes "plain_host h" "pred_option digits p"
  shows "host_allowed v6 allowed (authority h p) \<longleftrightarrow>
    lower h = ''localhost'' \<or> parse_addr v6 h \<noteq> NotAnAddr \<or> CHR ''.'' \<notin> set (lower h) \<or> has_suffix (lower h) ''.local'' \<or>
    (\<exists>a \<in> set allowed. lower h = lower (trim_dot a))"
proof -
  have "(case split_host_port (authority h p) of None \<Rightarrow> authority h p | Some (b, _) \<Rightarrow> b) = h"
    unfolding split_authority [OF assms] by (cases p) (simp_all add: authority_def)
  moreover have "trim_dot h = h" "h \<noteq> []" using assms(1) by (simp_all add: trim_dot_def plain_host_def)
  ultimately show ?thesis by (auto simp: host_allowed_def Let_def list_ex_iff)
qed

section \<open>What the guard lets through\<close>

text \<open>
  C28: A request that changes something and comes from a page of a browser reaches its handler exactly when the
  page carries the token header, was served from the name and port the request goes to (up to case, and with the
  ports 80 and 443 taken for none), and that name is the loopback name, an address, a single label, a
  \<open>.local\<close> name or one the operator listed: a registered name that was pointed at the central is refused.
\<close>

theorem guard_admits_only_the_own_page:
  assumes "wq_method r \<notin> {''GET'', ''HEAD'', ''OPTIONS''}" "has_prefix (wq_path r) ''/api/''" "\<not> has_prefix (wq_path r) ''/api/ingest/''"
    and "wq_origin r = s @ ''://'' @ authority h p" "CHR '':'' \<notin> set s" "plain_host h" "pred_option digits p"
    and "wq_host r = authority k t" "plain_host k" "pred_option digits t"
  shows "cross_origin_guard v6 allowed r = Forward \<longleftrightarrow>
    wq_token r \<noteq> [] \<and> lower h = lower k \<and> effective_port p = effective_port t \<and>
    (lower k = ''localhost'' \<or> parse_addr v6 k \<noteq> NotAnAddr \<or> CHR ''.'' \<notin> set (lower k) \<or> has_suffix (lower k) ''.local'' \<or>
     (\<exists>a \<in> set allowed. lower k = lower (trim_dot a)))"
proof -
  have o: "wq_origin r \<noteq> []" using assms(4) by simp
  have so: "same_origin (wq_origin r) (wq_host r) \<longleftrightarrow> lower h = lower k \<and> effective_port p = effective_port t"
    unfolding assms(4,8) by (rule same_origin_exact [OF assms(5-7) assms(9,10)])
  have ha: "host_allowed v6 allowed (wq_host r) \<longleftrightarrow>
    lower k = ''localhost'' \<or> parse_addr v6 k \<noteq> NotAnAddr \<or> CHR ''.'' \<notin> set (lower k) \<or> has_suffix (lower k) ''.local'' \<or>
    (\<exists>a \<in> set allowed. lower k = lower (trim_dot a))"
    unfolding assms(8) by (rule host_allowed_exact [OF assms(9,10)])
  have "cross_origin_guard v6 allowed r = Forward \<longleftrightarrow>
    host_allowed v6 allowed (wq_host r) \<and> same_origin (wq_origin r) (wq_host r) \<and> wq_token r \<noteq> []"
    using assms(1-3) o by (auto simp: cross_origin_guard_def)
  then show ?thesis unfolding so ha by blast
qed

text \<open>A page of \<open>evil.example\<close>, re-pointed at the central, posts to its own name with the header set: refused.\<close>

lemma guard_admits_only_the_own_page_witness:
  defines "r \<equiv> \<lparr>wq_method = ''POST'', wq_path = ''/api/update/apply'', wq_host = authority ''evil.example'' (Some ''8080''),
    wq_origin = ''http'' @ ''://'' @ authority ''evil.example'' (Some ''8080''), wq_token = ''1''\<rparr>"
  shows "cross_origin_guard (\<lambda>_. False) [''hop.example''] r \<noteq> Forward"
proof -
  have "parse_addr (\<lambda>_. False) ''evil.example'' = NotAnAddr" "lower ''evil.example'' = ''evil.example''"
    "\<not> has_suffix ''evil.example'' ''.local''" "lower (trim_dot ''hop.example'') = ''hop.example''" "digits ''8080''"
    "plain_host ''evil.example''" "has_prefix ''/api/update/apply'' ''/api/''" "\<not> has_prefix ''/api/update/apply'' ''/api/ingest/''"
    by code_simp+
  note f = this
  have "cross_origin_guard (\<lambda>_. False) [''hop.example''] r = Forward \<longleftrightarrow> False"
    using f by (subst guard_admits_only_the_own_page [where s = "''http''" and h = "''evil.example''" and p = "Some ''8080''"
      and k = "''evil.example''" and t = "Some ''8080''"]) (simp_all add: r_def)
  then show ?thesis by simp
qed

end
