(* ===== verification/Rdns.thy ===== *)
theory Rdns
  imports AlertConfig Batched "HOL-Library.Multiset"
begin

text \<open>
  \<open>internal/rdns/resolver.go\<close> with \<open>internal/storage/rdns.go\<close>: the worker that gives the addresses of the samples
  their names. The samples are kept with their row numbers: \<open>samples\<close> is an ordinary SQLite table, so a new row
  gets one more than the largest number present, and numbers come back into use when the newest rows are deleted.
  The order in which SQLite returns the distinct addresses of a scan is a parameter; the answer of each lookup, the
  failures of the statements and the end of the context are what the cycles range over.
\<close>

section \<open>Tables\<close>

record rdns_row =
  rd_hostname :: "string option"
  rd_resolved_at :: int

type_synonym rdns_table = "string \<rightharpoonup> rdns_row"

record rdns_store =
  rn_samples :: "(int \<times> sample_row) list"
  rn_table :: rdns_table

definition max_rowid :: "(int \<times> sample_row) list \<Rightarrow> int" where
  "max_rowid rows = fold (\<lambda>r m. max (fst r) m) rows 0"

definition insert_sample :: "sample_row \<Rightarrow> rdns_store \<Rightarrow> rdns_store" where
  "insert_sample s d = d\<lparr>rn_samples := rn_samples d @ [(max_rowid (rn_samples d) + 1, s)]\<rparr>"

definition wipe_samples :: "string \<Rightarrow> rdns_store \<Rightarrow> rdns_store" where
  "wipe_samples target d = d\<lparr>rn_samples := filter (\<lambda>r. sr_target (snd r) \<noteq> target) (rn_samples d)\<rparr>"

definition prune_samples :: "int \<Rightarrow> rdns_store \<Rightarrow> rdns_store" where
  "prune_samples cutoff d = d\<lparr>rn_samples := filter (\<lambda>r. \<not> sr_ts (snd r) < cutoff) (rn_samples d)\<rparr>"

text \<open>The anti-join, the addresses in the order of their first rows.\<close>

definition scan_row :: "int \<Rightarrow> rdns_table \<Rightarrow> int \<times> sample_row \<Rightarrow> string option" where
  "scan_row since t r = (case sr_ip (snd r) of
     None \<Rightarrow> None | Some ip \<Rightarrow> if fst r > since \<and> t ip = None then Some ip else None)"

definition unresolved :: "int \<Rightarrow> rdns_store \<Rightarrow> string list" where
  "unresolved since d = remdups (List.map_filter (scan_row since (rn_table d)) (rn_samples d))"

definition unresolved_ips :: "(string list \<Rightarrow> string list) \<Rightarrow> bool \<Rightarrow> int \<Rightarrow> nat \<Rightarrow> rdns_store \<Rightarrow> (string list \<times> int) option" where
  "unresolved_ips order fault since limit d =
     (if fault then None else Some (take limit (order (unresolved since d)), max_rowid (rn_samples d)))"

definition upsert_rdns :: "bool \<Rightarrow> instant \<Rightarrow> string \<Rightarrow> string \<Rightarrow> rdns_table \<Rightarrow> bool \<times> rdns_table" where
  "upsert_rdns fault now ip hostname t =
     (if fault then (False, t)
      else (True, t(ip \<mapsto> \<lparr>rd_hostname = (if hostname = [] then None else Some hostname), rd_resolved_at = unix_milli now\<rparr>)))"

definition host_row :: "rdns_table \<Rightarrow> string \<Rightarrow> string option" where
  "host_row t ip = (case t ip of None \<Rightarrow> None | Some r \<Rightarrow> (case rd_hostname r of
     None \<Rightarrow> None | Some h \<Rightarrow> if h = [] then None else Some h))"

definition lookup_hostnames :: "bool \<Rightarrow> string list \<Rightarrow> rdns_table \<Rightarrow> (string \<rightharpoonup> string) option" where
  "lookup_hostnames fault ips t =
     (if ips = [] then Some Map.empty else if fault then None
      else Some (\<lambda>ip. if ip \<in> set ips then host_row t ip else None))"

section \<open>The worker\<close>

datatype ptr_answer = PtrNotFound | PtrFailed | PtrNames "string list"

text \<open>\<open>SystemResolver\<close>: the name, and whether there was an error.\<close>

definition system_resolver :: "ptr_answer \<Rightarrow> string \<times> bool" where
  "system_resolver a = (case a of
     PtrNotFound \<Rightarrow> ([], False)
   | PtrFailed \<Rightarrow> ([], True)
   | PtrNames [] \<Rightarrow> ([], False)
   | PtrNames (n # _) \<Rightarrow> (if n \<noteq> [] \<and> last n = CHR ''.'' then butlast n else n, False))"

record rdns_config =
  rc_poll :: duration
  rc_timeout :: duration
  rc_delay :: duration
  rc_batch :: nat

definition default_rdns_config :: rdns_config where
  "default_rdns_config = \<lparr>rc_poll = 60 * go_second, rc_timeout = 2 * go_second, rc_delay = 200 * go_ms, rc_batch = 50\<rparr>"

text \<open>One pass of the loop over a batch: the answer, the instant of the write and whether it fails. The context
  ends when the turns do.\<close>

record rdns_turn =
  rt_answer :: ptr_answer
  rt_now :: instant
  rt_fault :: bool

text \<open>The number of rows that could not be written, or \<^const>\<open>None\<close> when the context ended.\<close>

fun resolve_ips :: "nat \<Rightarrow> rdns_turn list \<Rightarrow> string list \<Rightarrow> rdns_table \<Rightarrow> nat option \<times> rdns_table" where
  "resolve_ips failed ts [] t = (Some failed, t)"
| "resolve_ips failed [] (ip # ips) t = (None, t)"
| "resolve_ips failed (u # ts) (ip # ips) t =
     (case upsert_rdns (rt_fault u) (rt_now u) ip (fst (system_resolver (rt_answer u))) t of
        (False, t1) \<Rightarrow> resolve_ips (Suc failed) ts ips t1
      | (True, t1) \<Rightarrow> resolve_ips failed ts ips t1)"

record rdns_worker =
  rv_store :: rdns_store
  rv_watermark :: int

definition new_rdns_worker :: "rdns_store \<Rightarrow> rdns_worker" where
  "new_rdns_worker d = \<lparr>rv_store = d, rv_watermark = 0\<rparr>"

definition with_store :: "rdns_store \<Rightarrow> rdns_worker \<Rightarrow> rdns_worker" where "with_store d r = r\<lparr>rv_store := d\<rparr>"

definition run_once :: "(string list \<Rightarrow> string list) \<Rightarrow> rdns_config \<Rightarrow> bool \<Rightarrow> rdns_turn list \<Rightarrow> rdns_worker \<Rightarrow> rdns_worker" where
  "run_once order cfg fault ts r =
     (case unresolved_ips order fault (rv_watermark r) (rc_batch cfg) (rv_store r) of
        None \<Rightarrow> r
      | Some (ips, scan_max) \<Rightarrow>
          if ips = [] then r\<lparr>rv_watermark := scan_max\<rparr>
          else (case resolve_ips 0 ts ips (rn_table (rv_store r)) of
              (None, t) \<Rightarrow> with_store ((rv_store r)\<lparr>rn_table := t\<rparr>) r
            | (Some failed, t) \<Rightarrow> (let r1 = with_store ((rv_store r)\<lparr>rn_table := t\<rparr>) r
                in if length ips < rc_batch cfg \<and> failed = 0 then r1\<lparr>rv_watermark := scan_max\<rparr> else r1)))"

section \<open>Runs\<close>

text \<open>What happens to the tables while the process runs; only the worker writes names.\<close>

datatype rdns_event = Sampled sample_row | Wiped string | Pruned int | Polled bool "rdns_turn list"

fun rdns_step :: "(string list \<Rightarrow> string list) \<Rightarrow> rdns_config \<Rightarrow> rdns_event \<Rightarrow> rdns_worker \<Rightarrow> rdns_worker" where
  "rdns_step order cfg (Sampled s) r = with_store (insert_sample s (rv_store r)) r"
| "rdns_step order cfg (Wiped target) r = with_store (wipe_samples target (rv_store r)) r"
| "rdns_step order cfg (Pruned cutoff) r = with_store (prune_samples cutoff (rv_store r)) r"
| "rdns_step order cfg (Polled fault ts) r = run_once order cfg fault ts r"

fun rdns_run :: "(string list \<Rightarrow> string list) \<Rightarrow> rdns_config \<Rightarrow> rdns_event list \<Rightarrow> rdns_worker \<Rightarrow> rdns_worker" where
  "rdns_run order cfg [] r = r"
| "rdns_run order cfg (e # es) r = rdns_run order cfg es (rdns_step order cfg e r)"

text \<open>No deletion takes the newest row: the largest row number stays.\<close>

fun keeps_newest :: "(string list \<Rightarrow> string list) \<Rightarrow> rdns_config \<Rightarrow> rdns_event list \<Rightarrow> rdns_worker \<Rightarrow> bool" where
  "keeps_newest order cfg [] r \<longleftrightarrow> True"
| "keeps_newest order cfg (e # es) r \<longleftrightarrow>
     (let r1 = rdns_step order cfg e r
      in max_rowid (rn_samples (rv_store r)) \<le> max_rowid (rn_samples (rv_store r1)) \<and> keeps_newest order cfg es r1)"

section \<open>Row numbers and scans\<close>

lemma max_rowid_append [simp]: "max_rowid (rows @ [r]) = max (fst r) (max_rowid rows)"
  by (simp add: max_rowid_def)

lemma max_rowid_Nil [simp]: "max_rowid [] = 0" by (simp add: max_rowid_def)

lemma max_rowid_ge: "r \<in> set rows \<Longrightarrow> fst r \<le> max_rowid rows"
  by (induction rows rule: rev_induct) auto

lemma max_rowid_nonneg: "0 \<le> max_rowid rows"
  by (induction rows rule: rev_induct) auto

lemma max_rowid_filter: "max_rowid (filter P rows) \<le> max_rowid rows"
  by (induction rows rule: rev_induct) auto

lemma in_map_filter: "y \<in> set (List.map_filter f xs) \<longleftrightarrow> (\<exists>x \<in> set xs. f x = Some y)"
  by (induction xs) (auto simp: map_filter_simps split: option.splits)

lemma scan_row_Some:
  "scan_row w t r = Some ip \<longleftrightarrow> sr_ip (snd r) = Some ip \<and> fst r > w \<and> ip \<notin> dom t"
  by (auto simp: scan_row_def split: option.splits)

lemma in_unresolved:
  "ip \<in> set (unresolved w d) \<longleftrightarrow> (\<exists>i s. (i, s) \<in> set (rn_samples d) \<and> sr_ip s = Some ip \<and> i > w) \<and> ip \<notin> dom (rn_table d)"
proof -
  have "ip \<in> set (unresolved w d) \<longleftrightarrow> (\<exists>r \<in> set (rn_samples d). scan_row w (rn_table d) r = Some ip)"
    unfolding unresolved_def set_remdups in_map_filter ..
  then show ?thesis unfolding scan_row_Some by fastforce
qed

lemma unresolved_above: "max_rowid (rn_samples d) \<le> w \<Longrightarrow> unresolved w d = []"
proof (rule ccontr)
  assume le: "max_rowid (rn_samples d) \<le> w" and "unresolved w d \<noteq> []"
  then obtain ip where "ip \<in> set (unresolved w d)" by (cases "unresolved w d") auto
  then show False using le max_rowid_ge [of _ "rn_samples d"] unfolding in_unresolved by fastforce
qed

lemma upsert_dom:
  "upsert_rdns f now ip h t = (True, t1) \<Longrightarrow> dom t1 = insert ip (dom t)"
  "upsert_rdns f now ip h t = (False, t1) \<Longrightarrow> t1 = t"
  by (auto simp: upsert_rdns_def split: if_splits)

lemma resolve_ips_dom:
  "resolve_ips k ts ips t = (res, t1) \<Longrightarrow>
     dom t \<subseteq> dom t1 \<and> dom t1 \<subseteq> dom t \<union> set ips
     \<and> (case res of None \<Rightarrow> True | Some n \<Rightarrow> k \<le> n \<and> (n = k \<longrightarrow> dom t1 = dom t \<union> set ips))"
proof (induction k ts ips t rule: resolve_ips.induct)
  case (3 k u ts ip ips t)
  obtain b t2 where u: "upsert_rdns (rt_fault u) (rt_now u) ip (fst (system_resolver (rt_answer u))) t = (b, t2)"
    by (cases "upsert_rdns (rt_fault u) (rt_now u) ip (fst (system_resolver (rt_answer u))) t")
  show ?case
  proof (cases b)
    case True
    have r: "resolve_ips k ts ips t2 = (res, t1)" using "3.prems" u True by simp
    have f: "(True, t2) = upsert_rdns (rt_fault u) (rt_now u) ip (fst (system_resolver (rt_answer u))) t" using u True by simp
    have d: "dom t2 = insert ip (dom t)" by (rule upsert_dom(1) [OF f [symmetric]])
    show ?thesis using "3.IH"(1) [OF f refl r] unfolding d by (cases res) auto
  next
    case False
    have r: "resolve_ips (Suc k) ts ips t2 = (res, t1)" using "3.prems" u False by simp
    have f: "(False, t2) = upsert_rdns (rt_fault u) (rt_now u) ip (fst (system_resolver (rt_answer u))) t" using u False by simp
    have d: "t2 = t" by (rule upsert_dom(2) [OF f [symmetric]])
    show ?thesis using "3.IH"(2) [OF f refl r] unfolding d by (cases res) auto
  qed
qed (auto split: option.splits)

lemma resolve_ips_full:
  "list_all (\<lambda>u. \<not> rt_fault u) ts \<Longrightarrow> length ips \<le> length ts \<Longrightarrow> fst (resolve_ips k ts ips t) = Some k"
  by (induction k ts ips t rule: resolve_ips.induct) (auto simp: upsert_rdns_def)

section \<open>The watermark\<close>

definition covered :: "rdns_worker \<Rightarrow> bool" where
  "covered r \<longleftrightarrow> (\<forall>(i, s) \<in> set (rn_samples (rv_store r)). \<forall>ip. sr_ip s = Some ip \<longrightarrow> i \<le> rv_watermark r \<longrightarrow>
     ip \<in> dom (rn_table (rv_store r)))"

definition reorders :: "(string list \<Rightarrow> string list) \<Rightarrow> bool" where
  "reorders order \<longleftrightarrow> (\<forall>xs. mset (order xs) = mset xs)"

lemma reorders_set: "reorders order \<Longrightarrow> set (order xs) = set xs"
  unfolding reorders_def by (metis set_mset_mset)

lemma reorders_length: "reorders order \<Longrightarrow> length (order xs) = length xs"
  unfolding reorders_def by (metis size_mset)

text \<open>What a cycle does, whatever happens in it.\<close>

lemma run_once_cases:
  fixes r cfg order fault ts
  assumes "reorders order" "0 < rc_batch cfg"
  defines "u \<equiv> unresolved (rv_watermark r) (rv_store r)" and "r1 \<equiv> run_once order cfg fault ts r"
  shows "rn_samples (rv_store r1) = rn_samples (rv_store r)" (is ?same)
    and "dom (rn_table (rv_store r)) \<subseteq> dom (rn_table (rv_store r1))" (is ?grows)
    and "rv_watermark r1 = rv_watermark r
      \<or> rv_watermark r1 = max_rowid (rn_samples (rv_store r)) \<and> set u \<subseteq> dom (rn_table (rv_store r1))" (is ?mark)
proof -
  define ips where "ips = take (rc_batch cfg) (order u)"
  have e: "ips = [] \<Longrightarrow> u = []" using assms(2) reorders_length [OF assms(1), of u] by (auto simp: ips_def)
  have full: "set ips = set u" if "length ips < rc_batch cfg"
    using that reorders_set [OF assms(1), of u] by (simp add: ips_def)
  obtain res t1 where s: "resolve_ips 0 ts ips (rn_table (rv_store r)) = (res, t1)" by fastforce
  note d = resolve_ips_dom [OF s]
  have "?same \<and> ?grows \<and> ?mark"
  proof (cases "fault \<or> ips = []")
    case True
    then show ?thesis using e by (auto simp: r1_def run_once_def unresolved_ips_def ips_def u_def)
  next
    case False
    then have r1: "r1 = (case res of None \<Rightarrow> with_store ((rv_store r)\<lparr>rn_table := t1\<rparr>) r
      | Some failed \<Rightarrow> (let r2 = with_store ((rv_store r)\<lparr>rn_table := t1\<rparr>) r
          in if length ips < rc_batch cfg \<and> failed = 0 then r2\<lparr>rv_watermark := max_rowid (rn_samples (rv_store r))\<rparr> else r2))"
      by (simp add: r1_def run_once_def unresolved_ips_def u_def [symmetric] ips_def [symmetric] s split: option.split)
    show ?thesis using d full by (cases res) (auto simp: r1 with_store_def Let_def)
  qed
  then show ?same ?grows ?mark by blast+
qed

lemma rdns_step_covered:
  assumes "reorders order" "0 < rc_batch cfg" "covered r" "rv_watermark r \<le> max_rowid (rn_samples (rv_store r))"
    and "max_rowid (rn_samples (rv_store r)) \<le> max_rowid (rn_samples (rv_store (rdns_step order cfg e r)))"
  shows "covered (rdns_step order cfg e r)
    \<and> rv_watermark (rdns_step order cfg e r) \<le> max_rowid (rn_samples (rv_store (rdns_step order cfg e r)))"
proof (cases e)
  case (Sampled s)
  then show ?thesis using assms(3,4) by (auto simp: covered_def with_store_def insert_sample_def)
next
  case (Wiped t)
  then show ?thesis using assms(3-5) by (auto simp: covered_def with_store_def wipe_samples_def)
next
  case (Pruned t)
  then show ?thesis using assms(3-5) by (auto simp: covered_def with_store_def prune_samples_def)
next
  case (Polled fault ts)
  note c = run_once_cases [OF assms(1,2), where fault = fault and ts = ts and r = r]
  have up: "ip \<in> dom (rn_table (rv_store (run_once order cfg fault ts r)))"
    if "(i, s) \<in> set (rn_samples (rv_store r))" "sr_ip s = Some ip" "i \<le> rv_watermark (run_once order cfg fault ts r)" for i s ip
  proof (cases "i \<le> rv_watermark r")
    case True
    then show ?thesis using that assms(3) c(2) unfolding covered_def by blast
  next
    case False
    then have "set (unresolved (rv_watermark r) (rv_store r)) \<subseteq> dom (rn_table (rv_store (run_once order cfg fault ts r)))"
      using c(3) that(3) by auto
    then show ?thesis using that False c(2) in_unresolved [of ip "rv_watermark r" "rv_store r"] by fastforce
  qed
  show ?thesis using up c(1,3) assms(4) Polled by (auto simp: covered_def)
qed

lemma rdns_run_covered:
  "reorders order \<Longrightarrow> 0 < rc_batch cfg \<Longrightarrow> covered r \<Longrightarrow> rv_watermark r \<le> max_rowid (rn_samples (rv_store r))
    \<Longrightarrow> keeps_newest order cfg es r \<Longrightarrow> covered (rdns_run order cfg es r)"
  by (induction es arbitrary: r) (simp_all add: Let_def rdns_step_covered)

section \<open>The backlog\<close>

definition backlog :: "rdns_worker \<Rightarrow> string set" where
  "backlog r = set (unresolved (rv_watermark r) (rv_store r))"

text \<open>A batch that nothing interrupts: enough turns, no failing statement.\<close>

definition undisturbed :: "rdns_config \<Rightarrow> rdns_event \<Rightarrow> bool" where
  "undisturbed cfg e = (case e of Polled fault ts \<Rightarrow> \<not> fault \<and> list_all (\<lambda>u. \<not> rt_fault u) ts \<and> rc_batch cfg \<le> length ts
     | _ \<Rightarrow> False)"

lemma finite_backlog [simp]: "finite (backlog r)" by (simp add: backlog_def)

lemma undisturbed_step:
  assumes "reorders order" "0 < rc_batch cfg" "undisturbed cfg e"
  shows "card (backlog (rdns_step order cfg e r)) \<le> card (backlog r) - rc_batch cfg"
    and "rn_samples (rv_store (rdns_step order cfg e r)) = rn_samples (rv_store r)"
proof -
  obtain ts where e: "e = Polled False ts" "list_all (\<lambda>u. \<not> rt_fault u) ts" "rc_batch cfg \<le> length ts"
    using assms(3) by (auto simp: undisturbed_def split: rdns_event.splits)
  define u where "u = unresolved (rv_watermark r) (rv_store r)"
  define ips where "ips = take (rc_batch cfg) (order u)"
  let ?r = "run_once order cfg False ts r"
  note c = run_once_cases [OF assms(1,2), where fault = False and ts = ts and r = r]
  have du: "distinct (order u)"
  proof -
    have "mset (order u) = mset u" using assms(1) by (simp add: reorders_def)
    then show ?thesis by (metis distinct_remdups mset_eq_imp_distinct_iff u_def unresolved_def)
  qed
  have su: "set (order u) = backlog r" by (simp add: reorders_set [OF assms(1)] u_def backlog_def)
  have ips: "card (set ips) = min (rc_batch cfg) (card (backlog r))" "set ips \<subseteq> backlog r"
    using du su distinct_card [OF du] by (auto simp: ips_def distinct_card dest: in_set_takeD)
  obtain t1 where s: "resolve_ips 0 ts ips (rn_table (rv_store r)) = (Some 0, t1)"
    using resolve_ips_full [OF e(2), of ips 0 "rn_table (rv_store r)"] e(3) by (cases "resolve_ips 0 ts ips (rn_table (rv_store r))") (auto simp: ips_def)
  have t1: "dom t1 = dom (rn_table (rv_store r)) \<union> set ips" using resolve_ips_dom [OF s] by simp
  have "backlog ?r \<subseteq> backlog r - set ips"
  proof (cases "ips = []")
    case True
    then have "u = []" using assms(2) reorders_length [OF assms(1), of u] by (auto simp: ips_def)
    moreover have "rv_store ?r = rv_store r" "rv_watermark ?r = max_rowid (rn_samples (rv_store r))"
      using True by (simp_all add: run_once_def unresolved_ips_def ips_def u_def)
    ultimately show ?thesis using max_rowid_ge [of _ "rn_samples (rv_store r)"]
      by (fastforce simp: backlog_def in_unresolved)
  next
    case False
    have st: "rv_store ?r = (rv_store r)\<lparr>rn_table := t1\<rparr>"
      and w: "rv_watermark ?r = rv_watermark r \<or> rv_watermark ?r = max_rowid (rn_samples (rv_store r))"
      using False by (simp_all add: run_once_def unresolved_ips_def u_def [symmetric] ips_def [symmetric] s with_store_def Let_def)
    show ?thesis using w max_rowid_ge [of _ "rn_samples (rv_store r)"]
      by (fastforce simp: backlog_def in_unresolved st t1)
  qed
  then have "card (backlog ?r) \<le> card (backlog r - set ips)" by (simp add: card_mono)
  also have "\<dots> = card (backlog r) - card (set ips)" by (rule card_Diff_subset) (use ips(2) in simp_all)
  also have "\<dots> \<le> card (backlog r) - rc_batch cfg" unfolding ips(1) by simp
  finally show "card (backlog (rdns_step order cfg e r)) \<le> card (backlog r) - rc_batch cfg" by (simp add: e(1))
  show "rn_samples (rv_store (rdns_step order cfg e r)) = rn_samples (rv_store r)" using c(1) by (simp add: e(1))
qed

lemma undisturbed_run:
  "reorders order \<Longrightarrow> 0 < rc_batch cfg \<Longrightarrow> list_all (undisturbed cfg) es
    \<Longrightarrow> card (backlog (rdns_run order cfg es r)) \<le> card (backlog r) - length es * rc_batch cfg
      \<and> rn_samples (rv_store (rdns_run order cfg es r)) = rn_samples (rv_store r)
      \<and> keeps_newest order cfg es r"
proof (induction es arbitrary: r)
  case (Cons e es)
  note s = undisturbed_step [OF Cons.prems(1,2), of e r]
  show ?case using Cons.IH [OF Cons.prems(1,2), of "rdns_step order cfg e r"] Cons.prems(3) s
    by (simp add: Let_def) linarith
qed simp

section \<open>What the worker guarantees\<close>


definition demo_sample :: "string \<Rightarrow> string \<Rightarrow> sample_row" where
  "demo_sample target ip = \<lparr>sr_target = target, sr_ttl = 1, sr_ts = 5, sr_ip = Some ip, sr_rtt_us = 7\<rparr>"

definition demo_turn :: "string \<Rightarrow> rdns_turn" where
  "demo_turn name = \<lparr>rt_answer = PtrNames [name], rt_now = 0, rt_fault = False\<rparr>"

definition demo_rdns :: rdns_store where "demo_rdns = \<lparr>rn_samples = [], rn_table = Map.empty\<rparr>"


text \<open>The backlog is worked off: when nothing fails, \<open>n\<close> cycles without new rows give every address of the samples its
  row of names, if \<open>n\<close> batches have room for the addresses that had none.\<close>

theorem backlog_is_drained:
  assumes "reorders order" "0 < rc_batch cfg" "list_all (undisturbed cfg) es"
    and "\<forall>row \<in> set (rn_samples d). 0 < fst row" "card (set (unresolved 0 d)) \<le> length es * rc_batch cfg"
    and "row \<in> set (rn_samples d)" "sr_ip (snd row) = Some ip"
  shows "ip \<in> dom (rn_table (rv_store (rdns_run order cfg es (new_rdns_worker d))))"
proof -
  let ?r = "rdns_run order cfg es (new_rdns_worker d)"
  note u = undisturbed_run [OF assms(1-3), of "new_rdns_worker d"]
  have "covered (new_rdns_worker d)" using assms(4) by (auto simp: covered_def new_rdns_worker_def)
  then have c: "covered ?r"
    by (rule rdns_run_covered [OF assms(1,2)]) (use u in \<open>simp_all add: new_rdns_worker_def max_rowid_nonneg\<close>)
  have "card (backlog ?r) = 0" using u assms(5) by (simp add: backlog_def new_rdns_worker_def)
  then have "ip \<notin> backlog ?r" by simp
  moreover have "row \<in> set (rn_samples (rv_store ?r))" using u assms(6) by (simp add: new_rdns_worker_def)
  ultimately show ?thesis using c assms(7) unfolding covered_def backlog_def in_unresolved by (cases row) fastforce
qed

lemma backlog_is_drained_witness:
  defines "cfg \<equiv> default_rdns_config\<lparr>rc_batch := 1\<rparr>"
    and "d \<equiv> insert_sample (demo_sample ''a'' ''10.0.0.2'') (insert_sample (demo_sample ''a'' ''10.0.0.1'') demo_rdns)"
  shows "''10.0.0.2'' \<in> dom (rn_table (rv_store (rdns_run (\<lambda>xs. xs) cfg (replicate 2 (Polled False [demo_turn ''x''])) (new_rdns_worker d))))"
  by (rule backlog_is_drained [where row = "(2, demo_sample ''a'' ''10.0.0.2'')"])
    (simp_all add: cfg_def d_def reorders_def default_rdns_config_def undisturbed_def demo_rdns_def demo_sample_def demo_turn_def
      insert_sample_def unresolved_def map_filter_simps scan_row_def max_rowid_def numeral_2_eq_2)



end
