(* ===== verification/AgentRunner.thy ===== *)
theory AgentRunner
  imports Supervisor AgentSink ProbeFleet SelfUpdate
begin

text \<open>
  The probe process outside its sink: the heartbeat loop (\<open>internal/agent/heartbeat.go\<close>) and the runner that keeps
  one pipeline per target of the central (\<open>cmd/hoptrail/agent.go\<close>). A pipeline has a number, so that one that was
  replaced is told from its successor; a pipeline of a host name has a watcher, the goroutine that follows its DNS
  answer. A tick of a watcher may be under way when its pipeline is cancelled, so every watcher that has not ended
  may tick at any time. The answers of DNS and of the central are what the steps range over.
\<close>

section \<open>Heartbeats\<close>

definition default_heartbeat_interval :: duration where "default_heartbeat_interval = 60 * go_second"
definition heartbeat_retry_interval :: duration where "heartbeat_retry_interval = 10 * go_second"

record heartbeat_reply =
  hp_targets :: "string list"
  hp_update :: "agent_command option"

datatype beat = BeatOk | BeatRetry | BeatFatal

text \<open>The body is \<^const>\<open>None\<close> when it could not be read or decoded. The second component is what the callbacks
  get.\<close>

definition beat_once :: "http_result \<Rightarrow> heartbeat_reply option \<Rightarrow> beat \<times> heartbeat_reply option" where
  "beat_once res body = (case post_json False res of
     OutcomeOK \<Rightarrow> (case body of None \<Rightarrow> (BeatRetry, None) | Some r \<Rightarrow> (BeatOk, Some r))
   | OutcomeUnauthorized \<Rightarrow> (BeatFatal, None)
   | OutcomeDrop \<Rightarrow> (BeatFatal, None)
   | OutcomeRetry \<Rightarrow> (BeatRetry, None))"

definition heartbeat_interval :: "duration \<Rightarrow> duration" where
  "heartbeat_interval i = (if i \<le> 0 then default_heartbeat_interval else i)"

text \<open>The loop: the instants at which heartbeats start, and whether the last one was fatal. A reply comes with the
  time the exchange took.\<close>

fun run_heartbeat :: "duration \<Rightarrow> instant \<Rightarrow> (http_result \<times> heartbeat_reply option \<times> duration) list \<Rightarrow> instant list \<times> bool" where
  "run_heartbeat i now [] = ([], False)"
| "run_heartbeat i now ((res, body, took) # rs) =
     (case fst (beat_once res body) of
        BeatFatal \<Rightarrow> ([now], True)
      | b \<Rightarrow> (let (ts, f) = run_heartbeat i (now + took + (if b = BeatOk then heartbeat_interval i else heartbeat_retry_interval)) rs
              in (now # ts, f)))"

section \<open>The runner\<close>

record agent_pipeline =
  ap_id :: nat
  ap_target :: string
  ap_addr :: addr

type_synonym watcher = "nat \<times> string \<times> addr"

record agent_runner =
  ag_pipes :: "agent_pipeline list"
  ag_stopped :: bool
  ag_running :: "nat list"
  ag_watchers :: "watcher list"
  ag_next :: nat

definition new_agent_runner :: agent_runner where
  "new_agent_runner = \<lparr>ag_pipes = [], ag_stopped = False, ag_running = [], ag_watchers = [], ag_next = 0\<rparr>"

definition agent_targets :: "agent_runner \<Rightarrow> string list" where
  "agent_targets r = map ap_target (ag_pipes r)"

text \<open>\<open>buildPipeline\<close>: the pipeline starts, with its watcher unless the target is an address.\<close>

definition start_pipeline :: "resolver \<Rightarrow> supervisor_config \<Rightarrow> string \<Rightarrow> agent_runner \<Rightarrow> agent_pipeline option \<times> agent_runner" where
  "start_pipeline rv cfg target r = (case resolve_target rv target of
     Inl _ \<Rightarrow> (None, r)
   | Inr (_, a) \<Rightarrow> (case build_pipeline cfg target a (sc_interval cfg) False of
         Inl _ \<Rightarrow> (None, r)
       | Inr _ \<Rightarrow> (Some \<lparr>ap_id = ag_next r, ap_target = target, ap_addr = a\<rparr>,
           r\<lparr>ag_next := Suc (ag_next r), ag_running := ag_next r # ag_running r,
             ag_watchers := (if parse_addr (rv_is_v6 rv) target = NotAnAddr then [(ag_next r, target, a)] else []) @ ag_watchers r\<rparr>)))"

text \<open>Cancelling some pipelines and taking them out of the map.\<close>

definition stop_pipelines :: "(agent_pipeline \<Rightarrow> bool) \<Rightarrow> agent_runner \<Rightarrow> agent_runner" where
  "stop_pipelines P r = r\<lparr>ag_pipes := filter (\<lambda>p. \<not> P p) (ag_pipes r),
     ag_running := filter (\<lambda>i. i \<notin> set (map ap_id (filter P (ag_pipes r)))) (ag_running r)\<rparr>"

definition add_target :: "resolver \<Rightarrow> supervisor_config \<Rightarrow> string \<Rightarrow> agent_runner \<Rightarrow> agent_runner" where
  "add_target rv cfg t r =
     (if t \<in> set (agent_targets r) then r
      else (case start_pipeline rv cfg t r of
          (None, r1) \<Rightarrow> r1 | (Some p, r1) \<Rightarrow> r1\<lparr>ag_pipes := p # ag_pipes r1\<rparr>))"

text \<open>The set of wanted targets is a map: \<open>iter\<close> is the order of its iteration.\<close>

definition wanted :: "string list \<Rightarrow> string list" where "wanted targets = remdups (filter (\<lambda>t. t \<noteq> []) targets)"

definition agent_reconcile :: "(string list \<Rightarrow> string list) \<Rightarrow> resolver \<Rightarrow> supervisor_config \<Rightarrow> string list \<Rightarrow> agent_runner
    \<Rightarrow> agent_runner" where
  "agent_reconcile iter rv cfg targets r =
     (if ag_stopped r then r
      else fold (add_target rv cfg) (iter (wanted targets)) (stop_pipelines (\<lambda>p. ap_target p \<notin> set (wanted targets)) r))"

definition agent_shutdown :: "agent_runner \<Rightarrow> agent_runner" where
  "agent_shutdown r = (if ag_stopped r then r else (stop_pipelines (\<lambda>_. True) r)\<lparr>ag_stopped := True\<rparr>)"

text \<open>One tick of \<open>runReresolve\<close>; the name is resolved once by the watcher and once by the pipeline it builds. A
  watcher that found a new address ends, whatever it then does.\<close>

definition watcher_tick :: "resolver \<Rightarrow> resolver \<Rightarrow> supervisor_config \<Rightarrow> watcher \<Rightarrow> agent_runner \<Rightarrow> agent_runner" where
  "watcher_tick rv rv2 cfg w r = (case w of (i, t, current) \<Rightarrow>
     (case resolve_target rv t of
        Inl _ \<Rightarrow> r
      | Inr (_, a) \<Rightarrow>
          if a = current then r
          else (let r1 = r\<lparr>ag_watchers := filter (\<lambda>v. v \<noteq> w) (ag_watchers r)\<rparr>
                in if ag_stopped r then r1
                   else if t \<notin> set (agent_targets r) then r1
                   else add_target rv2 cfg t (stop_pipelines (\<lambda>p. ap_target p = t) r1))))"

section \<open>Runs\<close>

datatype agent_event =
    Reconciled "string list \<Rightarrow> string list" "string \<Rightarrow> string list option" "string list"
  | WatcherTicked "string \<Rightarrow> string list option" "string \<Rightarrow> string list option" watcher
  | WatcherEnded watcher
  | ShutDown

text \<open>A watcher ends by itself only once its pipeline is cancelled.\<close>

fun agent_step :: "(string \<Rightarrow> bool) \<Rightarrow> supervisor_config \<Rightarrow> agent_event \<Rightarrow> agent_runner \<Rightarrow> agent_runner" where
  "agent_step v6 cfg (Reconciled iter dns targets) r =
     agent_reconcile iter \<lparr>rv_is_v6 = v6, rv_lookup = dns\<rparr> cfg targets r"
| "agent_step v6 cfg (WatcherTicked dns dns2 w) r =
     (if w \<in> set (ag_watchers r)
      then watcher_tick \<lparr>rv_is_v6 = v6, rv_lookup = dns\<rparr> \<lparr>rv_is_v6 = v6, rv_lookup = dns2\<rparr> cfg w r else r)"
| "agent_step v6 cfg (WatcherEnded w) r =
     (if fst w \<in> set (ag_running r) then r else r\<lparr>ag_watchers := filter (\<lambda>v. v \<noteq> w) (ag_watchers r)\<rparr>)"
| "agent_step v6 cfg ShutDown r = agent_shutdown r"

definition agent_run :: "(string \<Rightarrow> bool) \<Rightarrow> supervisor_config \<Rightarrow> agent_event list \<Rightarrow> agent_runner \<Rightarrow> agent_runner" where
  "agent_run v6 cfg es r = fold (agent_step v6 cfg) es r"

section \<open>Snapshots of the path\<close>

record wire_hop =
  wh_ttl :: int
  wh_ip :: "string option"
  wh_current :: rat
  wh_avg :: rat
  wh_min :: rat
  wh_loss :: rat
  wh_last :: "int option"

definition wire_ms :: "(rat \<Rightarrow> rat) \<Rightarrow> duration \<Rightarrow> rat" where
  "wire_ms rnd d = rnd (of_int (if d < 0 then - (- d div 1000) else d div 1000) / 1000)"

definition wire_hop_of :: "(rat \<Rightarrow> rat) \<Rightarrow> hop_snapshot \<Rightarrow> wire_hop" where
  "wire_hop_of rnd h = \<lparr>wh_ttl = int (hs_TTL h),
     wh_ip = (if addr_valid (hs_CurrentIP h) then Some (addr_string (hs_CurrentIP h)) else None),
     wh_current = wire_ms rnd (hs_CurrentRTT h), wh_avg = wire_ms rnd (hs_AvgRTT h), wh_min = wire_ms rnd (hs_MinRTT h),
     wh_loss = hs_LossPercent h,
     wh_last = (if hs_LastResponse h = zero_time then None else Some (unix_milli (hs_LastResponse h)))\<rparr>"

text \<open>The body of the post; the JSON text of the hops is a parameter.\<close>

definition path_post :: "(wire_hop list \<Rightarrow> string) \<Rightarrow> (rat \<Rightarrow> rat) \<Rightarrow> string \<Rightarrow> string \<Rightarrow> instant \<Rightarrow> path_snapshot \<Rightarrow> path_request" where
  "path_post json rnd probe target now s = \<lparr>pq_probe = probe, pq_target = target, pq_ts = unix_milli now,
     pq_hop_count = int (length (sn_Hops s)), pq_target_ttl = int (sn_TargetTTL s),
     pq_hops = Some (json (map (wire_hop_of rnd) (sn_Hops s)), Some (length (sn_Hops s)))\<rparr>"

end
