(* ===== verification/AgentTargets.thy ===== *)
theory AgentTargets
  imports AgentRunner SupervisorSync ProbeUpdates
begin

text \<open>
  What the runner of a probe keeps: no pipeline outlives its entry, no target has two, and after a heartbeat the
  probe works on the set of the central.
\<close>

section \<open>The invariant\<close>

definition watched :: "(string \<Rightarrow> bool) \<Rightarrow> agent_runner \<Rightarrow> agent_pipeline \<Rightarrow> bool" where
  "watched v6 r p \<longleftrightarrow> (parse_addr v6 (ap_target p) = NotAnAddr \<longrightarrow> (ap_id p, ap_target p, ap_addr p) \<in> set (ag_watchers r))"

definition tidy :: "(string \<Rightarrow> bool) \<Rightarrow> agent_runner \<Rightarrow> bool" where
  "tidy v6 r \<longleftrightarrow> set (ag_running r) = ap_id ` set (ag_pipes r) \<and> distinct (map ap_target (ag_pipes r))
     \<and> distinct (map ap_id (ag_pipes r)) \<and> (\<forall>p \<in> set (ag_pipes r). ap_id p < ag_next r)
     \<and> (\<forall>p \<in> set (ag_pipes r). watched v6 r p) \<and> (\<forall>w \<in> set (ag_watchers r). fst w < ag_next r)
     \<and> (ag_stopped r \<longrightarrow> ag_pipes r = [])"

lemma start_pipeline_Some:
  assumes "start_pipeline rv cfg t r = (Some p, r1)"
  shows "ap_id p = ag_next r" "ap_target p = t"
    "r1 = r\<lparr>ag_next := Suc (ag_next r), ag_running := ag_next r # ag_running r,
       ag_watchers := (if parse_addr (rv_is_v6 rv) t = NotAnAddr then [(ag_next r, t, ap_addr p)] else []) @ ag_watchers r\<rparr>"
  using assms by (auto simp: start_pipeline_def split: sum.splits prod.splits)

lemma start_pipeline_None: "start_pipeline rv cfg t r = (None, r1) \<Longrightarrow> r1 = r"
  by (auto simp: start_pipeline_def split: sum.splits prod.splits)

lemma add_target_cases:
  obtains "add_target rv cfg t r = r"
  | p r1 where "t \<notin> set (agent_targets r)" "start_pipeline rv cfg t r = (Some p, r1)" "add_target rv cfg t r = r1\<lparr>ag_pipes := p # ag_pipes r1\<rparr>"
proof (cases "t \<in> set (agent_targets r)")
  case True
  show thesis by (rule that(1)) (use True in \<open>simp add: add_target_def\<close>)
next
  case False
  obtain res r1 where s: "start_pipeline rv cfg t r = (res, r1)" by fastforce
  show thesis
  proof (cases res)
    case None
    show thesis by (rule that(1)) (use False s None start_pipeline_None [of rv cfg t r r1] in \<open>simp add: add_target_def\<close>)
  next
    case (Some p)
    show thesis by (rule that(2) [OF False s [unfolded Some]]) (use False s Some in \<open>simp add: add_target_def\<close>)
  qed
qed

lemma add_target_stopped [simp]: "ag_stopped (add_target rv cfg t r) = ag_stopped r"
  by (rule add_target_cases [of rv cfg t r]) (auto dest: start_pipeline_Some(3))

lemma tidy_add:
  assumes "tidy (rv_is_v6 rv) r" "\<not> ag_stopped r"
  shows "tidy (rv_is_v6 rv) (add_target rv cfg t r)"
proof (rule add_target_cases [of rv cfg t r])
  fix p r1
  assume t: "t \<notin> set (agent_targets r)" and s: "start_pipeline rv cfg t r = (Some p, r1)"
    and a: "add_target rv cfg t r = r1\<lparr>ag_pipes := p # ag_pipes r1\<rparr>"
  note p = start_pipeline_Some [OF s]
  have "ag_next r \<notin> ap_id ` set (ag_pipes r)" using assms(1) by (auto simp: tidy_def)
  then show ?thesis using assms t unfolding a tidy_def p(3)
    by (auto simp: p(1,2) agent_targets_def watched_def less_Suc_eq)
qed (use assms in simp)

lemma tidy_stop: "tidy v6 r \<Longrightarrow> tidy v6 (stop_pipelines P r)"
proof -
  assume t: "tidy v6 r"
  have "ap_id p \<notin> ap_id ` set (filter P (ag_pipes r))" if "p \<in> set (ag_pipes r)" "\<not> P p" for p
    using t that by (auto simp: tidy_def distinct_map dest: inj_onD)
  then have "set (ag_running (stop_pipelines P r)) = ap_id ` set (ag_pipes (stop_pipelines P r))"
    using t by (auto simp: tidy_def stop_pipelines_def)
  then show ?thesis using t
    by (auto simp: tidy_def stop_pipelines_def watched_def distinct_map inj_on_def)
qed

lemma stop_stopped [simp]: "ag_stopped (stop_pipelines P r) = ag_stopped r" by (simp add: stop_pipelines_def)

lemma tidy_fold_add:
  "tidy (rv_is_v6 rv) r \<Longrightarrow> \<not> ag_stopped r \<Longrightarrow> tidy (rv_is_v6 rv) (fold (add_target rv cfg) ts r)"
  by (induction ts arbitrary: r) (simp_all add: tidy_add)

text \<open>Ending a watcher whose pipeline is not in the map any more.\<close>

lemma tidy_drop_watcher:
  assumes "tidy v6 r" "\<forall>p \<in> set (ag_pipes r). ap_id p \<noteq> fst w"
  shows "tidy v6 (r\<lparr>ag_watchers := filter (\<lambda>v. v \<noteq> w) (ag_watchers r)\<rparr>)"
  using assms by (auto simp: tidy_def watched_def)

lemma stop_drop:
  "stop_pipelines P (r\<lparr>ag_watchers := ws\<rparr>) = (stop_pipelines P r)\<lparr>ag_watchers := ws\<rparr>"
  by (simp add: stop_pipelines_def)

lemma stop_watchers [simp]: "ag_watchers (stop_pipelines P r) = ag_watchers r" by (simp add: stop_pipelines_def)

lemma tidy_watcher:
  assumes "tidy v6 r" "(i, t, a) \<in> set (ag_watchers r)" "\<forall>p \<in> set (ag_pipes r). ap_id p = i \<longrightarrow> ap_target p = t"
    and "rv_is_v6 rv2 = v6"
  shows "tidy v6 (watcher_tick rv rv2 cfg (i, t, a) r)"
proof -
  let ?q = "stop_pipelines (\<lambda>p. ap_target p = t) r"
  let ?ws = "filter (\<lambda>v. v \<noteq> (i, t, a)) (ag_watchers r)"
  have "tidy v6 ?q" by (rule tidy_stop [OF assms(1)])
  moreover have "\<forall>p \<in> set (ag_pipes ?q). ap_id p \<noteq> i" using assms(3) by (auto simp: stop_pipelines_def)
  ultimately have q: "tidy v6 (?q\<lparr>ag_watchers := ?ws\<rparr>)" using tidy_drop_watcher [of v6 ?q "(i, t, a)"] by simp
  have absent: "tidy v6 (r\<lparr>ag_watchers := ?ws\<rparr>)" if "t \<notin> set (agent_targets r)"
    using tidy_drop_watcher [OF assms(1), of "(i, t, a)"] assms(3) that by (auto simp: agent_targets_def)
  have "ag_stopped r \<Longrightarrow> t \<notin> set (agent_targets r)" using assms(1) by (auto simp: tidy_def agent_targets_def)
  then show ?thesis using assms(1,4) absent q tidy_add [of rv2 "?q\<lparr>ag_watchers := ?ws\<rparr>" cfg t]
    by (auto simp: watcher_tick_def stop_drop Let_def split: sum.split)
qed

text \<open>A watcher belongs to the target it was started for.\<close>

definition watchers_match :: "agent_runner \<Rightarrow> bool" where
  "watchers_match r \<longleftrightarrow> (\<forall>(i, t, a) \<in> set (ag_watchers r). \<forall>p \<in> set (ag_pipes r). ap_id p = i \<longrightarrow> ap_target p = t)"

definition numbered :: "agent_runner \<Rightarrow> bool" where
  "numbered r \<longleftrightarrow> (\<forall>p \<in> set (ag_pipes r). ap_id p < ag_next r) \<and> (\<forall>w \<in> set (ag_watchers r). fst w < ag_next r)"

lemma match_add:
  assumes "numbered r" "watchers_match r"
  shows "watchers_match (add_target rv cfg t r)"
proof (rule add_target_cases [of rv cfg t r])
  fix p r1
  assume s: "start_pipeline rv cfg t r = (Some p, r1)" and a: "add_target rv cfg t r = r1\<lparr>ag_pipes := p # ag_pipes r1\<rparr>"
  note p = start_pipeline_Some [OF s]
  show ?thesis using assms unfolding a watchers_match_def p(3) numbered_def by (fastforce simp: p(1,2))
qed (use assms in simp)

lemma tidy_numbered: "tidy v6 r \<Longrightarrow> numbered r" by (simp add: tidy_def numbered_def)

lemma match_stop: "watchers_match r \<Longrightarrow> watchers_match (stop_pipelines P r)"
  by (auto simp: watchers_match_def stop_pipelines_def)

lemma match_drop: "watchers_match r \<Longrightarrow> watchers_match (r\<lparr>ag_watchers := filter Q (ag_watchers r)\<rparr>)"
  by (auto simp: watchers_match_def)

lemma match_fold_add:
  "tidy (rv_is_v6 rv) r \<Longrightarrow> \<not> ag_stopped r \<Longrightarrow> watchers_match r \<Longrightarrow> watchers_match (fold (add_target rv cfg) ts r)"
  by (induction ts arbitrary: r) (simp_all add: tidy_add match_add tidy_numbered)

text \<open>Ticks leave the other entries alone.\<close>

lemma match_watcher:
  assumes "tidy (rv_is_v6 rv2) r" "watchers_match r"
  shows "watchers_match (watcher_tick rv rv2 cfg w r)"
proof -
  obtain i t a where w: "w = (i, t, a)" by (cases w)
  let ?q = "stop_pipelines (\<lambda>p. ap_target p = t) (r\<lparr>ag_watchers := filter (\<lambda>v. v \<noteq> w) (ag_watchers r)\<rparr>)"
  have "numbered ?q" using tidy_numbered [OF assms(1)] by (auto simp: numbered_def stop_pipelines_def)
  then have "watchers_match (add_target rv2 cfg t ?q)" by (rule match_add) (rule match_stop [OF match_drop [OF assms(2)]])
  then show ?thesis using assms(2) match_drop [OF assms(2), of "\<lambda>v. v \<noteq> w"] w
    by (auto simp: watcher_tick_def Let_def split: sum.split)
qed

lemma agent_step_tidy:
  assumes "tidy v6 r" "watchers_match r"
  shows "tidy v6 (agent_step v6 cfg e r) \<and> watchers_match (agent_step v6 cfg e r)"
proof (cases e)
  case (Reconciled iter dns targets)
  let ?q = "stop_pipelines (\<lambda>p. ap_target p \<notin> set (wanted targets)) r"
  show ?thesis
    using tidy_fold_add [of "\<lparr>rv_is_v6 = v6, rv_lookup = dns\<rparr>" ?q cfg "iter (wanted targets)"]
      match_fold_add [of "\<lparr>rv_is_v6 = v6, rv_lookup = dns\<rparr>" ?q cfg "iter (wanted targets)"]
      tidy_stop [OF assms(1)] match_stop [OF assms(2)] assms by (simp add: Reconciled agent_reconcile_def)
next
  case (WatcherTicked dns dns2 w)
  obtain i t a where w: "w = (i, t, a)" by (cases w)
  have "\<forall>p \<in> set (ag_pipes r). ap_id p = i \<longrightarrow> ap_target p = t" if "(i, t, a) \<in> set (ag_watchers r)"
    using assms(2) that by (auto simp: watchers_match_def)
  then show ?thesis
    using tidy_watcher [OF assms(1), of i t a "\<lparr>rv_is_v6 = v6, rv_lookup = dns2\<rparr>" "\<lparr>rv_is_v6 = v6, rv_lookup = dns\<rparr>" cfg]
      match_watcher [of "\<lparr>rv_is_v6 = v6, rv_lookup = dns2\<rparr>" r "\<lparr>rv_is_v6 = v6, rv_lookup = dns\<rparr>" cfg w] assms
    by (simp add: WatcherTicked w)
next
  case (WatcherEnded w)
  have "\<forall>p \<in> set (ag_pipes r). ap_id p \<noteq> fst w" if "fst w \<notin> set (ag_running r)"
    using assms(1) that unfolding tidy_def by (metis image_eqI)
  then show ?thesis using tidy_drop_watcher [OF assms(1), of w] match_drop [OF assms(2)] assms by (simp add: WatcherEnded)
next
  case ShutDown
  have "tidy v6 ((stop_pipelines (\<lambda>_. True) r)\<lparr>ag_stopped := True\<rparr>)"
    using tidy_stop [OF assms(1), of "\<lambda>_. True"] by (auto simp: tidy_def watched_def stop_pipelines_def)
  moreover have "watchers_match ((stop_pipelines (\<lambda>_. True) r)\<lparr>ag_stopped := True\<rparr>)"
    using match_stop [OF assms(2)] by (simp add: watchers_match_def)
  ultimately show ?thesis using assms by (simp add: ShutDown agent_shutdown_def)
qed

lemma agent_run_tidy:
  "tidy v6 r \<Longrightarrow> watchers_match r \<Longrightarrow> tidy v6 (agent_run v6 cfg es r) \<and> watchers_match (agent_run v6 cfg es r)"
  unfolding agent_run_def by (induction es arbitrary: r) (simp_all add: agent_step_tidy)

lemma new_agent_tidy: "tidy v6 new_agent_runner" "watchers_match new_agent_runner"
  by (simp_all add: tidy_def watchers_match_def new_agent_runner_def)

section \<open>The targets after a heartbeat\<close>

definition startable :: "resolver \<Rightarrow> supervisor_config \<Rightarrow> string \<Rightarrow> bool" where
  "startable rv cfg t = (case resolve_target rv t of
     Inl _ \<Rightarrow> False | Inr (_, a) \<Rightarrow> (case build_pipeline cfg t a (sc_interval cfg) False of Inl _ \<Rightarrow> False | Inr _ \<Rightarrow> True))"

lemma add_target_set:
  "set (agent_targets (add_target rv cfg t r)) = set (agent_targets r) \<union> (if startable rv cfg t then {t} else {})"
  by (auto simp: add_target_def start_pipeline_def startable_def agent_targets_def split: sum.splits prod.splits)

lemma add_target_keeps: "set (ag_pipes r) \<subseteq> set (ag_pipes (add_target rv cfg t r))"
  by (rule add_target_cases [of rv cfg t r]) (auto dest: start_pipeline_Some(3))

lemma fold_add_set:
  "set (agent_targets (fold (add_target rv cfg) ts r)) = set (agent_targets r) \<union> {t \<in> set ts. startable rv cfg t}"
  by (induction ts arbitrary: r) (auto simp: add_target_set)

lemma fold_add_keeps: "set (ag_pipes r) \<subseteq> set (ag_pipes (fold (add_target rv cfg) ts r))"
proof (induction ts arbitrary: r)
  case (Cons t ts)
  then show ?case using add_target_keeps [of r rv cfg t] by (auto intro: subset_trans)
qed simp

lemma reconcile_set:
  assumes "\<not> ag_stopped r" "set (iter (wanted targets)) = set (wanted targets)"
  shows "set (agent_targets (agent_reconcile iter rv cfg targets r)) =
      {t \<in> set targets. t \<noteq> [] \<and> (t \<in> set (agent_targets r) \<or> startable rv cfg t)}"
    and "p \<in> set (ag_pipes r) \<Longrightarrow> ap_target p \<in> set targets \<Longrightarrow> ap_target p \<noteq> [] \<Longrightarrow>
      p \<in> set (ag_pipes (agent_reconcile iter rv cfg targets r))"
proof -
  let ?q = "stop_pipelines (\<lambda>p. ap_target p \<notin> set (wanted targets)) r"
  have "set (agent_targets ?q) = set (agent_targets r) \<inter> set (wanted targets)"
    by (auto simp: agent_targets_def stop_pipelines_def)
  then show "set (agent_targets (agent_reconcile iter rv cfg targets r)) =
      {t \<in> set targets. t \<noteq> [] \<and> (t \<in> set (agent_targets r) \<or> startable rv cfg t)}"
    using assms by (auto simp: agent_reconcile_def fold_add_set wanted_def)
  show "p \<in> set (ag_pipes (agent_reconcile iter rv cfg targets r))"
    if "p \<in> set (ag_pipes r)" "ap_target p \<in> set targets" "ap_target p \<noteq> []"
    using fold_add_keeps [of ?q rv cfg "iter (wanted targets)"] that assms(1)
    by (auto simp: agent_reconcile_def stop_pipelines_def wanted_def)
qed

section \<open>What the runner guarantees\<close>

text \<open>C30: In every run of a probe, whatever its heartbeats, the answers of DNS, late ticks of watchers and shutdown, the
  pipelines that run are exactly those of its map: no target is probed by two of them, none goes on after its target
  is gone, and after shutdown none is left. Each pipeline of a host name has its watcher.\<close>

theorem no_pipeline_leaks:
  fixes v6 cfg es
  defines "r \<equiv> agent_run v6 cfg es new_agent_runner"
  shows "set (ag_running r) = ap_id ` set (ag_pipes r) \<and> distinct (agent_targets r) \<and> distinct (map ap_id (ag_pipes r))
    \<and> (ag_stopped r \<longrightarrow> ag_running r = [])
    \<and> (\<forall>p \<in> set (ag_pipes r). parse_addr v6 (ap_target p) = NotAnAddr \<longrightarrow>
        (ap_id p, ap_target p, ap_addr p) \<in> set (ag_watchers r))"
proof -
  have "tidy v6 r" unfolding r_def using agent_run_tidy [OF new_agent_tidy, of v6 cfg es] by simp
  then show ?thesis by (auto simp: tidy_def agent_targets_def watched_def)
qed

lemma no_pipeline_leaks_witness:
  defines "r \<equiv> agent_run (\<lambda>_. False) demo_sup_config
    [Reconciled (\<lambda>ts. ts) (\<lambda>_. None) [''1.1.1.1''], ShutDown] new_agent_runner"
  shows "ag_running r = []"
proof -
  have "ag_stopped r" by (simp add: r_def agent_run_def agent_shutdown_def agent_reconcile_def)
  then show ?thesis unfolding r_def using no_pipeline_leaks [of "\<lambda>_. False" demo_sup_config] by blast
qed

text \<open>The reply as it is decoded: the same targets and the same command.\<close>

definition reply_of :: "heartbeat_response \<Rightarrow> heartbeat_reply" where
  "reply_of resp = \<lparr>hp_targets = hr_target_set resp,
     hp_update = map_option (\<lambda>u. \<lparr>ac_version = uc_version u, ac_sha = uc_sha u, ac_path = uc_path u\<rparr>) (hr_update resp)\<rparr>"

text \<open>C29: The probes work on the set of the central. A heartbeat the central answers is a success for the probe, and the
  reconciliation that follows leaves it with one pipeline for every target the central monitors that it was already
  probing or can resolve, and with no other; the pipelines it had for these targets go on undisturbed.\<close>

theorem agents_probe_the_central_set:
  fixes v6 cfg es iter dns
  defines "r \<equiv> agent_run v6 cfg es new_agent_runner"
    and "r1 resp \<equiv> agent_step v6 cfg (Reconciled iter dns (hp_targets (reply_of resp))) (agent_run v6 cfg es new_agent_runner)"
  assumes "fst (handle_heartbeat c body (sup_targets s) w) = Inr resp" "\<not> ag_stopped r" "\<And>ts. set (iter ts) = set ts"
  shows "beat_once (Status 200) (Some (reply_of resp)) = (BeatOk, Some (reply_of resp))
    \<and> set (agent_targets (r1 resp)) = {t \<in> monitored s. t \<noteq> [] \<and>
        (t \<in> set (agent_targets r) \<or> startable \<lparr>rv_is_v6 = v6, rv_lookup = dns\<rparr> cfg t)}
    \<and> distinct (agent_targets (r1 resp))
    \<and> {p \<in> set (ag_pipes r). ap_target p \<in> monitored s \<and> ap_target p \<noteq> []} \<subseteq> set (ag_pipes (r1 resp))"
proof -
  have h: "hp_targets (reply_of resp) = sup_targets s"
    using assms(3) by (auto simp: handle_heartbeat_def reply_of_def Let_def split: sum.splits prod.splits)
  have m: "set (sup_targets s) = monitored s" by (simp add: sup_targets_def monitored_def)
  have e: "r1 resp = agent_reconcile iter \<lparr>rv_is_v6 = v6, rv_lookup = dns\<rparr> cfg (sup_targets s) r"
    by (simp add: r1_def r_def h)
  have "tidy v6 r" unfolding r_def using agent_run_tidy [OF new_agent_tidy, of v6 cfg es] by simp
  moreover have "watchers_match r" unfolding r_def using agent_run_tidy [OF new_agent_tidy, of v6 cfg es] by simp
  ultimately have "tidy v6 (r1 resp)" using agent_step_tidy [of v6 r cfg "Reconciled iter dns (sup_targets s)"] by (simp add: e)
  then have d: "distinct (agent_targets (r1 resp))" by (simp add: tidy_def agent_targets_def)
  note q = reconcile_set [where iter = iter and r = r and targets = "sup_targets s"
    and rv = "\<lparr>rv_is_v6 = v6, rv_lookup = dns\<rparr>" and cfg = cfg, OF assms(4) assms(5), unfolded m]
  have b: "beat_once (Status 200) (Some (reply_of resp)) = (BeatOk, Some (reply_of resp))"
    by (simp add: beat_once_def post_json_def classify_response_def)
  show ?thesis using b d q(1) q(2) unfolding e by blast
qed

definition demo_dns :: "string \<Rightarrow> string list option" where "demo_dns _ = Some [''::1'', ''9.9.9.9'']"

lemma demo_startable: "startable \<lparr>rv_is_v6 = \<lambda>_. False, rv_lookup = demo_dns\<rparr> demo_sup_config ''a''"
proof -
  have r: "\<lparr>rv_is_v6 = \<lambda>_. False, rv_lookup = demo_dns\<rparr> = demo_resolver" by (simp add: demo_resolver_def demo_dns_def fun_eq_iff)
  show ?thesis unfolding r by (simp add: startable_def demo_resolves demo_builds demo_interval)
qed

lemma demo_answered:
  "\<exists>resp. fst (handle_heartbeat (demo_call\<lparr>cl_yaml_tokens := [''tok'']\<rparr>) (Some (demo_beat ''0.1.0'')) (sup_targets demo_sup)
    (empty_fleet [])) = Inr resp"
proof -
  have "sup_targets demo_sup = [''a'']" by (simp add: sup_targets_def demo_sup_state)
  moreover have "fst (handle_heartbeat (demo_call\<lparr>cl_yaml_tokens := [''tok'']\<rparr>) (Some (demo_beat ''0.1.0'')) [''a'']
    (empty_fleet [])) = Inr \<lparr>hr_registered = 0, hr_target_set = [''a''], hr_update = None\<rparr>" by code_simp
  ultimately show ?thesis by (simp only: sum.inject ex_simps simp_thms)
qed

lemma agents_probe_the_central_set_witness:
  "\<exists>resp. set (agent_targets (agent_step (\<lambda>_. False) demo_sup_config (Reconciled (\<lambda>ts. ts) demo_dns (hp_targets (reply_of resp)))
    (agent_run (\<lambda>_. False) demo_sup_config [] new_agent_runner))) = {''a''}"
proof -
  obtain resp where h: "fst (handle_heartbeat (demo_call\<lparr>cl_yaml_tokens := [''tok'']\<rparr>) (Some (demo_beat ''0.1.0''))
    (sup_targets demo_sup) (empty_fleet [])) = Inr resp" using demo_answered by blast
  have "\<not> ag_stopped (agent_run (\<lambda>_. False) demo_sup_config [] new_agent_runner)" by (simp add: agent_run_def new_agent_runner_def)
  note q = agents_probe_the_central_set [OF h this, of "\<lambda>ts. ts" demo_dns, unfolded demo_monitored(1)]
  have pick: "{t \<in> {x}. P t} = {x}" if "P x" for x :: string and P using that by auto
  have "set (agent_targets (agent_step (\<lambda>_. False) demo_sup_config (Reconciled (\<lambda>ts. ts) demo_dns (hp_targets (reply_of resp)))
      (agent_run (\<lambda>_. False) demo_sup_config [] new_agent_runner))) = {''a''}"
    by (rule trans [OF conjunct1 [OF conjunct2 [OF q]] pick]) (simp_all add: demo_startable)
  then show ?thesis ..
qed

end
