(* ===== verification/DaemonConfig.thy ===== *)
theory DaemonConfig
  imports AgentTargets CrossOrigin
begin

text \<open>
  The files the two roles are configured with (\<open>internal/config\<close>): defaults, the overlay, the environment and
  validation. The YAML library is a parameter that overlays the file on a configuration, and so is the part of
  \<open>url.Parse\<close> the validation looks at.
\<close>

section \<open>The central\<close>

record probe_config =
  pc_interval :: duration
  pc_discovery :: duration
  pc_max_hops :: int
  pc_timeout :: duration
  pc_threshold :: int

record log_config =
  lc_level :: string
  lc_format :: string

record daemon_config =
  dm_listen :: string
  dm_hosts :: "string list"
  dm_path :: string
  dm_retention :: int
  dm_probe :: probe_config
  dm_rdns :: bool
  dm_log :: log_config
  dm_tokens :: "string list"

definition default_probe_config :: probe_config where
  "default_probe_config = \<lparr>pc_interval = go_second, pc_discovery = 30 * go_second, pc_max_hops = 30,
     pc_timeout = 2 * go_second, pc_threshold = 5\<rparr>"

definition default_log_config :: log_config where
  "default_log_config = \<lparr>lc_level = ''info'', lc_format = ''text''\<rparr>"

definition default_config :: daemon_config where
  "default_config = \<lparr>dm_listen = '':8080'', dm_hosts = [], dm_path = ''/var/lib/hoptrail/hoptrail.db'', dm_retention = 7,
     dm_probe = default_probe_config, dm_rdns = True, dm_log = default_log_config, dm_tokens = []\<rparr>"

definition apply_env_overrides :: "(string \<Rightarrow> string) \<Rightarrow> daemon_config \<Rightarrow> daemon_config" where
  "apply_env_overrides getenv c =
     (let listen = getenv ''HOPTRAIL_LISTEN''; path = getenv ''HOPTRAIL_STORAGE_PATH''; level = getenv ''HOPTRAIL_LOG_LEVEL''
      in c\<lparr>dm_listen := (if listen \<noteq> [] then listen else dm_listen c), dm_path := (if path \<noteq> [] then path else dm_path c),
           dm_log := (if level \<noteq> [] then (dm_log c)\<lparr>lc_level := level\<rparr> else dm_log c)\<rparr>)"

definition max_hops_ceiling :: int where "max_hops_ceiling = 64"
definition min_agent_token_len :: nat where "min_agent_token_len = 16"
definition valid_log_levels :: "string list" where "valid_log_levels = [''debug'', ''info'', ''warn'', ''error'']"
definition valid_log_formats :: "string list" where "valid_log_formats = [''text'', ''json'']"

datatype settings_problem =
    ListenEmpty | ListenNotHostPort | PathEmpty | RetentionTooSmall | IntervalNotPositive | DiscoveryNotPositive
  | TimeoutNotPositive | MaxHopsTooSmall | MaxHopsTooLarge | ThresholdTooSmall | TokenEmpty nat | TokenTooShort nat
  | BadLogLevel | BadLogFormat | ProbeIdEmpty | ProbeIdPattern | ProbeIdReserved | UrlEmpty | UrlNotHttp
  | HeartbeatNotPositive | IngestNotPositive | BufferPathEmpty | BufferTooSmall

definition when_bad :: "bool \<Rightarrow> settings_problem \<Rightarrow> settings_problem list" where
  "when_bad b p = (if b then [p] else [])"

definition token_problem :: "nat \<Rightarrow> string \<Rightarrow> settings_problem list" where
  "token_problem i t = (if trim_space t = [] then [TokenEmpty i]
     else if length t < min_agent_token_len then [TokenTooShort i] else [])"

definition log_problems :: "log_config \<Rightarrow> settings_problem list" where
  "log_problems c = when_bad (lc_level c \<notin> set valid_log_levels) BadLogLevel
     @ when_bad (lc_format c \<notin> set valid_log_formats) BadLogFormat"

definition validate_config :: "daemon_config \<Rightarrow> settings_problem list" where
  "validate_config c = (let p = dm_probe c in
     (if dm_listen c = [] then [ListenEmpty]
      else if split_host_port (dm_listen c) = None then [ListenNotHostPort] else [])
     @ when_bad (trim_space (dm_path c) = []) PathEmpty
     @ when_bad (dm_retention c < 1) RetentionTooSmall
     @ when_bad (pc_interval p \<le> 0) IntervalNotPositive
     @ when_bad (pc_discovery p \<le> 0) DiscoveryNotPositive
     @ when_bad (pc_timeout p \<le> 0) TimeoutNotPositive
     @ (if pc_max_hops p < 1 then [MaxHopsTooSmall]
        else if pc_max_hops p > max_hops_ceiling then [MaxHopsTooLarge] else [])
     @ when_bad (pc_threshold p < 1) ThresholdTooSmall
     @ concat (map (\<lambda>(i, t). token_problem i t) (enumerate 0 (dm_tokens c)))
     @ log_problems (dm_log c))"

definition load_config :: "(string \<Rightarrow> daemon_config \<Rightarrow> daemon_config option) \<Rightarrow> (string \<Rightarrow> string) \<Rightarrow> string option
    \<Rightarrow> daemon_config option" where
  "load_config yaml getenv file = (case file of
     None \<Rightarrow> None
   | Some raw \<Rightarrow> (case yaml raw default_config of
         None \<Rightarrow> None
       | Some c \<Rightarrow> (let c = apply_env_overrides getenv c in if validate_config c = [] then Some c else None)))"

section \<open>The probe\<close>

record agent_config =
  ga_probe_id :: string
  ga_url :: string
  ga_token :: string
  ga_heartbeat :: duration
  ga_ingest :: duration
  ga_probe :: probe_config
  ga_buffer_path :: string
  ga_buffer_mb :: int
  ga_log :: log_config

definition default_agent_config :: agent_config where
  "default_agent_config = \<lparr>ga_probe_id = [], ga_url = [], ga_token = [], ga_heartbeat = 60 * go_second,
     ga_ingest = 5 * go_second, ga_probe = default_probe_config, ga_buffer_path = ''/var/lib/hoptrail/probe-buffer.db'',
     ga_buffer_mb = 50, ga_log = default_log_config\<rparr>"

definition reserved_probe_ids :: "string list" where "reserved_probe_ids = [''local'', ''all'']"

text \<open>\<open>url\<close> gives the scheme and the host of a text that parses.\<close>

definition validate_agent_config :: "(string \<Rightarrow> (string \<times> string) option) \<Rightarrow> agent_config \<Rightarrow> settings_problem list" where
  "validate_agent_config url c = (let p = ga_probe c in
     (if ga_probe_id c = [] then [ProbeIdEmpty]
      else if \<not> probe_id_matches (ga_probe_id c) then [ProbeIdPattern]
      else concat (map (\<lambda>r. when_bad (ga_probe_id c = r) ProbeIdReserved) reserved_probe_ids))
     @ (if ga_url c = [] then [UrlEmpty]
        else (case url (ga_url c) of
            None \<Rightarrow> [UrlNotHttp]
          | Some (scheme, host) \<Rightarrow> when_bad (scheme \<noteq> ''http'' \<and> scheme \<noteq> ''https'' \<or> host = []) UrlNotHttp))
     @ token_problem 0 (ga_token c)
     @ when_bad (ga_heartbeat c \<le> 0) HeartbeatNotPositive
     @ when_bad (ga_ingest c \<le> 0) IngestNotPositive
     @ when_bad (pc_interval p \<le> 0) IntervalNotPositive
     @ when_bad (pc_discovery p \<le> 0) DiscoveryNotPositive
     @ when_bad (pc_timeout p \<le> 0) TimeoutNotPositive
     @ when_bad (pc_max_hops p < 1 \<or> pc_max_hops p > max_hops_ceiling) MaxHopsTooLarge
     @ when_bad (pc_threshold p < 1) ThresholdTooSmall
     @ when_bad (trim_space (ga_buffer_path c) = []) BufferPathEmpty
     @ when_bad (ga_buffer_mb c < 1) BufferTooSmall
     @ log_problems (ga_log c))"

definition load_agent_config :: "(string \<Rightarrow> agent_config \<Rightarrow> agent_config option) \<Rightarrow> (string \<Rightarrow> (string \<times> string) option)
    \<Rightarrow> string option \<Rightarrow> agent_config option" where
  "load_agent_config yaml url file = (case file of
     None \<Rightarrow> None
   | Some raw \<Rightarrow> (case yaml raw default_agent_config of
         None \<Rightarrow> None | Some c \<Rightarrow> if validate_agent_config url c = [] then Some c else None))"

section \<open>From the file to the pipelines\<close>

definition pipeline_config :: "probe_config \<Rightarrow> supervisor_config" where
  "pipeline_config p = \<lparr>sc_interval = pc_interval p, sc_discovery_interval = pc_discovery p, sc_max_hops = pc_max_hops p,
     sc_timeout = pc_timeout p, sc_threshold = pc_threshold p\<rparr>"

definition probe_config_ok :: "probe_config \<Rightarrow> bool" where
  "probe_config_ok p \<longleftrightarrow> 0 < pc_interval p \<and> 0 < pc_discovery p \<and> 0 < pc_timeout p
     \<and> 1 \<le> pc_max_hops p \<and> pc_max_hops p \<le> 64 \<and> 1 \<le> pc_threshold p"

lemma when_bad_Nil [simp]: "when_bad b p = [] \<longleftrightarrow> \<not> b" by (simp add: when_bad_def)

lemma validate_config_ok: "validate_config c = [] \<Longrightarrow> probe_config_ok (dm_probe c)"
  by (auto simp: validate_config_def probe_config_ok_def max_hops_ceiling_def Let_def split: if_splits)

lemma validate_agent_config_ok:
  "validate_agent_config url c = [] \<Longrightarrow> probe_config_ok (ga_probe c) \<and> validate_probe_id (ga_probe_id c)"
  by (auto simp: validate_agent_config_def probe_config_ok_def validate_probe_id_def max_hops_ceiling_def
      reserved_probe_ids_def Let_def split: if_splits)

lemma pipeline_config_builds:
  assumes "probe_config_ok p" "addr_valid a" "0 < i"
  shows "build_pipeline (pipeline_config p) t a i b = Inr \<lparr>pl_target = t, pl_addr = a, pl_interval = i, pl_warning = None,
    pl_critical = None, pl_final_hop = b\<rparr>"
proof -
  have "pc_max_hops p mod 256 = pc_max_hops p" using assms(1) by (auto simp: probe_config_ok_def)
  then show ?thesis using assms
    by (auto simp: build_pipeline_def new_engine_def new_discovery_def new_pinger_def pipeline_config_def probe_config_ok_def max_ttl_def)
qed

lemma resolve_target_valid: "resolve_target rv typed = Inr (t, a) \<Longrightarrow> t = typed \<and> typed \<noteq> [] \<and> addr_valid a"
proof -
  have f: "first_usable v6 ips = Some a \<Longrightarrow> addr_valid a" for v6 ips a
    by (induction v6 ips rule: first_usable.induct) (auto split: parsed_addr.splits if_splits)
  show "resolve_target rv typed = Inr (t, a) \<Longrightarrow> t = typed \<and> typed \<noteq> [] \<and> addr_valid a"
    by (auto simp: resolve_target_def dest: f split: if_splits parsed_addr.splits option.splits)
qed

lemma put_pipeline_targets: "pl_target ` set (put_pipeline p ps) = insert (pl_target p) (pl_target ` set ps)"
  by (induction p ps rule: put_pipeline.induct) auto

text \<open>C31: A configuration of either role that passes validation starts every target. No pipeline of the central fails to
  build, the probe starts every target it can resolve, and the central never refuses the probe's id. Adding a
  target on the central succeeds exactly when the configured interval lies between 200 ms and a minute, a bound
  that validation does not check: outside it every addition is refused and changes nothing.\<close>

theorem valid_files_start_every_target:
  fixes c :: daemon_config and g :: agent_config
  assumes "validate_config c = []" "validate_agent_config url g = []" "resolve_target rv t = Inr (t, a)"
    and "t \<notin> monitored s"
  defines "cfg \<equiv> pipeline_config (dm_probe c)"
  shows "(\<forall>i b. 0 < i \<longrightarrow> isl (build_pipeline cfg t a i b) = False)
    \<and> startable rv (pipeline_config (ga_probe g)) t
    \<and> validate_probe_id (ga_probe_id g)
    \<and> (if pc_interval (dm_probe c) < 200 * go_ms \<or> pc_interval (dm_probe c) > 60 * go_second
       then sup_add rv cfg now t s = (Inl IntervalOutOfRange, s)
       else fst (sup_add rv cfg now t s) = Inr () \<and> t \<in> monitored (snd (sup_add rv cfg now t s)))"
proof -
  have a: "addr_valid a" using resolve_target_valid [OF assms(3)] by simp
  note b = pipeline_config_builds [OF validate_config_ok [OF assms(1)] a]
  have "0 < pc_interval (ga_probe g)" using validate_agent_config_ok [OF assms(2)] by (simp add: probe_config_ok_def)
  then have st: "startable rv (pipeline_config (ga_probe g)) t"
    using pipeline_config_builds [of "ga_probe g" a] validate_agent_config_ok [OF assms(2)] a
    by (simp add: startable_def assms(3)) (simp add: pipeline_config_def)
  have n: "lookup_pipeline t (sv_pipelines s) = None"
    using assms(4) by (auto simp: lookup_pipeline_def find_None_iff monitored_def)
  have i: "sc_interval cfg = pc_interval (dm_probe c)" by (simp add: cfg_def pipeline_config_def)
  have "if pc_interval (dm_probe c) < 200 * go_ms \<or> pc_interval (dm_probe c) > 60 * go_second
       then sup_add rv cfg now t s = (Inl IntervalOutOfRange, s)
       else fst (sup_add rv cfg now t s) = Inr () \<and> t \<in> monitored (snd (sup_add rv cfg now t s))"
  proof (cases "pc_interval (dm_probe c) < 200 * go_ms \<or> pc_interval (dm_probe c) > 60 * go_second")
    case True
    then show ?thesis
      by (simp add: sup_add_def add_pipeline_def assms(3) i min_probe_interval_def max_probe_interval_def)
  next
    case False
    then have "0 < pc_interval (dm_probe c)" by (simp add: go_units)
    then show ?thesis using False b [of "pc_interval (dm_probe c)" t False, folded cfg_def] n
      by (auto simp: sup_add_def add_pipeline_def assms(3) i min_probe_interval_def max_probe_interval_def
          monitored_def on_db_def put_pipeline_targets)
  qed
  then show ?thesis using b [folded cfg_def] st validate_agent_config_ok [OF assms(2)] by simp
qed

definition fast_config :: daemon_config where
  "fast_config = default_config\<lparr>dm_probe := default_probe_config\<lparr>pc_interval := 100 * go_ms\<rparr>\<rparr>"

definition demo_agent_config :: agent_config where
  "demo_agent_config = default_agent_config\<lparr>ga_probe_id := ''edge'', ga_url := ''u'', ga_token := ''0123456789abcdef''\<rparr>"

text \<open>A file with an interval of 100 ms is valid and leaves the central unable to add any target.\<close>

lemma valid_files_start_every_target_witness:
  "validate_config fast_config = [] \<and>
   sup_add demo_resolver (pipeline_config (dm_probe fast_config)) 0 ''a'' (new_supervisor (empty_target_db [])) =
     (Inl IntervalOutOfRange, new_supervisor (empty_target_db []))"
proof -
  have v: "validate_config fast_config = []" by code_simp
  have g: "validate_agent_config (\<lambda>_. Some (''http'', ''h'')) demo_agent_config = []" by code_simp
  have m: "''a'' \<notin> monitored (new_supervisor (empty_target_db []))" by (simp add: monitored_def new_supervisor_def)
  have i: "pc_interval (dm_probe fast_config) < 200 * go_ms" by (simp add: fast_config_def go_units)
  show ?thesis using valid_files_start_every_target [OF v g demo_resolves(1) m, of 0] v i by simp
qed

end
