(* ===== verification/UiSettings.thy ===== *)
theory UiSettings
  imports AlertConfig "HOL-Library.Multiset"
begin

text \<open>
  Settings of the web page that the central keeps as one row each: the layout of the dashboard
  (\<open>internal/server/layout.go\<close>) and the sounds of alerts (\<open>internal/server/sound.go\<close>). JSON is a parameter: what a
  value is written as and what a text is read as, \<^const>\<open>None\<close> when it does not decode.
\<close>

section \<open>The dashboard\<close>

record layout =
  ly_order :: "string list"
  ly_side :: "string list option"
  ly_position :: string
  ly_width :: int
  ly_collapsed :: "string \<rightharpoonup> bool"
  ly_heights :: "string \<rightharpoonup> int"

definition section_ids :: "string list" where "section_ids = [''latency'', ''bandwidth'', ''hops'']"
definition born_collapsed :: "string \<Rightarrow> bool" where "born_collapsed x = False"
definition layout_key :: string where "layout_key = ''ui.layout''"

definition default_layout :: layout where
  "default_layout = \<lparr>ly_order = [''latency'', ''bandwidth'', ''hops''], ly_side = Some [], ly_position = ''right'',
     ly_width = 340, ly_collapsed = Map.empty, ly_heights = Map.empty\<rparr>"

text \<open>Known sections not seen yet, each once.\<close>

fun take_new :: "string list \<Rightarrow> string list \<Rightarrow> string list" where
  "take_new seen [] = []"
| "take_new seen (x # xs) =
     (if x \<in> set section_ids \<and> x \<notin> set seen then x # take_new (x # seen) xs else take_new seen xs)"

definition normalize_layout :: "layout \<Rightarrow> layout" where
  "normalize_layout l =
     (let side = take_new [] (case ly_side l of None \<Rightarrow> [] | Some s \<Rightarrow> s); main = take_new side (ly_order l);
          missing = filter (\<lambda>id. id \<notin> set (side @ main)) section_ids
      in \<lparr>ly_order = main @ missing, ly_side = Some side, ly_position = (if ly_position l = ''left'' then ''left'' else ''right''),
          ly_width = (if 240 \<le> ly_width l \<and> ly_width l \<le> 680 then ly_width l else 340),
          ly_collapsed = (\<lambda>id. if id \<in> set missing \<and> born_collapsed id \<or> id \<in> set section_ids \<and> ly_collapsed l id = Some True
            then Some True else None),
          ly_heights = (\<lambda>id. case ly_heights l id of None \<Rightarrow> None
            | Some h \<Rightarrow> if id \<in> set section_ids \<and> 120 \<le> h \<and> h \<le> 1600 then Some h else None)\<rparr>)"

record 'a json =
  js_text :: "'a \<Rightarrow> string"
  js_read :: "string \<Rightarrow> 'a option"

definition load_layout :: "layout json \<Rightarrow> bool \<Rightarrow> kv \<Rightarrow> layout option" where
  "load_layout js fault kv = (case get_config fault layout_key kv of
     Inl _ \<Rightarrow> None
   | Inr None \<Rightarrow> Some default_layout
   | Inr (Some v) \<Rightarrow> (case js_read js v of None \<Rightarrow> Some default_layout | Some l \<Rightarrow> Some (normalize_layout l)))"

datatype 'a settings_request = Fetch | Patch "'a option" | OtherMethod

definition handle_layout :: "layout json \<Rightarrow> bool \<Rightarrow> layout settings_request \<Rightarrow> kv \<Rightarrow> (nat + layout) \<times> kv" where
  "handle_layout js fault rq kv = (case rq of
     Fetch \<Rightarrow> (case load_layout js fault kv of None \<Rightarrow> (Inl 500, kv) | Some l \<Rightarrow> (Inr l, kv))
   | Patch None \<Rightarrow> (Inl 400, kv)
   | Patch (Some l) \<Rightarrow> (let n = normalize_layout l in case set_config fault layout_key (js_text js n) kv of
         (False, kv1) \<Rightarrow> (Inl 500, kv1) | (True, kv1) \<Rightarrow> (Inr n, kv1))
   | OtherMethod \<Rightarrow> (Inl 405, kv))"

section \<open>Sounds\<close>

record sound_config =
  sd_enabled :: bool
  sd_events :: "string \<rightharpoonup> bool"

definition sound_key :: string where "sound_key = ''alert.sound''"

definition sound_event_types :: "string list" where
  "sound_event_types = [''probe_offline'', ''target_loss'', ''latency'', ''derate'']"

definition default_sound :: sound_config where
  "default_sound = \<lparr>sd_enabled = False, sd_events = (\<lambda>t. if t \<in> set sound_event_types then Some True else None)\<rparr>"

definition merge_sound :: "sound_config \<Rightarrow> sound_config" where
  "merge_sound stored = \<lparr>sd_enabled = sd_enabled stored,
     sd_events = (\<lambda>t. if t \<in> set sound_event_types
       then (case sd_events stored t of Some v \<Rightarrow> Some v | None \<Rightarrow> Some True) else None)\<rparr>"

definition load_sound :: "sound_config json \<Rightarrow> bool \<Rightarrow> kv \<Rightarrow> sound_config" where
  "load_sound js fault kv = (case get_config fault sound_key kv of
     Inr (Some raw) \<Rightarrow> (case js_read js raw of None \<Rightarrow> default_sound | Some s \<Rightarrow> merge_sound s)
   | _ \<Rightarrow> default_sound)"

text \<open>The events of a request are a finite map: its keys and the value of each.\<close>

record sound_patch =
  sp_enabled :: bool
  sp_events :: "(string \<times> bool) list"

definition handle_sound :: "sound_config json \<Rightarrow> bool \<Rightarrow> bool \<Rightarrow> sound_patch settings_request \<Rightarrow> kv
    \<Rightarrow> (nat + sound_config) \<times> kv" where
  "handle_sound js read_fault write_fault rq kv = (case rq of
     Fetch \<Rightarrow> (Inr (load_sound js read_fault kv), kv)
   | Patch None \<Rightarrow> (Inl 400, kv)
   | Patch (Some p) \<Rightarrow>
       if list_ex (\<lambda>(t, _). t \<notin> set sound_event_types) (sp_events p) then (Inl 400, kv)
       else (let old = load_sound js read_fault kv;
                 new = \<lparr>sd_enabled = sp_enabled p, sd_events = sd_events old ++ map_of (sp_events p)\<rparr>
             in case set_config write_fault sound_key (js_text js new) kv of
                  (False, kv1) \<Rightarrow> (Inl 500, kv1) | (True, kv1) \<Rightarrow> (Inr new, kv1))
   | OtherMethod \<Rightarrow> (Inl 405, kv))"

section \<open>Every layout shows every section once\<close>

definition layout_ok :: "layout \<Rightarrow> bool" where
  "layout_ok l \<longleftrightarrow> (\<exists>side. ly_side l = Some side \<and> mset (ly_order l @ side) = mset section_ids)
     \<and> ly_position l \<in> {''left'', ''right''} \<and> 240 \<le> ly_width l \<and> ly_width l \<le> 680
     \<and> dom (ly_collapsed l) \<subseteq> set section_ids \<and> ran (ly_collapsed l) \<subseteq> {True}
     \<and> dom (ly_heights l) \<subseteq> set section_ids \<and> ran (ly_heights l) \<subseteq> {120..1600}"

lemma set_take_new: "set (take_new seen ids) = (set ids \<inter> set section_ids) - set seen"
  by (induction seen ids rule: take_new.induct) auto

lemma distinct_take_new: "distinct (take_new seen ids)"
  by (induction seen ids rule: take_new.induct) (auto simp: set_take_new)

lemma take_new_id: "distinct ids \<Longrightarrow> set ids \<subseteq> set section_ids \<Longrightarrow> set ids \<inter> set seen = {} \<Longrightarrow> take_new seen ids = ids"
  by (induction ids arbitrary: seen) auto

lemma distinct_sections: "distinct section_ids" by (simp add: section_ids_def)

lemma normalize_collapsed: "ly_collapsed (normalize_layout l) =
    (\<lambda>x. if x \<in> set section_ids \<and> ly_collapsed l x = Some True then Some True else None)"
  by (simp add: normalize_layout_def Let_def born_collapsed_def)

lemma normalize_heights: "ly_heights (normalize_layout l) = (\<lambda>x. case ly_heights l x of None \<Rightarrow> None
    | Some h \<Rightarrow> if x \<in> set section_ids \<and> 120 \<le> h \<and> h \<le> 1600 then Some h else None)"
  by (simp add: normalize_layout_def Let_def)

lemma normalize_heights_Some: "ly_heights (normalize_layout l) x = Some h \<longleftrightarrow>
    ly_heights l x = Some h \<and> x \<in> set section_ids \<and> 120 \<le> h \<and> h \<le> 1600"
  unfolding normalize_heights by (cases "ly_heights l x") auto

lemma normalize_ok: "layout_ok (normalize_layout l)"
proof -
  define side where "side = take_new [] (case ly_side l of None \<Rightarrow> [] | Some s \<Rightarrow> s)"
  define main where "main = take_new side (ly_order l)"
  define missing where "missing = filter (\<lambda>id. id \<notin> set (side @ main)) section_ids"
  have d: "distinct ((main @ missing) @ side)"
    by (auto simp: main_def missing_def side_def distinct_take_new set_take_new distinct_sections)
  have "set ((main @ missing) @ side) = set section_ids"
    by (auto simp: main_def missing_def side_def set_take_new)
  then have m: "mset ((main @ missing) @ side) = mset section_ids"
    by (simp only: set_eq_iff_mset_eq_distinct [OF d distinct_sections, symmetric])
  have o: "ly_order (normalize_layout l) = main @ missing" "ly_side (normalize_layout l) = Some side"
    by (simp_all add: normalize_layout_def Let_def side_def main_def missing_def)
  have "dom (ly_collapsed (normalize_layout l)) \<subseteq> set section_ids" "ran (ly_collapsed (normalize_layout l)) \<subseteq> {True}"
    unfolding normalize_collapsed dom_def ran_def by (auto split: if_splits)
  moreover have "dom (ly_heights (normalize_layout l)) \<subseteq> set section_ids" "ran (ly_heights (normalize_layout l)) \<subseteq> {120..1600}"
    by (simp_all add: dom_def ran_def normalize_heights_Some subset_iff) blast+
  moreover have "ly_position (normalize_layout l) \<in> {''left'', ''right''}" "240 \<le> ly_width (normalize_layout l)"
    "ly_width (normalize_layout l) \<le> 680"
    by (simp_all add: normalize_layout_def Let_def)
  ultimately show ?thesis unfolding layout_ok_def using o m by (intro conjI exI [of _ side]) simp_all
qed

lemma normalize_id: "layout_ok l \<Longrightarrow> normalize_layout l = l"
proof -
  assume ok: "layout_ok l"
  then obtain side where s: "ly_side l = Some side" "mset (ly_order l @ side) = mset section_ids"
    by (auto simp: layout_ok_def)
  have d: "distinct (ly_order l @ side)" using s(2) distinct_sections mset_eq_imp_distinct_iff by blast
  have e: "set (ly_order l) \<union> set side = set section_ids" using s(2) by (metis mset_eq_setD set_append)
  have side: "take_new [] side = side" by (rule take_new_id) (use d e in auto)
  have main: "take_new side (ly_order l) = ly_order l" by (rule take_new_id) (use d e in auto)
  have missing: "filter (\<lambda>id. id \<notin> set (side @ ly_order l)) section_ids = []" using e by (auto simp: filter_empty_conv)
  have cs: "dom (ly_collapsed l) \<subseteq> set section_ids" "ran (ly_collapsed l) \<subseteq> {True}"
    and hs: "dom (ly_heights l) \<subseteq> set section_ids" "ran (ly_heights l) \<subseteq> {120..1600}"
    using ok by (simp_all add: layout_ok_def)
  have c: "(if x \<in> set section_ids \<and> ly_collapsed l x = Some True then Some True else None) = ly_collapsed l x" for x
    using cs domI [of "ly_collapsed l" x] ranI [of "ly_collapsed l" x] by (cases "ly_collapsed l x") auto
  have h: "(case ly_heights l x of None \<Rightarrow> None
      | Some h \<Rightarrow> if x \<in> set section_ids \<and> 120 \<le> h \<and> h \<le> 1600 then Some h else None) = ly_heights l x" for x
    using hs domI [of "ly_heights l" x] ranI [of "ly_heights l" x] by (cases "ly_heights l x") auto
  have p: "(if ly_position l = ''left'' then ''left'' else ''right'') = ly_position l"
    and w: "(if 240 \<le> ly_width l \<and> ly_width l \<le> 680 then ly_width l else 340) = ly_width l"
    using ok unfolding layout_ok_def by auto
  have "normalize_layout l = \<lparr>ly_order = ly_order l, ly_side = ly_side l, ly_position = ly_position l, ly_width = ly_width l,
      ly_collapsed = ly_collapsed l, ly_heights = ly_heights l\<rparr>"
    unfolding normalize_layout_def s(1) option.case Let_def side main missing born_collapsed_def
    by (simp only: c h p w simp_thms if_False empty_iff list.set append_Nil2)
  then show ?thesis by simp
qed

lemma default_layout_ok: "layout_ok default_layout"
  by (simp add: layout_ok_def default_layout_def section_ids_def)



end
