(* ===== verification/ReleaseApi.thy ===== *)
theory ReleaseApi
  imports SelfUpdate ReleaseVer
begin

text \<open>
  The update endpoints over releases (\<open>internal/server/release.go\<close>, with the settings and the status of
  \<open>update.go\<close>): the manual check, the download that stages a verified binary, and the interval setting; then the
  origin of the binary that runs, over every sequence of uploads, downloads and applies.
\<close>

section \<open>Checks and settings\<close>

record check_view =
  cv_at :: int
  cv_version :: string
  cv_available :: bool
  cv_url :: string
  cv_error :: string

definition version_string :: "string \<Rightarrow> string" where
  "version_string v = (if v = [] then ''dev'' else v)"

definition last_check_view :: "string \<Rightarrow> last_check \<Rightarrow> check_view" where
  "last_check_view version lc = \<lparr>cv_at = lc_at lc, cv_version = lc_version lc,
     cv_available = newer (lc_version lc) (version_string version), cv_url = lc_url lc, cv_error = lc_err lc\<rparr>"

definition handle_update_check :: "string \<Rightarrow> bool \<Rightarrow> check_input \<Rightarrow> checker \<Rightarrow> (nat + check_view) \<times> checker" where
  "handle_update_check version has_source inp c =
     (if \<not> has_source then (Inl 501, c)
      else (case check_now inp c of (lc, c1) \<Rightarrow> (Inr (last_check_view version lc), c1)))"

record update_status =
  us_version :: string
  us_staged :: staged_info
  us_sudoers :: sudoers_status
  us_available :: bool
  us_interval :: string
  us_last :: "check_view option"

definition update_status_of :: "string \<Rightarrow> bool \<Rightarrow> version_probe \<Rightarrow> string option \<Rightarrow> bool \<Rightarrow> bool \<Rightarrow> checker \<Rightarrow> install_dir
    \<Rightarrow> update_status" where
  "update_status_of version has_source probe sudoers f1 f2 c d =
     \<lparr>us_version = version_string version, us_staged = staged_version probe d, us_sudoers = sudoers_check sudoers,
      us_available = has_source, us_interval = check_interval_setting f1 c,
      us_last = (if has_source then map_option (last_check_view version) (read_last_check f2 c) else None)\<rparr>"

text \<open>The body of the settings: \<^const>\<open>None\<close> when it does not decode. A success answers with the status.\<close>

definition handle_update_settings :: "bool \<Rightarrow> string option option \<Rightarrow> checker \<Rightarrow> nat \<times> checker" where
  "handle_update_settings fault body c = (case body of
     None \<Rightarrow> (400, c)
   | Some None \<Rightarrow> (400, c)
   | Some (Some v) \<Rightarrow> if \<not> valid_interval v then (400, c)
       else if fault then (500, c) else (200, c\<lparr>ck_setting := Some v\<rparr>))"

section \<open>Download\<close>

record download_env =
  de_release :: "string + release"
  de_now :: instant
  de_record_fails :: bool
  de_web :: web
  de_no_dir :: bool
  de_no_write :: bool

definition staged_path :: string where "staged_path = ''update/hoptrail''"

definition staging_files :: "install_dir \<Rightarrow> files" where
  "staging_files d = (\<lambda>p. if p = staged_path then map_option bn_bytes (id_staged d) else None)"

definition handle_update_download :: "(string \<Rightarrow> string) \<Rightarrow> (string \<Rightarrow> archive option) \<Rightarrow> string \<Rightarrow> version_probe \<Rightarrow> bool
    \<Rightarrow> download_env \<Rightarrow> checker \<Rightarrow> install_dir \<Rightarrow> (nat + staged_info) \<times> checker \<times> install_dir" where
  "handle_update_download sha untar arch probe has_source env c d =
     (if \<not> has_source then (Inl 501, c, d)
      else (case de_release env of
          Inl _ \<Rightarrow> (Inl 502, c, d)
        | Inr rel \<Rightarrow>
            (let c1 = (if de_record_fails env then c else c\<lparr>ck_last := Checked \<lparr>lc_at = unix_milli (de_now env),
                   lc_version = release_version rel, lc_url = rl_url rel, lc_err = []\<rparr>\<rparr>)
             in case download_binary sha untar (de_web env) (de_no_dir env) (de_no_write env) rel arch staged_path (staging_files d) of
                  (Inl _, _) \<Rightarrow> (Inl 502, c1, d)
                | (Inr _, fs) \<Rightarrow> (let d1 = d\<lparr>id_staged := map_option (\<lambda>b. \<lparr>bn_bytes = b, bn_caps = False\<rparr>) (fs staged_path)\<rparr>
                    in (Inr (staged_version probe d1), c1, d1)))))"

section \<open>Runs\<close>

datatype update_event =
    Uploaded upload_env string
  | Downloaded bool download_env
  | AppliedUpdate version_probe "string option" swap_env

fun update_step :: "(string \<Rightarrow> string) \<Rightarrow> (string \<Rightarrow> archive option) \<Rightarrow> string \<Rightarrow> update_event \<Rightarrow> checker \<times> install_dir
    \<Rightarrow> checker \<times> install_dir" where
  "update_step sha untar arch (Uploaded env body) (c, d) = (c, snd (handle_update_upload env body d))"
| "update_step sha untar arch (Downloaded has env) (c, d) =
     snd (handle_update_download sha untar arch (\<lambda>_. Inl []) has env c d)"
| "update_step sha untar arch (AppliedUpdate probe sudoers env) (c, d) = (c, snd (handle_update_apply probe sudoers env d))"

definition update_run where "update_run sha untar arch es s = fold (update_step sha untar arch) es s"

section \<open>Where binaries come from\<close>

definition verified_binary :: "(string \<Rightarrow> string) \<Rightarrow> (string \<Rightarrow> archive option) \<Rightarrow> string \<Rightarrow> download_env \<Rightarrow> string \<Rightarrow> bool" where
  "verified_binary sha untar arch env bytes \<longleftrightarrow> (\<exists>rel bin man manifest body ar m.
     de_release env = Inr rel \<and> binary_asset arch rel = Some bin \<and> checksums_asset rel = Some man
     \<and> de_web env (as_url man) = Some manifest \<and> de_web env (as_url bin) = Some body
     \<and> first_entry (as_name bin) (split_at newline (take (2 ^ 20) manifest)) = Some (sha body)
     \<and> untar body = Some ar \<and> find wanted_member (ar_members ar) = Some m \<and> mb_data m = bytes
     \<and> take 4 bytes = elf_magic)"

definition origin :: "(string \<Rightarrow> string) \<Rightarrow> (string \<Rightarrow> archive option) \<Rightarrow> string \<Rightarrow> update_event list \<Rightarrow> install_dir
    \<Rightarrow> string \<Rightarrow> bool" where
  "origin sha untar arch es d bytes \<longleftrightarrow>
     (\<exists>b. (id_live d = Some b \<or> id_staged d = Some b) \<and> bn_bytes b = bytes)
     \<or> (\<exists>env. Uploaded env bytes \<in> set es \<and> take 4 bytes = elf_magic \<and> length bytes \<le> max_upload_bytes)
     \<or> (\<exists>has env. Downloaded has env \<in> set es \<and> verified_binary sha untar arch env bytes)"

text \<open>Whole, or what is left of an interrupted copy and then without the capability.\<close>

definition from_origin :: "(string \<Rightarrow> bool) \<Rightarrow> binary \<Rightarrow> bool" where
  "from_origin P b \<longleftrightarrow> (\<exists>src. P src \<and> (bn_bytes b = src \<or> \<not> bn_caps b \<and> (\<exists>n. bn_bytes b = take n src)))"

definition traced :: "(string \<Rightarrow> bool) \<Rightarrow> install_dir \<Rightarrow> bool" where
  "traced P d \<longleftrightarrow> (\<forall>b. id_live d = Some b \<longrightarrow> from_origin P b) \<and> (\<forall>b. id_staged d = Some b \<longrightarrow> P (bn_bytes b))"

lemma download_verified:
  assumes "download_binary sha untar get no_dir no_write rel arch dest fs = (Inr u, fs1)"
    "de_release env = Inr rel" "de_web env = get"
  shows "\<exists>bytes. verified_binary sha untar arch env bytes \<and> fs1 = fs(dest \<mapsto> bytes)"
  using assms unfolding verified_binary_def
  by (fastforce simp: download_binary_def fetch_checksum_def extract_binary_def
      split: option.splits sum.splits prod.splits if_splits)

lemma swap_traced:
  assumes "swap_binary env new d = (r, renamed, d1)" "traced P d" "P (bn_bytes new)"
  shows "traced P d1"
proof -
  have live: "from_origin P b" if "id_live d = Some b" for b using assms(2) that by (simp add: traced_def)
  have old: "from_origin P \<lparr>bn_bytes = take n (bn_bytes b), bn_caps = False\<rparr>" if b: "id_live d = Some b" for b n
  proof -
    obtain src where "P src" "bn_bytes b = src \<or> (\<exists>k. bn_bytes b = take k src)" using live [OF b] by (auto simp: from_origin_def)
    then show ?thesis by (auto simp: from_origin_def intro!: exI [of _ src])
  qed
  have whole: "from_origin P \<lparr>bn_bytes = bn_bytes b, bn_caps = False\<rparr>" if "id_live d = Some b" for b
    using old [OF that, of "length (bn_bytes b)"] by simp
  have fresh: "from_origin P (new\<lparr>bn_caps := x\<rparr>)" for x using assms(3) by (auto simp: from_origin_def)
  have fresh0: "from_origin P new" using assms(3) by (auto simp: from_origin_def)
  show ?thesis using assms(1,2) old whole fresh fresh0
    by (cases "id_live d"; cases "sw_backup env"; cases "sw_rollback env")
      (auto simp: swap_binary_def copy_file_def traced_def Let_def split: if_splits)
qed

lemma upload_traced:
  assumes "traced P d" "\<And>bytes. bytes = body \<Longrightarrow> take 4 bytes = elf_magic \<Longrightarrow> length bytes \<le> max_upload_bytes \<Longrightarrow> P bytes"
  shows "traced P (snd (handle_update_upload env body d))"
  using assms by (auto simp: handle_update_upload_def traced_def Let_def)

lemma download_traced:
  assumes "traced P d" "\<And>bytes. verified_binary sha untar arch env bytes \<Longrightarrow> P bytes"
  shows "traced P (snd (snd (handle_update_download sha untar arch probe has env c d)))"
proof (cases "has \<and> (\<exists>rel fs. de_release env = Inr rel \<and>
    download_binary sha untar (de_web env) (de_no_dir env) (de_no_write env) rel arch staged_path (staging_files d) = (Inr (), fs))")
  case True
  then obtain rel fs where r: "has" "de_release env = Inr rel"
    "download_binary sha untar (de_web env) (de_no_dir env) (de_no_write env) rel arch staged_path (staging_files d) = (Inr (), fs)" by blast
  obtain bytes where b: "verified_binary sha untar arch env bytes" "fs = (staging_files d)(staged_path \<mapsto> bytes)"
    using download_verified [OF r(3) r(2) refl] by blast
  show ?thesis using assms(1) assms(2) [OF b(1)] r b(2) by (simp add: handle_update_download_def traced_def Let_def)
next
  case False
  then show ?thesis using assms(1)
    by (auto simp: handle_update_download_def Let_def split: sum.splits prod.splits)
qed

lemma apply_traced:
  assumes "traced P d"
  shows "traced P (snd (handle_update_apply probe sudoers env d))"
proof (cases "\<exists>b v. id_staged d = Some b \<and> probe (bn_bytes b) = Inr v \<and> su_ok (sudoers_check sudoers)")
  case True
  then obtain b v where b: "id_staged d = Some b" "probe (bn_bytes b) = Inr v" "su_ok (sudoers_check sudoers)" by blast
  obtain r renamed d1 where s: "swap_binary env b d = (r, renamed, d1)" by (metis surj_pair)
  have "P (bn_bytes b)" using assms b(1) by (simp add: traced_def)
  from swap_traced [OF s assms this] have "traced P d1" "traced P (d1\<lparr>id_staged := None\<rparr>)" by (simp_all add: traced_def)
  then show ?thesis using b s by (cases r) (simp_all add: handle_update_apply_def staged_version_def)
next
  case False
  then have "snd (handle_update_apply probe sudoers env d) = d"
    by (auto simp: handle_update_apply_def staged_version_def split: option.splits sum.splits)
  then show ?thesis using assms by simp
qed

lemma update_run_traced:
  "traced P (snd s) \<Longrightarrow> (\<And>env bytes. Uploaded env bytes \<in> set es \<Longrightarrow> take 4 bytes = elf_magic \<Longrightarrow> length bytes \<le> max_upload_bytes \<Longrightarrow> P bytes)
    \<Longrightarrow> (\<And>has env bytes. Downloaded has env \<in> set es \<Longrightarrow> verified_binary sha untar arch env bytes \<Longrightarrow> P bytes)
    \<Longrightarrow> traced P (snd (update_run sha untar arch es s))"
proof (induction es arbitrary: s)
  case (Cons e es)
  obtain c d where s: "s = (c, d)" by fastforce
  have "traced P (snd (update_step sha untar arch e s))"
  proof (cases e)
    case (Uploaded env body)
    then show ?thesis using upload_traced [of P d body env] Cons.prems(1,2) by (auto simp: s)
  next
    case (Downloaded has env)
    then show ?thesis using download_traced [of P d sha untar arch env "\<lambda>_. Inl []" has c] Cons.prems(1,3) by (auto simp: s)
  next
    case (AppliedUpdate probe sudoers env)
    then show ?thesis using apply_traced [of P d probe sudoers env] Cons.prems(1) by (simp add: s)
  qed
  then have "traced P (snd (update_run sha untar arch es (update_step sha untar arch e s)))"
    by (rule Cons.IH) (use Cons.prems(2,3) in \<open>fastforce+\<close>)
  then show ?case by (simp add: update_run_def)
qed (simp add: update_run_def)

text \<open>C35: The central runs only binaries with an origin. After any sequence of uploads, downloads and applies, with any
  failures in between, the live binary is one that was there at the start, an uploaded ELF file within the size
  bound, or the member of a release archive whose digest the release's own manifest lists. Only a copy that was
  interrupted while rolling back leaves less than the whole file, and then the file cannot open sockets.\<close>

theorem live_binary_has_an_origin:
  assumes "id_live (snd (update_run sha untar arch es (c, d))) = Some b"
  shows "\<exists>src. origin sha untar arch es d src \<and> (bn_bytes b = src \<or> \<not> bn_caps b \<and> (\<exists>n. bn_bytes b = take n src))"
proof -
  have "traced (origin sha untar arch es d) (snd (update_run sha untar arch es (c, d)))"
    by (rule update_run_traced) (auto simp: traced_def from_origin_def origin_def)
  then show ?thesis using assms by (auto simp: traced_def from_origin_def)
qed

lemma demo_sudoers: "su_ok (sudoers_check (Some ''# SUDOERS_VERSION: 2''))" by code_simp

lemma live_binary_has_an_origin_witness:
  defines "d \<equiv> \<lparr>id_staged = None, id_live = Some \<lparr>bn_bytes = ''old'', bn_caps = True\<rparr>, id_backups = []\<rparr>"
    and "es \<equiv> [Uploaded \<lparr>ul_dir = True, ul_temp = True, ul_read = True, ul_chmod = True, ul_rename = True\<rparr> (elf_magic @ ''new''),
      AppliedUpdate (\<lambda>_. Inr ''1.0.0'') (Some ''# SUDOERS_VERSION: 2'')
        \<lparr>sw_backup_dir = True, sw_backup = CopyDone, sw_rename = True, sw_setcap = True, sw_rollback = CopyDone\<rparr>]"
    and "c \<equiv> demo_checker"
  shows "\<exists>src. origin (\<lambda>x. x) (\<lambda>_. None) ''arm64'' es d src \<and> src = elf_magic @ ''new''"
proof -
  have "id_live (snd (update_run (\<lambda>x. x) (\<lambda>_. None) ''arm64'' es (c, d))) = Some \<lparr>bn_bytes = elf_magic @ ''new'', bn_caps = True\<rparr>"
    using demo_sudoers by (simp add: d_def es_def update_run_def handle_update_upload_def handle_update_apply_def
        staged_version_def swap_binary_def copy_file_def max_upload_bytes_def elf_magic_def Let_def)
  from live_binary_has_an_origin [OF this] show ?thesis by auto
qed

end
