(* ===== verification/SystemSettings.thy ===== *)
theory SystemSettings
  imports DaemonConfig UiSettings
begin

text \<open>
  The settings of the daemon itself (\<open>internal/server/system.go\<close>): listen address, log level and reverse DNS, kept as
  rows that win over the file at the next start (the overrides of \<open>cmdServe\<close> in \<open>cmd/hoptrail/main.go\<close>). Whether an
  address can be bound when the daemon starts is an input of the start.
\<close>

section \<open>The panel\<close>

definition listen_key :: string where "listen_key = ''server.listen''"
definition rdns_key :: string where "rdns_key = ''rdns.enabled''"
definition level_key :: string where "level_key = ''log.level''"

record system =
  sy_rows :: kv
  sy_listen :: string
  sy_rdns :: bool
  sy_boot_level :: string
  sy_live_level :: string

definition effective_log_level :: "system \<Rightarrow> string" where
  "effective_log_level s = (if sy_live_level s \<noteq> [] then sy_live_level s
     else if sy_boot_level s \<noteq> [] then sy_boot_level s else ''info'')"

record system_view =
  vw_listen :: string
  vw_pending_listen :: string
  vw_level :: string
  vw_rdns :: bool
  vw_pending_rdns :: "bool option"
  vw_restart :: bool

definition system_settings :: "bool \<Rightarrow> bool \<Rightarrow> system \<Rightarrow> system_view option" where
  "system_settings f1 f2 s = (case get_config f1 listen_key (sy_rows s) of
     Inl _ \<Rightarrow> None
   | Inr lv \<Rightarrow> (case get_config f2 rdns_key (sy_rows s) of
       Inl _ \<Rightarrow> None
     | Inr rv \<Rightarrow>
         (let pl = (case lv of None \<Rightarrow> None | Some v \<Rightarrow> if v \<noteq> sy_listen s then Some v else None);
              pr = (case rv of None \<Rightarrow> None | Some v \<Rightarrow> (case go_parse_bool v of
                  None \<Rightarrow> None | Some b \<Rightarrow> if b \<noteq> sy_rdns s then Some b else None))
          in Some \<lparr>vw_listen = sy_listen s, vw_pending_listen = (case pl of None \<Rightarrow> [] | Some v \<Rightarrow> v),
               vw_level = effective_log_level s, vw_rdns = sy_rdns s, vw_pending_rdns = pr,
               vw_restart = (pl \<noteq> None \<or> pr \<noteq> None)\<rparr>)))"

definition validate_listen :: "(string \<Rightarrow> bool) \<Rightarrow> string \<Rightarrow> bool" where
  "validate_listen v6 v = (case split_host_port v of
     None \<Rightarrow> False
   | Some (host, port) \<Rightarrow> (case go_atoi port of
       None \<Rightarrow> False
     | Some n \<Rightarrow> 1 \<le> n \<and> n \<le> 65535 \<and> (host = [] \<or> parse_addr v6 host \<noteq> NotAnAddr)))"

definition parse_log_level :: "string \<Rightarrow> bool" where
  "parse_log_level v \<longleftrightarrow> v = ''debug'' \<or> v = ''info'' \<or> v = ''warn'' \<or> v = ''error''"

record system_patch =
  pt_listen :: "string option"
  pt_level :: "string option"
  pt_rdns :: "bool option"

text \<open>Which of the statements of a request fail.\<close>

record system_faults =
  fa_listen :: bool
  fa_rdns :: bool
  fa_level :: bool
  fa_read1 :: bool
  fa_read2 :: bool

definition write_setting :: "bool \<Rightarrow> string \<Rightarrow> string option \<Rightarrow> kv \<Rightarrow> bool \<times> kv" where
  "write_setting fault key v kv = (case v of None \<Rightarrow> (True, kv) | Some v \<Rightarrow> set_config fault key v kv)"

definition view_of :: "system_faults \<Rightarrow> system \<Rightarrow> nat + system_view" where
  "view_of fa s = (case system_settings (fa_read1 fa) (fa_read2 fa) s of None \<Rightarrow> Inl 500 | Some v \<Rightarrow> Inr v)"

definition patch_system :: "system_faults \<Rightarrow> system_patch \<Rightarrow> system \<Rightarrow> (nat + system_view) \<times> system" where
  "patch_system fa p s =
     (case write_setting (fa_listen fa) listen_key (pt_listen p) (sy_rows s) of
        (False, kv) \<Rightarrow> (Inl 500, s\<lparr>sy_rows := kv\<rparr>)
      | (True, kv1) \<Rightarrow>
     (case write_setting (fa_rdns fa) rdns_key (map_option go_format_bool (pt_rdns p)) kv1 of
        (False, kv) \<Rightarrow> (Inl 500, s\<lparr>sy_rows := kv\<rparr>)
      | (True, kv2) \<Rightarrow>
     (case write_setting (fa_level fa) level_key (pt_level p) kv2 of
        (False, kv) \<Rightarrow> (Inl 500, s\<lparr>sy_rows := kv\<rparr>)
      | (True, kv3) \<Rightarrow>
     (case pt_level p of
        None \<Rightarrow> (view_of fa (s\<lparr>sy_rows := kv3\<rparr>), s\<lparr>sy_rows := kv3\<rparr>)
      | Some l \<Rightarrow>
          if \<not> parse_log_level l then (Inl 400, s\<lparr>sy_rows := kv3\<rparr>)
          else (view_of fa (s\<lparr>sy_rows := kv3, sy_live_level := l\<rparr>), s\<lparr>sy_rows := kv3, sy_live_level := l\<rparr>)))))"

definition handle_system :: "(string \<Rightarrow> bool) \<Rightarrow> system_faults \<Rightarrow> system_patch settings_request \<Rightarrow> system
    \<Rightarrow> (nat + system_view) \<times> system" where
  "handle_system v6 fa rq s = (case rq of
     Fetch \<Rightarrow> (view_of fa s, s)
   | Patch None \<Rightarrow> (Inl 400, s)
   | Patch (Some p) \<Rightarrow>
       if (case pt_listen p of None \<Rightarrow> False | Some l \<Rightarrow> \<not> validate_listen v6 l) then (Inl 400, s)
       else if (case pt_level p of None \<Rightarrow> False | Some l \<Rightarrow> \<not> parse_log_level l) then (Inl 400, s)
       else patch_system fa p s
   | OtherMethod \<Rightarrow> (Inl 405, s))"

section \<open>Start\<close>

definition boot_overrides :: "(string \<Rightarrow> bool) \<Rightarrow> bool \<Rightarrow> bool \<Rightarrow> bool \<Rightarrow> kv \<Rightarrow> daemon_config \<Rightarrow> daemon_config" where
  "boot_overrides bindable f1 f2 f3 kv c =
     (let c1 = (case get_config f1 level_key kv of
           Inr (Some v) \<Rightarrow> if parse_log_level v then c\<lparr>dm_log := (dm_log c)\<lparr>lc_level := v\<rparr>\<rparr> else c | _ \<Rightarrow> c);
          c2 = (case get_config f2 rdns_key kv of
           Inr (Some v) \<Rightarrow> if v = ''true'' then c1\<lparr>dm_rdns := True\<rparr> else if v = ''false'' then c1\<lparr>dm_rdns := False\<rparr> else c1 | _ \<Rightarrow> c1)
      in (case get_config f3 listen_key kv of
           Inr (Some v) \<Rightarrow> if v \<noteq> [] \<and> v \<noteq> dm_listen c2 \<and> bindable v then c2\<lparr>dm_listen := v\<rparr> else c2 | _ \<Rightarrow> c2))"

definition start_system :: "daemon_config \<Rightarrow> kv \<Rightarrow> system" where
  "start_system c kv = \<lparr>sy_rows = kv, sy_listen = dm_listen c, sy_rdns = dm_rdns c, sy_boot_level = lc_level (dm_log c),
     sy_live_level = []\<rparr>"

definition restart :: "(string \<Rightarrow> bool) \<Rightarrow> daemon_config \<Rightarrow> system \<Rightarrow> system" where
  "restart bindable yaml s = start_system (boot_overrides bindable False False False (sy_rows s) yaml) (sy_rows s)"

text \<open>Requests with any failing statements, and restarts on the same file that can read the rows.\<close>

datatype system_event = Asked system_faults "system_patch settings_request" | Restarted "string \<Rightarrow> bool"

fun system_step :: "(string \<Rightarrow> bool) \<Rightarrow> daemon_config \<Rightarrow> system_event \<Rightarrow> system \<Rightarrow> system" where
  "system_step v6 yaml (Asked fa rq) s = snd (handle_system v6 fa rq s)"
| "system_step v6 yaml (Restarted bindable) s = restart bindable yaml s"

definition system_run :: "(string \<Rightarrow> bool) \<Rightarrow> daemon_config \<Rightarrow> system_event list \<Rightarrow> system" where
  "system_run v6 yaml es = fold (system_step v6 yaml) es (start_system yaml Map.empty)"

section \<open>What the panel shows is what a restart brings\<close>

lemmas system_keys = listen_key_def rdns_key_def level_key_def

lemma keys_distinct [simp]:
  "listen_key \<noteq> rdns_key" "listen_key \<noteq> level_key" "rdns_key \<noteq> level_key" "rdns_key \<noteq> listen_key"
  "level_key \<noteq> listen_key" "level_key \<noteq> rdns_key" "listen_key \<noteq> []" "rdns_key \<noteq> []" "level_key \<noteq> []"
  by (simp_all add: system_keys)

definition listen_settled :: "daemon_config \<Rightarrow> system \<Rightarrow> bool" where
  "listen_settled yaml s \<longleftrightarrow> (case sy_rows s listen_key of None \<Rightarrow> sy_listen s = dm_listen yaml | Some l \<Rightarrow> l \<noteq> [])"

definition rdns_settled :: "daemon_config \<Rightarrow> system \<Rightarrow> bool" where
  "rdns_settled yaml s \<longleftrightarrow> (case sy_rows s rdns_key of None \<Rightarrow> sy_rdns s = dm_rdns yaml | Some r \<Rightarrow> (\<exists>b. r = go_format_bool b))"

definition level_settled :: "daemon_config \<Rightarrow> system \<Rightarrow> bool" where
  "level_settled yaml s \<longleftrightarrow> (case sy_rows s level_key of
     None \<Rightarrow> sy_live_level s = [] \<and> sy_boot_level s = lc_level (dm_log yaml)
   | Some l \<Rightarrow> parse_log_level l \<and> effective_log_level s = l)"

definition settled :: "daemon_config \<Rightarrow> system \<Rightarrow> bool" where
  "settled yaml s \<longleftrightarrow> listen_settled yaml s \<and> rdns_settled yaml s \<and> level_settled yaml s"

lemma level_not_Nil [simp]: "\<not> parse_log_level []" by (simp add: parse_log_level_def)

lemma validate_listen_Nil [simp]: "\<not> validate_listen v6 []"
  by (simp add: validate_listen_def split_host_port_def split_last_def)

text \<open>Writing one row of the three.\<close>

lemma write_setting_cases:
  assumes "write_setting f key v kv = (ok, kv1)" "key \<noteq> []"
  shows "kv1 = kv \<or> (\<exists>x. v = Some x \<and> kv1 = kv(key \<mapsto> x))"
    and "ok \<Longrightarrow> kv1 = (case v of None \<Rightarrow> kv | Some x \<Rightarrow> kv(key \<mapsto> x))"
  using assms by (auto simp: write_setting_def set_config_def split: option.splits if_splits)

lemmas settled_defs = settled_def listen_settled_def rdns_settled_def level_settled_def effective_log_level_def

lemma settled_listen_row: "settled yaml s \<Longrightarrow> x \<noteq> [] \<Longrightarrow> settled yaml (s\<lparr>sy_rows := (sy_rows s)(listen_key \<mapsto> x)\<rparr>)"
  by (simp add: settled_defs split: option.splits)

lemma settled_rdns_row: "settled yaml s \<Longrightarrow> settled yaml (s\<lparr>sy_rows := (sy_rows s)(rdns_key \<mapsto> go_format_bool b)\<rparr>)"
  by (auto simp add: settled_defs split: option.splits)

lemma settled_level_row:
  "settled yaml s \<Longrightarrow> parse_log_level l \<Longrightarrow> settled yaml (s\<lparr>sy_rows := (sy_rows s)(level_key \<mapsto> l), sy_live_level := l\<rparr>)"
  by (auto simp: settled_defs split: option.splits)

text \<open>A patch within the checks of the handler.\<close>

definition patch_checked :: "system_patch \<Rightarrow> bool" where
  "patch_checked p \<longleftrightarrow> pt_listen p \<noteq> Some [] \<and> (case pt_level p of None \<Rightarrow> True | Some l \<Rightarrow> parse_log_level l)"

definition patched_listen :: "system_patch \<Rightarrow> system \<Rightarrow> system" where
  "patched_listen p s = (case pt_listen p of None \<Rightarrow> s | Some l \<Rightarrow> s\<lparr>sy_rows := (sy_rows s)(listen_key \<mapsto> l)\<rparr>)"

definition patched_rdns :: "system_patch \<Rightarrow> system \<Rightarrow> system" where
  "patched_rdns p s = (case pt_rdns p of None \<Rightarrow> s | Some b \<Rightarrow> s\<lparr>sy_rows := (sy_rows s)(rdns_key \<mapsto> go_format_bool b)\<rparr>)"

definition patched_level :: "system_patch \<Rightarrow> system \<Rightarrow> system" where
  "patched_level p s = (case pt_level p of None \<Rightarrow> s | Some l \<Rightarrow> s\<lparr>sy_rows := (sy_rows s)(level_key \<mapsto> l), sy_live_level := l\<rparr>)"

text \<open>A request writes the settings one after the other; a failure leaves those before it written.\<close>

lemma patch_system_stages:
  assumes "patch_checked p"
  shows "snd (patch_system fa p s) \<in> {s, patched_listen p s, patched_rdns p (patched_listen p s),
      patched_level p (patched_rdns p (patched_listen p s))}"
    and "fst (patch_system fa p s) = Inr v \<Longrightarrow>
      snd (patch_system fa p s) = patched_level p (patched_rdns p (patched_listen p s))
      \<and> system_settings (fa_read1 fa) (fa_read2 fa) (snd (patch_system fa p s)) = Some v"
proof -
  have "snd (patch_system fa p s) \<in> {s, patched_listen p s, patched_rdns p (patched_listen p s),
      patched_level p (patched_rdns p (patched_listen p s))} \<and>
    (fst (patch_system fa p s) = Inr v \<longrightarrow>
      snd (patch_system fa p s) = patched_level p (patched_rdns p (patched_listen p s))
      \<and> system_settings (fa_read1 fa) (fa_read2 fa) (snd (patch_system fa p s)) = Some v)"
    using assms
    by (cases "pt_listen p"; cases "pt_rdns p"; cases "pt_level p"; cases "fa_listen fa"; cases "fa_rdns fa"; cases "fa_level fa")
      (simp_all add: patch_system_def write_setting_def set_config_def patched_listen_def patched_rdns_def patched_level_def
        patch_checked_def view_of_def split: option.splits)
  then show "snd (patch_system fa p s) \<in> {s, patched_listen p s, patched_rdns p (patched_listen p s),
      patched_level p (patched_rdns p (patched_listen p s))}"
    and "fst (patch_system fa p s) = Inr v \<Longrightarrow>
      snd (patch_system fa p s) = patched_level p (patched_rdns p (patched_listen p s))
      \<and> system_settings (fa_read1 fa) (fa_read2 fa) (snd (patch_system fa p s)) = Some v"
    by blast+
qed

lemma settled_patched:
  assumes "settled yaml s"
  shows "patch_checked p \<Longrightarrow> settled yaml (patched_listen p s)" "settled yaml (patched_rdns p s)"
    "patch_checked p \<Longrightarrow> settled yaml (patched_level p s)"
  using assms settled_listen_row settled_rdns_row settled_level_row
  by (auto simp: patched_listen_def patched_rdns_def patched_level_def patch_checked_def split: option.splits)

lemma handle_system_cases:
  obtains "snd (handle_system v6 fa rq s) = s"
  | p where "rq = Patch (Some p)" "patch_checked p" "handle_system v6 fa rq s = patch_system fa p s"
proof (cases rq)
  case (Patch body)
  show thesis
  proof (cases body)
    case (Some p)
    show thesis
    proof (cases "(case pt_listen p of None \<Rightarrow> False | Some l \<Rightarrow> \<not> validate_listen v6 l) \<or>
        (case pt_level p of None \<Rightarrow> False | Some l \<Rightarrow> \<not> parse_log_level l)")
      case True
      show thesis by (rule that(1)) (use True in \<open>auto simp: handle_system_def Patch Some\<close>)
    next
      case False
      show thesis by (rule that(2) [of p])
        (use False in \<open>auto simp: handle_system_def Patch Some patch_checked_def split: option.splits\<close>)
    qed
  qed (rule that(1), simp add: handle_system_def Patch)
qed (rule that(1), simp add: handle_system_def)+

lemma settled_handle:
  assumes "settled yaml s"
  shows "settled yaml (snd (handle_system v6 fa rq s))"
proof (rule handle_system_cases [of v6 fa rq s])
  fix p
  assume p: "patch_checked p" and h: "handle_system v6 fa rq s = patch_system fa p s"
  show ?thesis unfolding h using patch_system_stages(1) [OF p, of fa s] settled_patched [OF assms, of p]
      settled_patched [OF settled_patched(1) [OF assms p]] settled_patched(3) [OF settled_patched(2) [OF settled_patched(1) [OF assms p]] p] assms p
    by auto
qed (use assms in simp)

section \<open>Restarts\<close>

lemma restart_fields:
  fixes bindable yaml s
  defines "r \<equiv> restart bindable yaml s"
  assumes "settled yaml s"
  shows "sy_rows r = sy_rows s" "sy_live_level r = []"
    and "sy_listen r = (case sy_rows s listen_key of None \<Rightarrow> dm_listen yaml | Some l \<Rightarrow> if bindable l then l else dm_listen yaml)"
    and "sy_rdns r = (case sy_rows s rdns_key of None \<Rightarrow> dm_rdns yaml | Some x \<Rightarrow> x = ''true'')"
    and "sy_boot_level r = (case sy_rows s level_key of None \<Rightarrow> lc_level (dm_log yaml) | Some l \<Rightarrow> l)"
proof -
  note c = assms(2) [unfolded settled_def listen_settled_def rdns_settled_def level_settled_def]
  show "sy_rows r = sy_rows s" "sy_live_level r = []" by (simp_all add: r_def restart_def start_system_def)
  show "sy_listen r = (case sy_rows s listen_key of None \<Rightarrow> dm_listen yaml | Some l \<Rightarrow> if bindable l then l else dm_listen yaml)"
    using c by (auto simp: r_def restart_def start_system_def boot_overrides_def get_config_def Let_def split: option.splits)
  show "sy_rdns r = (case sy_rows s rdns_key of None \<Rightarrow> dm_rdns yaml | Some x \<Rightarrow> x = ''true'')"
    using c by (auto simp: r_def restart_def start_system_def boot_overrides_def get_config_def Let_def go_format_bool_def split: option.splits if_splits)
  show "sy_boot_level r = (case sy_rows s level_key of None \<Rightarrow> lc_level (dm_log yaml) | Some l \<Rightarrow> l)"
    using c by (auto simp: r_def restart_def start_system_def boot_overrides_def get_config_def Let_def split: option.splits)
qed

lemma settled_restart: "settled yaml s \<Longrightarrow> settled yaml (restart bindable yaml s)"
  using restart_fields [of yaml s bindable]
  by (auto simp: settled_defs split: option.splits if_splits)

lemma settled_run: "settled yaml (system_run v6 yaml es)"
proof -
  have step: "settled yaml s \<Longrightarrow> settled yaml (system_step v6 yaml e s)" for e s
    by (cases e) (simp_all add: settled_handle settled_restart)
  have "settled yaml s \<Longrightarrow> settled yaml (fold (system_step v6 yaml) es s)" for s
    by (induction es arbitrary: s) (simp_all add: step)
  moreover have "settled yaml (start_system yaml Map.empty)" by (simp add: settled_defs start_system_def)
  ultimately show ?thesis by (simp add: system_run_def)
qed

text \<open>The values a view announces for the time after a restart.\<close>

definition promised_listen :: "system_view \<Rightarrow> string" where
  "promised_listen v = (if vw_pending_listen v = [] then vw_listen v else vw_pending_listen v)"

definition promised_rdns :: "system_view \<Rightarrow> bool" where
  "promised_rdns v = (case vw_pending_rdns v of None \<Rightarrow> vw_rdns v | Some b \<Rightarrow> b)"

lemma format_true [simp]: "(go_format_bool b = ''true'') = b" by (simp add: go_format_bool_def)

lemma settled_promises:
  assumes "settled yaml s" "system_settings f1 f2 s = Some v"
  shows "promised_listen v = (case sy_rows s listen_key of None \<Rightarrow> dm_listen yaml | Some l \<Rightarrow> l)"
    and "promised_rdns v = (case sy_rows s rdns_key of None \<Rightarrow> dm_rdns yaml | Some x \<Rightarrow> x = ''true'')"
    and "vw_level v = effective_log_level s"
  using assms
  by (auto simp: system_settings_def promised_listen_def promised_rdns_def settled_def listen_settled_def rdns_settled_def
      get_config_def Let_def split: option.splits sum.splits if_splits)

lemma restart_level:
  "settled yaml s \<Longrightarrow> effective_log_level (restart bindable yaml s) = effective_log_level s"
  using restart_fields [of yaml s bindable]
  by (auto simp: settled_def level_settled_def effective_log_level_def split: option.splits if_splits)

text \<open>C36: What the panel shows is what a restart brings. After any sequence of requests, with any failing statements,
  and restarts: the log level shown stays in force, the announced state of reverse DNS comes into force, and so does
  the announced address if it can be bound; otherwise the daemon listens on the address of the file and goes on
  announcing the other. Afterwards nothing else is pending. An accepted request shows in the panel at once, each of
  its values as announced or in force.\<close>

theorem restart_fulfils_the_panel:
  fixes v6 yaml es bindable
  defines "s \<equiv> system_run v6 yaml es"
  shows "(\<forall>v. system_settings False False s = Some v \<longrightarrow>
      (let l = promised_listen v; bound = (l = dm_listen yaml \<or> bindable l)
       in system_settings False False (restart bindable yaml s) = Some
         \<lparr>vw_listen = (if bound then l else dm_listen yaml), vw_pending_listen = (if bound then [] else l),
          vw_level = vw_level v, vw_rdns = promised_rdns v, vw_pending_rdns = None, vw_restart = (\<not> bound)\<rparr>))
    \<and> (\<forall>fa p v. fst (handle_system v6 fa (Patch (Some p)) s) = Inr v \<longrightarrow>
        (\<forall>l. pt_listen p = Some l \<longrightarrow> promised_listen v = l) \<and> (\<forall>b. pt_rdns p = Some b \<longrightarrow> promised_rdns v = b)
        \<and> (\<forall>l. pt_level p = Some l \<longrightarrow> vw_level v = l))"
proof (intro conjI allI impI)
  have s: "settled yaml s" unfolding s_def by (rule settled_run)
  note c = s [unfolded settled_def listen_settled_def rdns_settled_def]
  fix v
  assume v: "system_settings False False s = Some v"
  note p = settled_promises [OF s v]
  note r = restart_fields [OF s, of bindable]
  show "let l = promised_listen v; bound = (l = dm_listen yaml \<or> bindable l)
       in system_settings False False (restart bindable yaml s) = Some
         \<lparr>vw_listen = (if bound then l else dm_listen yaml), vw_pending_listen = (if bound then [] else l),
          vw_level = vw_level v, vw_rdns = promised_rdns v, vw_pending_rdns = None, vw_restart = (\<not> bound)\<rparr>"
    using c unfolding p Let_def
    by (cases "sy_rows s listen_key"; cases "sy_rows s rdns_key")
      (auto simp: system_settings_def get_config_def r restart_level [OF s] Let_def)
next
  have s: "settled yaml s" unfolding s_def by (rule settled_run)
  fix fa p v
  assume a: "fst (handle_system v6 fa (Patch (Some p)) s) = Inr v"
  have pc: "patch_checked p" and h: "handle_system v6 fa (Patch (Some p)) s = patch_system fa p s"
    using a by (auto simp: handle_system_def patch_checked_def split: option.splits if_splits)
  let ?t = "patched_level p (patched_rdns p (patched_listen p s))"
  have t: "settled yaml ?t" using settled_patched s pc by blast
  have v: "system_settings (fa_read1 fa) (fa_read2 fa) ?t = Some v"
    using patch_system_stages(2) [OF pc] a unfolding h by metis
  note q = settled_promises [OF t v]
  show "promised_listen v = l" if "pt_listen p = Some l" for l
    using that q(1) by (simp add: patched_listen_def patched_rdns_def patched_level_def split: option.splits)
  show "promised_rdns v = b" if "pt_rdns p = Some b" for b
    using that q(2) by (simp add: patched_listen_def patched_rdns_def patched_level_def split: option.splits)
  show "vw_level v = l" if "pt_level p = Some l" for l
    using that q(3) pc by (auto simp: patched_level_def effective_log_level_def patch_checked_def)
qed

definition demo_faults :: system_faults where
  "demo_faults = \<lparr>fa_listen = False, fa_rdns = False, fa_level = False, fa_read1 = False, fa_read2 = False\<rparr>"

definition demo_settings :: system_patch where
  "demo_settings = \<lparr>pt_listen = Some '':9000'', pt_level = Some ''debug'', pt_rdns = Some False\<rparr>"

lemma demo_listen_valid: "validate_listen (\<lambda>_. False) '':9000''" by code_simp

text \<open>A request that changes all three, and a restart on which the new address can be bound.\<close>

lemma restart_fulfils_the_panel_witness:
  defines "s \<equiv> system_run (\<lambda>_. False) default_config [Asked demo_faults (Patch (Some demo_settings))]"
  shows "\<exists>v. system_settings False False s = Some v \<and> promised_listen v = '':9000''
    \<and> system_settings False False (restart (\<lambda>_. True) default_config s) = Some
      \<lparr>vw_listen = '':9000'', vw_pending_listen = [], vw_level = vw_level v, vw_rdns = promised_rdns v, vw_pending_rdns = None,
       vw_restart = False\<rparr>"
proof -
  obtain v where v: "system_settings False False s = Some v" by (auto simp: system_settings_def get_config_def Let_def)
  have e: "s = snd (handle_system (\<lambda>_. False) demo_faults (Patch (Some demo_settings)) (start_system default_config Map.empty))"
    by (simp add: s_def system_run_def)
  have "sy_rows s listen_key = Some '':9000''"
    unfolding e by (simp add: handle_system_def demo_settings_def demo_listen_valid parse_log_level_def
        patch_system_def write_setting_def set_config_def demo_faults_def)
  then have "promised_listen v = '':9000''"
    using settled_promises(1) [OF settled_run v [unfolded s_def]] by (simp add: s_def)
  then show ?thesis
    using v restart_fulfils_the_panel [of "\<lambda>_. False" default_config "[Asked demo_faults (Patch (Some demo_settings))]" "\<lambda>_. True"]
    unfolding s_def by (simp add: Let_def)
qed

end
