(* ===== verification/AlertApi.thy ===== *)
theory AlertApi
  imports AlertSender BandwidthApi
begin

text \<open>
  The endpoints of alerting (\<open>internal/server/alerts.go\<close>): the configuration, the test message, the status, the
  history and the install of the local notification server. The configuration on the wire has the fields of the
  stored one, with the token left out of every answer and a flag in its place. Each of the two reads and the write of
  a request visits the fields in an order of its own, with failing statements of its own.
\<close>

section \<open>Configuration\<close>

record alert_json = alert_config +
  aj_token_set :: bool

definition alert_json_of :: "alert_config \<Rightarrow> alert_json" where
  "alert_json_of c = alert_config.extend (c\<lparr>ac_token := []\<rparr>) (alert_json.fields (ac_token c \<noteq> []))"

definition alert_config_of :: "alert_json \<Rightarrow> alert_config" where
  "alert_config_of j = alert_config.truncate j"

record field_visit =
  fv_order :: "alert_field list"
  fv_failing :: "alert_field \<Rightarrow> bool"

definition load_with :: "(string \<Rightarrow> rat option) \<Rightarrow> field_visit \<Rightarrow> kv \<Rightarrow> alert_config option" where
  "load_with prs v kv = (case load_alert_config prs (fv_failing v) (fv_order v) kv of
     (Some _, _, _) \<Rightarrow> None | (None, c, _) \<Rightarrow> Some c)"

record alert_settings =
  as_rows :: kv
  as_engine :: alerting

definition keep_token :: "(string \<Rightarrow> rat option) \<Rightarrow> field_visit \<Rightarrow> kv \<Rightarrow> alert_config \<Rightarrow> alert_config" where
  "keep_token prs v kv c =
     (if ac_token c = [] then (case load_with prs v kv of None \<Rightarrow> c | Some old \<Rightarrow> c\<lparr>ac_token := ac_token old\<rparr>) else c)"

definition keep_capacity :: "(string \<Rightarrow> rat option) \<Rightarrow> field_visit \<Rightarrow> kv \<Rightarrow> alert_config \<Rightarrow> alert_config" where
  "keep_capacity prs v kv c =
     (if ac_headroom_threshold c = 0 then (case load_with prs v kv of
        None \<Rightarrow> c
      | Some old \<Rightarrow> c\<lparr>ac_headroom_threshold := ac_headroom_threshold old,
          ac_disk_free_floor_mb := ac_disk_free_floor_mb old, ac_disk_free_pct_floor := ac_disk_free_pct_floor old\<rparr>)
      else c)"

record alert_patch_env =
  pv_token :: field_visit
  pv_capacity :: field_visit
  pv_save :: field_visit

definition handle_alerts_get :: "(string \<Rightarrow> rat option) \<Rightarrow> field_visit \<Rightarrow> alert_settings \<Rightarrow> nat + alert_json" where
  "handle_alerts_get prs v s = (case load_with prs v (as_rows s) of None \<Rightarrow> Inl 500 | Some c \<Rightarrow> Inr (alert_json_of c))"

definition handle_alerts_patch :: "(rat \<Rightarrow> string) \<Rightarrow> (string \<Rightarrow> rat option) \<Rightarrow> alert_patch_env \<Rightarrow> alert_json option
    \<Rightarrow> alert_settings \<Rightarrow> (nat + alert_json) \<times> alert_settings" where
  "handle_alerts_patch fmt prs env body s = (case body of
     None \<Rightarrow> (Inl 400, s)
   | Some req \<Rightarrow>
       (let c = keep_capacity prs (pv_capacity env) (as_rows s) (keep_token prs (pv_token env) (as_rows s) (alert_config_of req))
        in if validate_alert_config c \<noteq> None then (Inl 400, s)
           else (case save_alert_config fmt (fv_failing (pv_save env)) (fv_order (pv_save env)) c (as_rows s) of
               (Some _, kv) \<Rightarrow> (Inl 500, s\<lparr>as_rows := kv\<rparr>)
             | (None, kv) \<Rightarrow> (Inr (alert_json_of c), s\<lparr>as_rows := kv, as_engine := reconfigure c (as_engine s)\<rparr>))))"

section \<open>Test, status, history and install\<close>

text \<open>The outcome of the exchange with the notification server is given.\<close>

definition handle_alerts_test :: "(string \<Rightarrow> rat option) \<Rightarrow> field_visit \<Rightarrow> http_outcome \<Rightarrow> alert_settings \<Rightarrow> nat" where
  "handle_alerts_test prs v http s = (case load_with prs v (as_rows s) of
     None \<Rightarrow> 500
   | Some c \<Rightarrow> if ac_server_url c = [] \<or> ac_topic c = [] then 409
       else (case ntfy_post http of PostOk \<Rightarrow> 200 | _ \<Rightarrow> 502))"

record alert_status =
  st_depth :: nat
  st_last :: "(int \<times> string) option"
  st_incidents :: "incident list"

definition handle_alerts_status :: "(instant \<times> string) option \<Rightarrow> alert_settings \<Rightarrow> (nat + alert_status) \<times> alert_settings" where
  "handle_alerts_status last_delivery s = (case alert_queue_depth (as_engine s) of
     (None, w) \<Rightarrow> (Inl 500, s\<lparr>as_engine := w\<rparr>)
   | (Some depth, w) \<Rightarrow> (case list_alert_states w of
       (None, w1) \<Rightarrow> (Inl 500, s\<lparr>as_engine := w1\<rparr>)
     | (Some sts, w1) \<Rightarrow> (Inr \<lparr>st_depth = depth,
         st_last = map_option (\<lambda>(t, err). (unix_milli t, err)) last_delivery, st_incidents = sts\<rparr>, s\<lparr>as_engine := w1\<rparr>)))"

definition handle_alerts_history :: "string \<Rightarrow> alert_settings \<Rightarrow> (nat + history_row list) \<times> alert_settings" where
  "handle_alerts_history limit s =
     (let n = (if limit = [] then 200 else case go_atoi limit of None \<Rightarrow> 200 | Some n \<Rightarrow> n)
      in case list_alert_history n (as_engine s) of
           (None, w) \<Rightarrow> (Inl 500, s\<lparr>as_engine := w\<rparr>) | (Some rows, w) \<Rightarrow> (Inr rows, s\<lparr>as_engine := w\<rparr>))"

datatype install_request = InstallStatus | InstallStart | InstallOther

definition handle_install_ntfy :: "install_request \<Rightarrow> install_state \<Rightarrow> (nat \<times> string \<times> string) \<times> install_state" where
  "handle_install_ntfy rq st = (case rq of
     InstallStatus \<Rightarrow> ((200, install_status st), st)
   | InstallStart \<Rightarrow> (case install_start st of (code, st1) \<Rightarrow>
       ((code, if code = 202 then (''running'', []) else ([], [])), st1))
   | InstallOther \<Rightarrow> ((405, [], []), st))"

section \<open>Runs\<close>

datatype alerts_event =
    GotConfig field_visit
  | PatchedConfig alert_patch_env "alert_json option"
  | SentTest field_visit http_outcome
  | GotStatus "(instant \<times> string) option"
  | GotHistory string

datatype alerts_answer =
    ConfigAnswer "nat + alert_json"
  | TestAnswer nat
  | StatusAnswer "nat + alert_status"
  | HistoryAnswer "nat + history_row list"

fun alerts_step :: "(rat \<Rightarrow> string) \<Rightarrow> (string \<Rightarrow> rat option) \<Rightarrow> alerts_event \<Rightarrow> alert_settings \<Rightarrow> alerts_answer \<times> alert_settings" where
  "alerts_step fmt prs (GotConfig v) s = (ConfigAnswer (handle_alerts_get prs v s), s)"
| "alerts_step fmt prs (PatchedConfig env body) s = (case handle_alerts_patch fmt prs env body s of (a, s1) \<Rightarrow> (ConfigAnswer a, s1))"
| "alerts_step fmt prs (SentTest v http) s = (TestAnswer (handle_alerts_test prs v http s), s)"
| "alerts_step fmt prs (GotStatus l) s = (case handle_alerts_status l s of (a, s1) \<Rightarrow> (StatusAnswer a, s1))"
| "alerts_step fmt prs (GotHistory n) s = (case handle_alerts_history n s of (a, s1) \<Rightarrow> (HistoryAnswer a, s1))"

fun alerts_run :: "(rat \<Rightarrow> string) \<Rightarrow> (string \<Rightarrow> rat option) \<Rightarrow> alerts_event list \<Rightarrow> alert_settings \<Rightarrow> alerts_answer list \<times> alert_settings" where
  "alerts_run fmt prs [] s = ([], s)"
| "alerts_run fmt prs (e # es) s =
     (case alerts_step fmt prs e s of (a, s1) \<Rightarrow> (case alerts_run fmt prs es s1 of (rest, s2) \<Rightarrow> (a # rest, s2)))"

section \<open>The token stays inside\<close>

text \<open>Two configurations, tables or states that differ in the token only, which is set in both or in neither.\<close>

definition similar :: "alert_config \<Rightarrow> alert_config \<Rightarrow> bool" where
  "similar c d \<longleftrightarrow> c\<lparr>ac_token := []\<rparr> = d\<lparr>ac_token := []\<rparr> \<and> (ac_token c = [] \<longleftrightarrow> ac_token d = [])"

definition token_key :: string where "token_key = ''alert.token''"

definition has_token :: "kv \<Rightarrow> bool" where "has_token kv \<longleftrightarrow> (\<exists>t. kv token_key = Some t \<and> t \<noteq> [])"

definition same_but_token :: "kv \<Rightarrow> kv \<Rightarrow> bool" where
  "same_but_token kv kv' \<longleftrightarrow> (\<forall>k. k \<noteq> token_key \<longrightarrow> kv k = kv' k)
     \<and> (kv token_key = kv' token_key \<or> has_token kv \<and> has_token kv')"

definition same_settings :: "alert_settings \<Rightarrow> alert_settings \<Rightarrow> bool" where
  "same_settings s s' \<longleftrightarrow> same_but_token (as_rows s) (as_rows s') \<and> (\<exists>c. as_engine s' = reconfigure c (as_engine s))"

lemma field_token_key: "key_prefix @ field_key f = token_key \<longleftrightarrow> f = FToken"
  by (cases f) (simp_all add: key_prefix_def token_key_def)

lemma similar_refl [simp]: "similar c c" by (simp add: similar_def)

lemma similarE:
  assumes "similar c d"
  obtains t where "d = c\<lparr>ac_token := t\<rparr>" "t = [] \<longleftrightarrow> ac_token c = []"
proof -
  have "d = (d\<lparr>ac_token := []\<rparr>)\<lparr>ac_token := ac_token d\<rparr>" by simp
  also have "\<dots> = c\<lparr>ac_token := ac_token d\<rparr>" using assms unfolding similar_def by (metis alert_config.update_convs(4) alert_config.surjective)
  finally show thesis using assms that [of "ac_token d"] by (simp add: similar_def)
qed

lemma similarI: "(t = [] \<longleftrightarrow> ac_token c = []) \<Longrightarrow> similar c (c\<lparr>ac_token := t\<rparr>)" by (simp add: similar_def)

lemma similar_views: "similar c d \<Longrightarrow> alert_json_of c = alert_json_of d"
  by (simp add: similar_def alert_json_of_def)

lemma similar_valid: "similar c d \<Longrightarrow> validate_alert_config c = validate_alert_config d"
  by (erule similarE) (simp add: validate_alert_config_def check_quiet_def cong: if_cong)

lemma similar_get: "similar c d \<Longrightarrow> f \<noteq> FToken \<Longrightarrow> field_get fmt f c = field_get fmt f d"
  by (erule similarE) (cases f; simp)

lemma rel_option_map_same: "(\<And>x. R (F x) (G x)) \<Longrightarrow> rel_option R (map_option F y) (map_option G y)"
  by (cases y) simp_all

lemma similar_set:
  assumes "similar c d" "f \<noteq> FToken"
  shows "rel_option similar (field_set prs f v c) (field_set prs f v d)"
proof -
  obtain t where d: "d = c\<lparr>ac_token := t\<rparr>" "t = [] \<longleftrightarrow> ac_token c = []" using assms(1) by (rule similarE)
  show ?thesis using assms(2) d(2) unfolding d(1)
    by (cases f) (auto intro!: rel_option_map_same simp: similar_def)
qed

lemma field_set_token [simp]: "field_set prs FToken v c = Some (c\<lparr>ac_token := v\<rparr>)" by simp

lemma similar_both: "similar c d \<Longrightarrow> x \<noteq> [] \<Longrightarrow> y \<noteq> [] \<Longrightarrow> similar (c\<lparr>ac_token := x\<rparr>) (d\<lparr>ac_token := y\<rparr>)"
  by (simp add: similar_def)

lemma similar_same: "similar c d \<Longrightarrow> similar (c\<lparr>ac_token := x\<rparr>) (d\<lparr>ac_token := x\<rparr>)"
  by (simp add: similar_def)

lemma load_fields_similar:
  assumes "same_but_token kv kv'"
  shows "similar c d \<Longrightarrow> fst (load_fields prs failing kv fs c ws) = fst (load_fields prs failing kv' fs d ws')
    \<and> similar (fst (snd (load_fields prs failing kv fs c ws))) (fst (snd (load_fields prs failing kv' fs d ws')))"
proof (induction fs arbitrary: c d ws ws')
  case (Cons f fs)
  show ?case
  proof (cases "failing f")
    case True
    then show ?thesis using Cons.prems by (simp add: get_config_def)
  next
    case False
    show ?thesis
    proof (cases "f = FToken")
      case True
      have k: "key_prefix @ field_key f = token_key" using True field_token_key by blast
      consider "kv token_key = kv' token_key" | x y where "kv token_key = Some x" "kv' token_key = Some y" "x \<noteq> []" "y \<noteq> []"
        using assms by (auto simp: same_but_token_def has_token_def)
      then show ?thesis
        by cases (use False True k Cons.prems Cons.IH similar_both similar_same in \<open>simp_all add: get_config_def split: option.splits\<close>)
    next
      case False
      then have k: "kv (key_prefix @ field_key f) = kv' (key_prefix @ field_key f)"
        using assms field_token_key by (auto simp: same_but_token_def)
      show ?thesis
      proof (cases "kv' (key_prefix @ field_key f)")
        case None
        then show ?thesis using \<open>\<not> failing f\<close> k Cons.prems Cons.IH by (simp add: get_config_def)
      next
        case (Some v)
        have "rel_option similar (field_set prs f v c) (field_set prs f v d)" by (rule similar_set [OF Cons.prems False])
        then show ?thesis using \<open>\<not> failing f\<close> k Some Cons.prems Cons.IH
          by (cases "field_set prs f v c"; cases "field_set prs f v d") (simp_all add: get_config_def)
      qed
    qed
  qed
qed simp

lemma load_with_similar:
  assumes "same_but_token kv kv'"
  shows "rel_option similar (load_with prs v kv) (load_with prs v kv')"
  using load_fields_similar [OF assms, of default_alert_config default_alert_config prs "fv_failing v" "fv_order v" "[]" "[]"]
  by (auto simp: load_with_def load_alert_config_def split: prod.splits option.splits)

lemma same_write:
  assumes "same_but_token kv kv'" "similar c d"
  shows "same_but_token (kv(key_prefix @ field_key f \<mapsto> field_get fmt f c)) (kv'(key_prefix @ field_key f \<mapsto> field_get fmt f d))"
proof (cases "f = FToken")
  case True
  have k: "key_prefix @ field_key f = token_key" using True field_token_key by blast
  show ?thesis unfolding k using assms True by (auto simp: same_but_token_def has_token_def similar_def)
next
  case False
  then have "key_prefix @ field_key f \<noteq> token_key" using field_token_key by blast
  then show ?thesis using assms similar_get [OF assms(2) False] by (simp add: same_but_token_def has_token_def)
qed

lemma save_similar:
  assumes "similar c d"
  shows "same_but_token kv kv' \<Longrightarrow> fst (save_alert_config fmt failing fs c kv) = fst (save_alert_config fmt failing fs d kv')
    \<and> same_but_token (snd (save_alert_config fmt failing fs c kv)) (snd (save_alert_config fmt failing fs d kv'))"
proof (induction fs arbitrary: kv kv')
  case (Cons f fs)
  have n: "key_prefix @ field_key f \<noteq> []" by (simp add: key_prefix_def)
  note w = same_write [OF Cons.prems assms, of f fmt]
  show ?case
  proof (cases "failing f")
    case True
    then show ?thesis using Cons.prems n by (simp add: set_config_def del: append_is_Nil_conv)
  next
    case False
    then have "save_alert_config fmt failing (f # fs) e q = save_alert_config fmt failing fs e (q(key_prefix @ field_key f \<mapsto> field_get fmt f e))" for e q
      using n by (simp add: set_config_def del: append_is_Nil_conv)
    then show ?thesis using Cons.IH [OF w] by presburger
  qed
qed simp

lemma keep_similar:
  assumes "same_but_token kv kv'" "similar c d"
  shows "similar (keep_token prs v kv c) (keep_token prs v kv' d)" "similar (keep_capacity prs v kv c) (keep_capacity prs v kv' d)"
proof -
  note l = load_with_similar [OF assms(1), of prs v]
  show "similar (keep_token prs v kv c) (keep_token prs v kv' d)"
    using l assms(2) by (cases "load_with prs v kv"; cases "load_with prs v kv'") (simp_all add: keep_token_def similar_def)
  obtain t where d: "d = c\<lparr>ac_token := t\<rparr>" "t = [] \<longleftrightarrow> ac_token c = []" using assms(2) by (rule similarE)
  show "similar (keep_capacity prs v kv c) (keep_capacity prs v kv' d)"
  proof (cases "load_with prs v kv")
    case None
    then show ?thesis using l assms(2) d by (simp add: keep_capacity_def)
  next
    case (Some old)
    then obtain new where n: "load_with prs v kv' = Some new" "similar old new" using l by (auto simp: option_rel_Some1)
    obtain u where "new = old\<lparr>ac_token := u\<rparr>" using n(2) by (rule similarE)
    then show ?thesis using Some n(1) d by (simp add: keep_capacity_def similar_def)
  qed
qed

lemma patch_similar:
  assumes "same_settings s s'"
  shows "fst (handle_alerts_patch fmt prs env body s) = fst (handle_alerts_patch fmt prs env body s')
    \<and> same_settings (snd (handle_alerts_patch fmt prs env body s)) (snd (handle_alerts_patch fmt prs env body s'))"
proof (cases body)
  case (Some req)
  obtain w where r: "same_but_token (as_rows s) (as_rows s')" and w: "as_engine s' = reconfigure w (as_engine s)"
    using assms by (auto simp: same_settings_def)
  define c where "c = keep_capacity prs (pv_capacity env) (as_rows s) (keep_token prs (pv_token env) (as_rows s) (alert_config_of req))"
  define d where "d = keep_capacity prs (pv_capacity env) (as_rows s') (keep_token prs (pv_token env) (as_rows s') (alert_config_of req))"
  have cd: "similar c d" unfolding c_def d_def by (intro keep_similar(2) keep_similar(1) r similar_refl)
  let ?v = "pv_save env"
  let ?a = "save_alert_config fmt (fv_failing ?v) (fv_order ?v) c (as_rows s)"
  let ?b = "save_alert_config fmt (fv_failing ?v) (fv_order ?v) d (as_rows s')"
  have p: "fst ?a = fst ?b" "same_but_token (snd ?a) (snd ?b)" using save_similar [OF cd r] by simp_all
  show ?thesis
  proof (cases "validate_alert_config c")
    case None
    have "validate_alert_config d = None" using similar_valid [OF cd] None by simp
    then show ?thesis using None p similar_views [OF cd] w
      by (cases ?a; cases ?b; cases "fst ?a")
        (auto simp: handle_alerts_patch_def Some c_def [symmetric] d_def [symmetric] same_settings_def reconfigure_def Let_def)
  next
    case (Some e)
    have "validate_alert_config d = validate_alert_config c" using similar_valid [OF cd] by simp
    then show ?thesis using Some assms
      by (simp add: handle_alerts_patch_def \<open>body = _\<close> c_def [symmetric] d_def [symmetric] Let_def)
  qed
qed (use assms in \<open>simp add: handle_alerts_patch_def\<close>)

lemma alerts_step_similar:
  assumes "same_settings s s'"
  shows "fst (alerts_step fmt prs e s) = fst (alerts_step fmt prs e s') \<and> same_settings (snd (alerts_step fmt prs e s)) (snd (alerts_step fmt prs e s'))"
proof -
  obtain w where r: "same_but_token (as_rows s) (as_rows s')" and w: "as_engine s' = reconfigure w (as_engine s)"
    using assms by (auto simp: same_settings_def)
  show ?thesis
  proof (cases e)
    case (GotConfig v)
    then show ?thesis using load_with_similar [OF r, of prs v] similar_views assms
      by (cases "load_with prs v (as_rows s)"; cases "load_with prs v (as_rows s')") (auto simp: handle_alerts_get_def)
  next
    case (PatchedConfig env body)
    then show ?thesis using patch_similar [OF assms, of fmt prs env body] by (simp add: case_prod_beta)
  next
    case (SentTest v http)
    have "handle_alerts_test prs v http s = handle_alerts_test prs v http s'"
      using load_with_similar [OF r, of prs v]
      by (cases "load_with prs v (as_rows s)"; cases "load_with prs v (as_rows s')")
        (auto simp: handle_alerts_test_def elim: similarE)
    then show ?thesis using SentTest assms by simp
  next
    case (GotStatus l)
    then show ?thesis using r w
      by (cases "al_faults (as_engine s)"; cases "tl (al_faults (as_engine s))")
        (auto simp: handle_alerts_status_def alert_queue_depth_def list_alert_states_def take_fault_def reconfigure_def
          same_settings_def split: prod.splits intro!: exI [of _ w])
  next
    case (GotHistory n)
    then show ?thesis using r w
      by (cases "al_faults (as_engine s)")
        (auto simp: handle_alerts_history_def list_alert_history_def take_fault_def reconfigure_def same_settings_def Let_def
          split: prod.splits intro!: exI [of _ w])
  qed
qed

text \<open>C37: The secret does not leave the program. Two centrals whose tables differ only in which token is stored, and whose
  engines work with any configurations, answer every sequence of requests to the alerting endpoints alike, whatever
  statements fail and as long as the notification server answers the test messages alike: no answer, status code or
  later answer depends on the token, beyond that there is one.\<close>

theorem token_never_leaves:
  assumes "same_but_token (as_rows s) (as_rows s')" "as_engine s' = reconfigure c (as_engine s)"
  shows "fst (alerts_run fmt prs es s) = fst (alerts_run fmt prs es s')"
proof -
  have "same_settings s s' \<Longrightarrow> fst (alerts_run fmt prs es s) = fst (alerts_run fmt prs es s')" for s s'
  proof (induction es arbitrary: s s')
    case (Cons e es)
    show ?case using alerts_step_similar [OF Cons.prems, of fmt prs e] Cons.IH by (simp add: case_prod_beta)
  qed simp
  then show ?thesis using assms by (auto simp: same_settings_def)
qed

definition demo_visit :: field_visit where
  "demo_visit = \<lparr>fv_order = all_fields, fv_failing = (\<lambda>_. False)\<rparr>"

definition demo_alert_env :: alert_patch_env where
  "demo_alert_env = \<lparr>pv_token = demo_visit, pv_capacity = demo_visit, pv_save = demo_visit\<rparr>"

definition demo_settings_with :: "string \<Rightarrow> alert_settings" where
  "demo_settings_with t = \<lparr>as_rows = [token_key \<mapsto> t], as_engine = \<lparr>al_cfg = default_alert_config\<lparr>ac_token := t\<rparr>,
     al_last = Map.empty, al_sent = [], al_states = [], al_queue = [], al_queue_seq = 0, al_history = [], al_history_seq = 0,
     al_summary = NoRow, al_faults = []\<rparr>\<rparr>"

text \<open>A request that sends the answer back as it came, and a look at the configuration after it.\<close>

lemma token_never_leaves_witness:
  defines "es \<equiv> [PatchedConfig demo_alert_env (Some (alert_json_of default_alert_config)), GotConfig demo_visit]"
  shows "fst (alerts_run demo_fmt demo_prs es (demo_settings_with ''secret''))
    = fst (alerts_run demo_fmt demo_prs es (demo_settings_with ''other''))"
  by (rule token_never_leaves [where c = "default_alert_config\<lparr>ac_token := ''other''\<rparr>"])
    (simp_all add: same_but_token_def has_token_def demo_settings_with_def reconfigure_def)

section \<open>What a request leaves stored\<close>

lemma save_None:
  "fst (save_alert_config fmt failing fs c kv) = None \<Longrightarrow>
     save_alert_config fmt failing fs c kv = save_alert_config fmt (\<lambda>_. False) fs c kv"
proof (induction fs arbitrary: kv)
  case (Cons f fs)
  have n: "key_prefix @ field_key f \<noteq> []" by (simp add: key_prefix_def)
  then show ?case using Cons by (simp add: set_config_def del: append_is_Nil_conv split: if_splits)
qed simp

text \<open>An accepted request is what the next load of the configuration and the engine see. A token that is not sent is
  the stored one, unless the read of the stored configuration failed: then it is gone.\<close>

theorem alerts_patch_is_stored:
  fixes prs :: "string \<Rightarrow> rat option" and fmt :: "rat \<Rightarrow> string" and s s1 :: alert_settings and req view :: alert_json
    and env :: alert_patch_env and load_order :: "alert_field list"
  assumes "handle_alerts_patch fmt prs env (Some req) s = (Inr view, s1)"
    and "set (fv_order (pv_save env)) = set all_fields" "set load_order = set all_fields"
  defines "c \<equiv> al_cfg (as_engine s1)"
  assumes "\<And>x. x \<in> {ac_loss_pct c, ac_disk_free_pct_floor c, ac_headroom_threshold c} \<Longrightarrow> prs (fmt x) = Some x"
  shows "load_alert_config prs (\<lambda>_. False) load_order (as_rows s1) = (None, c, [])
    \<and> view = alert_json_of c
    \<and> ac_token c = (if ac_token req \<noteq> [] then ac_token req
        else (case load_with prs (pv_token env) (as_rows s) of None \<Rightarrow> [] | Some old \<Rightarrow> ac_token old))"
proof -
  define k where "k = keep_token prs (pv_token env) (as_rows s) (alert_config_of req)"
  define d where "d = keep_capacity prs (pv_capacity env) (as_rows s) k"
  let ?v = "pv_save env"
  let ?a = "save_alert_config fmt (fv_failing ?v) (fv_order ?v) d (as_rows s)"
  have h: "validate_alert_config d = None" "fst ?a = None" "view = alert_json_of d"
    "s1 = s\<lparr>as_rows := snd ?a, as_engine := reconfigure d (as_engine s)\<rparr>"
    using assms(1) by (auto simp: handle_alerts_patch_def k_def [symmetric] d_def [symmetric] Let_def split: if_splits prod.splits option.splits)
  have c: "c = d" by (simp add: c_def h(4) reconfigure_def)
  have "load_alert_config prs (\<lambda>_. False) load_order (as_rows s1) = (None, c, [])"
    using alert_config_roundtrip [OF h(1) assms(5) [unfolded c] assms(2,3), of "as_rows s"] save_None [OF h(2)]
    by (simp add: h(4) c)
  moreover have "ac_token d = ac_token k" by (simp add: d_def keep_capacity_def split: option.split)
  moreover have "ac_token k = (if ac_token req \<noteq> [] then ac_token req
      else (case load_with prs (pv_token env) (as_rows s) of None \<Rightarrow> [] | Some old \<Rightarrow> ac_token old))"
    by (simp add: k_def keep_token_def alert_config_of_def alert_config.truncate_def split: option.split)
  ultimately show ?thesis using h(3) c by simp
qed

end
