(* ===== verification/PathView.thy ===== *)
theory PathView
  imports AgentRunner Loss Rdns CentralTabs
begin

text \<open>
  The current path as the page shows it (\<open>handlePath\<close>, \<open>buildPathResponse\<close> and \<open>buildAgentPathResponse\<close> of
  \<open>internal/server/handlers.go\<close>): of a local engine from its snapshot, of a remote probe from the last snapshot it
  posted. Names come from the reverse-DNS table and the state of a hop's loss from \<open>AttributedLoss\<close>. The reader of
  the stored JSON is a parameter, as is the rounding of floats.
\<close>

section \<open>Responses\<close>

record hop_json =
  hj_ttl :: int
  hj_ip :: "string option"
  hj_hostname :: "string option"
  hj_current :: rat
  hj_avg :: rat
  hj_min :: rat
  hj_loss :: rat
  hj_state :: string
  hj_last :: "int option"

record path_response =
  px_target :: string
  px_started :: int
  px_count :: int
  px_target_ttl :: int
  px_hops :: "hop_json list"
  px_probe :: string
  px_snapshot :: "int option"

definition loss_state_for :: "attributed_loss \<Rightarrow> string" where
  "loss_state_for a = (if al_Loss a = 0 then ''ok'' else if al_Suspect a then ''suspect'' else ''rate_limited'')"

definition rtt_to_ms :: "(rat \<Rightarrow> rat) \<Rightarrow> duration \<Rightarrow> rat" where
  "rtt_to_ms rnd d = rnd (of_int (if d < 0 then - (- d div 1000) else d div 1000) / 1000)"

text \<open>A lookup that fails leaves every hop without a name.\<close>

definition hostnames_for :: "bool \<Rightarrow> string list \<Rightarrow> rdns_table \<Rightarrow> (string \<rightharpoonup> string)" where
  "hostnames_for fault ips t = (case lookup_hostnames fault ips t of None \<Rightarrow> Map.empty | Some m \<Rightarrow> m)"

definition hop_address :: "hop_snapshot \<Rightarrow> string option" where
  "hop_address h = (if addr_valid (hs_CurrentIP h) then Some (addr_string (hs_CurrentIP h)) else None)"

definition local_hop :: "(rat \<Rightarrow> rat) \<Rightarrow> (string \<rightharpoonup> string) \<Rightarrow> hop_snapshot \<Rightarrow> attributed_loss \<Rightarrow> hop_json" where
  "local_hop rnd names h a = \<lparr>hj_ttl = int (hs_TTL h), hj_ip = hop_address h,
     hj_hostname = Option.bind (hop_address h) names,
     hj_current = rtt_to_ms rnd (hs_CurrentRTT h), hj_avg = rtt_to_ms rnd (hs_AvgRTT h), hj_min = rtt_to_ms rnd (hs_MinRTT h),
     hj_loss = hs_LossPercent h, hj_state = loss_state_for a,
     hj_last = (if hs_LastResponse h = zero_time then None else Some (unix_milli (hs_LastResponse h)))\<rparr>"

definition build_path_response :: "(rat \<Rightarrow> rat) \<Rightarrow> bool \<Rightarrow> rdns_table \<Rightarrow> string \<Rightarrow> instant \<Rightarrow> path_snapshot \<Rightarrow> path_response" where
  "build_path_response rnd fault t target started s =
     (let hops = sn_Hops s;
          names = hostnames_for fault (List.map_filter hop_address hops) t;
          attributed = attribute_loss rnd default_loss_tolerance (map (\<lambda>h. \<lparr>hl_TTL = hs_TTL h, hl_Loss = hs_LossPercent h\<rparr>) hops)
      in \<lparr>px_target = target, px_started = unix_milli started, px_count = int (length hops),
          px_target_ttl = int (sn_TargetTTL s), px_hops = map2 (local_hop rnd names) hops attributed,
          px_probe = [], px_snapshot = None\<rparr>)"

text \<open>The elements of a stored snapshot have the fields that the probe sends. A TTL is cut to eight bits for the
  attribution.\<close>

definition agent_hop :: "(string \<rightharpoonup> string) \<Rightarrow> wire_hop \<Rightarrow> attributed_loss \<Rightarrow> hop_json" where
  "agent_hop names h a = \<lparr>hj_ttl = wh_ttl h, hj_ip = wh_ip h, hj_hostname = Option.bind (wh_ip h) names,
     hj_current = wh_current h, hj_avg = wh_avg h, hj_min = wh_min h, hj_loss = wh_loss h, hj_state = loss_state_for a,
     hj_last = wh_last h\<rparr>"

definition build_agent_path_response :: "(rat \<Rightarrow> rat) \<Rightarrow> (string \<Rightarrow> wire_hop list option) \<Rightarrow> bool \<Rightarrow> rdns_table
    \<Rightarrow> string \<Rightarrow> string \<Rightarrow> fleet \<Rightarrow> (nat + path_response) \<times> fleet" where
  "build_agent_path_response rnd read fault t probe target w = (case get_path_snapshot probe target w of
     (Inl _, w1) \<Rightarrow> (Inl 500, w1)
   | (Inr None, w1) \<Rightarrow> (Inl 404, w1)
   | (Inr (Some snap), w1) \<Rightarrow> (case read (pp_hops snap) of
       None \<Rightarrow> (Inl 500, w1)
     | Some hops \<Rightarrow>
         (let names = hostnames_for fault (List.map_filter wh_ip hops) t;
              attributed = attribute_loss rnd default_loss_tolerance
                (map (\<lambda>h. \<lparr>hl_TTL = nat (wh_ttl h mod 256), hl_Loss = wh_loss h\<rparr>) hops)
          in (Inr \<lparr>px_target = target, px_started = pp_ts snap, px_count = pp_hop_count snap,
                px_target_ttl = pp_target_ttl snap, px_hops = map2 (agent_hop names) hops attributed,
                px_probe = probe, px_snapshot = Some (pp_ts snap)\<rparr>, w1))))"

text \<open>\<open>engines\<close> gives the engine of a monitored target: when it started and the snapshot it answers with, \<^const>\<open>None\<close>
  when the request ends first.\<close>

definition handle_path_get :: "(rat \<Rightarrow> rat) \<Rightarrow> (string \<Rightarrow> wire_hop list option) \<Rightarrow> bool \<Rightarrow> rdns_table
    \<Rightarrow> (string \<rightharpoonup> instant \<times> path_snapshot option) \<Rightarrow> string \<Rightarrow> string \<Rightarrow> central \<Rightarrow> (nat + path_response) \<times> central" where
  "handle_path_get rnd read fault t engines target_q probe_q c = (case resolve_request target_q c of
     Inl n \<Rightarrow> (Inl n, c)
   | Inr target \<Rightarrow> (case resolve_probe probe_q c of
       (Inl n, c1) \<Rightarrow> (Inl n, c1)
     | (Inr probe, c1) \<Rightarrow>
         if probe \<noteq> local_probe_id then on_fleet (build_agent_path_response rnd read fault t probe target) c1
         else (case engines target of
             None \<Rightarrow> (Inl 404, c1)
           | Some (_, None) \<Rightarrow> (Inl 503, c1)
           | Some (started, Some s) \<Rightarrow> (Inr (build_path_response rnd fault t target started s), c1))))"

section \<open>Stored snapshots\<close>

definition shown :: "string \<Rightarrow> string \<Rightarrow> fleet \<Rightarrow> path_row option" where
  "shown probe target w = find (\<lambda>p. pp_probe p = probe \<and> pp_target p = target) (fl_paths w)"

definition keeps_path :: "string \<Rightarrow> string \<Rightarrow> fleet \<Rightarrow> fleet \<Rightarrow> bool" where
  "keeps_path probe target w w1 \<longleftrightarrow> shown probe target w1 = shown probe target w"

lemma shown_faults [simp]: "shown p t (with_faults w bs) = shown p t w"
  by (simp add: shown_def with_faults_def)

interpretation kp: fleet_frame "keeps_path p t" for p t
  by unfold_locales (simp_all add: keeps_path_def)

lemma snapshot_upsert:
  "find (\<lambda>p. pp_probe p = a \<and> pp_target p = b) (upsert_path x rows)
    = (if pp_probe x = a \<and> pp_target x = b then Some x else find (\<lambda>p. pp_probe p = a \<and> pp_target p = b) rows)"
  by (induction rows) auto

text \<open>What a post does to the snapshot of one key.\<close>

lemma handle_path_other:
  assumes "\<And>b. body = Some b \<Longrightarrow> pq_probe b \<noteq> probe \<or> pq_target b \<noteq> target"
  shows "keeps_path probe target w (snd (handle_path c body w))"
proof -
  obtain r w1 where a: "admit ''POST'' c body pq_probe w = (r, w1)" by fastforce
  have k: "keeps_path probe target w w1" using kp.admit_frame [of probe target w "''POST''" c body pq_probe] a by simp
  have u: "keeps_path probe target w1 (snd (upsert_path_snapshot x w1))" if "pp_probe x \<noteq> probe \<or> pp_target x \<noteq> target" for x
  proof -
    have "keeps_path probe target w (snd (Inr (), w\<lparr>fl_paths := upsert_path x (fl_paths w)\<rparr>))" for w :: fleet
      using that by (auto simp: keeps_path_def shown_def snapshot_upsert)
    then have "keeps_path probe target w1 (snd (fl_exec (\<lambda>w. (Inr (), w\<lparr>fl_paths := upsert_path x (fl_paths w)\<rparr>)) w1))"
      by (rule kp.exec)
    then show ?thesis by (simp add: upsert_path_snapshot_def)
  qed
  show ?thesis
  proof (cases r)
    case (Inr tb)
    obtain token b where tb: "tb = (token, b)" by fastforce
    have "body = Some b" using admitted [OF a [unfolded Inr tb]] by simp
    then have "pq_probe b \<noteq> probe \<or> pq_target b \<noteq> target" by (rule assms)
    define row where "row h = \<lparr>pp_probe = pq_probe b, pp_target = pq_target b, pp_ts = pq_ts b,
        pp_hop_count = pq_hop_count b, pp_target_ttl = pq_target_ttl b, pp_hops = h\<rparr>" for h
    have "snd (handle_path c body w) = w1 \<or> (\<exists>h. snd (handle_path c body w) = snd (upsert_path_snapshot (row h) w1))"
      by (simp add: handle_path_def a Inr tb row_def [symmetric] case_prod_beta split: option.split sum.split) blast
    moreover have "keeps_path probe target w (snd (upsert_path_snapshot (row h) w1))" for h
      by (rule kp.trans [OF k u]) (use \<open>pq_probe b \<noteq> probe \<or> pq_target b \<noteq> target\<close> in \<open>simp add: row_def\<close>)
    ultimately show ?thesis using k by metis
  qed (use k in \<open>simp add: handle_path_def a\<close>)
qed

lemma handle_path_stores:
  assumes "fst (handle_path c (Some b) w) = Inr x" "pq_hops b = Some (text, Some n)"
  shows "shown (pq_probe b) (pq_target b) (snd (handle_path c (Some b) w)) = Some \<lparr>pp_probe = pq_probe b, pp_target = pq_target b,
    pp_ts = pq_ts b, pp_hop_count = pq_hop_count b, pp_target_ttl = pq_target_ttl b, pp_hops = text\<rparr>"
proof -
  obtain token d w1 where a: "admit ''POST'' c (Some b) pq_probe w = (Inr (token, d), w1)"
    using assms(1) by (auto simp: handle_path_def split: prod.splits sum.splits)
  have d: "d = b" using admitted [OF a] by simp
  show ?thesis using assms unfolding handle_path_def a d
    by (auto simp: upsert_path_snapshot_def fl_exec_def shown_def snapshot_upsert split: if_splits prod.splits sum.splits bool.splits)
qed

section \<open>Both kinds of path look the same\<close>

lemma snapshot_hops:
  assumes "path_ok th ps"
  shows "length (sn_Hops (snapshot rnd ps)) \<le> 64" "\<forall>h \<in> set (sn_Hops (snapshot rnd ps)). hs_TTL h \<le> 64"
proof -
  have m: "ps_maxSeen ps \<le> 64" "ps_targetTTL ps \<le> 64" using assms by (auto simp: path_ok_def max_ttl_def)
  have len: "length (List.map_filter f xs) \<le> length xs" for f :: "nat \<Rightarrow> hop option" and xs
    by (induction xs) (auto simp: map_filter_simps split: option.splits)
  show "length (sn_Hops (snapshot rnd ps)) \<le> 64"
    using m len [of "\<lambda>ttl. ps_hops ps ! ttl" "[1 ..< Suc n]" for n] by (auto simp: snapshot_def Let_def intro: order_trans simp del: upt_Suc)
  have "hs_TTL (hop_snapshot_of rnd h) \<le> 64" if "i \<le> 64" "ps_hops ps ! i = Some h" for i h
  proof -
    have "hop_ok th i h" using assms that by (auto simp: path_ok_def max_ttl_def)
    then show ?thesis using that(1) by (simp add: hop_ok_def hop_snapshot_of_def Let_def split: prod.split)
  qed
  then show "\<forall>h \<in> set (sn_Hops (snapshot rnd ps)). hs_TTL h \<le> 64"
    using m by (auto simp: snapshot_def Let_def in_map_filter simp del: upt_Suc) (meson less_Suc_eq_le le_trans not_less less_imp_le)+
qed

text \<open>A hop on the wire and the hop it was made of render alike.\<close>

lemma wire_hop_renders: "agent_hop names (wire_hop_of rnd h) a = local_hop rnd names h a"
  by (simp add: agent_hop_def wire_hop_of_def local_hop_def hop_address_def rtt_to_ms_def wire_ms_def)

lemma wire_addresses: "List.map_filter wh_ip (map (wire_hop_of rnd) hops) = List.map_filter hop_address hops"
  by (induction hops) (simp_all add: map_filter_simps wire_hop_of_def hop_address_def)

lemma wire_losses:
  "\<forall>h \<in> set hops. hs_TTL h \<le> 64 \<Longrightarrow>
   map (\<lambda>h. \<lparr>hl_TTL = nat (wh_ttl h mod 256), hl_Loss = wh_loss h\<rparr>) (map (wire_hop_of rnd) hops)
     = map (\<lambda>h. \<lparr>hl_TTL = hs_TTL h, hl_Loss = hs_LossPercent h\<rparr>) hops"
  by (auto simp: wire_hop_of_def)

lemma map2_wire: "map2 (agent_hop names) (map (wire_hop_of rnd) hops) as = map2 (local_hop rnd names) hops as"
  by (induction hops as rule: list_induct2') (simp_all add: wire_hop_renders)

definition other_posts :: "string \<Rightarrow> string \<Rightarrow> (agent_call \<times> path_request option) list \<Rightarrow> bool" where
  "other_posts probe target = list_all (\<lambda>(c, body). case body of None \<Rightarrow> True | Some b \<Rightarrow> pq_probe b \<noteq> probe \<or> pq_target b \<noteq> target)"

definition posts :: "(agent_call \<times> path_request option) list \<Rightarrow> fleet \<Rightarrow> fleet" where
  "posts ps w = fold (\<lambda>(c, body) w. snd (handle_path c body w)) ps w"

lemma posts_keep: "other_posts probe target ps \<Longrightarrow> keeps_path probe target w (posts ps w)"
proof (induction ps arbitrary: w)
  case (Cons p ps)
  obtain c body where p: "p = (c, body)" by fastforce
  have "keeps_path probe target w (snd (handle_path c body w))"
    using Cons.prems by (intro handle_path_other) (auto simp: other_posts_def p split: option.splits)
  then show ?case using Cons.IH [of "snd (handle_path c body w)"] Cons.prems kp.trans
    by (auto simp: posts_def other_posts_def p)
qed (simp add: posts_def)

text \<open>C38: The hop list renders identically whichever probe measured it. The snapshot of an engine whose path is in
  order, posted by a probe and taken by the central, is shown by the central's page hop by hop exactly as the engine's
  own central would show it (addresses, names, times, losses with their states), with the same counts, under the
  probe's name and with the time of the snapshot, whatever the other probes and targets post in between; the page
  never takes it for missing.\<close>

theorem remote_paths_render_like_local_ones:
  fixes rnd json read th ps
  defines "s \<equiv> snapshot rnd ps"
  defines "sent \<equiv> map (wire_hop_of rnd) (sn_Hops s)"
  assumes "path_ok th ps" "read (json sent) = Some sent"
    and "fst (handle_path c (Some (path_post json rnd probe target now s)) w) = Inr x" "other_posts probe target later"
  defines "w1 \<equiv> posts later (snd (handle_path c (Some (path_post json rnd probe target now s)) w))"
  shows "case fst (build_agent_path_response rnd read fault t probe target w1) of
      Inl n \<Rightarrow> n = 500
    | Inr r \<Rightarrow> r = (build_path_response rnd fault t target started s)\<lparr>px_started := unix_milli now, px_probe := probe,
        px_snapshot := Some (unix_milli now)\<rparr>"
proof -
  define row where "row = \<lparr>pp_probe = probe, pp_target = target, pp_ts = unix_milli now,
    pp_hop_count = int (length (sn_Hops s)), pp_target_ttl = int (sn_TargetTTL s), pp_hops = json sent\<rparr>"
  have "shown probe target (snd (handle_path c (Some (path_post json rnd probe target now s)) w)) = Some row"
    using handle_path_stores [OF assms(5)] by (simp add: path_post_def row_def sent_def)
  then have sh: "shown probe target w1 = Some row"
    using posts_keep [OF assms(6)] by (simp add: keeps_path_def w1_def)
  have g: "\<exists>bs. get_path_snapshot probe target w1 = (Inl FleetStoreFailed, with_faults w1 bs)
      \<or> get_path_snapshot probe target w1 = (Inr (Some row), with_faults w1 bs)"
    using fl_exec_faults [of "\<lambda>w. (Inr (find (\<lambda>p. pp_probe p = probe \<and> pp_target p = target) (fl_paths w)), w)" w1] sh
    unfolding get_path_snapshot_def shown_def by (auto simp: with_faults_def)
  have ttl: "\<forall>h \<in> set (sn_Hops s). hs_TTL h \<le> 64" using snapshot_hops(2) [OF assms(3)] by (simp add: s_def)
  have r: "read (pp_hops row) = Some (map (wire_hop_of rnd) (sn_Hops s))" using assms(4) by (simp add: row_def sent_def)
  show ?thesis using g
    by (auto simp: build_agent_path_response_def r wire_addresses wire_losses [OF ttl] map2_wire build_path_response_def Let_def
        simp del: map_map) (simp_all add: row_def)
qed

definition demo_traced :: path_state where "demo_traced = the (path_run 2 demo_run demo_path)"

definition demo_sent :: "wire_hop list" where "demo_sent = map (wire_hop_of id) (sn_Hops (snapshot id demo_traced))"

lemma demo_traced_ok: "path_ok 2 demo_traced"
proof -
  have "case path_run 2 demo_run demo_path of None \<Rightarrow> False | Some s \<Rightarrow> True" by code_simp
  then obtain s where "path_run 2 demo_run demo_path = Some s" by (auto split: option.splits)
  then show ?thesis using path_ok_run [of 2 demo_path demo_run s] by (simp add: demo_path_def demo_traced_def)
qed

lemma demo_posted:
  "fst (handle_path (demo_call\<lparr>cl_yaml_tokens := [''tok'']\<rparr>) (Some (path_post (\<lambda>_. ''x'') id ''edge'' ''a'' 0 (snapshot id demo_traced)))
    (empty_fleet [])) = Inr 0"
  by code_simp

lemma remote_paths_render_like_local_ones_witness:
  defines "w1 \<equiv> snd (handle_path (demo_call\<lparr>cl_yaml_tokens := [''tok'']\<rparr>)
    (Some (path_post (\<lambda>_. ''x'') id ''edge'' ''a'' 0 (snapshot id demo_traced))) (empty_fleet []))"
  shows "case fst (build_agent_path_response id (\<lambda>_. Some demo_sent) False Map.empty ''edge'' ''a'' w1) of
      Inl n \<Rightarrow> n = 500
    | Inr r \<Rightarrow> r = (build_path_response id False Map.empty ''a'' 0 (snapshot id demo_traced))\<lparr>px_started := unix_milli 0,
        px_probe := ''edge'', px_snapshot := Some (unix_milli 0)\<rparr>"
  using remote_paths_render_like_local_ones [OF demo_traced_ok _ demo_posted, where later = "[]" and read = "\<lambda>_. Some demo_sent"]
  by (simp add: w1_def posts_def other_posts_def demo_sent_def)

end
