(* ===== verification/ReadApi.thy ===== *)
theory ReadApi
  imports PathView Retention "HOL-Library.Product_Lexorder"
begin

text \<open>
  The historical reads of the page (\<open>internal/server/handlers.go\<close>): samples, raw or one per bucket, route changes, the
  export bundle, and the retention setting. SQLite visits the rows of a query in an order of its own, a parameter;
  ties of an \<open>ORDER BY\<close> stay in that order. An iteration that breaks delivers a prefix of its rows.
\<close>

section \<open>Queries\<close>

record sample_json =
  sj_ttl :: int
  sj_ts :: int
  sj_ip :: "string option"
  sj_rtt :: rat

definition sample_json_of :: "(rat \<Rightarrow> rat) \<Rightarrow> sample_row \<Rightarrow> sample_json" where
  "sample_json_of rnd r = \<lparr>sj_ttl = sr_ttl r, sj_ts = sr_ts r, sj_ip = sr_ip r, sj_rtt = rnd (of_int (sr_rtt_us r) / 1000)\<rparr>"

record change_json =
  cj_ttl :: int
  cj_ts :: int
  cj_old :: "string option"
  cj_new :: string

definition change_json_of :: "change_row \<Rightarrow> change_json" where
  "change_json_of r = \<lparr>cj_ttl = cr_ttl r, cj_ts = cr_ts r, cj_old = cr_old r, cj_new = cr_new r\<rparr>"

definition samples_between :: "string \<Rightarrow> string \<Rightarrow> int \<Rightarrow> int \<Rightarrow> target_db \<Rightarrow> sample_row list" where
  "samples_between probe target a b d =
     map snd (filter (\<lambda>(p, r). p = probe \<and> sr_target r = target \<and> sr_ts r \<ge> a \<and> sr_ts r \<le> b) (it_samples (td_data d)))"

definition changes_between :: "string \<Rightarrow> string \<Rightarrow> int option \<Rightarrow> int option \<Rightarrow> target_db \<Rightarrow> change_row list" where
  "changes_between probe target a b d =
     map snd (filter (\<lambda>(p, r). p = probe \<and> cr_target r = target \<and> (case a of None \<Rightarrow> True | Some a \<Rightarrow> cr_ts r \<ge> a)
       \<and> (case b of None \<Rightarrow> True | Some b \<Rightarrow> cr_ts r \<le> b)) (it_changes (td_data d)))"

definition by_time :: "sample_row list \<Rightarrow> sample_row list" where
  "by_time rows = sort_key (\<lambda>r. (sr_ts r, sr_ttl r)) rows"

text \<open>The partition of a row: its TTL and the integer quotient of its time.\<close>

definition bucket_of :: "int \<Rightarrow> sample_row \<Rightarrow> int \<times> int" where
  "bucket_of k r = (sr_ttl r, go_quot (sr_ts r) k)"

fun first_rows :: "int \<Rightarrow> (int \<times> int) list \<Rightarrow> sample_row list \<Rightarrow> sample_row list" where
  "first_rows k seen [] = []"
| "first_rows k seen (r # rs) =
     (if bucket_of k r \<in> set seen then first_rows k seen rs else r # first_rows k (bucket_of k r # seen) rs)"

definition samples_query :: "(sample_row list \<Rightarrow> sample_row list) \<Rightarrow> int \<Rightarrow> sample_row list \<Rightarrow> sample_row list" where
  "samples_query scan k rows =
     (if k > 0 then by_time (first_rows k [] (sort_key sr_ts (scan rows))) else by_time (scan rows))"

record read_env =
  rd_scan :: "sample_row list \<Rightarrow> sample_row list"
  rd_cut :: "nat option"
  rd_scan_changes :: "change_row list \<Rightarrow> change_row list"
  rd_cut_changes :: "nat option"

definition delivered :: "nat option \<Rightarrow> 'a list \<Rightarrow> 'a list" where
  "delivered brk rows = (case brk of None \<Rightarrow> rows | Some n \<Rightarrow> take n rows)"

definition select_rows :: "(target_db \<Rightarrow> 'a list) \<Rightarrow> target_db \<Rightarrow> (store_error + 'a list) \<times> target_db" where
  "select_rows q = td_exec (\<lambda>d. (Inr (q d), d))"

section \<open>Samples\<close>

definition default_samples_window :: duration where "default_samples_window = 5 * go_minute"
definition default_route_changes_limit :: int where "default_route_changes_limit = 50"
definition max_route_changes_limit :: int where "max_route_changes_limit = 500"

text \<open>Target and probe of a read, then what it does with them.\<close>

definition with_scope :: "string \<Rightarrow> string \<Rightarrow> (string \<Rightarrow> string \<Rightarrow> central \<Rightarrow> (nat + 'a) \<times> central) \<Rightarrow> central \<Rightarrow> (nat + 'a) \<times> central" where
  "with_scope target_q probe_q f c = (case resolve_request target_q c of
     Inl n \<Rightarrow> (Inl n, c)
   | Inr target \<Rightarrow> (case resolve_probe probe_q c of (Inl n, c1) \<Rightarrow> (Inl n, c1) | (Inr probe, c1) \<Rightarrow> f target probe c1))"

definition handle_samples :: "read_env \<Rightarrow> (rat \<Rightarrow> rat) \<Rightarrow> instant \<Rightarrow> string \<Rightarrow> string \<Rightarrow> string \<Rightarrow> string \<Rightarrow> string \<Rightarrow> central
    \<Rightarrow> (nat + int \<times> int \<times> sample_json list) \<times> central" where
  "handle_samples env rnd now since till bucket target_q probe_q c =
     (case (parse_time_ms till (unix_milli now), parse_time_ms since (unix_milli (now - default_samples_window)),
            parse_time_ms bucket 0) of
        (Some b, Some a, Some k) \<Rightarrow>
          if k < 0 then (Inl 400, c)
          else with_scope target_q probe_q (\<lambda>target probe c1.
            (case on_tables (select_rows (\<lambda>d. samples_query (rd_scan env) k (samples_between probe target a b d))) c1 of
               (Inl _, c2) \<Rightarrow> (Inl 500, c2)
             | (Inr rows, c2) \<Rightarrow> if rd_cut env \<noteq> None then (Inl 500, c2) else (Inr (a, b, map (sample_json_of rnd) rows), c2))) c
      | _ \<Rightarrow> (Inl 400, c))"

section \<open>Route changes\<close>

definition parse_changes_limit :: "string \<Rightarrow> int option" where
  "parse_changes_limit v = (if v = [] then Some default_route_changes_limit
     else (case go_atoi v of None \<Rightarrow> None | Some n \<Rightarrow> if n < 1 then None else Some (min n max_route_changes_limit)))"

definition handle_route_changes :: "read_env \<Rightarrow> string \<Rightarrow> string \<Rightarrow> string \<Rightarrow> string \<Rightarrow> central
    \<Rightarrow> (nat + int option \<times> int \<times> change_json list) \<times> central" where
  "handle_route_changes env limit since target_q probe_q c =
     (case (parse_changes_limit limit, if since = [] then Some None else map_option Some (go_atoi since)) of
        (Some n, Some a) \<Rightarrow>
          with_scope target_q probe_q (\<lambda>target probe c1.
            (case on_tables (select_rows (\<lambda>d. take (nat n) (sort_key (\<lambda>r. - cr_ts r)
                 (rd_scan_changes env (changes_between probe target a None d))))) c1 of
               (Inl _, c2) \<Rightarrow> (Inl 500, c2)
             | (Inr rows, c2) \<Rightarrow> if rd_cut_changes env \<noteq> None then (Inl 500, c2) else (Inr (a, n, map change_json_of rows), c2))) c
      | _ \<Rightarrow> (Inl 400, c))"

definition handle_route_changes_delete :: "string \<Rightarrow> central \<Rightarrow> nat \<times> central" where
  "handle_route_changes_delete target_q c = (case resolve_request target_q c of
     Inl n \<Rightarrow> (n, c)
   | Inr target \<Rightarrow> (case on_tables (clear_route_changes target) c of (Inl _, c1) \<Rightarrow> (500, c1) | (Inr _, c1) \<Rightarrow> (204, c1)))"

section \<open>Export\<close>

definition default_export_window :: duration where "default_export_window = go_hour"
definition max_export_span_ms :: int where "max_export_span_ms = 32 * 24 * 60 * 60 * 1000"

record export_bundle =
  eb_generated :: int
  eb_target :: string
  eb_probe :: string
  eb_since :: int
  eb_until :: int
  eb_path :: "path_response option"
  eb_samples :: "sample_json list"
  eb_changes :: "change_json list"
  eb_notes :: "annotation list"

definition answer_of :: "nat + 'a \<Rightarrow> 'a option" where "answer_of r = (case r of Inl _ \<Rightarrow> None | Inr x \<Rightarrow> Some x)"

definition export_path :: "(rat \<Rightarrow> rat) \<Rightarrow> (string \<Rightarrow> wire_hop list option) \<Rightarrow> bool \<Rightarrow> rdns_table
    \<Rightarrow> (string \<rightharpoonup> instant \<times> path_snapshot option) \<Rightarrow> string \<Rightarrow> string \<Rightarrow> central \<Rightarrow> path_response option \<times> central" where
  "export_path rnd read fault t engines target probe c =
     (if probe = local_probe_id
      then ((case engines target of Some (started, Some s) \<Rightarrow> Some (build_path_response rnd fault t target started s) | _ \<Rightarrow> None), c)
      else (case on_fleet (build_agent_path_response rnd read fault t probe target) c of (r, c1) \<Rightarrow> (answer_of r, c1)))"

definition export_rows :: "read_env \<Rightarrow> (rat \<Rightarrow> rat) \<Rightarrow> instant \<Rightarrow> int \<Rightarrow> int \<Rightarrow> string \<Rightarrow> string \<Rightarrow> path_response option \<Rightarrow> central
    \<Rightarrow> (nat + export_bundle) \<times> central" where
  "export_rows env rnd now a b target probe path c =
     (case on_tables (select_rows (\<lambda>d. by_time (rd_scan env (samples_between probe target a b d)))) c of
        (Inl _, c1) \<Rightarrow> (Inl 500, c1)
      | (Inr rows, c1) \<Rightarrow>
     (case on_tables (select_rows (\<lambda>d. sort_key cr_ts (rd_scan_changes env (changes_between probe target (Some a) (Some b) d)))) c1 of
        (Inl _, c2) \<Rightarrow> (Inl 500, c2)
      | (Inr changes, c2) \<Rightarrow>
     (case on_tables (list_annotations target a b now) c2 of
        (notes, c3) \<Rightarrow> (Inr \<lparr>eb_generated = unix_milli now, eb_target = target, eb_probe = probe, eb_since = a, eb_until = b,
          eb_path = path, eb_samples = map (sample_json_of rnd) (delivered (rd_cut env) rows),
          eb_changes = map change_json_of (delivered (rd_cut_changes env) changes),
          eb_notes = (case notes of Inl _ \<Rightarrow> [] | Inr ns \<Rightarrow> ns)\<rparr>, c3))))"

definition handle_export :: "read_env \<Rightarrow> (rat \<Rightarrow> rat) \<Rightarrow> (string \<Rightarrow> wire_hop list option) \<Rightarrow> bool \<Rightarrow> rdns_table
    \<Rightarrow> (string \<rightharpoonup> instant \<times> path_snapshot option) \<Rightarrow> instant \<Rightarrow> string \<Rightarrow> string \<Rightarrow> string \<Rightarrow> string \<Rightarrow> central
    \<Rightarrow> (nat + export_bundle) \<times> central" where
  "handle_export env rnd read fault t engines now since till target_q probe_q c =
     with_scope target_q probe_q (\<lambda>target probe c1.
       (case (parse_time_ms till (unix_milli now), parse_time_ms since (unix_milli (now - default_export_window))) of
          (Some b, Some a) \<Rightarrow>
            if wrap64 (b - a) > max_export_span_ms then (Inl 400, c1)
            else (case export_path rnd read fault t engines target probe c1 of
                (path, c2) \<Rightarrow> export_rows env rnd now a b target probe path c2)
        | _ \<Rightarrow> (Inl 400, c1))) c"

section \<open>The retention setting\<close>

definition retention_setting :: "bool \<Rightarrow> int \<Rightarrow> kv \<Rightarrow> int" where
  "retention_setting fault days kv = (case get_config fault ''retention.days'' kv of
     Inr (Some v) \<Rightarrow> (case go_atoi v of Some n \<Rightarrow> n | None \<Rightarrow> days) | _ \<Rightarrow> days)"

definition handle_retention_patch :: "bool \<Rightarrow> int option \<Rightarrow> kv \<Rightarrow> nat \<times> kv" where
  "handle_retention_patch fault body kv = (case body of
     None \<Rightarrow> (400, kv)
   | Some n \<Rightarrow> if n < 1 \<or> n > 3650 then (400, kv)
       else (case set_config fault ''retention.days'' (go_itoa n) kv of (False, kv1) \<Rightarrow> (500, kv1) | (True, kv1) \<Rightarrow> (204, kv1)))"

section \<open>One row for each bucket\<close>

lemma first_rows_set: "set (first_rows k seen xs) \<subseteq> set xs"
  by (induction k seen xs rule: first_rows.induct) auto

lemma first_rows_distinct:
  "distinct (map (bucket_of k) (first_rows k seen xs)) \<and> bucket_of k ` set (first_rows k seen xs) \<inter> set seen = {}"
  by (induction k seen xs rule: first_rows.induct) auto

lemma first_rows_earliest:
  "sorted (map sr_ts xs) \<Longrightarrow> x \<in> set xs \<Longrightarrow> bucket_of k x \<notin> set seen \<Longrightarrow>
     \<exists>r \<in> set (first_rows k seen xs). bucket_of k r = bucket_of k x \<and> sr_ts r \<le> sr_ts x"
proof (induction k seen xs rule: first_rows.induct)
  case (2 k seen r rs)
  consider "bucket_of k x = bucket_of k r" "bucket_of k r \<notin> set seen"
    | "x \<in> set rs" "bucket_of k r \<in> set seen" | "x \<in> set rs" "bucket_of k r \<notin> set seen" "bucket_of k x \<noteq> bucket_of k r"
    using 2(4,5) by auto
  then show ?case
  proof cases
    case 1
    then show ?thesis using 2(3,4) by auto
  next
    case 2
    then show ?thesis using "2.IH"(1) "2.prems" by simp
  next
    case 3
    then show ?thesis using "2.IH"(2) "2.prems" by simp
  qed
qed simp

definition reordering :: "('a list \<Rightarrow> 'a list) \<Rightarrow> bool" where "reordering f \<longleftrightarrow> (\<forall>xs. mset (f xs) = mset xs)"

lemma reordering_set: "reordering f \<Longrightarrow> set (f xs) = set xs"
  unfolding reordering_def by (metis set_mset_mset)

text \<open>What a query answers, for the rows it selects from.\<close>

lemma samples_query_raw: "reordering scan \<Longrightarrow> mset (samples_query scan 0 rows) = mset rows"
  by (simp add: samples_query_def by_time_def reordering_def)

lemma samples_query_sorted: "sorted (map (\<lambda>r. (sr_ts r, sr_ttl r)) (samples_query scan k rows))"
  by (simp add: samples_query_def by_time_def)

lemma samples_query_buckets:
  assumes "reordering scan" "0 < k"
  shows "set (samples_query scan k rows) \<subseteq> set rows" (is ?sub)
    and "distinct (map (bucket_of k) (samples_query scan k rows))" (is ?dist)
    and "x \<in> set rows \<Longrightarrow> \<exists>r \<in> set (samples_query scan k rows). bucket_of k r = bucket_of k x \<and> sr_ts r \<le> sr_ts x" (is "_ \<Longrightarrow> ?first")
proof -
  let ?xs = "sort_key sr_ts (scan rows)"
  have xs: "set ?xs = set rows" "sorted (map sr_ts ?xs)" using reordering_set [OF assms(1)] by simp_all
  have q: "samples_query scan k rows = by_time (first_rows k [] ?xs)" using assms(2) by (simp add: samples_query_def)
  show ?sub using first_rows_set [of k "[]" ?xs] xs(1) by (simp add: q by_time_def)
  have "mset (map (bucket_of k) (by_time (first_rows k [] ?xs))) = mset (map (bucket_of k) (first_rows k [] ?xs))"
    by (simp add: by_time_def)
  then show ?dist using first_rows_distinct [of k "[]" ?xs] unfolding q by (metis mset_eq_imp_distinct_iff)
  show ?first if "x \<in> set rows"
    using first_rows_earliest [OF xs(2), of x k "[]"] that xs(1) by (simp add: q by_time_def)
qed

text \<open>How many buckets a window has.\<close>

lemma go_quot_nonneg: "0 \<le> x \<Longrightarrow> 0 < k \<Longrightarrow> go_quot x k = x div k"
  by (cases "x = 0") (simp_all add: go_quot_def)

lemma bucket_range:
  assumes "0 \<le> a" "0 < k" "a \<le> sr_ts r" "sr_ts r \<le> b" "sr_ttl r \<in> {1..64}"
  shows "bucket_of k r \<in> {1..64} \<times> {a div k .. b div k}"
  using assms by (simp add: bucket_of_def go_quot_nonneg zdiv_mono1)

lemma samples_query_length:
  assumes "reordering scan" "0 < k" "0 \<le> a" "\<forall>r \<in> set rows. a \<le> sr_ts r \<and> sr_ts r \<le> b \<and> sr_ttl r \<in> {1..64}"
  shows "length (samples_query scan k rows) \<le> 64 * nat (b div k - a div k + 1)"
proof -
  let ?L = "samples_query scan k rows"
  have sub: "bucket_of k ` set ?L \<subseteq> {1..64} \<times> {a div k .. b div k}"
    by (rule image_subsetI, rule bucket_range [OF assms(3,2)])
      (use samples_query_buckets(1) [OF assms(1,2), of rows] assms(4) in blast)+
  have "length ?L = card (bucket_of k ` set ?L)"
    using distinct_card [OF samples_query_buckets(2) [OF assms(1,2), of rows]] by simp
  also have "\<dots> \<le> card ({1..64 :: int} \<times> {a div k .. b div k})"
    by (rule card_mono [OF _ sub]) simp
  also have "\<dots> = 64 * nat (b div k - a div k + 1)" by (simp add: card_cartesian_product)
  finally show ?thesis .
qed

section \<open>Scope\<close>

definition same_data :: "fleet \<Rightarrow> fleet \<Rightarrow> bool" where "same_data w w1 \<longleftrightarrow> td_data (fl_db w1) = td_data (fl_db w)"

interpretation kd: fleet_frame same_data
  by unfold_locales (simp_all add: same_data_def with_faults_def)

lemma resolve_probe_data:
  "td_data (fl_db (ce_fleet (snd (resolve_probe v c)))) = td_data (fl_db (ce_fleet c))"
proof -
  obtain r w1 where l: "list_probes (ce_fleet c) = (r, w1)" by (cases "list_probes (ce_fleet c)")
  have "td_data (fl_db w1) = td_data (fl_db (ce_fleet c))" using kd.reads(1) [of "ce_fleet c"] l by (simp add: same_data_def)
  then show ?thesis by (cases r) (simp_all add: resolve_probe_def on_fleet_def l)
qed

lemma with_scope_cases:
  assumes "fst (with_scope target_q probe_q f c) = Inr x"
  obtains target probe where "resolve_request target_q c = Inr target" "fst (resolve_probe probe_q c) = Inr probe"
    "with_scope target_q probe_q f c = f target probe (snd (resolve_probe probe_q c))"
  using assms by (auto simp: with_scope_def split: sum.splits prod.splits)

lemma select_rows_answer:
  assumes "on_tables (select_rows q) c = (Inr rows, c1)"
  shows "\<exists>bs. rows = q ((fl_db (ce_fleet c))\<lparr>td_faults := bs\<rparr>)"
proof (cases "td_faults (fl_db (ce_fleet c))")
  case Nil
  then have "rows = q (fl_db (ce_fleet c))"
    using assms by (auto simp: on_tables_def on_fleet_def select_rows_def td_exec_def td_fault_def)
  then show ?thesis by (intro exI [of _ "td_faults (fl_db (ce_fleet c))"]) simp
next
  case (Cons f fs)
  then show ?thesis
    using assms by (cases f) (auto simp: on_tables_def on_fleet_def select_rows_def td_exec_def td_fault_def)
qed

lemma samples_between_faults [simp]: "samples_between probe target a b (d\<lparr>td_faults := bs\<rparr>) = samples_between probe target a b d"
  by (simp add: samples_between_def)

lemma samples_between_data: "td_data d = td_data e \<Longrightarrow> samples_between probe target a b d = samples_between probe target a b e"
  by (simp add: samples_between_def)

lemma in_samples_between: "r \<in> set (samples_between probe target a b d) \<Longrightarrow> a \<le> sr_ts r \<and> sr_ts r \<le> b"
  by (auto simp: samples_between_def)

text \<open>C39: The samples the page gets are those of the window. Without buckets every stored row of the probe and target in
  the window comes exactly once; with buckets exactly one row of each non-empty bucket of each hop comes, an
  earliest one, and their number is bounded by the window and the width of the buckets, however many rows are stored.
  Either way they come in the order of their time and hop, and an answer is never a part of that: a read that
  breaks is an error.\<close>

theorem samples_answer_their_window:
  assumes "fst (handle_samples env rnd now since till bucket target_q probe_q c) = Inr (a, b, js)"
    and "parse_time_ms bucket 0 = Some k" "reordering (rd_scan env)"
  shows "\<exists>target probe L. resolve_request target_q c = Inr target \<and> fst (resolve_probe probe_q c) = Inr probe
    \<and> js = map (sample_json_of rnd) L \<and> sorted (map (\<lambda>r. (sr_ts r, sr_ttl r)) L)
    \<and> (let rows = samples_between probe target a b (fl_db (ce_fleet c))
       in if k = 0 then mset L = mset rows
          else set L \<subseteq> set rows \<and> distinct (map (bucket_of k) L)
            \<and> (\<forall>x \<in> set rows. \<exists>r \<in> set L. bucket_of k r = bucket_of k x \<and> sr_ts r \<le> sr_ts x)
            \<and> (0 \<le> a \<and> (\<forall>x \<in> set rows. sr_ttl x \<in> {1..64}) \<longrightarrow> length L \<le> 64 * nat (b div k - a div k + 1)))"
proof -
  obtain f where f: "0 \<le> k" "fst (with_scope target_q probe_q f c) = Inr (a, b, js)"
    "f = (\<lambda>target probe c1. (case on_tables (select_rows (\<lambda>d. samples_query (rd_scan env) k (samples_between probe target a b d))) c1 of
               (Inl _, c2) \<Rightarrow> (Inl 500, c2)
             | (Inr rows, c2) \<Rightarrow> if rd_cut env \<noteq> None then (Inl 500, c2) else (Inr (a, b, map (sample_json_of rnd) rows), c2)))"
  proof -
    obtain a0 b0 where p: "parse_time_ms till (unix_milli now) = Some b0"
      "parse_time_ms since (unix_milli (now - default_samples_window)) = Some a0" "0 \<le> k"
      using assms(1,2) by (auto simp: handle_samples_def split: option.splits if_splits)
    let ?f = "\<lambda>target probe c1. (case on_tables (select_rows (\<lambda>d. samples_query (rd_scan env) k (samples_between probe target a0 b0 d))) c1 of
               (Inl _, c2) \<Rightarrow> (Inl 500, c2)
             | (Inr rows, c2) \<Rightarrow> if rd_cut env \<noteq> None then (Inl 500, c2) else (Inr (a0, b0, map (sample_json_of rnd) rows), c2))"
    have s: "fst (with_scope target_q probe_q ?f c) = Inr (a, b, js)"
      using assms(1,2) p by (simp add: handle_samples_def)
    then have "a0 = a \<and> b0 = b" by (rule with_scope_cases) (use s in \<open>auto split: prod.splits sum.splits if_splits\<close>)
    then have ab: "a0 = a" "b0 = b" by simp_all
    show thesis by (rule that [OF p(3) s [unfolded ab] refl])
  qed
  obtain target probe where tp: "resolve_request target_q c = Inr target" "fst (resolve_probe probe_q c) = Inr probe"
    "with_scope target_q probe_q f c = f target probe (snd (resolve_probe probe_q c))"
    by (rule with_scope_cases [OF f(2)])
  let ?c = "snd (resolve_probe probe_q c)"
  let ?rows = "samples_between probe target a b (fl_db (ce_fleet c))"
  obtain L c2 where o: "on_tables (select_rows (\<lambda>d. samples_query (rd_scan env) k (samples_between probe target a b d))) ?c = (Inr L, c2)"
    "js = map (sample_json_of rnd) L"
    using f(2) [unfolded tp(3), unfolded f(3)] by (auto split: prod.splits sum.splits if_splits)
  have L: "L = samples_query (rd_scan env) k ?rows"
    using select_rows_answer [OF o(1)] samples_between_data [OF resolve_probe_data [of probe_q c]] by auto
  have len: "length L \<le> 64 * nat (b div k - a div k + 1)" if "0 < k" "0 \<le> a" "\<forall>x \<in> set ?rows. sr_ttl x \<in> {1..64}"
    unfolding L by (rule samples_query_length [OF assms(3)]) (use that in_samples_between in blast)+
  show ?thesis
    by (intro exI [of _ target] exI [of _ probe] exI [of _ L] conjI tp(1,2) o(2))
      (use f(1) len samples_query_sorted samples_query_raw [OF assms(3)] samples_query_buckets [OF assms(3)] in \<open>auto simp: L Let_def\<close>)
qed

definition demo_stored :: central where
  "demo_stored = (new_central \<lparr>al_cfg = default_alert_config, al_last = Map.empty, al_sent = [], al_states = [], al_queue = [],
      al_queue_seq = 0, al_history = [], al_history_seq = 0, al_summary = NoRow, al_faults = []\<rparr> [])
    \<lparr>ce_fleet := (empty_fleet [])\<lparr>fl_db := (empty_target_db [])\<lparr>td_data := \<lparr>it_log = [],
      it_samples = map (\<lambda>t. (''local'', (demo_sample ''a'' ''10.0.0.1'')\<lparr>sr_ts := t\<rparr>)) [5, 17, 12],
      it_changes = []\<rparr>\<rparr>\<rparr>\<rparr>"

definition demo_read :: read_env where
  "demo_read = \<lparr>rd_scan = (\<lambda>xs. xs), rd_cut = None, rd_scan_changes = (\<lambda>xs. xs), rd_cut_changes = None\<rparr>"

lemma demo_samples:
  "fst (handle_samples demo_read (\<lambda>x. x) 0 ''0'' ''100'' ''10'' ''a'' [] demo_stored)
    = Inr (0, 100, map (\<lambda>t. sample_json_of (\<lambda>x. x) ((demo_sample ''a'' ''10.0.0.1'')\<lparr>sr_ts := t\<rparr>)) [5, 12])"
  by code_simp

lemma samples_answer_their_window_witness:
  "\<exists>L. map (\<lambda>t. sample_json_of (\<lambda>x. x) ((demo_sample ''a'' ''10.0.0.1'')\<lparr>sr_ts := t\<rparr>)) [5, 12] = map (sample_json_of (\<lambda>x. x)) L
    \<and> distinct (map (bucket_of 10) L)"
proof -
  have k: "parse_time_ms ''10'' 0 = Some 10" by code_simp
  have "reordering (rd_scan demo_read)" by (simp add: reordering_def demo_read_def)
  note w = samples_answer_their_window [OF demo_samples k this, unfolded Let_def]
  then obtain target probe L where L: "map (\<lambda>t. sample_json_of (\<lambda>x. x) ((demo_sample ''a'' ''10.0.0.1'')\<lparr>sr_ts := t\<rparr>)) [5, 12]
      = map (sample_json_of (\<lambda>x. x)) L" and "(10 :: int) \<noteq> 0 \<longrightarrow> distinct (map (bucket_of 10) L)"
    by (elim exE conjE) (rule that, assumption, simp)
  then show ?thesis by (intro exI [of _ L]) simp
qed

section \<open>The export\<close>

lemma no_fault_fleet: "td_faults (fl_db w) = [] \<Longrightarrow> fl_exec f w = f w"
  by (simp add: fl_exec_def td_fault_def)

lemma resolve_probe_unharmed:
  "td_faults (fl_db (ce_fleet c)) = [] \<Longrightarrow> ce_fleet (snd (resolve_probe v c)) = ce_fleet c"
  by (simp add: resolve_probe_def on_fleet_def list_probes_def no_fault_fleet)

lemma export_path_unharmed:
  assumes "td_faults (fl_db (ce_fleet c)) = []"
  shows "ce_fleet (snd (export_path rnd read fault t engines target probe c)) = ce_fleet c"
proof -
  have "snd (build_agent_path_response rnd read fault t probe target (ce_fleet c)) = ce_fleet c"
    using assms by (simp add: build_agent_path_response_def get_path_snapshot_def no_fault_fleet Let_def split: option.split)
  then show ?thesis by (simp add: export_path_def on_fleet_def case_prod_beta)
qed

lemma select_unharmed:
  "td_faults (fl_db (ce_fleet c)) = [] \<Longrightarrow> on_tables (select_rows q) c = (Inr (q (fl_db (ce_fleet c))), c)"
  by (simp add: on_tables_def on_fleet_def select_rows_def td_exec_def td_fault_def)

lemma wrap64_span:
  assumes "0 \<le> d" "d < 2 ^ 64"
  shows "wrap64 d = (if d < 2 ^ 63 then d else d - 2 ^ 64)"
proof (cases "d < 2 ^ 63")
  case True
  then show ?thesis using assms by (simp add: wrap64_id)
next
  case False
  have "(d + 2 ^ 63) mod 2 ^ 64 = (d - 2 ^ 63 + 2 ^ 64) mod 2 ^ 64"
    by (rule arg_cong [where f = "\<lambda>x. x mod 2 ^ 64"]) simp
  also have "\<dots> = (d - 2 ^ 63) mod 2 ^ 64" by (rule mod_add_self2)
  also have "\<dots> = d - 2 ^ 63" using False assms by (intro mod_pos_pos_trivial) auto
  finally show ?thesis using False by (simp add: wrap64_def)
qed

text \<open>C40: The guard of the export refuses windows of more than 32 days, but it compares a difference that has wrapped
  around: a window of \<open>2 ^ 63\<close> milliseconds or more passes, and every stored row of the target comes in one answer.
  And an export that is answered is not always whole: when the read breaks off, the rows that came so far are
  exported as if they were all.\<close>

theorem export_guard_wraps_around:
  fixes env rnd read fault t engines
  assumes "resolve_request target_q c = Inr target" "fst (resolve_probe probe_q c) = Inr probe" "td_faults (fl_db (ce_fleet c)) = []"
    and "parse_time_ms since (unix_milli (now - default_export_window)) = Some a" "parse_time_ms till (unix_milli now) = Some b"
    and "- (2 ^ 63) \<le> a" "a \<le> b" "b < 2 ^ 63"
  defines "answer \<equiv> fst (handle_export env rnd read fault t engines now since till target_q probe_q c)"
  shows "if max_export_span_ms < b - a \<and> b - a < 2 ^ 63 then answer = Inl 400
    else (\<exists>e. answer = Inr e \<and> eb_samples e = map (sample_json_of rnd) (delivered (rd_cut env)
      (by_time (rd_scan env (samples_between probe target a b (fl_db (ce_fleet c)))))))"
proof -
  define c1 where "c1 = snd (resolve_probe probe_q c)"
  have c1: "resolve_probe probe_q c = (Inr probe, c1)" "ce_fleet c1 = ce_fleet c"
    using assms(2) resolve_probe_unharmed [OF assms(3)] by (simp_all add: c1_def prod_eq_iff)
  obtain path c2 where p: "export_path rnd read fault t engines target probe c1 = (path, c2)"
    by (cases "export_path rnd read fault t engines target probe c1")
  have c2: "ce_fleet c2 = ce_fleet c" using export_path_unharmed [of c1 rnd read fault t engines target probe] p c1(2) assms(3) by simp
  then have f: "td_faults (fl_db (ce_fleet c2)) = []" using assms(3) by simp
  have w: "wrap64 (b - a) = (if b - a < 2 ^ 63 then b - a else b - a - 2 ^ 64)" using assms(6-8) by (intro wrap64_span) auto
  have guard: "wrap64 (b - a) > max_export_span_ms \<longleftrightarrow> max_export_span_ms < b - a \<and> b - a < 2 ^ 63"
    using assms(6-8) by (auto simp: w max_export_span_ms_def)
  have "answer = fst (if wrap64 (b - a) > max_export_span_ms then (Inl 400, c1) else export_rows env rnd now a b target probe path c2)"
    by (simp add: answer_def handle_export_def with_scope_def assms(1,4,5) c1(1) p)
  moreover have "\<exists>e. fst (export_rows env rnd now a b target probe path c2) = Inr e \<and> eb_samples e = map (sample_json_of rnd)
      (delivered (rd_cut env) (by_time (rd_scan env (samples_between probe target a b (fl_db (ce_fleet c))))))"
    by (simp add: export_rows_def select_unharmed [OF f] c2 case_prod_beta)
  ultimately show ?thesis unfolding guard by auto
qed

lemma export_guard_wraps_around_witness:
  "\<exists>e. fst (handle_export demo_read (\<lambda>x. x) (\<lambda>_. None) False Map.empty Map.empty 0 ''-9223372036854775808'' ''9223372036854775807''
      ''a'' [] demo_stored) = Inr e
    \<and> eb_samples e = map (sample_json_of (\<lambda>x. x)) (by_time (samples_between ''local'' ''a'' (- (2 ^ 63)) (2 ^ 63 - 1) (fl_db (ce_fleet demo_stored))))"
proof -
  note ev = parse_time_ms_def go_atoi_def signed_digits_def is_digit_def digit_value_def
  have a: "parse_time_ms ''-9223372036854775808'' (unix_milli (0 - default_export_window)) = Some (- (2 ^ 63))"
    by (simp add: ev)
  have b: "parse_time_ms ''9223372036854775807'' (unix_milli 0) = Some (2 ^ 63 - 1)" by (simp add: ev)
  have s: "resolve_request ''a'' demo_stored = Inr ''a''" "fst (resolve_probe [] demo_stored) = Inr ''local''"
    "td_faults (fl_db (ce_fleet demo_stored)) = []"
    by (simp_all add: resolve_request_def resolve_probe_def local_probe_id_def demo_stored_def empty_target_db_def)
  have far: "\<not> (max_export_span_ms < 2 ^ 63 - 1 - - (2 ^ 63) \<and> 2 ^ 63 - 1 - - (2 ^ 63) < (2 ^ 63 :: int))"
    "- (2 ^ 63) \<le> - (2 ^ 63 :: int)" "- (2 ^ 63) \<le> (2 ^ 63 - 1 :: int)" "2 ^ 63 - 1 < (2 ^ 63 :: int)" by simp_all
  show ?thesis
    using export_guard_wraps_around [OF s a b far(2-4), of demo_read "\<lambda>x. x" "\<lambda>_. None" False Map.empty Map.empty]
    by (simp only: far(1) if_False) (simp only: demo_read_def read_env.simps delivered_def option.case)
qed

section \<open>Retention\<close>

text \<open>A retention policy that is accepted is the one the page shows and the next sweep applies, to the nanosecond; one
  that is not accepted changes nothing.\<close>

theorem retention_patch_takes_effect:
  "fst (handle_retention_patch fault body kv) = 204 \<and>
      (let kv1 = snd (handle_retention_patch fault body kv)
       in \<exists>n. body = Some n \<and> effective_days False kv1 fallback = n \<and> retention_setting False days kv1 = n
         \<and> retention_cutoff now (effective_days False kv1 fallback) = now - n * 24 * go_hour)
    \<or> fst (handle_retention_patch fault body kv) \<in> {400, 500} \<and> snd (handle_retention_patch fault body kv) = kv"
proof (cases "\<exists>n. body = Some n \<and> 1 \<le> n \<and> n \<le> 3650 \<and> \<not> fault")
  case True
  then obtain n where n: "body = Some n" "1 \<le> n" "n \<le> 3650" "\<not> fault" by blast
  have p: "go_atoi (go_itoa n) = Some n" using n(2,3) by simp
  have h: "handle_retention_patch fault body kv = (204, kv(''retention.days'' \<mapsto> go_itoa n))"
    using n by (simp add: handle_retention_patch_def set_config_def)
  have e: "effective_days False (kv(''retention.days'' \<mapsto> go_itoa n)) fallback = n"
    using n p by (simp add: effective_days_def get_config_def)
  have "retention_cutoff now n = now - n * 24 * go_hour"
    by (rule retention_cutoff_exact) (use n in \<open>simp_all add: max_exact_days_def\<close>)
  then show ?thesis using e p by (simp add: n(1) h [unfolded n(1)] Let_def retention_setting_def get_config_def)
next
  case False
  then show ?thesis by (cases body) (auto simp: handle_retention_patch_def set_config_def)
qed

end
