(* ===== verification/Spec2Isabelle.thy ===== *)
theory Spec2Isabelle
  imports Loss Icmp LogRing AlertIncidents AlertSummary AlertSender Capacity SupervisorSync ProbeAccess Rollout CentralRemoval BandwidthSpacing BandwidthApi SelfUpdate CrossOrigin Rdns DaemonConfig UiSettings ReleaseApi
    SystemSettings AlertApi PathView ReadApi
begin

text \<open>
  \<^bold>\<open>hoptrail: a verification library.\<close> hoptrail traces the network path to a set of targets for ever: per hop it
  keeps loss, latency and address, it detects route changes, raises alerts, runs speed tests, and lets remote
  probes measure from other places and send what they see to one central. This library models the program's own
  logic in \<open>src/internal\<close> and \<open>src/cmd/hoptrail\<close> and proves what its parts promise. Every definition is named after
  the function, method or type it translates.

  \<^bold>\<open>How the parts work together.\<close> For each target a pipeline (discovery, pinger, reducer) probes over one shared
  ICMP prober. The reducer keeps the state of the path and hands samples and route changes to a sink. On the central
  the sink is the batched SQLite sink; on a remote probe it posts batches to the central and spills them to a buffer
  when the central is away. The central's supervisor keeps one pipeline per monitored target in step with a table, a
  heartbeat carries that set to the probes and update commands with it, and the ingest endpoint stores their batches
  beside the local rows. Over the stored rows run the alert engine, the retention worker, the reverse-DNS worker and
  the capacity monitor; the bandwidth runner measures beside them, and updates replace the binary of either role.

  \<^bold>\<open>Foundations.\<close>
  \<^item> \<open>Prelude\<close>: instants and durations in nanoseconds, addresses, shared lemmas. \<open>GoText\<close>: what the code uses of Go's
    \<open>strconv\<close> and \<open>strings\<close>, with the round trips.
  \<^item> \<open>History\<close>: the interface of a bounded history, a locale with the laws of a container that keeps the newest entries.
    The ring buffer, the log ring and the sample queue interpret it. \<open>ProbeEvents\<close>: the values that flow from probes to
    sinks (\<open>probe/events.go\<close>) and the interface of a sink, interpreted by both sinks.

  \<^bold>\<open>Probing\<close> (\<open>internal/analysis\<close>, \<open>internal/probe\<close>).
  \<^item> \<open>RingBuf\<close>, \<open>Routing\<close>, \<open>Loss\<close>: \<open>ringbuf.go\<close>, \<open>routing.go\<close>, \<open>loss.go\<close>. The ring refines the list of its newest entries;
    a route change is detected exactly on an unbroken run of sightings; loss is attributed by its persistence.
  \<^item> \<open>PathState\<close>: \<open>path.go\<close>, an array of 65 optional hops. The invariant of the path and the absence of panics.
  \<^item> \<open>Engine\<close>: \<open>engine.go\<close>, \<open>discovery.go\<close>, \<open>pinger.go\<close>: sweeps, ticks and the reducer over any list of events.
  \<^item> \<open>Icmp\<close>: \<open>icmp.go\<close> with its 16-bit numbers. Replies reach the probe that waits for them, in every interleaving.

  \<^bold>\<open>Delivery\<close> (\<open>internal/storage\<close>, \<open>internal/agent\<close>, \<open>internal/server/ingest.go\<close>).
  \<^item> \<open>Batched\<close>: \<open>storage/sink.go\<close>, one transaction per flush. What is lost is counted, and route changes are never lost.
  \<^item> \<open>Spill\<close>, \<open>AgentSink\<close>: \<open>agent/buffer.go\<close>, \<open>client.go\<close>, \<open>sink.go\<close>. The drain ends, oldest batch first; it is proved over
    a locale of delivery queues that the buffer interprets.
  \<^item> \<open>Ingest\<close>: the endpoint with its transaction, all or nothing, authorised, and exact to the microsecond.
  \<^item> \<open>Delivery\<close>: probe, lossy network and central as one step relation. Each batch is stored at most once.
  \<^item> \<open>AgentRunner\<close>, \<open>AgentTargets\<close>: \<open>agent/heartbeat.go\<close> and \<open>cmd/hoptrail/agent.go\<close>. No pipeline of a probe leaks,
    and after a heartbeat the probe works on the central's set.

  \<^bold>\<open>Monitoring on the central.\<close>
  \<^item> \<open>AlertConfig\<close>, \<open>AlertStore\<close>, \<open>AlertEngine\<close>: \<open>alert/config.go\<close>, \<open>storage/alerts.go\<close>, \<open>alert/engine.go\<close>; \<open>AlertLimits\<close>,
    \<open>AlertIncidents\<close>, \<open>AlertSummary\<close>: its rate limit, cooldown, sustain times and quiet-hours summary over every run of ticks,
    through a locale of what a tick keeps; \<open>AlertSender\<close>: \<open>alert/sender.go\<close>, every notification is settled; \<open>AlertApi\<close>:
    \<open>server/alerts.go\<close>, whose answers do not depend on the stored token.
  \<^item> \<open>Retention\<close>: \<open>retention/worker.go\<close> and the statements it runs. \<open>Capacity\<close>: \<open>capacity.go\<close> and the providers of \<open>main.go\<close>.
  \<^item> \<open>Rdns\<close>: \<open>rdns/resolver.go\<close>, \<open>storage/rdns.go\<close>. What the watermark of the scan skips has been looked up, unless the
    newest rows were deleted. \<open>LogRing\<close>: \<open>logring.go\<close> and the feed of the log viewer.
  \<^item> \<open>Bandwidth\<close>, \<open>BandwidthSchedule\<close>, \<open>BandwidthRunner\<close>, \<open>BandwidthSpacing\<close>, \<open>BandwidthApi\<close>: configuration, clock arithmetic
    across changes of the clock, the scheduler as a step relation, its spacing, and its endpoints.

  \<^bold>\<open>Control.\<close>
  \<^item> \<open>TargetStore\<close>, \<open>TargetTables\<close>: the tables behind the tab bar and their consistency. \<open>Supervisor\<close>, \<open>SupervisorSync\<close>:
    \<open>cmd/hoptrail/supervisor.go\<close>, a restart brings back what ran.
  \<^item> \<open>CentralApi\<close>, \<open>CentralTabs\<close>, \<open>CentralRemoval\<close>: the operator's endpoints of \<open>server/handlers.go\<close>.
  \<^item> \<open>PathView\<close>, \<open>ReadApi\<close>: its reading endpoints. A path looks the same whichever probe measured it; samples, raw or one
    for each bucket, answer their window; the export; the retention setting.
  \<^item> \<open>ProbeFleet\<close>, \<open>ProbeUpdates\<close>, \<open>ProbeAccess\<close>, \<open>Rollout\<close>: registered probes, tokens, update commands and rollouts
    (\<open>storage/probes.go\<close>, \<open>tokens.go\<close>, \<open>probeupdates.go\<close>, \<open>server/probetokens.go\<close>, \<open>probeupdate.go\<close>). The locales \<open>fleet_frame\<close>,
    \<open>agent_frame\<close>, \<open>forget_frame\<close> and \<open>operator_frame\<close> carry a relation between tables through every endpoint; each
    property interprets them with its own relation.
  \<^item> \<open>ReleaseVer\<close>, \<open>ReleaseFetch\<close>, \<open>SelfUpdate\<close>, \<open>ReleaseApi\<close>: \<open>internal/release\<close>, \<open>server/update.go\<close>, \<open>release.go\<close> and
    \<open>agent/updater.go\<close>. Only binaries with an origin run, on the central and on the probes.
  \<^item> \<open>CrossOrigin\<close>: \<open>server/csrf.go\<close>. \<open>DaemonConfig\<close>: \<open>internal/config\<close>. \<open>UiSettings\<close>: \<open>server/layout.go\<close>, \<open>sound.go\<close>.
    \<open>SystemSettings\<close>: \<open>server/system.go\<close> and the overrides of \<open>main.go\<close>; a restart brings what the panel shows.

  \<^bold>\<open>Conventions.\<close> A struct is a record, an error a value of a sum or option type. A table is the list of its rows or
  a map by its key; statements inside a transaction act on a copy. Which statement, system call or exchange fails is
  always an argument, so the theorems hold for every pattern of failures they do not exclude. Handlers and methods
  that hold a mutex run as one step; where the code releases it, the stages are steps of their own (a removal in the
  supervisor, the prober, the flush of a sink, a rollout, a test of the bandwidth runner). The order of a Go map is
  an argument. A \<open>float64\<close> is a rational with rounding as a parameter. Integers have their width where they can wrap:
  sequence numbers of the prober, the sequence of the log feed, the cutoff of the retention, the span of an export. Other integers are
  mathematical.

  \<^bold>\<open>Parameters.\<close> SQLite, HTTP, DNS, SHA-256, JSON, YAML, gzip and tar, the file system, sudo and the clock are parameters
  or inputs; what the code relies on is a hypothesis of the theorem that needs it, and its witness instantiates it.

  \<^bold>\<open>Loops.\<close> Recursion is structural, or ends by a measure: the batched \<open>DELETE\<close> by the rows that are left, the days the
  scheduler looks at by their number. The drain of the spill buffer asks the central each time round and has fuel: any
  fuel above the number of batches gives a result, which is part of its property. Loops that run for ever are lists
  of the events they react to, or step relations.

  \<^bold>\<open>What modelling showed.\<close> Some theorems state the code's edge as it is: a failed lookup ends the interval schedule
  of the speed tests, row numbers that come back into use hide addresses from the reverse-DNS worker, a rolled back
  binary has lost its capability, validation accepts intervals the supervisor refuses, closing the last tab leaves
  incidents behind, and the guard of the export wraps around.

  \<^bold>\<open>Not modelled.\<close> Command line, signals and wiring (\<open>main.go\<close> apart from the alert providers and the overrides);
  routing, logging and encoding of HTTP; the page, its files and the documentation; the status page, which reports
  values of the system and of the other parts; the schema, migrations and connection pool of SQLite. They keep no
  state of their own or only pass it on.
\<close>

end
